(* ===== verification/Prelude.thy ===== *)
theory Prelude
  imports Main "HOL-Library.AList" "HOL-Library.List_Lexorder" "HOL-Library.Char_ord"
begin

text \<open>
  Shared types, Python library operations and generic lemmas.

  A Python \<open>str\<close> is a HOL \<open>string\<close> (a list of \<open>char\<close>, compared lexicographically as Python
  compares code points); \<open>bytes\<close> are lists of \<open>char\<close> as well, since a HOL character is one
  byte. A \<open>dict\<close> that the code iterates over is an association list in insertion order,
  updated by \<open>AList.update\<close> (which keeps the position of an existing key, as Python does)
  and \<open>AList.delete\<close>. Python integers are \<open>int\<close>, time stamps are \<open>int\<close> ticks.
\<close>

type_synonym bytes = "char list"

type_synonym ('k, 'v) dict = "('k \<times> 'v) list"

abbreviation keys_of :: "('k, 'v) dict \<Rightarrow> 'k list" where
  "keys_of d \<equiv> map fst d"

named_theorems dict_simps \<open>rewrite rules for insertion-ordered dictionaries\<close>

subsection \<open>Insertion-ordered dictionaries\<close>

lemma map_of_update [simp, dict_simps]:
  "map_of (AList.update k v d) k' = (if k' = k then Some v else map_of d k')"
  by (simp add: update_conv')

lemma map_of_delete [simp, dict_simps]:
  "map_of (AList.delete k d) k' = (if k' = k then None else map_of d k')"
  by (simp add: delete_conv')

lemma keys_of_delete [simp]:
  "keys_of (AList.delete k d) = filter (\<lambda>k'. k' \<noteq> k) (keys_of d)"
  by (induction d) auto

lemma distinct_keys_delete [simp]:
  "distinct (keys_of d) \<Longrightarrow> distinct (keys_of (AList.delete k d))"
  by simp

lemma length_delete_le [simp]: "length (AList.delete k d) \<le> length d"
  by (simp add: AList.delete_eq)

lemma length_delete_present:
  "k \<in> set (keys_of d) \<Longrightarrow> length (AList.delete k d) < length d"
  unfolding AList.delete_eq by (auto intro!: length_filter_less)

lemma delete_notin [simp]:
  "k \<notin> set (keys_of d) \<Longrightarrow> AList.delete k d = d"
  by (induction d) auto

lemma map_of_eq_None_keys [dict_simps]:
  "map_of d k = None \<longleftrightarrow> k \<notin> set (keys_of d)"
  by (simp add: map_of_eq_None_iff)

lemma map_of_SomeD_key: "map_of d k = Some v \<Longrightarrow> k \<in> set (keys_of d)"
  by (metis map_of_eq_None_keys option.distinct(1))

lemma map_of_append_fresh [simp]:
  "k \<notin> set (keys_of d) \<Longrightarrow> map_of (d @ [(k, v)]) k = Some v"
  by (induction d) auto

lemma update_fresh: "k \<notin> set (keys_of d) \<Longrightarrow> AList.update k v d = d @ [(k, v)]"
  by (induction d) auto

lemma map_of_map_values: "map_of (map (\<lambda>(i, r). (i, f r)) d) i = map_option f (map_of d i)"
  by (induction d) auto

lemma keys_map_values: "map (fst \<circ> (\<lambda>(i, r). (i, f r))) d = keys_of d"
  by (induction d) auto

subsection \<open>Python string operations\<close>

text \<open>
  \<open>s.split(c)\<close> for a one-character separator, \<open>c.join(parts)\<close>, \<open>s.strip(c)\<close>,
  \<open>s.lstrip(c)\<close>, \<open>s.rstrip(c)\<close>, \<open>s.startswith(p)\<close> and \<open>s.replace(a, b)\<close> for characters.
\<close>

fun py_split :: "char \<Rightarrow> string \<Rightarrow> string list" where
  "py_split c [] = [[]]"
| "py_split c (x # xs) =
     (if x = c then [] # py_split c xs
      else (case py_split c xs of [] \<Rightarrow> [[x]] | p # ps \<Rightarrow> (x # p) # ps))"

fun py_join :: "string \<Rightarrow> string list \<Rightarrow> string" where
  "py_join sep [] = []"
| "py_join sep [p] = p"
| "py_join sep (p # q # ps) = p @ sep @ py_join sep (q # ps)"

definition py_lstrip :: "char \<Rightarrow> string \<Rightarrow> string" where
  "py_lstrip c s = dropWhile (\<lambda>x. x = c) s"

definition py_rstrip :: "char \<Rightarrow> string \<Rightarrow> string" where
  "py_rstrip c s = rev (dropWhile (\<lambda>x. x = c) (rev s))"

definition py_strip :: "char \<Rightarrow> string \<Rightarrow> string" where
  "py_strip c s = py_rstrip c (py_lstrip c s)"

fun py_startswith :: "string \<Rightarrow> string \<Rightarrow> bool" where
  "py_startswith s [] = True"
| "py_startswith [] (p # ps) = False"
| "py_startswith (x # xs) (p # ps) = (x = p \<and> py_startswith xs ps)"

definition py_endswith :: "string \<Rightarrow> string \<Rightarrow> bool" where
  "py_endswith s p = py_startswith (rev s) (rev p)"

definition py_replace_char :: "char \<Rightarrow> char \<Rightarrow> string \<Rightarrow> string" where
  "py_replace_char a b s = map (\<lambda>x. if x = a then b else x) s"

abbreviation slash :: char where
  "slash \<equiv> CHR ''/''"

abbreviation backslash :: char where
  "backslash \<equiv> CHR 0x5C"

lemma py_split_nonempty [simp]: "py_split c s \<noteq> []"
  by (induction s) (auto split: list.splits)

lemma py_split_no_sep: "p \<in> set (py_split c s) \<Longrightarrow> c \<notin> set p"
proof (induction s arbitrary: p)
  case (Cons x xs)
  then show ?case
    by (cases "py_split c xs") (auto split: if_splits)
qed simp

lemma py_split_chars: "p \<in> set (py_split c s) \<Longrightarrow> set p \<subseteq> set s"
proof (induction s arbitrary: p)
  case (Cons x xs)
  then show ?case
    by (cases "py_split c xs") (auto split: if_splits, blast+)
qed simp

lemma py_split_id: "c \<notin> set s \<Longrightarrow> py_split c s = [s]"
  by (induction s) auto

lemma py_split_append_sep:
  "c \<notin> set p \<Longrightarrow> py_split c (p @ c # s) = p # py_split c s"
  by (induction p) auto

lemma py_split_join:
  assumes "ps \<noteq> []" and "\<forall>p\<in>set ps. c \<notin> set p"
  shows "py_split c (py_join [c] ps) = ps"
  using assms
proof (induction "[c]" ps rule: py_join.induct)
  case (2 p)
  then show ?case by (simp add: py_split_id)
next
  case (3 p q ps)
  then show ?case by (simp add: py_split_append_sep)
qed simp

lemma py_join_char_Cons: "py_join sep ((x # p) # ps) = x # py_join sep (p # ps)"
  by (cases ps) auto

lemma py_join_split: "py_join [c] (py_split c s) = s"
proof (induction s)
  case (Cons x xs)
  obtain p ps where eq: "py_split c xs = p # ps"
    by (metis neq_Nil_conv py_split_nonempty)
  with Cons show ?case
    by (auto simp: py_join_char_Cons)
qed simp

lemma py_join_Cons: "ps \<noteq> [] \<Longrightarrow> py_join sep (p # ps) = p @ sep @ py_join sep ps"
  by (cases ps) auto

lemma set_py_join_subset: "set (py_join sep ps) \<subseteq> set sep \<union> \<Union> (set ` set ps)"
  by (induction sep ps rule: py_join.induct) auto

lemma py_join_eq_Nil: "ps \<noteq> [] \<Longrightarrow> [] \<notin> set ps \<Longrightarrow> py_join sep ps \<noteq> []"
  by (cases "(sep, ps)" rule: py_join.cases) auto

lemma py_join_append:
  "ps \<noteq> [] \<Longrightarrow> qs \<noteq> [] \<Longrightarrow> py_join sep (ps @ qs) = py_join sep ps @ sep @ py_join sep qs"
  by (induction sep ps rule: py_join.induct) (auto simp: py_join_Cons)

lemma hd_py_join: "p \<noteq> [] \<Longrightarrow> hd (py_join sep (p # ps)) = hd p"
  by (cases ps) auto

lemma last_py_join:
  "ps \<noteq> [] \<Longrightarrow> [] \<notin> set ps \<Longrightarrow> last (py_join sep ps) = last (last ps)"
  by (induction sep ps rule: py_join.induct) (auto simp: py_join_eq_Nil)

lemma py_startswith_iff: "py_startswith s p \<longleftrightarrow> (\<exists>r. s = p @ r)"
proof (induction s p rule: py_startswith.induct)
  case (3 x xs p ps)
  then show ?case by auto
qed auto

lemma py_startswith_append [simp]: "py_startswith (p @ r) p"
  by (auto simp: py_startswith_iff)

lemma py_startswith_take: "py_startswith s p \<longleftrightarrow> take (length p) s = p"
  by (auto simp: py_startswith_iff) (metis append_take_drop_id)

lemma py_endswith_iff: "py_endswith s p \<longleftrightarrow> (\<exists>r. s = r @ p)"
proof -
  have "(\<exists>r. rev s = rev p @ r) \<longleftrightarrow> (\<exists>r. s = r @ p)"
    by (metis rev_append rev_rev_ident)
  then show ?thesis by (simp add: py_endswith_def py_startswith_iff)
qed

lemma py_lstrip_noop: "s = [] \<or> hd s \<noteq> c \<Longrightarrow> py_lstrip c s = s"
  by (cases s) (auto simp: py_lstrip_def)

lemma py_rstrip_noop: "s = [] \<or> last s \<noteq> c \<Longrightarrow> py_rstrip c s = s"
  by (cases s rule: rev_cases) (auto simp: py_rstrip_def)

lemma py_strip_noop:
  "s = [] \<or> hd s \<noteq> c \<Longrightarrow> s = [] \<or> last s \<noteq> c \<Longrightarrow> py_strip c s = s"
  by (simp add: py_strip_def py_lstrip_noop py_rstrip_noop)

lemma set_py_strip_subset: "set (py_strip c s) \<subseteq> set s"
  by (auto simp: py_strip_def py_rstrip_def py_lstrip_def dest!: set_dropWhileD)

lemma py_replace_char_noop [simp]: "a \<notin> set s \<Longrightarrow> py_replace_char a b s = s"
  by (induction s) (auto simp: py_replace_char_def)

lemma py_replace_char_gone: "a \<noteq> b \<Longrightarrow> a \<notin> set (py_replace_char a b s)"
  by (auto simp: py_replace_char_def split: if_splits)

lemmas py_string_defs =
  py_strip_def py_lstrip_def py_rstrip_def py_replace_char_def py_endswith_def

subsection \<open>Python slices\<close>

text \<open>\<open>xs[i:j]\<close> with Python's treatment of negative and out-of-range bounds.\<close>

definition py_index :: "'a list \<Rightarrow> int \<Rightarrow> nat" where
  "py_index xs i =
     (let n = int (length xs) in nat (min n (if i < 0 then max 0 (n + i) else i)))"

definition py_slice :: "'a list \<Rightarrow> int \<Rightarrow> int \<Rightarrow> 'a list" where
  "py_slice xs i j = take (py_index xs j - py_index xs i) (drop (py_index xs i) xs)"

lemma py_index_nat: "0 \<le> i \<Longrightarrow> py_index xs i = min (length xs) (nat i)"
  by (auto simp: py_index_def Let_def nat_eq_iff min_def)

lemma py_slice_nat:
  "0 \<le> i \<Longrightarrow> 0 \<le> j \<Longrightarrow> py_slice xs i j = take (nat j - nat i) (drop (nat i) xs)"
  by (cases "nat i \<le> length xs"; cases "nat j \<le> length xs")
     (auto simp: py_slice_def py_index_nat min_def)

subsection \<open>Substring replacement\<close>

text \<open>
  \<open>s.replace(old, new)\<close>: the leftmost non-overlapping occurrences are replaced; an empty pattern
  occurs before every character and at the end.
\<close>

function py_replace_from :: "string \<Rightarrow> string \<Rightarrow> string \<Rightarrow> string" where
  "py_replace_from old new [] = []"
| "py_replace_from old new (x # xs) =
     (if old \<noteq> [] \<and> py_startswith (x # xs) old then new @ py_replace_from old new (drop (length old) (x # xs))
      else x # py_replace_from old new xs)"
  by pat_completeness auto
termination
  by (relation "measure (\<lambda>(_, _, s). length s)") auto

definition py_replace :: "string \<Rightarrow> string \<Rightarrow> string \<Rightarrow> string" where
  "py_replace old new s =
     (if old = [] then new @ concat (map (\<lambda>x. x # new) s) else py_replace_from old new s)"

definition occurs_in :: "string \<Rightarrow> string \<Rightarrow> bool" where
  "occurs_in p s \<longleftrightarrow> (\<exists>a b. s = a @ p @ b)"

lemma occurs_in_simps:
  "occurs_in p [] \<longleftrightarrow> p = []"
  "occurs_in p (x # xs) \<longleftrightarrow> py_startswith (x # xs) p \<or> occurs_in p xs"
proof -
  show "occurs_in p (x # xs) \<longleftrightarrow> py_startswith (x # xs) p \<or> occurs_in p xs"
  proof
    assume "occurs_in p (x # xs)"
    then obtain a b where "x # xs = a @ p @ b" by (auto simp: occurs_in_def)
    then show "py_startswith (x # xs) p \<or> occurs_in p xs"
      by (cases a) (auto simp: occurs_in_def py_startswith_iff)
  next
    assume "py_startswith (x # xs) p \<or> occurs_in p xs"
    then show "occurs_in p (x # xs)"
      unfolding occurs_in_def py_startswith_iff by (metis append_Cons append_Nil)
  qed
qed (auto simp: occurs_in_def)

lemma occurs_in_drop: "occurs_in p (drop n s) \<Longrightarrow> occurs_in p s"
  unfolding occurs_in_def by (metis append_assoc append_take_drop_id)

lemma occurs_in_take: "occurs_in p (take n s) \<Longrightarrow> occurs_in p s"
  unfolding occurs_in_def by (metis append_assoc append_take_drop_id)

text \<open>A pattern that shares no character with the inserted text lies in the kept parts.\<close>

lemma occurs_in_append_disjoint:
  assumes "occurs_in p (new @ s)" and "p \<noteq> []" and "set p \<inter> set new = {}"
  shows "occurs_in p s"
  using assms
proof (induction new)
  case (Cons x new)
  have "\<not> py_startswith (x # new @ s) p" using Cons.prems by (cases p) auto
  then show ?case using Cons by (simp add: occurs_in_simps(2))
qed simp

lemma replace_startswith:
  assumes "py_startswith (py_replace_from old new s) p" and "set p \<inter> set new = {}" and "new \<noteq> []"
  shows "py_startswith s p"
  using assms
proof (induction old new s arbitrary: p rule: py_replace_from.induct)
  case (2 old new x xs)
  show ?case
  proof (cases p)
    case (Cons y q)
    show ?thesis
    proof (cases "old \<noteq> [] \<and> py_startswith (x # xs) old")
      case True
      then show ?thesis using "2.prems" Cons by (cases new) auto
    next
      case False
      then show ?thesis using 2 Cons by auto
    qed
  qed simp
qed simp

lemma occurs_in_replace:
  assumes "occurs_in p (py_replace_from old new s)" and "p \<noteq> []" and "set p \<inter> set new = {}" and "new \<noteq> []"
  shows "occurs_in p s"
  using assms
proof (induction old new s rule: py_replace_from.induct)
  case (2 old new x xs)
  show ?case
  proof (cases "old \<noteq> [] \<and> py_startswith (x # xs) old")
    case True
    then have "occurs_in p (py_replace_from old new (drop (length old) (x # xs)))"
      using 2 occurs_in_append_disjoint [of p new] by simp
    then show ?thesis using "2.IH"(1) True "2.prems" occurs_in_drop by blast
  next
    case False
    then have "py_startswith (py_replace_from old new (x # xs)) p \<or> occurs_in p (py_replace_from old new xs)"
      using "2.prems"(1) occurs_in_simps(2) [of p x "py_replace_from old new xs"] by auto
    then show ?thesis
      using replace_startswith [OF _ "2.prems"(3,4)] "2.IH"(2) False "2.prems" occurs_in_simps(2) by blast
  qed
qed simp

lemma replaced_gone:
  assumes "old \<noteq> []" and "set old \<inter> set new = {}" and "new \<noteq> []"
  shows "\<not> occurs_in old (py_replace_from old new s)"
  using assms
proof (induction old new s rule: py_replace_from.induct)
  case (2 old new x xs)
  show ?case
  proof (cases "py_startswith (x # xs) old")
    case True
    then show ?thesis using 2 occurs_in_append_disjoint [of old new] by auto
  next
    case False
    then have "\<not> py_startswith (py_replace_from old new (x # xs)) old"
      using replace_startswith "2.prems" by blast
    then show ?thesis
      using False "2.IH"(2) "2.prems" occurs_in_simps(2) [of old x "py_replace_from old new xs"] by auto
  qed
qed (simp add: occurs_in_simps)

subsection \<open>Decimal notation\<close>

text \<open>\<open>str(i)\<close> of an integer.\<close>

fun nat_digits :: "nat \<Rightarrow> string" where
  "nat_digits n = (if n < 10 then [] else nat_digits (n div 10)) @ [char_of (48 + n mod 10)]"

declare nat_digits.simps [simp del]

definition py_str_int :: "int \<Rightarrow> string" where
  "py_str_int i = (if i < 0 then ''-'' @ nat_digits (nat (- i)) else nat_digits (nat i))"

lemma nat_digits_value:
  "foldl (\<lambda>a c. 10 * a + (of_char c - 48)) 0 (nat_digits n) = n \<and> set (nat_digits n) \<subseteq> set ''0123456789''"
proof (induction n rule: nat_digits.induct)
  case (1 n)
  have digit: "of_char (char_of (48 + n mod 10) :: char) = 48 + n mod 10"
    by (simp add: of_char_of)
  have mem: "char_of (48 + m) \<in> set ''0123456789''" if "m < 10" for m :: nat
  proof -
    have "m \<in> set [0..<10]" using that by simp
    moreover have "list_all (\<lambda>m. char_of (48 + m :: nat) \<in> set ''0123456789'') [0..<10]" by code_simp
    ultimately show ?thesis by (simp add: list_all_iff)
  qed
  show ?case
  proof (cases "n < 10")
    case True
    then show ?thesis using digit mem [of "n mod 10"] by (simp add: nat_digits.simps [of n])
  next
    case False
    then show ?thesis
      using 1 digit mem [of "n mod 10"] by (subst (1 2) nat_digits.simps) auto
  qed
qed

lemma py_str_int_inj: "py_str_int i = py_str_int j \<Longrightarrow> i = j"
proof -
  assume eq: "py_str_int i = py_str_int j"
  have inj: "nat_digits m = nat_digits n \<Longrightarrow> m = n" for m n using nat_digits_value by metis
  have head: "hd (nat_digits n) \<noteq> CHR ''-'' \<and> nat_digits n \<noteq> []" for n
    using nat_digits_value [of n] list.set_sel(1) [of "nat_digits n"] nat_digits.simps [of n] by fastforce
  have sign: "CHR ''-'' # s \<noteq> nat_digits n" for s n using head [of n] by (metis list.sel(1))
  show "i = j"
    using eq sign sign [symmetric] by (auto simp: py_str_int_def split: if_splits dest!: inj)
qed

definition is_space :: "char \<Rightarrow> bool" where
  "is_space c \<longleftrightarrow> c \<in> set [CHR '' '', CHR 0x09, CHR 0x0A, CHR 0x0B, CHR 0x0C, CHR 0x0D,
     CHR 0x1C, CHR 0x1D, CHR 0x1E, CHR 0x1F]"

definition py_strip_space :: "string \<Rightarrow> string" where
  "py_strip_space s = rev (dropWhile is_space (rev (dropWhile is_space s)))"

lemma py_strip_space_Nil [simp]: "py_strip_space [] = []"
  by (simp add: py_strip_space_def)

lemma dropWhile_twice: "dropWhile P (dropWhile P xs) = dropWhile P xs"
  by (induction xs) simp_all

lemma py_strip_space_idem [simp]: "py_strip_space (py_strip_space s) = py_strip_space s"
proof -
  define xs where "xs = dropWhile is_space s"
  define ys where "ys = rev (dropWhile is_space (rev xs))"
  have "xs = ys @ rev (takeWhile is_space (rev xs))"
    unfolding ys_def by (metis rev_append rev_rev_ident takeWhile_dropWhile_id)
  then have "dropWhile is_space ys = ys"
    unfolding xs_def by (metis append_Cons dropWhile_eq_Cons_conv dropWhile_eq_self_iff hd_dropWhile list.sel(1) neq_Nil_conv)
  then show ?thesis by (simp add: py_strip_space_def xs_def [symmetric] ys_def [symmetric]) (simp add: ys_def dropWhile_twice)
qed

text \<open>\<open>int(s)\<close> of a string: surrounding white space, a sign, digits with single underscores between them.\<close>

definition digit_value :: "char \<Rightarrow> nat option" where
  "digit_value c = (let v = of_char c :: nat in if 48 \<le> v \<and> v \<le> 57 then Some (v - 48) else None)"

fun int_body :: "nat \<Rightarrow> bool \<Rightarrow> string \<Rightarrow> nat option" where
  "int_body acc after_digit [] = (if after_digit then Some acc else None)"
| "int_body acc after_digit (c # cs) =
     (case digit_value c of
        Some v \<Rightarrow> int_body (10 * acc + v) True cs
      | None \<Rightarrow> if c = CHR ''_'' \<and> after_digit \<and> cs \<noteq> [] then int_body acc False cs else None)"

definition py_int_of :: "string \<Rightarrow> int option" where
  "py_int_of s =
     (case py_strip_space s of
        [] \<Rightarrow> None
      | c # cs \<Rightarrow>
          if c = CHR ''-'' then map_option (\<lambda>n. - int n) (int_body 0 False cs)
          else if c = CHR ''+'' then map_option int (int_body 0 False cs)
          else map_option int (int_body 0 False (c # cs)))"

lemma digit_value_digits: "c \<in> set ''0123456789'' \<Longrightarrow> digit_value c = Some (of_char c - 48)"
  by (auto simp: digit_value_def Let_def)

lemma int_body_digits:
  assumes "set s \<subseteq> set ''0123456789''"
  shows "int_body acc d s = (if s = [] \<and> \<not> d then None
    else Some (foldl (\<lambda>a c. 10 * a + (of_char c - 48)) acc s))"
  using assms
proof (induction s arbitrary: acc d)
  case (Cons c s)
  have c: "c \<in> set ''0123456789'' \<and> set s \<subseteq> set ''0123456789''"
    using Cons.prems by (subst (asm) (1) list.set(2)) (rule insert_subset [THEN iffD1])
  then show ?case using Cons.IH digit_value_digits [OF conjunct1 [OF c]] by simp
qed simp

lemma not_space_digits: "is_space c \<Longrightarrow> c \<notin> set ''-0123456789''"
  by (auto simp: is_space_def)

lemma py_strip_space_digits:
  assumes "set s \<subseteq> set ''-0123456789''"
  shows "py_strip_space s = s"
proof -
  have keep: "dropWhile P xs = xs" if "\<forall>x\<in>set xs. \<not> P x" for P and xs :: string
    using that by (cases xs) auto
  have "\<forall>x\<in>set s. \<not> is_space x" using not_space_digits assms by blast
  then show ?thesis using keep [of s is_space] keep [of "rev s" is_space] by (simp add: py_strip_space_def)
qed

lemma nat_digits_nonempty [simp]: "nat_digits n \<noteq> []"
  by (subst nat_digits.simps) simp

lemma py_int_of_str [simp]: "py_int_of (py_str_int i) = Some i"
proof -
  have body: "int_body 0 False (nat_digits n) = Some n" for n
    using nat_digits_value [of n] int_body_digits [of "nat_digits n" 0 False] by simp
  have "set ''0123456789'' \<subseteq> set ''-0123456789''" by simp
  then have "set (nat_digits n) \<subseteq> set ''-0123456789''" for n using nat_digits_value by (meson subset_trans)
  then have "set (py_str_int i) \<subseteq> set ''-0123456789''" by (simp add: py_str_int_def)
  then have strip: "py_strip_space (py_str_int i) = py_str_int i" by (rule py_strip_space_digits)
  obtain c cs where d: "nat_digits (nat i) = c # cs" by (metis nat_digits_nonempty neq_Nil_conv)
  then have "c \<in> set (nat_digits (nat i))" by simp
  then have "c \<in> set ''0123456789''" using nat_digits_value by blast
  then have "c \<noteq> CHR ''-''" "c \<noteq> CHR ''+''" by auto
  then show ?thesis
    using body [of "nat i"] body [of "nat (- i)"] d strip
    by (auto simp: py_int_of_def py_str_int_def)
qed

subsection \<open>Case folding\<close>

text \<open>\<open>s.casefold()\<close> and \<open>s.lower()\<close> of ASCII text.\<close>

definition lower_char :: "char \<Rightarrow> char" where
  "lower_char c =
     (if c \<in> set ''ABCDEFGHIJKLMNOPQRSTUVWXYZ'' then char_of (of_char c + 32 :: nat) else c)"

definition py_casefold :: "string \<Rightarrow> string" where
  "py_casefold s = map lower_char s"

subsection \<open>Hexadecimal notation\<close>

text \<open>\<open>b.hex()\<close> and \<open>bytes.fromhex(s)\<close>, which accepts both cases and white space between bytes.\<close>

definition hex_digit :: "nat \<Rightarrow> char" where
  "hex_digit v = ''0123456789abcdef'' ! v"

definition hex_value :: "char \<Rightarrow> nat option" where
  "hex_value c =
     (let v = of_char c :: nat in
      if 48 \<le> v \<and> v \<le> 57 then Some (v - 48)
      else if 97 \<le> v \<and> v \<le> 102 then Some (v - 87)
      else if 65 \<le> v \<and> v \<le> 70 then Some (v - 55)
      else None)"

definition py_hex :: "bytes \<Rightarrow> string" where
  "py_hex b = concat (map (\<lambda>c. let v = of_char c :: nat in [hex_digit (v div 16), hex_digit (v mod 16)]) b)"

fun py_fromhex :: "string \<Rightarrow> bytes option" where
  "py_fromhex [] = Some []"
| "py_fromhex (x # xs) =
     (if is_space x then py_fromhex xs
      else (case xs of
              [] \<Rightarrow> None
            | y # ys \<Rightarrow>
                (case (hex_value x, hex_value y) of
                   (Some a, Some b) \<Rightarrow> map_option (\<lambda>bs. char_of (16 * a + b) # bs) (py_fromhex ys)
                 | _ \<Rightarrow> None)))"

lemma hex_digit_value:
  assumes "v < 16"
  shows "hex_value (hex_digit v) = Some v \<and> \<not> is_space (hex_digit v)"
proof -
  have "v \<in> set [0..<16]" using assms by simp
  moreover have "list_all (\<lambda>v. hex_value (hex_digit v) = Some v \<and> \<not> is_space (hex_digit v)) [0..<16]" by code_simp
  ultimately show ?thesis by (simp add: list_all_iff)
qed

lemma py_fromhex_hex [simp]: "py_fromhex (py_hex b) = Some b"
proof (induction b)
  case (Cons c b)
  define v where "v = (of_char c :: nat)"
  have "v < 256" unfolding v_def by (rule nat_of_char_less_256)
  then have "v div 16 < 16" "v mod 16 < 16" by auto
  moreover have "char_of (16 * (v div 16) + v mod 16) = c" by (simp add: v_def)
  ultimately show ?case using Cons hex_digit_value by (simp add: py_hex_def v_def [symmetric] Let_def)
qed (simp add: py_hex_def)


subsection \<open>Partition and first occurrences\<close>

text \<open>\<open>s.partition(c)\<close>, whose middle component says whether the separator was found, and \<open>list(dict.fromkeys(xs))\<close>.\<close>

fun py_partition :: "char \<Rightarrow> string \<Rightarrow> string \<times> bool \<times> string" where
  "py_partition c [] = ([], False, [])"
| "py_partition c (x # xs) =
     (if x = c then ([], True, xs) else case py_partition c xs of (a, f, b) \<Rightarrow> (x # a, f, b))"

definition first_occurrences :: "'a list \<Rightarrow> 'a list" where
  "first_occurrences xs = rev (remdups (rev xs))"

lemma first_occurrences_set [simp]: "set (first_occurrences xs) = set xs" "distinct (first_occurrences xs)"
  by (simp_all add: first_occurrences_def)

section \<open>Results with errors\<close>

definition sbind :: "'e + 'a \<Rightarrow> ('a \<Rightarrow> 'e + 'b) \<Rightarrow> 'e + 'b" where
  "sbind m f = (case m of Inl e \<Rightarrow> Inl e | Inr x \<Rightarrow> f x)"

definition ensure :: "bool \<Rightarrow> 'e \<Rightarrow> 'e + unit" where
  "ensure b e = (if b then Inr () else Inl e)"

fun straverse :: "('a \<Rightarrow> 'e + 'b) \<Rightarrow> 'a list \<Rightarrow> 'e + 'b list" where
  "straverse f [] = Inr []"
| "straverse f (x # xs) = sbind (f x) (\<lambda>y. sbind (straverse f xs) (\<lambda>ys. Inr (y # ys)))"

fun sfold :: "('a \<Rightarrow> 's \<Rightarrow> 'e + 's) \<Rightarrow> 'a list \<Rightarrow> 's \<Rightarrow> 'e + 's" where
  "sfold f [] s = Inr s"
| "sfold f (x # xs) s = sbind (f x s) (sfold f xs)"

named_theorems result_simps \<open>successful results of the combinators\<close>

lemma sbind_Inr [result_simps]: "sbind m f = Inr y \<longleftrightarrow> (\<exists>x. m = Inr x \<and> f x = Inr y)"
  by (cases m) (simp_all add: sbind_def)

lemma sbind_simps [simp]: "sbind (Inl e) f = Inl e" "sbind (Inr x) f = f x"
  by (simp_all add: sbind_def)

lemma ensure_Inr [result_simps]: "ensure b e = Inr u \<longleftrightarrow> b"
  by (simp add: ensure_def)

lemma straverse_Inr [result_simps]: "straverse f xs = Inr ys \<longleftrightarrow> list_all2 (\<lambda>x y. f x = Inr y) xs ys"
  by (induction xs arbitrary: ys) (auto simp: sbind_Inr list_all2_Cons1)

lemma straverse_unit_Inr: "straverse f xs = Inr ys \<Longrightarrow> x \<in> set xs \<Longrightarrow> \<exists>y. f x = Inr y"
  by (auto simp: straverse_Inr list_all2_conv_all_nth in_set_conv_nth)

lemma sfold_invariant:
  assumes "sfold f xs s = Inr t" and "I s" and "\<And>x s t. x \<in> set xs \<Longrightarrow> I s \<Longrightarrow> f x s = Inr t \<Longrightarrow> I t"
  shows "I t"
  using assms
proof (induction xs arbitrary: s)
  case (Cons x xs)
  then obtain s1 where s1: "f x s = Inr s1" "sfold f xs s1 = Inr t" by (auto simp: sbind_Inr)
  have "I s1" using Cons.prems(3) [OF _ Cons.prems(2) s1(1)] by simp
  then show ?case by (rule Cons.IH [OF s1(2)]) (rule Cons.prems(3), simp_all)
qed simp

end
