(* ===== verification/Artifact_Store.thy ===== *)
theory Artifact_Store
  imports Prelude
begin

text \<open>
  The durable object layer (\<open>runtime/artifact_store.py\<close>): key validation, ranged reads, the
  in-process \<open>MemoryStore\<close> with its conditional operations (compare-and-swap, fenced and
  guarded writes), the default streaming operations of \<open>ArtifactStore\<close>, and the path
  resolution and chunked reader of \<open>LocalDirStore\<close>.

  A store maps normalized keys to contents. Operations that only move contents around are
  polymorphic in the content type: byte objects are \<open>bytes\<close>, and the control-plane theories
  store decoded JSON documents. Every operation returns its result (an error is a raised
  exception) together with the store after the call. The fenced operations decode the fence
  object as JSON; the decoder is the argument \<open>view\<close>, where \<open>None\<close> stands for the decoding
  errors the code catches. The wall clock is the argument \<open>now\<close> in milliseconds, and
  \<open>hashlib.sha256(...).hexdigest()\<close> is the argument \<open>sha\<close>.
\<close>

datatype store_error =
    ValueError
  | ObjectNotFound string
  | ObjectConflict

record object_stat =
  st_key :: string
  st_size :: nat

type_synonym 'b store = "(string, 'b) dict"

type_synonym ('a, 'b) outcome = "(store_error + 'a) \<times> 'b store"

section \<open>Keys and slices\<close>

fun keep_segments :: "string list \<Rightarrow> store_error + string list" where
  "keep_segments [] = Inr []"
| "keep_segments (seg # segs) =
     (if seg = [] \<or> seg = ''.'' then keep_segments segs
      else if seg = ''..'' then Inl ValueError
      else (case keep_segments segs of Inl e \<Rightarrow> Inl e | Inr parts \<Rightarrow> Inr (seg # parts)))"

definition normalize_key :: "string \<Rightarrow> store_error + string" where
  "normalize_key key =
     (if key = [] then Inl ValueError
      else let k = py_strip slash (py_replace_char backslash slash key) in
        if k = [] then Inl ValueError
        else (case keep_segments (py_split slash k) of
                Inl e \<Rightarrow> Inl e
              | Inr parts \<Rightarrow>
                  if parts = [] then Inl ValueError else Inr (py_join ''/'' parts)))"

definition slice_bytes :: "bytes \<Rightarrow> int \<Rightarrow> int option \<Rightarrow> store_error + bytes" where
  "slice_bytes data offset len =
     (if offset < 0 then Inl ValueError
      else if offset = 0 \<and> len = None then Inr data
      else let stop = (case len of None \<Rightarrow> int (length data) | Some n \<Rightarrow> offset + n) in
        Inr (py_slice data offset stop))"

section \<open>MemoryStore\<close>

definition put :: "string \<Rightarrow> 'b \<Rightarrow> 'b store \<Rightarrow> (string, 'b) outcome" where
  "put key data s =
     (case normalize_key key of
        Inl e \<Rightarrow> (Inl e, s)
      | Inr k \<Rightarrow> (Inr k, AList.update k data s))"

definition get_object :: "string \<Rightarrow> 'b store \<Rightarrow> store_error + 'b" where
  "get_object key s =
     (case normalize_key key of
        Inl e \<Rightarrow> Inl e
      | Inr k \<Rightarrow> (case map_of s k of None \<Rightarrow> Inl (ObjectNotFound k) | Some b \<Rightarrow> Inr b))"

definition get_range :: "string \<Rightarrow> int \<Rightarrow> int option \<Rightarrow> bytes store \<Rightarrow> store_error + bytes" where
  "get_range key offset len s =
     (case get_object key s of Inl e \<Rightarrow> Inl e | Inr b \<Rightarrow> slice_bytes b offset len)"

definition head :: "string \<Rightarrow> bytes store \<Rightarrow> store_error + object_stat option" where
  "head key s =
     (case normalize_key key of
        Inl e \<Rightarrow> Inl e
      | Inr k \<Rightarrow>
          Inr (case map_of s k of
                 None \<Rightarrow> None
               | Some b \<Rightarrow> Some \<lparr>st_key = k, st_size = length b\<rparr>))"

definition verify ::
  "(bytes \<Rightarrow> string) \<Rightarrow> string \<Rightarrow> int \<Rightarrow> string \<Rightarrow> bytes store \<Rightarrow> store_error + bool" where
  "verify sha key sz content_hash s =
     (case normalize_key key of
        Inl e \<Rightarrow> Inl e
      | Inr k \<Rightarrow>
          Inr (case map_of s k of
                 None \<Rightarrow> False
               | Some data \<Rightarrow> int (length data) = sz \<and> sha data = content_hash))"

definition exists_object :: "string \<Rightarrow> 'b store \<Rightarrow> store_error + bool" where
  "exists_object key s =
     (case normalize_key key of
        Inl e \<Rightarrow> Inl e
      | Inr k \<Rightarrow> Inr (k \<in> set (keys_of s)))"

definition list_prefix :: "string \<Rightarrow> string" where
  "list_prefix prefix = py_lstrip slash (py_replace_char backslash slash prefix)"

definition list_keys :: "string \<Rightarrow> 'b store \<Rightarrow> string list" where
  "list_keys prefix s =
     sort (filter (\<lambda>k. py_startswith k (list_prefix prefix)) (keys_of s))"

definition list_objects :: "string \<Rightarrow> bytes store \<Rightarrow> object_stat list" where
  "list_objects prefix s =
     sort_key st_key
       (map (\<lambda>(k, v). \<lparr>st_key = k, st_size = length v\<rparr>)
          (filter (\<lambda>(k, v). py_startswith k (list_prefix prefix)) s))"

definition delete_object :: "string \<Rightarrow> 'b store \<Rightarrow> (bool, 'b) outcome" where
  "delete_object key s =
     (case normalize_key key of
        Inl e \<Rightarrow> (Inl e, s)
      | Inr k \<Rightarrow> (Inr (k \<in> set (keys_of s)), AList.delete k s))"

definition compare_and_swap ::
  "string \<Rightarrow> 'b option \<Rightarrow> 'b \<Rightarrow> 'b store \<Rightarrow> (bool, 'b) outcome" where
  "compare_and_swap key expected data s =
     (case normalize_key key of
        Inl e \<Rightarrow> (Inl e, s)
      | Inr k \<Rightarrow>
          if map_of s k \<noteq> expected then (Inr False, s)
          else (Inr True, AList.update k data s))"

text \<open>
  The fields of a lease or generation-coordinator document that \<open>_fence_matches\<close> reads; a
  field is \<open>None\<close> when the key is absent from the JSON object.
\<close>

record fence_doc =
  fd_owner_id :: "string option"
  fd_generation_id :: "string option"
  fd_fence :: "int option"
  fd_renew_ms :: "int option"
  fd_ttl_ms :: "int option"
  fd_expires_at_ms :: "int option"

abbreviation with_default :: "'a option \<Rightarrow> 'a \<Rightarrow> 'a" where
  "with_default v d \<equiv> (case v of None \<Rightarrow> d | Some x \<Rightarrow> x)"

definition fence_live :: "int \<Rightarrow> fence_doc \<Rightarrow> bool" where
  "fence_live now r =
     (let renew_ms = with_default (fd_renew_ms r) 0;
          ttl_ms = with_default (fd_ttl_ms r) 0;
          expires_at_ms = with_default (fd_expires_at_ms r) 0
      in if renew_ms > 0 then renew_ms > 0 \<and> now - renew_ms \<le> ttl_ms
         else expires_at_ms > now)"

definition fence_matches ::
  "('b \<Rightarrow> fence_doc option) \<Rightarrow> int \<Rightarrow> string \<Rightarrow> string \<Rightarrow> int \<Rightarrow> 'b store \<Rightarrow> store_error + bool"
where
  "fence_matches view now fence_key owner_id fence s =
     (case normalize_key fence_key of
        Inl e \<Rightarrow> Inl e
      | Inr k \<Rightarrow>
          Inr (case map_of s k of
                 None \<Rightarrow> False
               | Some raw \<Rightarrow>
                   (case view raw of
                      None \<Rightarrow> False
                    | Some r \<Rightarrow>
                        (case fd_owner_id r of None \<Rightarrow> fd_generation_id r | Some x \<Rightarrow> Some x)
                          = Some owner_id
                        \<and> with_default (fd_fence r) (-1) = fence
                        \<and> fence_live now r)))"

definition fenced_put ::
  "('b \<Rightarrow> fence_doc option) \<Rightarrow> int \<Rightarrow> string \<Rightarrow> string \<Rightarrow> int \<Rightarrow> string \<Rightarrow> 'b \<Rightarrow> 'b store
    \<Rightarrow> (bool, 'b) outcome" where
  "fenced_put view now fence_key owner_id fence key data s =
     (case fence_matches view now fence_key owner_id fence s of
        Inl e \<Rightarrow> (Inl e, s)
      | Inr False \<Rightarrow> (Inr False, s)
      | Inr True \<Rightarrow>
          (case put key data s of
             (Inl e, s') \<Rightarrow> (Inl e, s')
           | (Inr _, s') \<Rightarrow> (Inr True, s')))"

definition fenced_delete ::
  "('b \<Rightarrow> fence_doc option) \<Rightarrow> int \<Rightarrow> string \<Rightarrow> string \<Rightarrow> int \<Rightarrow> string \<Rightarrow> 'b store
    \<Rightarrow> (bool option, 'b) outcome" where
  "fenced_delete view now fence_key owner_id fence key s =
     (case fence_matches view now fence_key owner_id fence s of
        Inl e \<Rightarrow> (Inl e, s)
      | Inr False \<Rightarrow> (Inr None, s)
      | Inr True \<Rightarrow>
          (case delete_object key s of
             (Inl e, s') \<Rightarrow> (Inl e, s')
           | (Inr b, s') \<Rightarrow> (Inr (Some b), s')))"

fun put_all :: "(string \<times> 'b) list \<Rightarrow> 'b store \<Rightarrow> (bool, 'b) outcome" where
  "put_all [] s = (Inr True, s)"
| "put_all ((key, data) # vals) s =
     (case put key data s of
        (Inl e, s') \<Rightarrow> (Inl e, s')
      | (Inr _, s') \<Rightarrow> put_all vals s')"

definition guarded_put_batch ::
  "string \<Rightarrow> 'b \<Rightarrow> (string \<times> 'b) list \<Rightarrow> 'b store \<Rightarrow> (bool, 'b) outcome" where
  "guarded_put_batch guard_key expected_guard vals s =
     (case normalize_key guard_key of
        Inl e \<Rightarrow> (Inl e, s)
      | Inr g \<Rightarrow>
          if map_of s g \<noteq> Some expected_guard then (Inr False, s)
          else put_all vals s)"

definition fenced_guarded_put_batch ::
  "('b \<Rightarrow> fence_doc option) \<Rightarrow> int \<Rightarrow> string \<Rightarrow> string \<Rightarrow> int \<Rightarrow> string \<Rightarrow> 'b
    \<Rightarrow> (string \<times> 'b) list \<Rightarrow> 'b store \<Rightarrow> (bool, 'b) outcome" where
  "fenced_guarded_put_batch view now fence_key owner_id fence guard_key expected_guard vals s =
     (case fence_matches view now fence_key owner_id fence s of
        Inl e \<Rightarrow> (Inl e, s)
      | Inr False \<Rightarrow> (Inr False, s)
      | Inr True \<Rightarrow> guarded_put_batch guard_key expected_guard vals s)"

section \<open>Streaming operations of the base class\<close>

text \<open>
  A stream is a file object, given by the results of its successive \<open>read\<close> calls (reading
  stops at the first empty result), or an iterable of chunks.
\<close>

datatype stream_source = Reader "bytes list" | Chunks "bytes list"

fun input_chunks :: "stream_source \<Rightarrow> bytes list" where
  "input_chunks (Reader reads) = takeWhile (\<lambda>c. c \<noteq> []) reads"
| "input_chunks (Chunks cs) = cs"

definition put_stream ::
  "string \<Rightarrow> stream_source \<Rightarrow> int option \<Rightarrow> bytes store \<Rightarrow> (object_stat, bytes) outcome" where
  "put_stream key data len s =
     (if (case len of None \<Rightarrow> False | Some n \<Rightarrow> n < 0) then (Inl ValueError, s)
      else let v = concat (input_chunks data) in
        if (case len of None \<Rightarrow> False | Some n \<Rightarrow> int (length v) \<noteq> n) then (Inl ValueError, s)
        else (case put key v s of
                (Inl e, s') \<Rightarrow> (Inl e, s')
              | (Inr k, s') \<Rightarrow> (Inr \<lparr>st_key = k, st_size = length v\<rparr>, s')))"

definition put_stream_if_absent ::
  "(bytes \<Rightarrow> string) \<Rightarrow> string \<Rightarrow> stream_source \<Rightarrow> int option \<Rightarrow> bytes store
    \<Rightarrow> (object_stat, bytes) outcome" where
  "put_stream_if_absent sha key data len s =
     (if (case len of None \<Rightarrow> False | Some n \<Rightarrow> n < 0) then (Inl ValueError, s)
      else let v = concat (input_chunks data) in
        if (case len of None \<Rightarrow> False | Some n \<Rightarrow> int (length v) \<noteq> n) then (Inl ValueError, s)
        else (case compare_and_swap key None v s of
                (Inl e, s') \<Rightarrow> (Inl e, s')
              | (Inr True, s') \<Rightarrow>
                  (case head key s' of
                     Inl e \<Rightarrow> (Inl e, s')
                   | Inr None \<Rightarrow> (Inl (ObjectNotFound key), s')
                   | Inr (Some stat) \<Rightarrow> (Inr stat, s'))
              | (Inr False, s') \<Rightarrow>
                  (case head key s' of
                     Inl e \<Rightarrow> (Inl e, s')
                   | Inr None \<Rightarrow> (Inl ObjectConflict, s')
                   | Inr (Some stat) \<Rightarrow>
                       if st_size stat = length v
                          \<and> verify sha key (int (length v)) (sha v) s' = Inr True
                       then (Inr stat, s')
                       else (Inl ObjectConflict, s'))))"

text \<open>
  \<open>list_dir\<close>: the immediate children of a prefix, as (name, is_dir, size), folders first.
\<close>

definition dir_prefix :: "string \<Rightarrow> string" where
  "dir_prefix prefix =
     (let pfx = list_prefix prefix in
      if pfx \<noteq> [] \<and> \<not> py_endswith pfx ''/'' then pfx @ ''/'' else pfx)"

definition list_dir :: "string \<Rightarrow> bytes store \<Rightarrow> (string \<times> bool \<times> nat) list" where
  "list_dir prefix s =
     (let pfx = dir_prefix prefix;
          rests = map (\<lambda>st. (drop (length pfx) (st_key st), st_size st)) (list_objects pfx s);
          dirs = map (\<lambda>(rest, _). takeWhile (\<lambda>c. c \<noteq> slash) rest)
                   (filter (\<lambda>(rest, _). slash \<in> set rest) rests);
          files = map (\<lambda>(rest, sz). (rest, False, sz))
                   (filter (\<lambda>(rest, _). slash \<notin> set rest) rests)
      in map (\<lambda>d. (d, True, 0)) (sort (remdups dirs)) @ sort_key fst files)"

section \<open>LocalDirStore: path resolution and chunked reads\<close>

text \<open>POSIX \<open>os.path.join\<close> and \<open>os.path.abspath\<close> of an absolute path.\<close>

fun os_join :: "string \<Rightarrow> string list \<Rightarrow> string" where
  "os_join path [] = path"
| "os_join path (b # bs) =
     os_join (if py_startswith b ''/'' then b
              else if path = [] \<or> py_endswith path ''/'' then path @ b
              else path @ ''/'' @ b) bs"

fun norm_comps :: "string list \<Rightarrow> string list \<Rightarrow> string list" where
  "norm_comps new [] = new"
| "norm_comps new (seg # segs) =
     (if seg = [] \<or> seg = ''.'' then norm_comps new segs
      else if seg = ''..'' then norm_comps (butlast new) segs
      else norm_comps (new @ [seg]) segs)"

definition os_abspath :: "string \<Rightarrow> string" where
  "os_abspath path =
     (if py_startswith path ''//'' \<and> \<not> py_startswith path ''///'' then ''//'' else ''/'')
       @ py_join ''/'' (norm_comps [] (py_split slash path))"

definition local_path :: "string \<Rightarrow> string \<Rightarrow> store_error + string" where
  "local_path root key =
     (case normalize_key key of
        Inl e \<Rightarrow> Inl e
      | Inr k \<Rightarrow>
          let rp = os_abspath (os_join root (py_split slash k)) in
          if rp \<noteq> root \<and> \<not> py_startswith rp (root @ ''/'') then Inl ValueError else Inr rp)"

function stream_chunks :: "nat \<Rightarrow> int option \<Rightarrow> bytes \<Rightarrow> bytes list" where
  "stream_chunks chunk_size remaining data =
     (if (case remaining of None \<Rightarrow> False | Some r \<Rightarrow> r \<le> 0) then []
      else let to_read = (case remaining of None \<Rightarrow> chunk_size | Some r \<Rightarrow> min chunk_size (nat r));
               chunk = take to_read data
           in if chunk = [] then []
              else chunk # stream_chunks chunk_size
                     (map_option (\<lambda>r. r - int (length chunk)) remaining)
                     (drop (length chunk) data))"
  by pat_completeness auto
termination
  by (relation "measure (\<lambda>(_, _, data). length data)") (auto simp: Let_def)

declare stream_chunks.simps [simp del]

definition local_get_stream ::
  "string \<Rightarrow> (string \<rightharpoonup> bytes) \<Rightarrow> string \<Rightarrow> int \<Rightarrow> int option \<Rightarrow> nat \<Rightarrow> store_error + bytes list" where
  "local_get_stream root files key offset len chunk_size =
     (if offset < 0 then Inl ValueError
      else (case local_path root key of
              Inl e \<Rightarrow> Inl e
            | Inr path \<Rightarrow>
                (case files path of
                   None \<Rightarrow>
                     (case normalize_key key of
                        Inl e \<Rightarrow> Inl e
                      | Inr k \<Rightarrow> Inl (ObjectNotFound k))
                 | Some data \<Rightarrow>
                     Inr (stream_chunks chunk_size len (drop (nat offset) data)))))"

section \<open>Key normalization\<close>

text \<open>A normalized key is a non-empty sequence of ordinary path segments.\<close>

definition plain_segment :: "string \<Rightarrow> bool" where
  "plain_segment seg \<longleftrightarrow>
     seg \<noteq> [] \<and> seg \<noteq> ''.'' \<and> seg \<noteq> ''..'' \<and> slash \<notin> set seg \<and> backslash \<notin> set seg"

definition plain_key :: "string \<Rightarrow> bool" where
  "plain_key k \<longleftrightarrow> list_all plain_segment (py_split slash k)"

lemma plain_segment_ends:
  "plain_segment p \<Longrightarrow> p \<noteq> [] \<and> hd p \<noteq> slash \<and> last p \<noteq> slash"
  by (metis hd_in_set last_in_set plain_segment_def)

lemma join_plain_ends:
  assumes "segs \<noteq> []" and "\<forall>p\<in>set segs. plain_segment p"
  shows "py_join ''/'' segs \<noteq> [] \<and> hd (py_join ''/'' segs) \<noteq> slash
     \<and> last (py_join ''/'' segs) \<noteq> slash"
proof -
  obtain p ps where pps: "segs = p # ps" using assms(1) by (cases segs) auto
  have ne: "[] \<notin> set segs" using assms(2) by (auto simp: plain_segment_def)
  have "plain_segment p" "plain_segment (last segs)" using assms pps by auto
  then show ?thesis
    using hd_py_join [of p "''/''" ps] last_py_join [OF assms(1) ne, of "''/''"]
      py_join_eq_Nil [OF assms(1) ne, of "''/''"] pps plain_segment_ends by metis
qed

lemma keep_segments_eq:
  "keep_segments segs =
     (if ''..'' \<in> set segs then Inl ValueError
      else Inr (filter (\<lambda>s. s \<noteq> [] \<and> s \<noteq> ''.'') segs))"
  by (induction segs) auto

lemma plain_key_join:
  assumes "parts \<noteq> []" and "\<forall>p\<in>set parts. plain_segment p"
  shows "plain_key (py_join ''/'' parts)" and "py_split slash (py_join ''/'' parts) = parts"
  using assms by (auto simp: plain_key_def list_all_iff py_split_join plain_segment_def)

lemma normalize_key_plain:
  assumes "normalize_key key = Inr k"
  shows "plain_key k"
proof -
  define raw where "raw = py_strip slash (py_replace_char backslash slash key)"
  have nb: "backslash \<notin> set raw"
    using set_py_strip_subset py_replace_char_gone [of backslash slash key]
    by (auto simp: raw_def)
  from assms obtain parts where parts: "keep_segments (py_split slash raw) = Inr parts"
    "parts \<noteq> []" "k = py_join ''/'' parts"
    by (auto simp: normalize_key_def raw_def Let_def split: if_splits sum.splits)
  have "plain_segment p" if "p \<in> set parts" for p
    using that parts(1) nb py_split_no_sep [of p slash raw] py_split_chars [of p slash raw]
    by (auto simp: keep_segments_eq plain_segment_def split: if_splits)
  then show ?thesis using parts plain_key_join by simp
qed

lemma plain_key_chars:
  assumes "plain_key k"
  shows "k \<noteq> []" and "backslash \<notin> set k" and "hd k \<noteq> slash" and "last k \<noteq> slash"
proof -
  let ?ps = "py_split slash k"
  have k: "k = py_join ''/'' ?ps" by (simp add: py_join_split)
  have ps: "?ps \<noteq> []" "\<forall>p\<in>set ?ps. plain_segment p"
    using assms by (auto simp: plain_key_def list_all_iff)
  show "backslash \<notin> set k"
    using set_py_join_subset [of "''/''" ?ps] ps by (subst k) (auto simp: plain_segment_def)
  show "k \<noteq> []" and "hd k \<noteq> slash" and "last k \<noteq> slash"
    using join_plain_ends [OF ps] by (auto simp only: py_join_split)
qed

lemma normalize_key_segments:
  assumes "normalize_key key = Inr k"
  obtains segs where "segs \<noteq> []" and "\<forall>p\<in>set segs. plain_segment p"
    and "k = py_join ''/'' segs" and "py_split slash k = segs"
  using normalize_key_plain [OF assms] that [of "py_split slash k"]
  by (auto simp: plain_key_def list_all_iff py_join_split)

lemma normalize_plain_key [simp]:
  assumes "plain_key k"
  shows "normalize_key k = Inr k"
proof -
  have strip: "py_strip slash (py_replace_char backslash slash k) = k"
    using plain_key_chars [OF assms] by (simp add: py_strip_noop)
  have "\<forall>p\<in>set (py_split slash k). plain_segment p"
    using assms by (simp add: plain_key_def list_all_iff)
  then have "keep_segments (py_split slash k) = Inr (py_split slash k)"
    by (auto simp: keep_segments_eq plain_segment_def filter_id_conv)
  then show ?thesis
    using plain_key_chars(1) [OF assms] strip by (simp add: normalize_key_def py_join_split)
qed

lemma normalize_key_idem: "normalize_key key = Inr k \<Longrightarrow> normalize_key k = Inr k"
  by (simp add: normalize_key_plain)

section \<open>The store interface\<close>

text \<open>
  What the control plane relies on: a keyed register file with an atomic conditional write.
  \<open>valid\<close> are the keys in normal form.
\<close>

locale keyed_store =
  fixes valid :: "string \<Rightarrow> bool"
    and lookup :: "string \<Rightarrow> 's \<Rightarrow> 'b option"
    and update :: "string \<Rightarrow> 'b \<Rightarrow> 's \<Rightarrow> 's"
    and remove :: "string \<Rightarrow> 's \<Rightarrow> 's"
    and swap :: "string \<Rightarrow> 'b option \<Rightarrow> 'b \<Rightarrow> 's \<Rightarrow> bool \<times> 's"
  assumes lookup_write:
      "valid k \<Longrightarrow> valid k' \<Longrightarrow> lookup k' (update k d s) = (if k' = k then Some d else lookup k' s)"
    and lookup_remove:
      "valid k \<Longrightarrow> valid k' \<Longrightarrow> lookup k' (remove k s) = (if k' = k then None else lookup k' s)"
    and swap_eq:
      "valid k \<Longrightarrow> swap k e d s = (if lookup k s = e then (True, update k d s) else (False, s))"
begin

lemma swap_success:
  "valid k \<Longrightarrow> swap k e d s = (True, s') \<Longrightarrow> lookup k s = e \<and> lookup k s' = Some d"
  by (auto simp: swap_eq lookup_write split: if_splits)

lemma swap_frame:
  "valid k \<Longrightarrow> valid k' \<Longrightarrow> k' \<noteq> k \<Longrightarrow> swap k e d s = (b, s') \<Longrightarrow> lookup k' s' = lookup k' s"
  by (auto simp: swap_eq lookup_write split: if_splits)

lemma no_lost_update:
  assumes "valid k" and "swap k e d s = (True, s')" and "Some d \<noteq> e"
  shows "swap k e d' s' = (False, s')"
  using assms by (auto simp: swap_eq lookup_write split: if_splits)

end

definition mem_swap :: "string \<Rightarrow> 'b option \<Rightarrow> 'b \<Rightarrow> 'b store \<Rightarrow> bool \<times> 'b store" where
  "mem_swap k e d s = (case compare_and_swap k e d s of (r, s') \<Rightarrow> (r = Inr True, s'))"

interpretation mem: keyed_store
  plain_key "\<lambda>k s. map_of s k" "\<lambda>k d s. snd (put k d s)" "\<lambda>k s. snd (delete_object k s)" mem_swap
  by unfold_locales
     (auto simp: put_def delete_object_def mem_swap_def compare_and_swap_def)

lemmas store_op_simps = put_def get_object_def delete_object_def compare_and_swap_def

section \<open>Properties\<close>

lemma dropWhile_slash_segments:
  "filter (\<lambda>p. p \<noteq> [] \<and> p \<noteq> ''.'') (py_split slash (py_lstrip slash s)) =
     filter (\<lambda>p. p \<noteq> [] \<and> p \<noteq> ''.'') (py_split slash s)
   \<and> (''..'' \<in> set (py_split slash (py_lstrip slash s)) \<longleftrightarrow> ''..'' \<in> set (py_split slash s))"
  by (induction s) (auto simp: py_lstrip_def)

lemma py_split_snoc_sep: "py_split c (s @ [c]) = py_split c s @ [[]]"
proof (induction s)
  case (Cons x xs)
  then show ?case
    by (cases "py_split c xs") auto
qed simp

lemma rstrip_slash_segments:
  "filter (\<lambda>p. p \<noteq> [] \<and> p \<noteq> ''.'') (py_split slash (py_rstrip slash s)) =
     filter (\<lambda>p. p \<noteq> [] \<and> p \<noteq> ''.'') (py_split slash s)
   \<and> (''..'' \<in> set (py_split slash (py_rstrip slash s)) \<longleftrightarrow> ''..'' \<in> set (py_split slash s))"
proof (induction s rule: rev_induct)
  case (snoc x xs)
  then show ?case
    by (cases "x = slash") (auto simp: py_rstrip_def py_split_snoc_sep)
qed (simp add: py_rstrip_def)

text \<open>
  normalization of an object key. Whatever the key, the result is the key's segments with
  the empty and \<open>.\<close> segments removed, and the key is rejected exactly when it contains a
  \<open>..\<close> segment (after backslashes are read as slashes) or no ordinary segment at all.
\<close>

theorem normalize_key_spec:
  "normalize_key key =
     (let segs = py_split slash (py_replace_char backslash slash key);
          parts = filter (\<lambda>p. p \<noteq> [] \<and> p \<noteq> ''.'') segs
      in if ''..'' \<in> set segs \<or> parts = [] then Inl ValueError else Inr (py_join ''/'' parts))"
proof -
  define raw where "raw = py_replace_char backslash slash key"
  have strip: "filter (\<lambda>p. p \<noteq> [] \<and> p \<noteq> ''.'') (py_split slash (py_strip slash raw)) =
      filter (\<lambda>p. p \<noteq> [] \<and> p \<noteq> ''.'') (py_split slash raw)"
    "''..'' \<in> set (py_split slash (py_strip slash raw)) \<longleftrightarrow> ''..'' \<in> set (py_split slash raw)"
    using dropWhile_slash_segments rstrip_slash_segments by (simp_all add: py_strip_def)
  have "key = [] \<Longrightarrow> raw = []" by (simp add: raw_def py_replace_char_def)
  moreover have "py_strip slash raw = [] \<Longrightarrow>
      filter (\<lambda>p. p \<noteq> [] \<and> p \<noteq> ''.'') (py_split slash raw) = []"
    using strip(1) by simp
  ultimately show ?thesis
    unfolding normalize_key_def Let_def keep_segments_eq raw_def [symmetric]
    using strip by auto
qed

subsection \<open>Confinement to the store root\<close>

text \<open>A store root as \<open>os.path.abspath\<close> returns it, other than the file system root itself.\<close>

definition root_path :: "string list \<Rightarrow> string" where
  "root_path comps = ''/'' @ py_join ''/'' comps"

lemma norm_comps_plain:
  "\<forall>p\<in>set segs. plain_segment p \<Longrightarrow> norm_comps new segs = new @ segs"
  by (induction segs arbitrary: new) (auto simp: plain_segment_def)

lemma os_join_plain:
  assumes "segs \<noteq> []" and "\<forall>p\<in>set segs. plain_segment p" and "path \<noteq> []" and "last path \<noteq> slash"
  shows "os_join path segs = path @ ''/'' @ py_join ''/'' segs"
  using assms
proof (induction segs arbitrary: path)
  case (Cons b bs)
  have b: "b \<noteq> []" "hd b \<noteq> slash" "last b \<noteq> slash"
    using Cons.prems(2) plain_segment_ends by auto
  then have "os_join path (b # bs) = os_join (path @ ''/'' @ b) bs"
    using Cons.prems by (cases b) (auto simp: py_endswith_iff)
  then show ?case
    using Cons.IH [of "path @ ''/'' @ b"] Cons.prems b by (cases bs) auto
qed simp

lemma abspath_plain:
  assumes "segs \<noteq> []" and "\<forall>p\<in>set segs. plain_segment p"
  shows "os_abspath (''/'' @ py_join ''/'' segs) = ''/'' @ py_join ''/'' segs"
proof -
  have "\<not> py_startswith (''/'' @ py_join ''/'' segs) ''//''"
    using join_plain_ends [OF assms] by (cases "py_join ''/'' segs") auto
  moreover have "py_split slash (''/'' @ py_join ''/'' segs) = [] # segs"
    using assms by (simp add: py_split_join plain_segment_def)
  ultimately show ?thesis
    using assms by (simp add: os_abspath_def norm_comps_plain)
qed

text \<open>
  for a store directory other than the file system root, an accepted key always resolves to
  a path strictly below that directory, namely the root, a slash and the normalized key; the
  second, defensive check of \<open>_path\<close> never rejects a key that \<open>_normalize_key\<close> accepted.
\<close>

theorem local_path_confined:
  assumes "comps \<noteq> []" and "\<forall>p\<in>set comps. plain_segment p"
  shows "local_path (root_path comps) key =
     (case normalize_key key of Inl e \<Rightarrow> Inl e | Inr k \<Rightarrow> Inr (root_path comps @ ''/'' @ k))"
proof (cases "normalize_key key")
  case (Inr k)
  then obtain segs where segs: "segs \<noteq> []" "\<forall>p\<in>set segs. plain_segment p"
    and k: "k = py_join ''/'' segs" "py_split slash k = segs"
    by (rule normalize_key_segments)
  have root: "root_path comps \<noteq> []" "last (root_path comps) \<noteq> slash"
    using join_plain_ends [OF assms] by (auto simp: root_path_def)
  have join: "os_join (root_path comps) segs = root_path comps @ ''/'' @ k"
    using os_join_plain [OF segs root] k by simp
  also have "\<dots> = ''/'' @ py_join ''/'' (comps @ segs)"
    using assms(1) segs(1) k by (simp add: root_path_def py_join_append)
  finally have "os_abspath (os_join (root_path comps) segs) = os_join (root_path comps) segs"
    using abspath_plain [of "comps @ segs"] assms segs by auto
  then show ?thesis
    using Inr join k by (simp add: local_path_def Let_def py_startswith_iff)
qed (simp add: local_path_def)

theorem local_path_confined_witness:
  "local_path (root_path [''srv'', ''data'']) ''t1//./part-0''
     = Inr (root_path [''srv'', ''data''] @ ''/'' @ ''t1/part-0'')"
proof -
  have "normalize_key ''t1//./part-0'' = Inr ''t1/part-0''"
    by (simp add: normalize_key_def py_string_defs)
  then show ?thesis
    using local_path_confined [of "[''srv'', ''data'']" "''t1//./part-0''"]
    by (simp add: plain_segment_def)
qed

text \<open>
  a store rooted at the file system root \<open>/\<close> accepts no key at all: the defensive check
  compares the resolved path with the root followed by a second slash.
\<close>

theorem local_path_at_filesystem_root: "\<exists>e. local_path ''/'' key = Inl e"
proof (cases "normalize_key key")
  case (Inr k)
  then obtain segs where segs: "segs \<noteq> []" "\<forall>p\<in>set segs. plain_segment p"
    and k: "k = py_join ''/'' segs" "py_split slash k = segs"
    by (rule normalize_key_segments)
  obtain p ps where pps: "segs = p # ps" using segs(1) by (cases segs) auto
  have p: "plain_segment p" using segs pps by simp
  have "os_join ''/'' segs = os_join (''/'' @ p) ps"
    using plain_segment_ends [OF p] pps by (cases p) (auto simp: py_endswith_def)
  also have "\<dots> = ''/'' @ py_join ''/'' segs"
    using os_join_plain [of ps "''/'' @ p"] plain_segment_ends [OF p] segs pps
    by (cases ps) auto
  finally have "os_abspath (os_join ''/'' segs) = ''/'' @ py_join ''/'' segs"
    using abspath_plain [OF segs] by simp
  then show ?thesis
    using Inr k join_plain_ends [OF segs]
    by (cases "py_join ''/'' segs") (auto simp: local_path_def Let_def)
qed (simp add: local_path_def)

subsection \<open>Chunked reads\<close>

lemma stream_chunks_concat:
  assumes "0 < chunk_size"
  shows "concat (stream_chunks chunk_size remaining data) =
     (case remaining of None \<Rightarrow> data | Some r \<Rightarrow> take (nat r) data)"
  using assms
proof (induction chunk_size remaining data rule: stream_chunks.induct)
  case (1 cs remaining data)
  define n where "n = (case remaining of None \<Rightarrow> cs | Some r \<Rightarrow> min cs (nat r))"
  show ?case
  proof (cases "take n data = [] \<or> (\<exists>r. remaining = Some r \<and> r \<le> 0)")
    case True
    then show ?thesis
      using 1 (2) by (auto simp: stream_chunks.simps [of cs remaining data] n_def Let_def
          split: option.splits)
  next
    case False
    define c where "c = take n data"
    have "concat (stream_chunks cs remaining data) =
        c @ concat (stream_chunks cs (map_option (\<lambda>r. r - int (length c)) remaining)
              (drop (length c) data))"
      using False by (auto simp: stream_chunks.simps [of cs remaining data] n_def c_def Let_def
          split: option.splits)
    also have "\<dots> = c @ (case map_option (\<lambda>r. r - int (length c)) remaining of
        None \<Rightarrow> drop (length c) data | Some r \<Rightarrow> take (nat r) (drop (length c) data))"
      using False 1 by (auto simp: n_def c_def Let_def split: option.splits)
    also have "\<dots> = (case remaining of None \<Rightarrow> data | Some r \<Rightarrow> take (nat r) data)"
    proof (cases remaining)
      case None
      then show ?thesis by (cases "n \<le> length data") (simp_all add: c_def)
    next
      case (Some r)
      have "length c \<le> nat r" using Some by (simp add: c_def n_def)
      then have "take (nat r) data = take (length c) data @ take (nat r - length c) (drop (length c) data)"
        by (metis le_add_diff_inverse take_add)
      moreover have "take (length c) data = c" by (simp add: c_def min_def)
      moreover have "nat (r - int (length c)) = nat r - length c" by linarith
      ultimately show ?thesis using Some by simp
    qed
    finally show ?thesis .
  qed
qed

lemma stream_chunks_Nil [simp]: "stream_chunks cs remaining [] = []"
  by (simp add: stream_chunks.simps)

lemma stream_chunks_step:
  assumes "stream_chunks cs remaining data \<noteq> []"
  obtains c where "c \<noteq> []" and "length c \<le> cs" and "stream_chunks cs remaining data =
    c # stream_chunks cs (map_option (\<lambda>r. r - int (length c)) remaining) (drop (length c) data)"
  using assms that
  by (subst (asm) (1 2) stream_chunks.simps [of cs remaining data])
     (simp add: Let_def min_le_iff_disj split: if_splits option.splits)

lemma stream_chunks_bounded:
  "\<forall>c\<in>set (stream_chunks chunk_size remaining data). c \<noteq> [] \<and> length c \<le> chunk_size"
proof (induction "length data" arbitrary: remaining data rule: less_induct)
  case less
  show ?case
  proof (cases "stream_chunks chunk_size remaining data = []")
    case False
    then obtain c where "c \<noteq> []" "length c \<le> chunk_size" "stream_chunks chunk_size remaining data =
      c # stream_chunks chunk_size (map_option (\<lambda>r. r - int (length c)) remaining) (drop (length c) data)"
      by (rule stream_chunks_step)
    with False less [of "drop (length c) data"] show ?thesis by (cases "data = []") simp_all
  qed simp
qed

text \<open>
  streaming a file in blocks (\<open>LocalDirStore.get_stream\<close>) yields exactly the bytes of the
  equivalent ranged read: the blocks concatenate to the slice \<open>MemoryStore.get\<close> returns for
  the same offset and length, and no block is empty or longer than the chunk size.
\<close>

theorem get_stream_equals_slice:
  assumes "0 < chunk_size" and "0 \<le> offset" and "\<forall>n. len = Some n \<longrightarrow> 0 \<le> n"
    and "local_path root key = Inr path" and "files path = Some data"
  shows "\<exists>blocks. local_get_stream root files key offset len chunk_size = Inr blocks
     \<and> slice_bytes data offset len = Inr (concat blocks)
     \<and> (\<forall>b\<in>set blocks. b \<noteq> [] \<and> length b \<le> chunk_size)"
proof -
  define blocks where "blocks = stream_chunks chunk_size len (drop (nat offset) data)"
  have "slice_bytes data offset len = Inr (concat blocks)"
    using assms(1-3)
    by (cases len) (auto simp: slice_bytes_def blocks_def stream_chunks_concat py_slice_nat Let_def
        nat_add_distrib)
  then show ?thesis
    using assms stream_chunks_bounded by (simp add: local_get_stream_def blocks_def)
qed

theorem get_stream_equals_slice_witness:
  "\<exists>blocks. local_get_stream ''/srv'' [''/srv/a'' \<mapsto> ''hello''] ''a'' 1 (Some 3) 2 = Inr blocks
     \<and> slice_bytes ''hello'' 1 (Some 3) = Inr (concat blocks)
     \<and> (\<forall>b\<in>set blocks. b \<noteq> [] \<and> length b \<le> 2)"
proof (rule get_stream_equals_slice)
  show "local_path ''/srv'' ''a'' = Inr ''/srv/a''"
    by (simp add: local_path_def os_abspath_def normalize_key_def py_string_defs)
qed simp_all

subsection \<open>Fenced and guarded writes\<close>

text \<open>The leadership term a fence object currently grants, if it is live.\<close>

definition holds_fence ::
  "('b \<Rightarrow> fence_doc option) \<Rightarrow> int \<Rightarrow> string \<Rightarrow> string \<Rightarrow> int \<Rightarrow> 'b store \<Rightarrow> bool" where
  "holds_fence view now fence_key owner_id fence s \<longleftrightarrow>
     (\<exists>raw r. map_of s fence_key = Some raw \<and> view raw = Some r
        \<and> (fd_owner_id r = Some owner_id
           \<or> fd_owner_id r = None \<and> fd_generation_id r = Some owner_id)
        \<and> with_default (fd_fence r) (-1) = fence \<and> fence_live now r)"

lemma fence_matches_iff:
  "plain_key fence_key \<Longrightarrow>
     fence_matches view now fence_key owner_id fence s =
       Inr (holds_fence view now fence_key owner_id fence s)"
  by (auto simp: fence_matches_def holds_fence_def split: option.splits)



lemma put_all_plain:
  assumes "\<forall>(k, v)\<in>set vals. plain_key k"
  shows "put_all vals s = (Inr True, fold (\<lambda>(k, v). AList.update k v) vals s)"
  using assms by (induction vals arbitrary: s) (auto simp: put_def)

lemma map_of_fold_update:
  "map_of (fold (\<lambda>(k, v). AList.update k v) vals s) = map_of s ++ map_of (rev vals)"
proof (induction vals arbitrary: s)
  case (Cons p vals)
  then show ?case
    by (cases p) (auto simp: fun_eq_iff map_add_def split: option.splits)
qed simp

text \<open>
  a fenced guarded batch is all or nothing. With well-formed keys it either commits every
  value (the last one for a repeated key), which happens exactly when the writer holds the
  fence and the guard object is byte-identical to the expected one, or changes nothing.
\<close>

theorem fenced_guarded_batch_atomic:
  assumes "plain_key fence_key" and "plain_key guard_key"
    and "\<forall>(k, v)\<in>set vals. plain_key k"
  shows "\<exists>s'. fenced_guarded_put_batch view now fence_key owner_id fence guard_key expected vals s
       = (Inr (holds_fence view now fence_key owner_id fence s \<and> map_of s guard_key = Some expected), s')
     \<and> map_of s' =
         (if holds_fence view now fence_key owner_id fence s \<and> map_of s guard_key = Some expected
          then map_of s ++ map_of (rev vals) else map_of s)"
  using assms
  by (auto simp: fenced_guarded_put_batch_def fence_matches_iff guarded_put_batch_def
      put_all_plain map_of_fold_update split: bool.splits)

theorem fenced_guarded_batch_atomic_witness:
  "\<exists>s'. fenced_guarded_put_batch
       (\<lambda>n. Some \<lparr>fd_owner_id = Some ''m1'', fd_generation_id = None, fd_fence = Some n,
          fd_renew_ms = Some 100, fd_ttl_ms = Some 50, fd_expires_at_ms = None\<rparr>)
       120 ''lease'' ''m1'' 7 ''guard'' 1 [(''a'', 3), (''b'', 4)] [(''lease'', 7), (''guard'', 1)]
     = (Inr True, s')
     \<and> map_of s' = [''lease'' \<mapsto> 7, ''guard'' \<mapsto> 1] ++ map_of (rev [(''a'', 3), (''b'', 4)])"
proof -
  have "map_of [(''lease'', 7), (''guard'', 1::int)] = [''lease'' \<mapsto> 7, ''guard'' \<mapsto> 1]"
    by (auto simp: fun_eq_iff)
  then show ?thesis
    using fenced_guarded_batch_atomic [of "''lease''" "''guard''" "[(''a'', 3), (''b'', 4)]"
      "\<lambda>n. Some \<lparr>fd_owner_id = Some ''m1'', fd_generation_id = None, fd_fence = Some n,
          fd_renew_ms = Some 100, fd_ttl_ms = Some 50, fd_expires_at_ms = None\<rparr>"
      120 "''m1''" 7 1 "[(''lease'', 7), (''guard'', 1)]"]
    by (simp add: plain_key_def plain_segment_def holds_fence_def fence_live_def)
qed

subsection \<open>Immutable uploads\<close>

text \<open>
  an immutable upload never replaces an object. If \<open>put_stream_if_absent\<close> returns a stat,
  the key holds exactly the streamed bytes afterwards (given that SHA-256 distinguishes the
  streamed bytes from what was stored), any object already stored under any key is unchanged,
  and a different object under the key is reported as a conflict that leaves the store as it was.
\<close>

theorem put_stream_if_absent_immutable:
  assumes "normalize_key key = Inr k" and "v = concat (input_chunks data)"
    and "len \<in> {None, Some (int (length v))}"
    and "\<forall>b. map_of s k = Some b \<longrightarrow> sha b = sha v \<longrightarrow> b = v"
  shows "(case put_stream_if_absent sha key data len s of
            (Inr stat, s') \<Rightarrow> map_of s' = (map_of s)(k \<mapsto> v) \<and> map_of s k \<in> {None, Some v}
              \<and> stat = \<lparr>st_key = k, st_size = length v\<rparr>
          | (Inl e, s') \<Rightarrow> e = ObjectConflict \<and> s' = s \<and> (\<exists>b. map_of s k = Some b \<and> b \<noteq> v))"
proof (cases "map_of s k")
  case None
  with assms show ?thesis
    by (auto simp: put_stream_if_absent_def compare_and_swap_def head_def Let_def fun_eq_iff)
next
  case (Some b)
  have "put_stream_if_absent sha key data len s =
      (if length b = length v \<and> sha b = sha v
       then (Inr \<lparr>st_key = k, st_size = length b\<rparr>, s) else (Inl ObjectConflict, s))"
    using assms Some
    by (auto simp: put_stream_if_absent_def compare_and_swap_def head_def verify_def Let_def)
  with Some assms(4) show ?thesis by (auto simp: fun_eq_iff)
qed

theorem put_stream_if_absent_immutable_witness:
  "(case put_stream_if_absent id ''k'' (Chunks [''ab'', ''c'']) None [(''k'', ''old'')] of
      (Inr stat, s') \<Rightarrow> map_of s' = (map_of [(''k'', ''old'')])(''k'' \<mapsto> ''abc'')
        \<and> map_of [(''k'', ''old'')] ''k'' \<in> {None, Some ''abc''}
        \<and> stat = \<lparr>st_key = ''k'', st_size = length ''abc''\<rparr>
    | (Inl e, s') \<Rightarrow> e = ObjectConflict \<and> s' = [(''k'', ''old'')]
        \<and> (\<exists>b. map_of [(''k'', ''old'')] ''k'' = Some b \<and> b \<noteq> ''abc''))"
  by (rule put_stream_if_absent_immutable)
     (simp_all add: normalize_key_def py_string_defs)

end
