(* ===== verification/Fencing.thy ===== *)
theory Fencing
  imports Artifact_Store
begin

text \<open>
  What the leader lease and the generation coordinator share: one attempt of a read followed by a
  compare-and-swap, during which other processes may act on the store, and the contract of a
  register whose owners are fenced by growing numbers.
\<close>

section \<open>Attempts\<close>

text \<open>
  Whether the read and the compare-and-swap of an attempt answer without an exception, and what
  other processes do to the store between the two.
\<close>

record 's attempt =
  at_read_up :: bool
  at_cas_up :: bool
  at_interfere :: "'s \<Rightarrow> 's"

definition calm :: "'s attempt" where
  "calm = \<lparr>at_read_up = True, at_cas_up = True, at_interfere = (\<lambda>s. s)\<rparr>"

section \<open>Fenced terms\<close>

text \<open>
  The contract of a fenced register: a step never lowers the fence, and a step that keeps the
  fence can end a term but not hand it to someone else. \<open>owner\<close> is \<open>None\<close> when the register
  grants no term. The generation coordinator is a second instance of this contract.
\<close>

locale fenced_terms =
  fixes trans :: "'r \<Rightarrow> 'r \<Rightarrow> bool"
    and fence :: "'r \<Rightarrow> int"
    and owner :: "'r \<Rightarrow> string option"
  assumes fence_step: "trans r r' \<Longrightarrow> fence r \<le> fence r'"
    and owner_step:
      "trans r r' \<Longrightarrow> fence r' = fence r \<Longrightarrow> owner r' \<noteq> None \<Longrightarrow> owner r' = owner r"
begin

lemma fence_mono: "trans\<^sup>*\<^sup>* r r' \<Longrightarrow> fence r \<le> fence r'"
  by (induction rule: rtranclp_induct) (auto dest: fence_step)

lemma same_fence_same_owner:
  assumes "trans\<^sup>*\<^sup>* r r'" and "fence r' = fence r" and "owner r' \<noteq> None"
  shows "owner r' = owner r"
  using assms
proof (induction rule: rtranclp_induct)
  case (step y z)
  have "fence y = fence r"
    using fence_mono [OF step.hyps(1)] fence_step [OF step.hyps(2)] step.prems(1) by simp
  then show ?case
    using step owner_step [OF step.hyps(2)] by simp
qed simp

lemma new_owner_raises_fence:
  assumes "trans\<^sup>*\<^sup>* r r'" and "owner r' \<noteq> None" and "owner r' \<noteq> owner r"
  shows "fence r < fence r'"
  using assms fence_mono same_fence_same_owner by force

lemma superseded_term_never_returns:
  assumes "trans\<^sup>*\<^sup>* r r'" and "owner r' \<noteq> None" and "owner r' \<noteq> owner r" and "trans\<^sup>*\<^sup>* r' r''"
  shows "fence r'' \<noteq> fence r"
  using new_owner_raises_fence [OF assms(1-3)] fence_mono [OF assms(4)] by simp

end

end
