(* ===== verification/Lease.thy ===== *)
theory Lease
  imports Fencing
begin

text \<open>
  The leader lease of the control plane (\<open>enterprise/control/lease.py\<close>): a TTL election over
  the artifact store with compare-and-swap and a fence that grows with every takeover.

  The shared store holds decoded JSON documents: lease records, presence records and other
  objects (which the lease code refuses as invalid records). A field of a record is \<open>None\<close>
  when the key is missing from the JSON object, so that the code's \<open>.get\<close> defaults are kept.
  Between the read and the compare-and-swap of one attempt other processes may act on the
  store; an \<open>attempt\<close> gives that interference and says whether the two store calls raise.
\<close>

section \<open>Records\<close>

record 'v lease_doc = fence_doc +
  ld_state :: "(string, 'v) dict option"

record presence_doc =
  pd_owner_id :: string
  pd_role :: string
  pd_observed_ms :: int
  pd_fence :: int

datatype ('v, 'x) control_doc =
    Lease_Doc "'v lease_doc"
  | Presence_Doc presence_doc
  | Other_Doc 'x

type_synonym ('v, 'x) control_store = "('v, 'x) control_doc store"

datatype lease_error =
    Lease_Read_Failed
  | Lease_Record_Invalid
  | Lease_Store_Raised
  | Lease_Contention
  | State_Contention
  | Stale_Leader string int

record leader_lease =
  ll_owner_id :: string
  ll_ttl_ms :: int
  ll_is_leader :: bool
  ll_fence :: int
  ll_last_error :: "lease_error option"

definition LEASE_KEY :: string where
  "LEASE_KEY = ''_control/leader.json''"

definition PRESENCE_PREFIX :: string where
  "PRESENCE_PREFIX = ''_control/managers''"

definition new_lease :: "string \<Rightarrow> int \<Rightarrow> leader_lease" where
  "new_lease owner ttl =
     \<lparr>ll_owner_id = owner, ll_ttl_ms = max 1 ttl, ll_is_leader = False, ll_fence = 0,
      ll_last_error = None\<rparr>"

definition presence_key :: "(string \<Rightarrow> string) \<Rightarrow> leader_lease \<Rightarrow> string" where
  "presence_key sha l = PRESENCE_PREFIX @ ''/'' @ sha (ll_owner_id l) @ ''.json''"

section \<open>Reading and writing the record\<close>

definition read_raw ::
  "bool \<Rightarrow> ('v, 'x) control_store \<Rightarrow>
     lease_error + (('v, 'x) control_doc option \<times> 'v lease_doc option)" where
  "read_raw store_up s =
     (if \<not> store_up then Inl Lease_Read_Failed
      else (case get_object LEASE_KEY s of
              Inl (ObjectNotFound _) \<Rightarrow> Inr (None, None)
            | Inl _ \<Rightarrow> Inl Lease_Read_Failed
            | Inr (Lease_Doc r) \<Rightarrow> Inr (Some (Lease_Doc r), Some r)
            | Inr _ \<Rightarrow> Inl Lease_Record_Invalid))"

definition lease_record ::
  "leader_lease \<Rightarrow> int \<Rightarrow> int \<Rightarrow> string option \<Rightarrow> (string, 'v) dict option \<Rightarrow> 'v lease_doc" where
  "lease_record l now fence owner st =
     \<lparr>fd_owner_id = Some (case owner of None \<Rightarrow> ll_owner_id l | Some o' \<Rightarrow> o'),
      fd_generation_id = None,
      fd_fence = Some fence,
      fd_renew_ms = Some now,
      fd_ttl_ms = Some (ll_ttl_ms l),
      fd_expires_at_ms = None,
      ld_state = Some (with_default st [])\<rparr>"

definition expired :: "leader_lease \<Rightarrow> 'v lease_doc \<Rightarrow> int \<Rightarrow> bool" where
  "expired l r now \<longleftrightarrow> now - with_default (fd_renew_ms r) 0 > with_default (fd_ttl_ms r) (ll_ttl_ms l)"

definition lose :: "leader_lease \<Rightarrow> leader_lease" where
  "lose l = l\<lparr>ll_is_leader := False, ll_fence := 0\<rparr>"

section \<open>acquire_or_renew\<close>

definition ownerless :: "'v lease_doc \<Rightarrow> bool" where
  "ownerless r \<longleftrightarrow> fd_owner_id r \<in> {None, Some ''''}"

definition same_live_owner :: "leader_lease \<Rightarrow> int \<Rightarrow> 'v lease_doc \<Rightarrow> bool" where
  "same_live_owner l now r \<longleftrightarrow> fd_owner_id r = Some (ll_owner_id l) \<and> \<not> expired l r now"

definition can_take :: "leader_lease \<Rightarrow> int \<Rightarrow> 'v lease_doc option \<Rightarrow> bool" where
  "can_take l now rec =
     (case rec of
        None \<Rightarrow> True
      | Some r \<Rightarrow> ownerless r \<or> expired l r now \<or> same_live_owner l now r)"

definition next_fence :: "leader_lease \<Rightarrow> int \<Rightarrow> 'v lease_doc option \<Rightarrow> int" where
  "next_fence l now rec =
     (case rec of
        None \<Rightarrow> 1
      | Some r \<Rightarrow>
          if same_live_owner l now r then with_default (fd_fence r) 0
          else with_default (fd_fence r) 0 + 1)"

definition taken_record :: "leader_lease \<Rightarrow> int \<Rightarrow> 'v lease_doc option \<Rightarrow> 'v lease_doc" where
  "taken_record l now rec =
     lease_record l now (next_fence l now rec) None
       (case rec of None \<Rightarrow> None | Some r \<Rightarrow> ld_state r)"

fun acquire_loop ::
  "int \<Rightarrow> ('v, 'x) control_store attempt list \<Rightarrow> leader_lease \<Rightarrow> ('v, 'x) control_store
     \<Rightarrow> bool \<times> leader_lease \<times> ('v, 'x) control_store" where
  "acquire_loop now [] l s = (False, lose (l\<lparr>ll_last_error := Some Lease_Contention\<rparr>), s)"
| "acquire_loop now (a # as) l s =
     (case read_raw (at_read_up a) s of
        Inl e \<Rightarrow> (False, lose (l\<lparr>ll_last_error := Some e\<rparr>), s)
      | Inr (raw, rec) \<Rightarrow>
          if \<not> can_take l now rec then (False, (lose l)\<lparr>ll_last_error := None\<rparr>, s)
          else let s1 = at_interfere a s in
            if \<not> at_cas_up a then (False, lose (l\<lparr>ll_last_error := Some Lease_Store_Raised\<rparr>), s1)
            else (case compare_and_swap LEASE_KEY raw (Lease_Doc (taken_record l now rec)) s1 of
                    (Inl _, s2) \<Rightarrow> (False, lose (l\<lparr>ll_last_error := Some Lease_Store_Raised\<rparr>), s2)
                  | (Inr True, s2) \<Rightarrow>
                      (True,
                       l\<lparr>ll_is_leader := True, ll_fence := next_fence l now rec,
                         ll_last_error := None\<rparr>, s2)
                  | (Inr False, s2) \<Rightarrow> acquire_loop now as l s2))"

text \<open>The loop of \<open>acquire_or_renew\<close> makes four attempts.\<close>

definition acquire_or_renew ::
  "int \<Rightarrow> (nat \<Rightarrow> ('v, 'x) control_store attempt) \<Rightarrow> leader_lease \<Rightarrow> ('v, 'x) control_store
     \<Rightarrow> bool \<times> leader_lease \<times> ('v, 'x) control_store" where
  "acquire_or_renew now env l s = acquire_loop now (map env [0..<4]) l s"

section \<open>Validation, release and durable state\<close>

definition term_matches :: "leader_lease \<Rightarrow> string \<Rightarrow> int \<Rightarrow> int \<Rightarrow> 'v lease_doc option \<Rightarrow> bool" where
  "term_matches l owner fence now rec =
     (case rec of
        None \<Rightarrow> False
      | Some r \<Rightarrow> fd_owner_id r = Some owner \<and> with_default (fd_fence r) (-1) = fence
          \<and> \<not> expired l r now)"

definition validate ::
  "bool \<Rightarrow> string option \<Rightarrow> int option \<Rightarrow> int \<Rightarrow> leader_lease \<Rightarrow> ('v, 'x) control_store
     \<Rightarrow> (lease_error + 'v lease_doc) \<times> leader_lease" where
  "validate store_up owner fence now l s =
     (let expected_owner = (case owner of None \<Rightarrow> ll_owner_id l
                            | Some o' \<Rightarrow> if o' = [] then ll_owner_id l else o');
          expected_fence = with_default fence (ll_fence l)
      in (case read_raw store_up s of
            Inl e \<Rightarrow> (Inl e, lose l)
          | Inr (raw, None) \<Rightarrow> (Inl (Stale_Leader expected_owner expected_fence), lose l)
          | Inr (raw, Some r) \<Rightarrow>
              if term_matches l expected_owner expected_fence now (Some r) then (Inr r, l)
              else (Inl (Stale_Leader expected_owner expected_fence), lose l)))"

definition release ::
  "('v, 'x) control_store attempt \<Rightarrow> leader_lease \<Rightarrow> ('v, 'x) control_store
     \<Rightarrow> leader_lease \<times> ('v, 'x) control_store" where
  "release a l s =
     (case read_raw (at_read_up a) s of
        Inl e \<Rightarrow> (lose (l\<lparr>ll_last_error := Some e\<rparr>), s)
      | Inr (raw, None) \<Rightarrow> (lose l, s)
      | Inr (raw, Some r) \<Rightarrow>
          if fd_owner_id r = Some (ll_owner_id l) \<and> with_default (fd_fence r) (-1) = ll_fence l
          then let s1 = at_interfere a s in
            if \<not> at_cas_up a then (lose (l\<lparr>ll_last_error := Some Lease_Store_Raised\<rparr>), s1)
            else (case compare_and_swap LEASE_KEY raw
                         (Lease_Doc (lease_record l 0 (with_default (fd_fence r) (ll_fence l))
                                       (Some '''') (ld_state r))) s1 of
                    (Inl _, s2) \<Rightarrow> (lose (l\<lparr>ll_last_error := Some Lease_Store_Raised\<rparr>), s2)
                  | (Inr _, s2) \<Rightarrow> (lose l, s2))
          else (lose l, s))"

definition current_owner :: "bool \<Rightarrow> ('v, 'x) control_store \<Rightarrow> string option" where
  "current_owner store_up s =
     (case read_raw store_up s of
        Inl _ \<Rightarrow> None
      | Inr (_, None) \<Rightarrow> None
      | Inr (_, Some r) \<Rightarrow> if ownerless r then None else fd_owner_id r)"

definition read_state :: "bool \<Rightarrow> string \<Rightarrow> ('v, 'x) control_store \<Rightarrow> lease_error + 'v option" where
  "read_state store_up name s =
     (case read_raw store_up s of
        Inl e \<Rightarrow> Inl e
      | Inr (_, None) \<Rightarrow> Inr None
      | Inr (_, Some r) \<Rightarrow> Inr (map_of (with_default (ld_state r) []) name))"

definition stated_record :: "string \<Rightarrow> 'v \<Rightarrow> 'v lease_doc \<Rightarrow> 'v lease_doc" where
  "stated_record name v r = r\<lparr>ld_state := Some (AList.update name v (with_default (ld_state r) []))\<rparr>"

fun mutate_loop ::
  "int \<Rightarrow> string \<Rightarrow> 'v \<Rightarrow> ('v, 'x) control_store attempt list \<Rightarrow> leader_lease \<Rightarrow> ('v, 'x) control_store
     \<Rightarrow> (lease_error + int) \<times> leader_lease \<times> ('v, 'x) control_store" where
  "mutate_loop now name v [] l s = (Inl State_Contention, l, s)"
| "mutate_loop now name v (a # as) l s =
     (case read_raw (at_read_up a) s of
        Inl e \<Rightarrow> (Inl e, l, s)
      | Inr (raw, rec) \<Rightarrow>
          if \<not> term_matches l (ll_owner_id l) (ll_fence l) now rec
          then (Inl (Stale_Leader (ll_owner_id l) (ll_fence l)), lose l, s)
          else let s1 = at_interfere a s; r' = stated_record name v (the rec) in
            if \<not> at_cas_up a then (Inl Lease_Store_Raised, l, s1)
            else (case compare_and_swap LEASE_KEY raw (Lease_Doc r') s1 of
                    (Inl _, s2) \<Rightarrow> (Inl Lease_Store_Raised, l, s2)
                  | (Inr True, s2) \<Rightarrow>
                      (Inr (with_default (fd_fence r') 0), l\<lparr>ll_last_error := None\<rparr>, s2)
                  | (Inr False, s2) \<Rightarrow> mutate_loop now name v as l s2))"

definition mutate_state ::
  "int \<Rightarrow> string \<Rightarrow> 'v \<Rightarrow> (nat \<Rightarrow> ('v, 'x) control_store attempt) \<Rightarrow> leader_lease
     \<Rightarrow> ('v, 'x) control_store \<Rightarrow> (lease_error + int) \<times> leader_lease \<times> ('v, 'x) control_store" where
  "mutate_state now name v env l s = mutate_loop now name v (map env [0..<8]) l s"

section \<open>Presence\<close>

definition publish_presence ::
  "(string \<Rightarrow> string) \<Rightarrow> string \<Rightarrow> int \<Rightarrow> leader_lease \<Rightarrow> ('v, 'x) control_store
     \<Rightarrow> (string, ('v, 'x) control_doc) outcome" where
  "publish_presence sha role now l s =
     put (presence_key sha l)
       (Presence_Doc
          \<lparr>pd_owner_id = ll_owner_id l,
           pd_role = (if role = ''primary'' then ''primary'' else ''standby''),
           pd_observed_ms = now,
           pd_fence = (if role = ''primary'' then ll_fence l else 0)\<rparr>) s"

definition remove_presence ::
  "(string \<Rightarrow> string) \<Rightarrow> leader_lease \<Rightarrow> ('v, 'x) control_store \<Rightarrow> ('v, 'x) control_store" where
  "remove_presence sha l s = snd (delete_object (presence_key sha l) s)"

record manager_status =
  ms_owner_id :: string
  ms_role :: string
  ms_fence :: int
  ms_age_ms :: int
  ms_healthy :: bool

definition manager_presence ::
  "int \<Rightarrow> leader_lease \<Rightarrow> ('v, 'x) control_store \<Rightarrow> manager_status list" where
  "manager_presence now l s =
     sort_key ms_owner_id
       (List.map_filter
          (\<lambda>k. case get_object k s of
                 Inr (Presence_Doc p) \<Rightarrow>
                   Some \<lparr>ms_owner_id = pd_owner_id p, ms_role = pd_role p, ms_fence = pd_fence p,
                         ms_age_ms = max 0 (now - pd_observed_ms p),
                         ms_healthy = (pd_observed_ms p > 0
                           \<and> now - pd_observed_ms p \<le> ll_ttl_ms l * 2)\<rparr>
               | _ \<Rightarrow> None)
          (list_keys (PRESENCE_PREFIX @ ''/'') s))"

record lease_status =
  ls_available :: bool
  ls_degraded :: bool
  ls_owner :: "string option"
  ls_fence :: int
  ls_lease_age_ms :: "int option"
  ls_remaining_ms :: "int option"
  ls_expired :: bool
  ls_healthy_standbys :: nat
  ls_managers :: "manager_status list"

definition status ::
  "bool \<Rightarrow> int \<Rightarrow> leader_lease \<Rightarrow> ('v, 'x) control_store \<Rightarrow> lease_status \<times> leader_lease" where
  "status store_up now l s =
     (case read_raw store_up s of
        Inl e \<Rightarrow>
          (\<lparr>ls_available = False, ls_degraded = True, ls_owner = None, ls_fence = 0,
            ls_lease_age_ms = None, ls_remaining_ms = None, ls_expired = True,
            ls_healthy_standbys = 0, ls_managers = []\<rparr>, l\<lparr>ll_last_error := Some e\<rparr>)
      | Inr (_, rec) \<Rightarrow>
          let renew_ms = (case rec of None \<Rightarrow> 0 | Some r \<Rightarrow> with_default (fd_renew_ms r) 0);
              ttl_ms = (case rec of None \<Rightarrow> ll_ttl_ms l | Some r \<Rightarrow> with_default (fd_ttl_ms r) (ll_ttl_ms l));
              age = (if renew_ms \<noteq> 0 then Some (max 0 (now - renew_ms)) else None);
              gone = (case rec of None \<Rightarrow> True | Some r \<Rightarrow> ownerless r \<or> expired l r now);
              managers = manager_presence now l s;
              standbys = length (filter (\<lambda>m. ms_healthy m \<and> ms_role m = ''standby'') managers)
          in (\<lparr>ls_available = True,
               ls_degraded = (gone \<or> standbys = 0),
               ls_owner = (case rec of None \<Rightarrow> None
                           | Some r \<Rightarrow> if ownerless r then None else fd_owner_id r),
               ls_fence = (case rec of None \<Rightarrow> 0 | Some r \<Rightarrow> with_default (fd_fence r) 0),
               ls_lease_age_ms = age,
               ls_remaining_ms = Some (case age of None \<Rightarrow> 0 | Some a \<Rightarrow> max 0 (ttl_ms - a)),
               ls_expired = gone,
               ls_healthy_standbys = standbys,
               ls_managers = managers\<rparr>, l\<lparr>ll_last_error := None\<rparr>))"

section \<open>Transitions of the lease record\<close>

definition lease_at :: "('v, 'x) control_store \<Rightarrow> 'v lease_doc option" where
  "lease_at s = (case map_of s LEASE_KEY of Some (Lease_Doc r) \<Rightarrow> Some r | _ \<Rightarrow> None)"

definition wf_lease :: "'v lease_doc option \<Rightarrow> bool" where
  "wf_lease rec = (case rec of None \<Rightarrow> True | Some r \<Rightarrow> \<exists>f\<ge>0. fd_fence r = Some f)"

definition lease_ok :: "('v, 'x) control_store \<Rightarrow> bool" where
  "lease_ok s =
     (case map_of s LEASE_KEY of
        None \<Rightarrow> True
      | Some (Lease_Doc r) \<Rightarrow> wf_lease (Some r)
      | _ \<Rightarrow> False)"

definition lease_fence :: "'v lease_doc option \<Rightarrow> int" where
  "lease_fence rec = (case rec of None \<Rightarrow> 0 | Some r \<Rightarrow> max 0 (with_default (fd_fence r) 0))"

definition lease_owner :: "'v lease_doc option \<Rightarrow> string option" where
  "lease_owner rec =
     (case rec of None \<Rightarrow> None | Some r \<Rightarrow> if ownerless r then None else fd_owner_id r)"

inductive lease_trans :: "'v lease_doc option \<Rightarrow> 'v lease_doc option \<Rightarrow> bool" where
  Take: "can_take l now rec \<Longrightarrow> wf_lease rec \<Longrightarrow>
    lease_trans rec (Some (taken_record l now rec))"
| Give_Up: "fd_owner_id r = Some (ll_owner_id l) \<Longrightarrow> fd_fence r = Some (ll_fence l) \<Longrightarrow>
    lease_trans (Some r) (Some (lease_record l 0 (ll_fence l) (Some []) (ld_state r)))"
| Mutate: "lease_trans (Some r) (Some (stated_record name v r))"

lemmas lease_view_defs =
  lease_fence_def lease_owner_def ownerless_def lease_record_def wf_lease_def

interpretation lease: fenced_terms lease_trans lease_fence lease_owner
proof unfold_locales
  show "lease_trans r r' \<Longrightarrow> lease_fence r \<le> lease_fence r'" for r r' :: "'a lease_doc option"
    by (induction rule: lease_trans.induct)
       (auto simp: lease_view_defs taken_record_def next_fence_def stated_record_def
          split: option.splits)
  show "lease_trans r r' \<Longrightarrow> lease_fence r' = lease_fence r \<Longrightarrow> lease_owner r' \<noteq> None \<Longrightarrow>
      lease_owner r' = lease_owner r" for r r' :: "'a lease_doc option"
    by (induction rule: lease_trans.induct)
       (auto simp: lease_view_defs taken_record_def next_fence_def stated_record_def
          same_live_owner_def split: if_splits option.splits)
qed

lemma plain_LEASE_KEY [simp]: "plain_key LEASE_KEY"
  by (simp add: LEASE_KEY_def plain_key_def plain_segment_def)

lemma wf_lease_trans: "lease_trans rec rec' \<Longrightarrow> wf_lease rec \<Longrightarrow> wf_lease rec'"
  by (induction rule: lease_trans.induct)
     (auto simp: lease_view_defs taken_record_def next_fence_def stated_record_def
        split: option.splits)

lemma read_raw_ok:
  assumes "lease_ok s"
  shows "read_raw True s = Inr (map_option Lease_Doc (lease_at s), lease_at s)"
  using assms
  by (auto simp: read_raw_def get_object_def lease_ok_def lease_at_def
      split: option.splits control_doc.splits)

lemma read_raw_Inr:
  assumes "read_raw up s = Inr (raw, rec)"
  shows "rec = lease_at s" and "raw = map_option Lease_Doc rec" and "raw = map_of s LEASE_KEY"
  using assms
  by (auto simp: read_raw_def get_object_def lease_at_def
      split: option.splits control_doc.splits if_splits sum.splits store_error.splits)

text \<open>
  What another process may do between two store calls: any number of lease transitions, and
  anything at all to other keys.
\<close>

definition rely :: "(('v, 'x) control_store \<Rightarrow> ('v, 'x) control_store) \<Rightarrow> bool" where
  "rely f \<longleftrightarrow> (\<forall>s. lease_ok s \<longrightarrow> lease_ok (f s) \<and> lease_trans\<^sup>*\<^sup>* (lease_at s) (lease_at (f s)))"

lemma swap_lease:
  assumes "compare_and_swap LEASE_KEY (map_option Lease_Doc rec) (Lease_Doc r') s = (res, s')"
  shows "res = Inr (map_of s LEASE_KEY = map_option Lease_Doc rec)"
    and "res = Inr True \<Longrightarrow> lease_at s' = Some r' \<and> (lease_ok s' \<longleftrightarrow> wf_lease (Some r'))"
    and "res = Inr True \<Longrightarrow> lease_at s = rec"
    and "res = Inr False \<Longrightarrow> s' = s"
  using assms
  by (auto simp: compare_and_swap_def lease_at_def lease_ok_def split: if_splits option.splits)

text \<open>One attempt stands by or fails, takes the lease, or is retried after a lost race.\<close>

definition took :: "int \<Rightarrow> leader_lease \<Rightarrow> 'v lease_doc option \<Rightarrow> leader_lease \<Rightarrow> ('v, 'x) control_store \<Rightarrow> bool"
where
  "took now l rec0 l' s' \<longleftrightarrow>
     (\<exists>rec. lease_trans\<^sup>*\<^sup>* rec0 rec \<and> can_take l now rec \<and> wf_lease rec
        \<and> lease_at s' = Some (taken_record l now rec)
        \<and> ll_is_leader l' \<and> ll_fence l' = next_fence l now rec \<and> ll_owner_id l' = ll_owner_id l)"

lemma wf_lease_at: "lease_ok s \<Longrightarrow> wf_lease (lease_at s)"
  by (auto simp: lease_ok_def lease_at_def wf_lease_def split: option.splits control_doc.splits)

lemma swap_taken:
  assumes "lease_ok s1" and "can_take l now rec"
    and "compare_and_swap LEASE_KEY (map_option Lease_Doc rec) (Lease_Doc (taken_record l now rec)) s1
      = (Inr True, s2)"
  shows "lease_ok s2 \<and> lease_trans (lease_at s1) (lease_at s2) \<and> lease_at s1 = rec
    \<and> lease_at s2 = Some (taken_record l now rec) \<and> wf_lease rec"
proof -
  note swap = swap_lease [OF assms(3)]
  have wf: "wf_lease rec" using wf_lease_at [OF assms(1)] swap(3) by simp
  then have tr: "lease_trans rec (Some (taken_record l now rec))"
    using assms(2) by (auto intro: lease_trans.Take)
  then show ?thesis using swap wf wf_lease_trans [OF tr wf] by auto
qed

lemma lose_error [simp]: "(lose l)\<lparr>ll_last_error := e\<rparr> = lose (l\<lparr>ll_last_error := e\<rparr>)"
  by (simp add: lose_def)

lemma acquire_attempt [consumes 2, case_names stop taken again]:
  assumes "lease_ok s" and "rely (at_interfere a)"
  obtains (stop) l' s1 where "acquire_loop now (a # as) l s = (False, lose l', s1)" "lease_ok s1"
      "lease_trans\<^sup>*\<^sup>* (lease_at s) (lease_at s1)"
  | (taken) l' s2 where "acquire_loop now (a # as) l s = (True, l', s2)" "lease_ok s2"
      "lease_trans\<^sup>*\<^sup>* (lease_at s) (lease_at s2)" "took now l (lease_at s) l' s2"
  | (again) s1 where "acquire_loop now (a # as) l s = acquire_loop now as l s1" "lease_ok s1"
      "lease_trans\<^sup>*\<^sup>* (lease_at s) (lease_at s1)"
proof (cases "\<exists>raw rec. read_raw (at_read_up a) s = Inr (raw, rec) \<and> can_take l now rec \<and> at_cas_up a")
  case False
  define s1 where "s1 = at_interfere a s"
  have "lease_ok s1" "lease_trans\<^sup>*\<^sup>* (lease_at s) (lease_at s1)"
    using assms by (auto simp: s1_def rely_def)
  moreover have "\<exists>e s'. acquire_loop now (a # as) l s = (False, lose (l\<lparr>ll_last_error := e\<rparr>), s')
      \<and> (s' = s \<or> s' = s1)"
    using False by (cases "read_raw (at_read_up a) s") (auto simp: s1_def Let_def)
  ultimately show ?thesis using assms(1) stop by blast
next
  case True
  then obtain raw rec where read: "read_raw (at_read_up a) s = Inr (raw, rec)"
    and take: "can_take l now rec" "at_cas_up a" by auto
  define s1 where "s1 = at_interfere a s"
  have s1: "lease_ok s1" "lease_trans\<^sup>*\<^sup>* (lease_at s) (lease_at s1)"
    using assms by (auto simp: s1_def rely_def)
  obtain res s2 where cas: "compare_and_swap LEASE_KEY (map_option Lease_Doc rec)
      (Lease_Doc (taken_record l now rec)) s1 = (res, s2)" by fastforce
  show ?thesis
  proof (cases "res = Inr True")
    case hit: True
    note swap = swap_taken [OF s1(1) take(1) cas [unfolded hit]]
    show ?thesis
      using swap s1 read take cas hit read_raw_Inr [OF read]
      by (intro taken [of _ s2])
         (auto simp: s1_def Let_def took_def intro: rtranclp.rtrancl_into_rtrancl)
  next
    case False
    then have "res = Inr False" "s2 = s1" using swap_lease [OF cas] by auto
    then show ?thesis
      using s1 read take cas read_raw_Inr [OF read]
      by (intro again [of s1]) (simp_all add: s1_def Let_def)
  qed
qed

lemma acquire_loop_refines:
  assumes "acquire_loop now as l s = (b, l', s')" and "lease_ok s"
    and "\<forall>a\<in>set as. rely (at_interfere a)"
  shows "lease_ok s' \<and> lease_trans\<^sup>*\<^sup>* (lease_at s) (lease_at s')
    \<and> (b \<longrightarrow> took now l (lease_at s) l' s') \<and> (\<not> b \<longrightarrow> \<not> ll_is_leader l' \<and> ll_fence l' = 0)"
  using assms
proof (induction as arbitrary: s)
  case (Cons a as)
  have "rely (at_interfere a)" using Cons.prems(3) by simp
  with Cons.prems(2) show ?case
  proof (cases rule: acquire_attempt [where now = now and as = as and l = l])
    case (again s1)
    then show ?thesis
      using Cons.IH [of s1] Cons.prems
      by (auto simp: took_def simp del: acquire_loop.simps intro: rtranclp_trans)
  qed (use Cons.prems in \<open>auto simp: lose_def simp del: acquire_loop.simps\<close>)
qed (auto simp: lose_def)

definition lease_view :: "('v, 'x) control_doc \<Rightarrow> fence_doc option" where
  "lease_view d = (case d of Lease_Doc r \<Rightarrow> Some (fence_doc.truncate r) | _ \<Rightarrow> None)"

lemma acquire_refines:
  assumes "acquire_or_renew now env l s = (b, l', s')" and "lease_ok s"
    and "\<forall>i. rely (at_interfere (env i))"
  shows "lease_ok s'" and "lease_trans\<^sup>*\<^sup>* (lease_at s) (lease_at s')"
    and "b \<Longrightarrow> took now l (lease_at s) l' s'"
    and "\<not> b \<Longrightarrow> \<not> ll_is_leader l' \<and> ll_fence l' = 0"
  using acquire_loop_refines [OF assms(1) [unfolded acquire_or_renew_def] assms(2)] assms(3) by auto

lemma took_record:
  assumes "took now l rec0 l' s'" and "ll_owner_id l \<noteq> []"
  shows "lease_owner (lease_at s') = Some (ll_owner_id l)"
    and "lease_fence (lease_at s') = ll_fence l'"
proof -
  obtain rec where rec: "wf_lease rec" "lease_at s' = Some (taken_record l now rec)"
    "ll_fence l' = next_fence l now rec" using assms(1) by (auto simp: took_def)
  then have "0 \<le> next_fence l now rec"
    by (auto simp: next_fence_def wf_lease_def split: option.splits)
  with rec assms(2) show "lease_owner (lease_at s') = Some (ll_owner_id l)"
    "lease_fence (lease_at s') = ll_fence l'"
    by (auto simp: lease_view_defs taken_record_def)
qed

section \<open>Properties of the lease\<close>

lemma rely_calm [simp]: "rely (at_interfere calm)"
  by (simp add: rely_def calm_def)

lemma acquire_calm:
  assumes "lease_ok s"
  shows "acquire_or_renew now (\<lambda>_. calm) l s =
    (if can_take l now (lease_at s)
     then (True, l\<lparr>ll_is_leader := True, ll_fence := next_fence l now (lease_at s), ll_last_error := None\<rparr>,
           AList.update LEASE_KEY (Lease_Doc (taken_record l now (lease_at s))) s)
     else (False, (lose l)\<lparr>ll_last_error := None\<rparr>, s))"
proof -
  have "[0..<4::nat] = 0 # [1..<4]" by (simp add: upt_rec)
  moreover have "map_of s LEASE_KEY = map_option Lease_Doc (lease_at s)"
    using read_raw_Inr [OF read_raw_ok [OF assms]] by simp
  ultimately show ?thesis
    using read_raw_ok [OF assms]
    by (auto simp: acquire_or_renew_def calm_def Let_def compare_and_swap_def simp del: upt.simps)
qed

lemma handover:
  "\<exists>l1 s1 l2 s2. lease_ok ([] :: (int, int) control_store) \<and> lease_ok s1 \<and> lease_ok s2
     \<and> acquire_or_renew 0 (\<lambda>_. calm) (new_lease ''A'' 10) ([] :: (int, int) control_store) = (True, l1, s1)
     \<and> acquire_or_renew 11 (\<lambda>_. calm) (new_lease ''B'' 10) s1 = (True, l2, s2)
     \<and> ll_fence l1 = 1"
proof -
  define s1 :: "(int, int) control_store"
    where "s1 = AList.update LEASE_KEY (Lease_Doc (taken_record (new_lease ''A'' 10) 0 None)) []"
  have ok: "lease_ok ([] :: (int, int) control_store)" "lease_at ([] :: (int, int) control_store) = None"
    by (simp_all add: lease_ok_def lease_at_def)
  have ok1: "lease_ok s1" "lease_at s1 = Some (taken_record (new_lease ''A'' 10) 0 None)"
    by (simp_all add: s1_def lease_ok_def lease_at_def wf_lease_def taken_record_def lease_record_def
        next_fence_def)
  have take: "can_take (new_lease ''B'' 10) 11 (lease_at s1)"
    by (simp add: ok1 can_take_def taken_record_def lease_record_def expired_def new_lease_def)
  have first: "acquire_or_renew 0 (\<lambda>_. calm) (new_lease ''A'' 10) ([] :: (int, int) control_store)
      = (True, (new_lease ''A'' 10)\<lparr>ll_is_leader := True, ll_fence := 1, ll_last_error := None\<rparr>, s1)"
    using ok by (simp add: acquire_calm can_take_def s1_def next_fence_def)
  obtain l2 s2 where second:
    "acquire_or_renew 11 (\<lambda>_. calm) (new_lease ''B'' 10) s1 = (True, l2, s2)"
    using ok1(1) take by (simp add: acquire_calm)
  then have "lease_ok s2" using ok1(1) acquire_refines(1) rely_calm by blast
  then show ?thesis using ok(1) ok1(1) first second by fastforce
qed

text \<open>
  C1: Leadership is exclusive per fence. If one manager acquires the lease, any lease activity
  of any managers follows, and then a manager acquires it (each attempt racing with arbitrary
  lease activity of others), the second term's fence is not smaller, and it equals the first
  fence only if the two managers are the same.
\<close>

theorem acquire_terms_exclusive:
  assumes "lease_ok s0" and "\<forall>i. rely (at_interfere (env1 i))" and "\<forall>i. rely (at_interfere (env2 i))"
    and "acquire_or_renew now1 env1 l1 s0 = (True, l1', s1)"
    and "lease_ok s2" and "lease_trans\<^sup>*\<^sup>* (lease_at s1) (lease_at s2)"
    and "acquire_or_renew now2 env2 l2 s2 = (True, l2', s3)"
    and "ll_owner_id l1 \<noteq> []" and "ll_owner_id l2 \<noteq> []"
  shows "ll_fence l1' \<le> ll_fence l2'
    \<and> (ll_owner_id l2 \<noteq> ll_owner_id l1 \<longrightarrow> ll_fence l1' < ll_fence l2')"
proof -
  note one = took_record [OF acquire_refines(3) [OF assms(4,1,2) TrueI] assms(8)]
  note two = took_record [OF acquire_refines(3) [OF assms(7,5,3) TrueI] assms(9)]
  have run: "lease_trans\<^sup>*\<^sup>* (lease_at s1) (lease_at s3)"
    using assms(6) acquire_refines(2) [OF assms(7,5,3)] by (rule rtranclp_trans)
  show ?thesis
    using lease.fence_mono [OF run] lease.new_owner_raises_fence [OF run] one two by auto
qed

theorem acquire_terms_exclusive_witness:
  "\<exists>l1 s1 l2 s2.
     acquire_or_renew 0 (\<lambda>_. calm) (new_lease ''A'' 10) ([] :: (int, int) control_store) = (True, l1, s1)
     \<and> acquire_or_renew 11 (\<lambda>_. calm) (new_lease ''B'' 10) s1 = (True, l2, s2)
     \<and> ll_fence l1 < ll_fence l2"
proof -
  obtain l1 s1 l2 s2 where run:
    "acquire_or_renew 0 (\<lambda>_. calm) (new_lease ''A'' 10) ([] :: (int, int) control_store) = (True, l1, s1)"
    "acquire_or_renew 11 (\<lambda>_. calm) (new_lease ''B'' 10) s1 = (True, l2, s2)"
    and ok: "lease_ok ([] :: (int, int) control_store)" "lease_ok s1"
    using handover by blast
  show ?thesis
    using run acquire_terms_exclusive [OF ok(1) _ _ run(1) ok(2) rtranclp.rtrancl_refl run(2)]
    by (simp add: new_lease_def)
qed

text \<open>
  C2: A deposed leader is fenced off for good. Once another manager has acquired the lease,
  no fenced write or delete under the old leader's term succeeds at any later time, whatever lease
  activity happens in between and whatever the clock says; the store stays unchanged.
\<close>

theorem deposed_leader_fenced:
  assumes "lease_ok s0" and "\<forall>i. rely (at_interfere (env1 i))" and "\<forall>i. rely (at_interfere (env2 i))"
    and "acquire_or_renew now1 env1 l1 s0 = (True, l1', s1)"
    and "lease_ok s2" and "lease_trans\<^sup>*\<^sup>* (lease_at s1) (lease_at s2)"
    and "acquire_or_renew now2 env2 l2 s2 = (True, l2', s3)"
    and "ll_owner_id l1 \<noteq> []" and "ll_owner_id l2 \<noteq> []" and "ll_owner_id l2 \<noteq> ll_owner_id l1"
    and "lease_ok s4" and "lease_trans\<^sup>*\<^sup>* (lease_at s3) (lease_at s4)"
  shows "fenced_put lease_view now LEASE_KEY (ll_owner_id l1) (ll_fence l1') key d s4 = (Inr False, s4)
    \<and> fenced_delete lease_view now LEASE_KEY (ll_owner_id l1) (ll_fence l1') key s4 = (Inr None, s4)"
proof -
  note one = took_record [OF acquire_refines(3) [OF assms(4,1,2) TrueI] assms(8)]
  note two = took_record [OF acquire_refines(3) [OF assms(7,5,3) TrueI] assms(9)]
  have "lease_trans\<^sup>*\<^sup>* (lease_at s1) (lease_at s3)"
    using assms(6) acquire_refines(2) [OF assms(7,5,3)] by (rule rtranclp_trans)
  then have "lease_fence (lease_at s4) \<noteq> ll_fence l1'"
    using lease.superseded_term_never_returns [of "lease_at s1" "lease_at s3" "lease_at s4"] one two
      assms(10,12) by simp
  then have "fence_matches lease_view now LEASE_KEY (ll_owner_id l1) (ll_fence l1') s4 = Inr False"
    using assms(11)
    by (auto simp: fence_matches_def lease_view_def lease_fence_def lease_at_def lease_ok_def
        wf_lease_def fence_doc.defs split: option.splits control_doc.splits)
  then show ?thesis by (simp add: fenced_put_def fenced_delete_def)
qed

theorem deposed_leader_fenced_witness:
  "\<exists>l1 s1 l2 s2.
     acquire_or_renew 0 (\<lambda>_. calm) (new_lease ''A'' 10) ([] :: (int, int) control_store) = (True, l1, s1)
     \<and> acquire_or_renew 11 (\<lambda>_. calm) (new_lease ''B'' 10) s1 = (True, l2, s2)
     \<and> fenced_put lease_view 12 LEASE_KEY ''A'' (ll_fence l1) ''k'' (Other_Doc 7) s2 = (Inr False, s2)"
proof -
  obtain l1 s1 l2 s2 where run:
    "acquire_or_renew 0 (\<lambda>_. calm) (new_lease ''A'' 10) ([] :: (int, int) control_store) = (True, l1, s1)"
    "acquire_or_renew 11 (\<lambda>_. calm) (new_lease ''B'' 10) s1 = (True, l2, s2)"
    and ok: "lease_ok ([] :: (int, int) control_store)" "lease_ok s1" "lease_ok s2"
    using handover by blast
  show ?thesis
    using run deposed_leader_fenced [OF ok(1) _ _ run(1) ok(2) rtranclp.rtrancl_refl run(2) _ _ _ ok(3)
        rtranclp.rtrancl_refl, of 12 "''k''" "Other_Doc 7"]
    by (auto simp: new_lease_def)
qed

text \<open>
  Acquisition without a race. The lease is taken exactly when it is absent, released,
  expired or already held live by the same manager; otherwise the caller becomes a standby and the
  store is unchanged. A renewal keeps the fence and every other takeover adds one to it. The new
  record names the caller as owner at the present time with the caller's TTL, and the durable state
  of the previous terms is carried over.
\<close>

theorem acquire_uncontended:
  assumes "lease_ok s"
  shows "let (b, l', s') = acquire_or_renew now (\<lambda>_. calm) l s in
    b = (case lease_at s of None \<Rightarrow> True
         | Some r \<Rightarrow> ownerless r \<or> expired l r now \<or> fd_owner_id r = Some (ll_owner_id l))
    \<and> ll_is_leader l' = b \<and> ll_owner_id l' = ll_owner_id l
    \<and> (\<not> b \<longrightarrow> s' = s)
    \<and> (b \<longrightarrow> (\<exists>r'. lease_at s' = Some r' \<and> fd_owner_id r' = Some (ll_owner_id l)
         \<and> fd_fence r' = Some (ll_fence l') \<and> fd_renew_ms r' = Some now \<and> fd_ttl_ms r' = Some (ll_ttl_ms l)
         \<and> ll_fence l' = (case lease_at s of None \<Rightarrow> 1
              | Some r \<Rightarrow> the (fd_fence r) + (if same_live_owner l now r then 0 else 1)))
       \<and> (\<forall>name. read_state True name s' = read_state True name s)
       \<and> (\<forall>k. k \<noteq> LEASE_KEY \<longrightarrow> map_of s' k = map_of s k))"
proof (cases "can_take l now (lease_at s)")
  case True
  let ?r = "taken_record l now (lease_at s)"
  have new: "lease_at (AList.update LEASE_KEY (Lease_Doc ?r) s) = Some ?r"
    "map_of (AList.update LEASE_KEY (Lease_Doc ?r) s) LEASE_KEY = Some (Lease_Doc ?r)"
    by (simp_all add: lease_at_def)
  then have "lease_ok (AList.update LEASE_KEY (Lease_Doc ?r) s)"
    by (simp add: lease_ok_def wf_lease_trans [OF lease_trans.Take] True wf_lease_at [OF assms])
  then have "read_state True name (AList.update LEASE_KEY (Lease_Doc ?r) s) = read_state True name s" for name
    using assms new
    by (simp add: read_state_def read_raw_ok taken_record_def lease_record_def split: option.splits)
  moreover have "wf_lease (lease_at s)" using assms by (rule wf_lease_at)
  ultimately show ?thesis
    using assms True new
    by (auto simp: acquire_calm taken_record_def lease_record_def next_fence_def wf_lease_def can_take_def
        same_live_owner_def split: option.splits)
next
  case False
  then show ?thesis using assms
    by (auto simp: acquire_calm can_take_def lose_def same_live_owner_def split: option.splits)
qed

theorem acquire_uncontended_witness:
  "lease_ok ([] :: (int, int) control_store)
   \<and> fst (acquire_or_renew 5 (\<lambda>_. calm) (new_lease ''A'' 10) ([] :: (int, int) control_store))"
proof -
  have ok: "lease_ok ([] :: (int, int) control_store)" "lease_at ([] :: (int, int) control_store) = None"
    by (simp_all add: lease_ok_def lease_at_def)
  show ?thesis
    using acquire_uncontended [OF ok(1), of 5 "new_lease ''A'' 10"] ok by (auto simp: Let_def)
qed

text \<open>Release and state updates are lease transitions too, so they satisfy the rely condition of others.\<close>

lemma swap_trans:
  assumes "compare_and_swap LEASE_KEY (map_option Lease_Doc rec) (Lease_Doc r') s1 = (Inr True, s2)"
    and "lease_ok s1" and "lease_trans rec (Some r')"
  shows "lease_ok s2 \<and> lease_trans (lease_at s1) (lease_at s2)"
  using swap_lease [OF assms(1)] wf_lease_at [OF assms(2)] wf_lease_trans [OF assms(3)] assms(3) by auto

lemma swap_step:
  assumes "compare_and_swap LEASE_KEY (map_option Lease_Doc rec) (Lease_Doc r') s1 = (res, s2)"
    and "lease_ok s1" and "lease_trans rec (Some r')" and "lease_trans\<^sup>*\<^sup>* r0 (lease_at s1)"
  shows "lease_ok s2 \<and> lease_trans\<^sup>*\<^sup>* r0 (lease_at s2)"
  using swap_trans [of rec r' s1 s2] swap_lease [OF assms(1)] assms
  by (cases "res = Inr True") (auto intro: rtranclp.rtrancl_into_rtrancl)

lemma release_refines:
  assumes "release a l s = (l', s')" and "lease_ok s" and "rely (at_interfere a)" and "0 \<le> ll_fence l"
  shows "lease_ok s' \<and> lease_trans\<^sup>*\<^sup>* (lease_at s) (lease_at s')
    \<and> \<not> ll_is_leader l' \<and> ll_fence l' = 0"
proof (cases "read_raw (at_read_up a) s")
  case (Inr p)
  obtain raw rec where p: "p = (raw, rec)" by fastforce
  note raw = read_raw_Inr [OF Inr [unfolded p]]
  define s1 where "s1 = at_interfere a s"
  have s1: "lease_ok s1" "lease_trans\<^sup>*\<^sup>* (lease_at s) (lease_at s1)"
    using assms by (auto simp: s1_def rely_def)
  show ?thesis
  proof (cases "\<exists>r. rec = Some r \<and> fd_owner_id r = Some (ll_owner_id l)
      \<and> with_default (fd_fence r) (-1) = ll_fence l \<and> at_cas_up a")
    case True
    then obtain r where r: "rec = Some r" "fd_owner_id r = Some (ll_owner_id l)"
      "fd_fence r = Some (ll_fence l)" "at_cas_up a"
      using assms(4) by (auto split: option.splits)
    let ?r' = "lease_record l 0 (ll_fence l) (Some []) (ld_state r)"
    obtain res s2 where cas:
      "compare_and_swap LEASE_KEY (map_option Lease_Doc rec) (Lease_Doc ?r') s1 = (res, s2)" by fastforce
    have "lease_trans rec (Some ?r')" using r lease_trans.Give_Up [of r l] by simp
    then have "lease_ok s2 \<and> lease_trans\<^sup>*\<^sup>* (lease_at s) (lease_at s2)"
      using swap_step [OF cas s1(1) _ s1(2)] by simp
    then show ?thesis
      using assms(1) Inr p r raw cas
      by (cases res) (auto simp: release_def Let_def s1_def lose_def)
  qed (use assms s1 Inr p in
      \<open>auto simp: release_def Let_def s1_def lose_def split: option.splits if_splits\<close>)
qed (use assms in \<open>auto simp: release_def lose_def\<close>)

lemma read_raw_cases [case_names Raised Missing Present]:
  obtains (Raised) e where "read_raw up s = Inl e"
  | (Missing) raw where "read_raw up s = Inr (raw, None)"
  | (Present) raw r where "read_raw up s = Inr (raw, Some r)"
  by (metis option.exhaust sumE surj_pair)

lemma term_matches_None [simp]: "\<not> term_matches l owner fence now None"
  by (simp add: term_matches_def)

lemma mutate_loop_refines:
  assumes "mutate_loop now name v as l s = (res, l', s')" and "lease_ok s"
    and "\<forall>a\<in>set as. rely (at_interfere a)"
  shows "lease_ok s' \<and> lease_trans\<^sup>*\<^sup>* (lease_at s) (lease_at s')
    \<and> (\<forall>f. res = Inr f \<longrightarrow> (\<exists>r. lease_trans\<^sup>*\<^sup>* (lease_at s) (Some r)
         \<and> term_matches l (ll_owner_id l) (ll_fence l) now (Some r)
         \<and> lease_at s' = Some (stated_record name v r)))"
  using assms
proof (induction as arbitrary: s)
  case (Cons a as)
  define s1 where "s1 = at_interfere a s"
  have s1: "lease_ok s1" "lease_trans\<^sup>*\<^sup>* (lease_at s) (lease_at s1)"
    using Cons.prems by (auto simp: s1_def rely_def)
  show ?case
  proof (cases "\<exists>raw r. read_raw (at_read_up a) s = Inr (raw, Some r)
      \<and> term_matches l (ll_owner_id l) (ll_fence l) now (Some r) \<and> at_cas_up a")
    case True
    then obtain raw r where r: "read_raw (at_read_up a) s = Inr (raw, Some r)"
      "term_matches l (ll_owner_id l) (ll_fence l) now (Some r)" "at_cas_up a" by auto
    note raw = read_raw_Inr [OF r(1)]
    let ?r' = "stated_record name v r"
    obtain res2 s2 where cas:
      "compare_and_swap LEASE_KEY (map_option Lease_Doc (Some r)) (Lease_Doc ?r') s1 = (res2, s2)"
      by fastforce
    note step = swap_step [OF cas s1(1) lease_trans.Mutate s1(2)]
    note swap = swap_lease [OF cas]
    show ?thesis
    proof (cases "res2 = Inr True")
      case True
      then show ?thesis
        using Cons.prems(1) r raw(1) [symmetric] raw(2) cas step swap(2,3) s1 by (auto simp: s1_def Let_def)
    next
      case False
      then have "res2 = Inr False" "s2 = s1" using swap by auto
      then have "mutate_loop now name v as l s1 = (res, l', s')"
        using Cons.prems(1) r raw(2) cas by (auto simp: s1_def Let_def)
      then show ?thesis
        using Cons.IH [of s1] Cons.prems(3) s1 by (auto intro: rtranclp_trans)
    qed
  next
    case False
    then have "res \<noteq> Inr f \<and> (s' = s \<or> s' = s1)" for f
      using Cons.prems(1)
      by (cases rule: read_raw_cases [of "at_read_up a" s]; cases "at_cas_up a")
         (auto simp: s1_def Let_def split: if_splits)
    then show ?thesis using s1 Cons.prems(2) by auto
  qed
qed auto

lemma mutate_durable:
  assumes "lease_ok s" and "\<forall>i. rely (at_interfere (env i))"
    and "mutate_state now name v env l s = (Inr f, l', s')"
    and "acquire_or_renew now2 (\<lambda>_. calm) l2 s' = (b, l2', s'')"
  shows "read_state True name s' = Inr (Some v) \<and> read_state True name s'' = Inr (Some v)"
proof -
  have "\<forall>a\<in>set (map env [0..<8]). rely (at_interfere a)" using assms(2) by auto
  note refines = mutate_loop_refines [OF assms(3) [unfolded mutate_state_def] assms(1) this]
  then obtain r where ok: "lease_ok s'" and r: "lease_at s' = Some (stated_record name v r)" by auto
  have one: "read_state True name s' = Inr (Some v)"
    using ok r by (simp add: read_state_def read_raw_ok stated_record_def)
  let ?t = "taken_record l2 now2 (lease_at s')"
  have "lease_ok (AList.update LEASE_KEY (Lease_Doc ?t) s')" if "can_take l2 now2 (lease_at s')"
    using wf_lease_trans [OF lease_trans.Take] that wf_lease_at [OF ok] by (simp add: lease_ok_def)
  then have "read_state True name (AList.update LEASE_KEY (Lease_Doc ?t) s') = Inr (Some v)"
    if "can_take l2 now2 (lease_at s')"
    using that r
    by (simp add: read_state_def read_raw_ok lease_at_def [of "AList.update _ _ _"] taken_record_def
        lease_record_def stated_record_def)
  then show ?thesis
    using one assms(4) by (auto simp: acquire_calm [OF ok] split: if_splits)
qed

text \<open>
  C3: Durable state survives a failover. If a leader's \<open>mutate_state\<close> reports success, racing with any
  lease activity, the value is what \<open>read_state\<close> returns right afterwards, and still what it returns
  after a different manager has taken the lease over.
\<close>

theorem mutate_state_survives_failover:
  assumes "lease_ok s" and "\<forall>i. rely (at_interfere (env i))"
    and "mutate_state now name v env l s = (Inr f, l', s')"
    and "acquire_or_renew now2 (\<lambda>_. calm) l2 s' = (b, l2', s'')"
  shows "read_state True name s' = Inr (Some v) \<and> read_state True name s'' = Inr (Some v)"
  using assms by (rule mutate_durable)

definition demo_leader :: leader_lease where
  "demo_leader = (new_lease ''A'' 10)\<lparr>ll_is_leader := True, ll_fence := 1\<rparr>"

definition demo_store :: "(int, int) control_store" where
  "demo_store = [(LEASE_KEY, Lease_Doc (taken_record (new_lease ''A'' 10) 1 None))]"

lemmas demo_defs = demo_leader_def new_lease_def taken_record_def lease_record_def
  next_fence_def

lemma demo_ok: "lease_ok demo_store" "lease_at demo_store = Some (taken_record (new_lease ''A'' 10) 1 None)"
  by (simp_all add: lease_ok_def lease_at_def wf_lease_def demo_store_def demo_defs)

lemma demo_mutate:
  "\<exists>l' s'. mutate_state 5 ''plan'' 7 (\<lambda>_. calm) demo_leader demo_store = (Inr 1, l', s')"
proof -
  have "[0..<8::nat] = 0 # [1..<8]" by (simp add: upt_rec)
  moreover have "term_matches demo_leader ''A'' 1 5 (lease_at demo_store)"
    "ll_owner_id demo_leader = ''A''" "ll_fence demo_leader = 1"
    by (simp_all add: demo_ok term_matches_def demo_defs expired_def)
  ultimately show ?thesis
    using read_raw_ok [OF demo_ok(1)] read_raw_Inr(3) [OF read_raw_ok [OF demo_ok(1)]]
    by (simp add: mutate_state_def calm_def Let_def compare_and_swap_def stated_record_def demo_ok(2)
        taken_record_def lease_record_def next_fence_def del: upt.simps)
qed

theorem mutate_state_survives_failover_witness:
  "\<exists>l' s' b l2' s''. mutate_state 5 ''plan'' 7 (\<lambda>_. calm) demo_leader demo_store = (Inr 1, l', s')
     \<and> acquire_or_renew 20 (\<lambda>_. calm) (new_lease ''B'' 10) s' = (b, l2', s'')
     \<and> read_state True ''plan'' s'' = Inr (Some 7)"
proof -
  obtain l' s' where m: "mutate_state 5 ''plan'' 7 (\<lambda>_. calm) demo_leader demo_store = (Inr 1, l', s')"
    using demo_mutate by blast
  obtain b l2' s'' where a: "acquire_or_renew 20 (\<lambda>_. calm) (new_lease ''B'' 10) s' = (b, l2', s'')"
    using prod_cases3 by blast
  show ?thesis
    using m a mutate_state_survives_failover [OF demo_ok(1) _ m a] by simp
qed

text \<open>
  The manager's own check and the store's fence check agree. For a live lease record with a positive
  renewal time (what every acquisition writes), \<open>validate\<close> succeeds for the lease holder exactly when
  the store accepts a fenced write under the holder's owner id and fence at the same instant; a failed
  validation drops the leadership flag.
\<close>

theorem validate_iff_fenced_put:
  assumes "lease_ok s" and "plain_key key" and "ll_owner_id l \<noteq> []"
    and "\<forall>r. lease_at s = Some r \<longrightarrow> (\<exists>owner t ttl. fd_owner_id r = Some owner
      \<and> fd_renew_ms r = Some t \<and> 0 < t \<and> fd_ttl_ms r = Some ttl)"
  shows "((\<exists>r. fst (validate True None None now l s) = Inr r)
      \<longleftrightarrow> fst (fenced_put lease_view now LEASE_KEY (ll_owner_id l) (ll_fence l) key d s) = Inr True)
    \<and> ((\<exists>r. fst (validate True None None now l s) = Inr r)
      \<or> \<not> ll_is_leader (snd (validate True None None now l s)))"
proof (cases "lease_at s")
  case None
  then have "map_of s LEASE_KEY = None"
    using read_raw_Inr(3) [OF read_raw_ok [OF assms(1)]] by simp
  then show ?thesis
    using None assms(1)
    by (auto simp: validate_def read_raw_ok fenced_put_def fence_matches_def Let_def lose_def)
next
  case (Some r)
  then have stored: "map_of s LEASE_KEY = Some (Lease_Doc r)"
    using read_raw_Inr(3) [OF read_raw_ok [OF assms(1)]] by simp
  obtain owner t ttl f where r: "fd_owner_id r = Some owner" "fd_renew_ms r = Some t" "0 < t"
    "fd_ttl_ms r = Some ttl" "fd_fence r = Some f"
    using assms(4) Some wf_lease_at [OF assms(1)] by (auto simp: wf_lease_def)
  have "fence_matches lease_view now LEASE_KEY (ll_owner_id l) (ll_fence l) s =
      Inr (term_matches l (ll_owner_id l) (ll_fence l) now (Some r))"
    using r stored
    by (simp add: fence_matches_def lease_view_def fence_doc.defs term_matches_def expired_def
        fence_live_def not_less)
  then show ?thesis
    using Some assms(1,2)
    by (auto simp: validate_def read_raw_ok fenced_put_def put_def Let_def lose_def split: bool.splits)
qed

theorem validate_iff_fenced_put_witness:
  "fst (fenced_put lease_view 5 LEASE_KEY ''A'' 1 ''k'' (Other_Doc 3) demo_store) = Inr True"
proof -
  have "validate True None None 5 demo_leader demo_store
      = (Inr (taken_record (new_lease ''A'' 10) 1 None), demo_leader)"
    using demo_ok by (simp add: validate_def read_raw_ok term_matches_def demo_defs expired_def Let_def)
  then show ?thesis
    using validate_iff_fenced_put [OF demo_ok(1), of "''k''" demo_leader 5 "Other_Doc 3"] demo_ok(2)
    by (auto simp: demo_defs plain_key_def plain_segment_def)
qed

end
