(* ===== verification/Lru_Cache.thy ===== *)
theory Lru_Cache
  imports Artifact_Store "HOL-Library.Sublist"
begin

text \<open>
  The byte caches (\<open>cache/lru_cache.py\<close>): \<open>BytesLRUCache\<close> with its TTL and byte budget, and the
  module-level Parquet cache in four tiers: pinned snapshot files, the in-memory LRU cache, the
  disk cache addressed by the hash of the key, and the artifact store.

  The monotonic clock is the argument \<open>now\<close>. \<open>tier_env\<close> holds the configuration switches and, for one
  call, whether the disk and the artifact store answer without an \<open>OSError\<close> or another exception
  (all such errors are caught and the tier is skipped). Metrics and logging are left out.
\<close>

section \<open>BytesLRUCache\<close>

record lru =
  lru_max_bytes :: int
  lru_ttl :: int
  lru_store :: "(string, bytes \<times> int) dict"
  lru_bytes :: int

definition new_lru :: "int \<Rightarrow> int \<Rightarrow> lru" where
  "new_lru max_bytes ttl = \<lparr>lru_max_bytes = max_bytes, lru_ttl = ttl, lru_store = [], lru_bytes = 0\<rparr>"

definition evict :: "string \<Rightarrow> lru \<Rightarrow> lru" where
  "evict key c =
     (case map_of (lru_store c) key of
        None \<Rightarrow> c
      | Some (data, _) \<Rightarrow>
          c\<lparr>lru_store := AList.delete key (lru_store c), lru_bytes := lru_bytes c - int (length data)\<rparr>)"

definition move_to_end :: "'k \<Rightarrow> ('k, 'v) dict \<Rightarrow> ('k, 'v) dict" where
  "move_to_end key d = AList.delete key d @ filter (\<lambda>(k, _). k = key) d"

definition lru_get :: "int \<Rightarrow> string \<Rightarrow> lru \<Rightarrow> bytes option \<times> lru" where
  "lru_get now key c =
     (case map_of (lru_store c) key of
        None \<Rightarrow> (None, c)
      | Some (data, expiry) \<Rightarrow>
          if now > expiry then (None, evict key c)
          else (Some data, c\<lparr>lru_store := move_to_end key (lru_store c)\<rparr>))"

function make_room :: "int \<Rightarrow> lru \<Rightarrow> lru" where
  "make_room n c =
     (if lru_bytes c + n > lru_max_bytes c \<and> lru_store c \<noteq> []
      then make_room n (evict (fst (hd (lru_store c))) c)
      else c)"
  by pat_completeness auto
termination
proof (relation "measure (\<lambda>(_, c). length (lru_store c))")
  fix n and c :: lru
  assume "lru_bytes c + n > lru_max_bytes c \<and> lru_store c \<noteq> []"
  then obtain k v rest where "lru_store c = (k, v) # rest"
    by (metis list.exhaust surj_pair)
  then show "((n, evict (fst (hd (lru_store c))) c), n, c) \<in> measure (\<lambda>(_, c). length (lru_store c))"
    using length_delete_le [of k rest] by (auto simp: evict_def less_Suc_eq_le split: prod.splits)
qed simp

declare make_room.simps [simp del]

definition lru_put :: "int \<Rightarrow> string \<Rightarrow> bytes \<Rightarrow> lru \<Rightarrow> lru" where
  "lru_put now key data c =
     (if int (length data) > lru_max_bytes c then c
      else let c1 = (if key \<in> set (keys_of (lru_store c)) then evict key c else c);
               c2 = make_room (int (length data)) c1
           in c2\<lparr>lru_store := AList.update key (data, now + lru_ttl c2) (lru_store c2),
                 lru_bytes := lru_bytes c2 + int (length data)\<rparr>)"

section \<open>The tiered Parquet cache\<close>

record tier_env =
  te_disk_cache :: bool
  te_disk_dir :: string
  te_store_serving :: bool
  te_disk_up :: bool
  te_store_up :: bool
  te_now :: int

record tiers =
  t_metadata :: lru
  t_parquet :: lru
  t_pinned :: "(string, bytes) dict"
  t_disk :: "(string, bytes) dict"
  t_store :: "bytes store"

definition disk_path :: "(string \<Rightarrow> string) \<Rightarrow> tier_env \<Rightarrow> string \<Rightarrow> string" where
  "disk_path sha e key = os_join (te_disk_dir e) [sha key @ ''.parquet'']"

definition disk_read :: "(string \<Rightarrow> string) \<Rightarrow> tier_env \<Rightarrow> string \<Rightarrow> tiers \<Rightarrow> bytes option" where
  "disk_read sha e key t =
     (if \<not> te_disk_cache e then None
      else if \<not> te_disk_up e then None
      else map_of (t_disk t) (disk_path sha e key))"

definition disk_write :: "(string \<Rightarrow> string) \<Rightarrow> tier_env \<Rightarrow> string \<Rightarrow> bytes \<Rightarrow> tiers \<Rightarrow> tiers" where
  "disk_write sha e key data t =
     (if \<not> te_disk_cache e then t
      else if \<not> te_disk_up e then t
      else t\<lparr>t_disk := AList.update (disk_path sha e key) data (t_disk t)\<rparr>)"

definition store_read :: "tier_env \<Rightarrow> string \<Rightarrow> tiers \<Rightarrow> bytes option" where
  "store_read e key t =
     (if \<not> te_store_serving e then None
      else if \<not> te_store_up e then None
      else (case get_object key (t_store t) of Inl _ \<Rightarrow> None | Inr data \<Rightarrow> Some data))"

definition store_write :: "tier_env \<Rightarrow> string \<Rightarrow> bytes \<Rightarrow> tiers \<Rightarrow> tiers" where
  "store_write e key data t =
     (if \<not> te_store_serving e then t
      else if \<not> te_store_up e then t
      else t\<lparr>t_store := snd (put key data (t_store t))\<rparr>)"

definition store_delete :: "tier_env \<Rightarrow> string \<Rightarrow> tiers \<Rightarrow> tiers" where
  "store_delete e key t =
     (if \<not> te_store_serving e then t
      else if \<not> te_store_up e then t
      else t\<lparr>t_store := snd (delete_object key (t_store t))\<rparr>)"

definition get_metadata :: "tier_env \<Rightarrow> string \<Rightarrow> tiers \<Rightarrow> bytes option \<times> tiers" where
  "get_metadata e key t =
     (let (data, c) = lru_get (te_now e) key (t_metadata t) in (data, t\<lparr>t_metadata := c\<rparr>))"

definition put_metadata :: "tier_env \<Rightarrow> string \<Rightarrow> bytes \<Rightarrow> tiers \<Rightarrow> tiers" where
  "put_metadata e key data t = t\<lparr>t_metadata := lru_put (te_now e) key data (t_metadata t)\<rparr>"

definition promote :: "tier_env \<Rightarrow> string \<Rightarrow> bytes \<Rightarrow> tiers \<Rightarrow> tiers" where
  "promote e key data t = t\<lparr>t_parquet := lru_put (te_now e) key data (t_parquet t)\<rparr>"

definition get_parquet :: "(string \<Rightarrow> string) \<Rightarrow> tier_env \<Rightarrow> string \<Rightarrow> tiers \<Rightarrow> bytes option \<times> tiers" where
  "get_parquet sha e key t =
     (case map_of (t_pinned t) key of
        Some pinned \<Rightarrow> (Some pinned, t)
      | None \<Rightarrow>
          let (data, c) = lru_get (te_now e) key (t_parquet t); t1 = t\<lparr>t_parquet := c\<rparr> in
          (case data of
             Some d \<Rightarrow> (Some d, t1)
           | None \<Rightarrow>
               (case disk_read sha e key t1 of
                  Some disk \<Rightarrow> (Some disk, promote e key disk t1)
                | None \<Rightarrow>
                    (case store_read e key t1 of
                       Some stored \<Rightarrow> (Some stored, promote e key stored t1)
                     | None \<Rightarrow> (None, t1)))))"

definition peek_parquet :: "(string \<Rightarrow> string) \<Rightarrow> tier_env \<Rightarrow> string \<Rightarrow> tiers \<Rightarrow> bytes option \<times> tiers" where
  "peek_parquet sha e key t =
     (case map_of (t_pinned t) key of
        Some pinned \<Rightarrow> (Some pinned, t)
      | None \<Rightarrow>
          let (data, c) = lru_get (te_now e) key (t_parquet t); t1 = t\<lparr>t_parquet := c\<rparr> in
          (case data of
             Some d \<Rightarrow> (Some d, t1)
           | None \<Rightarrow>
               (case disk_read sha e key t1 of
                  Some disk \<Rightarrow> (Some disk, t1)
                | None \<Rightarrow> (store_read e key t1, t1))))"

definition warm_parquet :: "(string \<Rightarrow> string) \<Rightarrow> tier_env \<Rightarrow> string \<Rightarrow> tiers \<Rightarrow> bytes option \<times> tiers" where
  "warm_parquet sha e key t =
     (let data = (case disk_read sha e key t of None \<Rightarrow> store_read e key t | Some d \<Rightarrow> Some d) in
      (data, case data of None \<Rightarrow> t | Some d \<Rightarrow> promote e key d t))"

definition put_parquet :: "(string \<Rightarrow> string) \<Rightarrow> tier_env \<Rightarrow> string \<Rightarrow> bytes \<Rightarrow> tiers \<Rightarrow> tiers" where
  "put_parquet sha e key data t =
     store_write e key data (disk_write sha e key data (promote e key data t))"

definition pin_parquet :: "(string \<Rightarrow> string) \<Rightarrow> tier_env \<Rightarrow> string \<Rightarrow> bytes \<Rightarrow> tiers \<Rightarrow> tiers" where
  "pin_parquet sha e key data t =
     store_write e key data (disk_write sha e key data (t\<lparr>t_pinned := AList.update key data (t_pinned t)\<rparr>))"

definition evict_parquet :: "(string \<Rightarrow> string) \<Rightarrow> tier_env \<Rightarrow> string \<Rightarrow> tiers \<Rightarrow> tiers" where
  "evict_parquet sha e key t =
     (let t1 = t\<lparr>t_pinned := AList.delete key (t_pinned t), t_parquet := evict key (t_parquet t)\<rparr>;
          t2 = (if te_disk_cache e \<and> te_disk_up e
                then t1\<lparr>t_disk := AList.delete (disk_path sha e key) (t_disk t1)\<rparr> else t1)
      in store_delete e key t2)"

definition unpin_all :: "tiers \<Rightarrow> tiers" where
  "unpin_all t = t\<lparr>t_pinned := []\<rparr>"

record cache_stats =
  cs_metadata :: "nat \<times> int \<times> int"
  cs_parquet :: "nat \<times> int \<times> int"
  cs_pinned :: "nat \<times> nat"
  cs_store_serving :: bool

definition stats :: "tier_env \<Rightarrow> tiers \<Rightarrow> cache_stats" where
  "stats e t =
     \<lparr>cs_metadata = (length (lru_store (t_metadata t)), lru_bytes (t_metadata t), lru_max_bytes (t_metadata t)),
      cs_parquet = (length (lru_store (t_parquet t)), lru_bytes (t_parquet t), lru_max_bytes (t_parquet t)),
      cs_pinned = (length (t_pinned t), sum_list (map (length \<circ> snd) (t_pinned t))),
      cs_store_serving = te_store_serving e\<rparr>"

section \<open>The invariant of the LRU cache\<close>

definition total_bytes :: "(string, bytes \<times> int) dict \<Rightarrow> int" where
  "total_bytes d = (\<Sum>(k, v, t)\<leftarrow>d. int (length v))"

definition lru_ok :: "lru \<Rightarrow> bool" where
  "lru_ok c \<longleftrightarrow> distinct (keys_of (lru_store c)) \<and> lru_bytes c = total_bytes (lru_store c)
     \<and> lru_bytes c \<le> max 0 (lru_max_bytes c)"

definition lru_view :: "lru \<Rightarrow> string \<Rightarrow> bytes option" where
  "lru_view c key = map_option fst (map_of (lru_store c) key)"

lemma total_bytes_simps [simp]:
  "total_bytes [] = 0"
  "total_bytes ((k, v, t) # d) = int (length v) + total_bytes d"
  "total_bytes (d @ d') = total_bytes d + total_bytes d'"
  by (simp_all add: total_bytes_def)

lemma total_bytes_nonneg [simp]: "0 \<le> total_bytes d"
  by (induction d) auto

lemma total_bytes_delete:
  "distinct (keys_of d) \<Longrightarrow> map_of d k = Some (v, t) \<Longrightarrow>
     total_bytes (AList.delete k d) = total_bytes d - int (length v)"
  by (induction d) (auto split: if_splits)

lemma filter_key_map_of:
  "distinct (keys_of d) \<Longrightarrow> map_of d k = Some v \<Longrightarrow> filter (\<lambda>(k', _). k' = k) d = [(k, v)]"
proof (induction d)
  case (Cons p d)
  have "filter (\<lambda>(k', _). k' = k) d = []" if "k \<notin> set (keys_of d)"
    using that by (induction d) auto
  then show ?case using Cons by (cases p) (auto split: if_splits)
qed simp

lemma move_to_end_eq:
  "distinct (keys_of d) \<Longrightarrow> map_of d k = Some v \<Longrightarrow> move_to_end k d = AList.delete k d @ [(k, v)]"
  by (simp add: move_to_end_def filter_key_map_of)

lemma evict_hd:
  assumes "distinct (keys_of (lru_store c))" and "lru_store c = (k, v, t) # rest"
  shows "evict k c = c\<lparr>lru_store := rest, lru_bytes := lru_bytes c - int (length v)\<rparr>"
  using assms by (simp add: evict_def)

text \<open>Making room drops the shortest prefix of the oldest entries that is enough.\<close>

lemma make_room_drop:
  assumes "distinct (keys_of (lru_store c))" and "lru_bytes c = total_bytes (lru_store c)"
  shows "\<exists>m. make_room n c = c\<lparr>lru_store := drop m (lru_store c), lru_bytes := total_bytes (drop m (lru_store c))\<rparr>
    \<and> (total_bytes (drop m (lru_store c)) + n \<le> lru_max_bytes c \<or> drop m (lru_store c) = [])
    \<and> (\<forall>i<m. total_bytes (drop i (lru_store c)) + n > lru_max_bytes c)"
  using assms
proof (induction n c rule: make_room.induct)
  case (1 n c)
  show ?case
  proof (cases "lru_bytes c + n > lru_max_bytes c \<and> lru_store c \<noteq> []")
    case True
    then obtain k v t rest where st: "lru_store c = (k, v, t) # rest"
      by (metis list.exhaust surj_pair)
    let ?c = "c\<lparr>lru_store := rest, lru_bytes := lru_bytes c - int (length v)\<rparr>"
    have ev: "evict (fst (hd (lru_store c))) c = ?c" using evict_hd [OF "1.prems"(1) st] st by simp
    have "distinct (keys_of rest)" "lru_bytes ?c = total_bytes rest"
      using "1.prems" st by simp_all
    then obtain m where m: "make_room n ?c = ?c\<lparr>lru_store := drop m rest, lru_bytes := total_bytes (drop m rest)\<rparr>"
      "total_bytes (drop m rest) + n \<le> lru_max_bytes c \<or> drop m rest = []"
      "\<forall>i<m. total_bytes (drop i rest) + n > lru_max_bytes c"
      using "1.IH" [OF True] ev by auto
    have "make_room n c = make_room n ?c" using True ev by (simp add: make_room.simps [of n c])
    moreover have "\<forall>i<Suc m. total_bytes (drop i (lru_store c)) + n > lru_max_bytes c"
      using m(3) True "1.prems"(2) st by (auto simp: less_Suc_eq_0_disj)
    ultimately show ?thesis using m st by (intro exI [of _ "Suc m"]) simp
  next
    case False
    then show ?thesis
      using "1.prems" by (intro exI [of _ 0]) (auto simp: make_room.simps [of n c])
  qed
qed

lemma evict_store: "lru_store (evict k c) = AList.delete k (lru_store c)"
  using delete_notin [of k "lru_store c"]
  by (auto simp: evict_def map_of_eq_None_keys split: option.splits)

lemma evict_max [simp]: "lru_max_bytes (evict k c) = lru_max_bytes c" "lru_ttl (evict k c) = lru_ttl c"
  by (auto simp: evict_def split: option.splits)

lemma evict_bytes:
  assumes "distinct (keys_of (lru_store c))" and "lru_bytes c = total_bytes (lru_store c)"
  shows "lru_bytes (evict k c) = total_bytes (lru_store (evict k c))"
  using assms by (auto simp: evict_def total_bytes_delete split: option.splits)

lemma evict_noop: "k \<notin> set (keys_of (lru_store c)) \<Longrightarrow> evict k c = c"
  using map_of_eq_None_keys [of "lru_store c" k] by (simp add: evict_def)

lemma total_bytes_delete_le: "total_bytes (AList.delete k d) \<le> total_bytes d"
  by (induction d) auto

lemma lru_ok_evict: "lru_ok c \<Longrightarrow> lru_ok (evict k c)"
  using total_bytes_delete_le [of k "lru_store c"] evict_bytes [of c k]
  by (simp add: lru_ok_def evict_store)

lemma put_room:
  assumes "lru_ok c" and "int (length data) \<le> lru_max_bytes c"
  shows "\<exists>m. lru_put now key data c =
      c\<lparr>lru_store := drop m (AList.delete key (lru_store c)) @ [(key, data, now + lru_ttl c)],
        lru_bytes := total_bytes (drop m (AList.delete key (lru_store c))) + int (length data)\<rparr>
    \<and> total_bytes (drop m (AList.delete key (lru_store c))) + int (length data) \<le> lru_max_bytes c
    \<and> (\<forall>i<m. total_bytes (drop i (AList.delete key (lru_store c))) + int (length data) > lru_max_bytes c)"
proof -
  let ?d = "AList.delete key (lru_store c)"
  have dist: "distinct (keys_of ?d)" using assms(1) by (simp add: lru_ok_def)
  have "lru_bytes (evict key c) = total_bytes (lru_store (evict key c))"
    using assms(1) evict_bytes by (simp add: lru_ok_def)
  then obtain m where m: "make_room (int (length data)) (evict key c) =
      (evict key c)\<lparr>lru_store := drop m ?d, lru_bytes := total_bytes (drop m ?d)\<rparr>"
      "total_bytes (drop m ?d) + int (length data) \<le> lru_max_bytes c \<or> drop m ?d = []"
      "\<forall>i<m. total_bytes (drop i ?d) + int (length data) > lru_max_bytes c"
    using make_room_drop [of "evict key c" "int (length data)"] dist by (auto simp: evict_store)
  have fresh: "key \<notin> set (keys_of (drop m ?d))"
  proof -
    have "set (keys_of (drop m ?d)) \<subseteq> set (keys_of ?d)" by (metis drop_map set_drop_subset)
    then show ?thesis by auto
  qed
  have "(if key \<in> set (keys_of (lru_store c)) then evict key c else c) = evict key c"
    by (simp add: evict_noop)
  then have "lru_put now key data c =
      (evict key c)\<lparr>lru_store := drop m ?d @ [(key, data, now + lru_ttl c)],
        lru_bytes := total_bytes (drop m ?d) + int (length data)\<rparr>"
    using m(1) assms(2) update_fresh [OF fresh] by (simp add: lru_put_def Let_def)
  moreover have "(evict key c)\<lparr>lru_store := x, lru_bytes := y\<rparr> = c\<lparr>lru_store := x, lru_bytes := y\<rparr>" for x y
    by (simp add: evict_def split: option.splits)
  ultimately show ?thesis using m(2,3) assms(2) by (intro exI [of _ m]) auto
qed

lemma put_stored:
  assumes "lru_ok c" and "int (length data) \<le> lru_max_bytes c"
  shows "map_of (lru_store (lru_put now key data c)) key = Some (data, now + lru_ttl c)"
proof -
  obtain m where m: "lru_store (lru_put now key data c) =
      drop m (AList.delete key (lru_store c)) @ [(key, data, now + lru_ttl c)]"
    using put_room [OF assms, of now key] by auto
  have "key \<notin> set (keys_of (drop m (AList.delete key (lru_store c))))"
    using set_drop_subset [of m "keys_of (AList.delete key (lru_store c))"]
    by (auto simp: drop_map [symmetric] simp del: drop_map)
  then show ?thesis unfolding m by (rule map_of_append_fresh)
qed

section \<open>The contract of a cache tier\<close>

text \<open>
  What the tiered cache relies on: a lookup answers from the contents, and no operation makes up an
  entry. Forgetting is always allowed. The client lemmas say that a property of all entries (here:
  the bytes of a key are the right ones) is never lost.
\<close>

locale byte_cache =
  fixes view :: "'c \<Rightarrow> string \<Rightarrow> bytes option"
    and lookup :: "int \<Rightarrow> string \<Rightarrow> 'c \<Rightarrow> bytes option \<times> 'c"
    and insert_bytes :: "int \<Rightarrow> string \<Rightarrow> bytes \<Rightarrow> 'c \<Rightarrow> 'c"
    and forget :: "string \<Rightarrow> 'c \<Rightarrow> 'c"
  assumes lookup_sound: "lookup now k c = (Some d, c') \<Longrightarrow> view c k = Some d"
    and lookup_keeps: "lookup now k c = (r, c') \<Longrightarrow> view c' \<subseteq>\<^sub>m view c"
    and insert_adds:
      "view (insert_bytes now k d c) k' = Some d' \<Longrightarrow> view c k' = Some d' \<or> (k' = k \<and> d' = d)"
    and forget_removes: "view (forget k c) \<subseteq>\<^sub>m (view c)(k := None)"
begin

definition all_entries :: "(string \<Rightarrow> bytes \<Rightarrow> bool) \<Rightarrow> 'c \<Rightarrow> bool" where
  "all_entries P c \<longleftrightarrow> (\<forall>k d. view c k = Some d \<longrightarrow> P k d)"

lemma all_entries_sub: "view c' \<subseteq>\<^sub>m view c \<Longrightarrow> all_entries P c \<Longrightarrow> all_entries P c'"
  unfolding all_entries_def by (metis domI map_le_def)

lemma all_entries_lookup:
  assumes "lookup now k c = (r, c')" and "all_entries P c"
  shows "all_entries P c'" and "r = Some d \<Longrightarrow> P k d"
  using assms all_entries_sub [OF lookup_keeps] lookup_sound unfolding all_entries_def by blast+

lemma all_entries_insert:
  "all_entries P c \<Longrightarrow> P k d \<Longrightarrow> all_entries P (insert_bytes now k d c)"
  unfolding all_entries_def using insert_adds by blast

lemma all_entries_forget: "all_entries P c \<Longrightarrow> all_entries P (forget k c)"
proof (unfold all_entries_def, intro allI impI)
  fix k' d' assume all: "\<forall>k d. view c k = Some d \<longrightarrow> P k d" and "view (forget k c) k' = Some d'"
  then have "((view c)(k := None)) k' = Some d'"
    using forget_removes [of k c] by (metis domI map_le_def)
  then show "P k' d'" using all by (auto split: if_splits)
qed

end

lemma map_of_move_to_end: "map_of (move_to_end k d) = map_of d"
proof
  fix x
  have "map_of (filter (\<lambda>(k', _). k' = k) d) x = (if x = k then map_of d x else None)"
    by (induction d) auto
  then show "map_of (move_to_end k d) x = map_of d x"
    by (cases "x = k") (auto simp: move_to_end_def map_add_def split: option.splits)
qed

lemma evict_view: "lru_view (evict k c) = (lru_view c)(k := None)"
  by (auto simp: lru_view_def evict_store)

lemma make_room_view: "lru_view (make_room n c) \<subseteq>\<^sub>m lru_view c"
proof (induction n c rule: make_room.induct)
  case (1 n c)
  have sub: "lru_view (evict k c) \<subseteq>\<^sub>m lru_view c" for k by (auto simp: evict_view map_le_def)
  show ?case
    using 1 map_le_trans [OF _ sub] by (subst make_room.simps) auto
qed

lemma lru_put_view:
  assumes "lru_view (lru_put now k d c) k' = Some d'"
  shows "lru_view c k' = Some d' \<or> k' = k \<and> d' = d"
proof -
  let ?c2 = "make_room (int (length d)) (if k \<in> set (keys_of (lru_store c)) then evict k c else c)"
  have "lru_view ?c2 \<subseteq>\<^sub>m lru_view c"
    by (rule map_le_trans [OF make_room_view]) (auto simp: evict_view map_le_def)
  then have sub: "lru_view ?c2 k' = Some d' \<Longrightarrow> lru_view c k' = Some d'" by (metis domI map_le_def)
  show ?thesis
    using assms sub
    by (cases "k' = k") (auto simp: lru_put_def Let_def lru_view_def split: if_splits)
qed

interpretation lru: byte_cache lru_view lru_get lru_put evict
proof unfold_locales
  fix now k d c c'
  show "lru_get now k c = (Some d, c') \<Longrightarrow> lru_view c k = Some d"
    by (auto simp: lru_get_def lru_view_def split: option.splits if_splits)
  show "lru_get now k c = (r, c') \<Longrightarrow> lru_view c' \<subseteq>\<^sub>m lru_view c" for r
    by (auto simp: lru_get_def lru_view_def [abs_def] map_of_move_to_end evict_store map_le_def
        split: option.splits if_splits)
  show "lru_view (lru_put now k d c) k' = Some d' \<Longrightarrow> lru_view c k' = Some d' \<or> k' = k \<and> d' = d"
    for k' d'
    using lru_put_view by blast
  show "lru_view (evict k c) \<subseteq>\<^sub>m (lru_view c)(k := None)" by (simp add: evict_view)
qed

section \<open>Properties of the LRU cache\<close>

datatype lru_op = Get int string | Put int string bytes | Evict string

fun lru_step :: "lru_op \<Rightarrow> lru \<Rightarrow> lru" where
  "lru_step (Get now k) c = snd (lru_get now k c)"
| "lru_step (Put now k d) c = lru_put now k d c"
| "lru_step (Evict k) c = evict k c"

abbreviation lru_run :: "lru_op list \<Rightarrow> lru \<Rightarrow> lru" where
  "lru_run ops c \<equiv> fold lru_step ops c"

lemma lru_step_max [simp]:
  "lru_max_bytes (lru_step op c) = lru_max_bytes c \<and> lru_ttl (lru_step op c) = lru_ttl c"
proof (cases op)
  have room: "lru_max_bytes (make_room n c) = lru_max_bytes c \<and> lru_ttl (make_room n c) = lru_ttl c" for n c
    by (induction n c rule: make_room.induct) (subst (1 2) make_room.simps, auto)
  case (Put now k d)
  then show ?thesis by (simp add: lru_put_def Let_def room)
qed (auto simp: lru_get_def split: option.splits)

lemma lru_step_ok: "lru_ok c \<Longrightarrow> lru_ok (lru_step op c)"
proof (cases op)
  case (Get now k)
  assume ok: "lru_ok c"
  have "lru_ok (c\<lparr>lru_store := AList.delete k (lru_store c) @ [(k, d, e)]\<rparr>)"
    if "map_of (lru_store c) k = Some (d, e)" for d e
    using ok that total_bytes_delete [of "lru_store c" k d e] by (simp add: lru_ok_def)
  then show ?thesis
    using ok Get lru_ok_evict move_to_end_eq [of "lru_store c" k]
    by (auto simp: lru_get_def lru_ok_def [of c] split: option.splits)
next
  case (Put now k d)
  assume ok: "lru_ok c"
  show ?thesis
  proof (cases "int (length d) \<le> lru_max_bytes c")
    case True
    have "distinct (keys_of (drop m (AList.delete k (lru_store c))))"
      "k \<notin> set (keys_of (drop m (AList.delete k (lru_store c))))" for m
    proof -
      let ?ks = "filter (\<lambda>k'. k' \<noteq> k) (keys_of (lru_store c))"
      have "distinct ?ks" using ok by (simp add: lru_ok_def)
      then show "distinct (keys_of (drop m (AList.delete k (lru_store c))))"
        by (simp add: drop_map [symmetric] del: drop_map)
      show "k \<notin> set (keys_of (drop m (AList.delete k (lru_store c))))"
        using set_drop_subset [of m ?ks] by (auto simp: drop_map [symmetric] simp del: drop_map)
    qed
    then show ?thesis
      using put_room [OF ok True, of now k] Put by (auto simp: lru_ok_def)
  qed (use Put ok in \<open>simp add: lru_put_def\<close>)
qed (simp add: lru_ok_evict)

lemma lru_run_ok: "lru_ok c \<Longrightarrow> lru_ok (lru_run ops c)"
  by (induction ops arbitrary: c) (auto simp: lru_step_ok)

lemma lru_run_max [simp]:
  "lru_max_bytes (lru_run ops c) = lru_max_bytes c" "lru_ttl (lru_run ops c) = lru_ttl c"
  by (induction ops arbitrary: c; simp)+

text \<open>
  C39: The byte budget. After any sequence of lookups, insertions and evictions, in any order and at any
  times, no key is cached twice, the byte counter is the exact total size of the cached values, and
  it does not exceed the configured maximum.
\<close>

theorem lru_budget:
  "let c = lru_run ops (new_lru max_bytes ttl) in
     distinct (keys_of (lru_store c))
     \<and> lru_bytes c = (\<Sum>(k, v, t)\<leftarrow>lru_store c. int (length v))
     \<and> lru_bytes c \<le> max 0 max_bytes"
proof -
  have "lru_ok (new_lru max_bytes ttl)" by (simp add: lru_ok_def new_lru_def)
  from lru_run_ok [OF this, of ops] show ?thesis
    by (simp add: lru_ok_def Let_def total_bytes_def) (simp add: new_lru_def)
qed

text \<open>
  Insertion evicts as little as possible and only the least recently used entries. A value that
  fits is stored under its key as the most recent entry with a fresh expiry; of the other entries,
  exactly the shortest prefix of the recency order is dropped that makes the rest fit the budget.
\<close>

theorem lru_put_evicts_oldest:
  assumes "int (length data) \<le> max_bytes"
  shows "let c = lru_run ops (new_lru max_bytes ttl); c' = lru_put now key data c;
      others = filter (\<lambda>(k, _). k \<noteq> key) (lru_store c) in
    (\<exists>m. lru_store c' = drop m others @ [(key, data, now + ttl)]
       \<and> (\<forall>i<m. (\<Sum>(k, v, t)\<leftarrow>drop i others. int (length v)) + int (length data) > max_bytes))
    \<and> (\<forall>later. fst (lru_get later key c') = (if later \<le> now + ttl then Some data else None))"
proof -
  define c where "c = lru_run ops (new_lru max_bytes ttl)"
  have ok: "lru_ok c" unfolding c_def by (rule lru_run_ok) (simp add: lru_ok_def new_lru_def)
  have max: "lru_max_bytes c = max_bytes" "lru_ttl c = ttl" by (simp_all add: c_def) (simp_all add: new_lru_def)
  have others: "filter (\<lambda>(k, _). k \<noteq> key) (lru_store c) = AList.delete key (lru_store c)"
    by (auto simp: AList.delete_eq intro: filter_cong)
  obtain m where m: "lru_put now key data c =
      c\<lparr>lru_store := drop m (AList.delete key (lru_store c)) @ [(key, data, now + lru_ttl c)],
        lru_bytes := total_bytes (drop m (AList.delete key (lru_store c))) + int (length data)\<rparr>"
      "\<forall>i<m. total_bytes (drop i (AList.delete key (lru_store c))) + int (length data) > max_bytes"
    using put_room [OF ok, of data now key] assms(1) max by auto
  have "map_of (lru_store (lru_put now key data c)) key = Some (data, now + lru_ttl c)"
    using put_stored [OF ok] assms max by simp
  then show ?thesis
    using m max by (auto simp: c_def [symmetric] others total_bytes_def lru_get_def Let_def intro!: exI [of _ m])
qed

theorem lru_put_evicts_oldest_witness:
  "fst (lru_get 9 ''k'' (lru_put 4 ''k'' ''abc'' (lru_run [Put 0 ''a'' ''xy'', Put 1 ''b'' ''z''] (new_lru 4 5))))
     = Some ''abc''"
  using lru_put_evicts_oldest [of "''abc''" 4 "[Put 0 ''a'' ''xy'', Put 1 ''b'' ''z'']" 5 4 "''k''"]
  by (simp only: Let_def) simp

text \<open>Recency: the keys in the order of their last use. A value too large for the cache is not a use.\<close>

fun op_uses :: "int \<Rightarrow> lru_op \<Rightarrow> string list" where
  "op_uses max_bytes (Get now k) = [k]"
| "op_uses max_bytes (Put now k d) = (if int (length d) > max_bytes then [] else [k])"
| "op_uses max_bytes (Evict k) = []"

lemma remdups_snoc: "remdups (xs @ [x]) = filter (\<lambda>y. y \<noteq> x) (remdups xs) @ [x]"
  by (induction xs) auto

lemma subseq_drop: "subseq xs ys \<Longrightarrow> subseq (drop m xs) ys"
  by (metis append_take_drop_id subseq_append' subseq_order.order_trans list_emb_append2 subseq_order.refl)

lemma subseq_filter_snoc:
  "subseq xs ys \<Longrightarrow> subseq (filter P xs) ys"
  by (meson subseq_filter_left subseq_order.trans)

lemma lru_step_order:
  assumes "lru_ok c" and "subseq (keys_of (lru_store c)) (remdups us)"
  shows "subseq (keys_of (lru_store (lru_step op c))) (remdups (us @ op_uses (lru_max_bytes c) op))"
proof (cases op)
  case (Get now k)
  let ?ks = "filter (\<lambda>k'. k' \<noteq> k) (keys_of (lru_store c))"
  have "subseq ?ks (filter (\<lambda>k'. k' \<noteq> k) (remdups us))" using assms(2) by (rule subseq_filter)
  then have s: "subseq (?ks @ [k]) (remdups (us @ [k]))" "subseq ?ks (remdups (us @ [k]))"
    by (auto simp: remdups_snoc intro: list_emb_append2)
  have none: "?ks = keys_of (lru_store c)" if "map_of (lru_store c) k = None"
    using that map_of_eq_None_keys [of "lru_store c" k] by (intro filter_True) auto
  show ?thesis
  proof (cases "map_of (lru_store c) k")
    case None
    then show ?thesis using s(2) none Get by (simp add: lru_get_def)
  next
    case (Some v)
    then show ?thesis
      using s Get assms(1) move_to_end_eq [of "lru_store c" k v]
      by (auto simp: lru_get_def evict_store lru_ok_def split: prod.splits)
  qed
next
  case (Put now k d)
  let ?ks = "filter (\<lambda>k'. k' \<noteq> k) (keys_of (lru_store c))"
  have "subseq (drop m ?ks) (filter (\<lambda>k'. k' \<noteq> k) (remdups us))" for m
    using assms(2) by (intro subseq_drop subseq_filter)
  then have s: "subseq (drop m ?ks @ [k]) (remdups (us @ [k]))" for m
    by (simp add: remdups_snoc)
  show ?thesis
  proof (cases "int (length d) \<le> lru_max_bytes c")
    case True
    then obtain m where
      "lru_store (lru_put now k d c) = drop m (AList.delete k (lru_store c)) @ [(k, d, now + lru_ttl c)]"
      using put_room [OF assms(1) True, of now k] by auto
    then show ?thesis using s [of m] Put True by (simp add: drop_map [symmetric] del: drop_map)
  qed (use Put assms in \<open>simp add: lru_put_def\<close>)
qed (use assms in \<open>simp add: evict_store subseq_filter_snoc\<close>)

text \<open>
  The cache really orders its entries by recency: after any operations, the stored keys, from the
  next eviction victim to the most recent one, appear in the order of their last use (lookup or
  accepted insertion).
\<close>

theorem lru_recency_order:
  "subseq (keys_of (lru_store (lru_run ops (new_lru max_bytes ttl))))
     (remdups (concat (map (op_uses max_bytes) ops)))"
proof (induction ops rule: rev_induct)
  case (snoc op ops)
  let ?c = "lru_run ops (new_lru max_bytes ttl)"
  have "lru_ok ?c" by (rule lru_run_ok) (simp add: lru_ok_def new_lru_def)
  moreover have "lru_max_bytes ?c = max_bytes" by simp (simp add: new_lru_def)
  ultimately show ?case
    using lru_step_order [of ?c "concat (map (op_uses max_bytes) ops)" op] snoc by simp
qed (simp add: new_lru_def)

text \<open>
  A value too large for the cache does not replace the cached one: the insertion is dropped and
  lookups keep answering the previous value of the key until it expires.
\<close>

theorem oversized_put_keeps_stale:
  assumes "int (length old) \<le> max_bytes" and "max_bytes < int (length new)" and "t1 \<le> t0 + ttl"
  shows "fst (lru_get t1 key (lru_put t key new (lru_put t0 key old (new_lru max_bytes ttl)))) = Some old"
  using assms by (simp add: lru_put_def lru_get_def new_lru_def make_room.simps Let_def)

theorem oversized_put_keeps_stale_witness:
  "fst (lru_get 2 ''k'' (lru_put 1 ''k'' ''abcd'' (lru_put 0 ''k'' ''xy'' (new_lru 3 5)))) = Some ''xy''"
  using oversized_put_keeps_stale [of "''xy''" 3 "''abcd''" 2 0 5 "''k''" 1] by simp

section \<open>Properties of the tiered cache\<close>

datatype cache_op =
    Get_Metadata string | Put_Metadata string bytes
  | Get_Parquet string | Peek_Parquet string | Warm_Parquet string
  | Put_Parquet string bytes | Pin_Parquet string bytes | Evict_Parquet string | Unpin_All

fun cache_step :: "(string \<Rightarrow> string) \<Rightarrow> tier_env \<times> cache_op \<Rightarrow> tiers \<Rightarrow> tiers" where
  "cache_step sha (e, Get_Metadata k) t = snd (get_metadata e k t)"
| "cache_step sha (e, Put_Metadata k d) t = put_metadata e k d t"
| "cache_step sha (e, Get_Parquet k) t = snd (get_parquet sha e k t)"
| "cache_step sha (e, Peek_Parquet k) t = snd (peek_parquet sha e k t)"
| "cache_step sha (e, Warm_Parquet k) t = snd (warm_parquet sha e k t)"
| "cache_step sha (e, Put_Parquet k d) t = put_parquet sha e k d t"
| "cache_step sha (e, Pin_Parquet k d) t = pin_parquet sha e k d t"
| "cache_step sha (e, Evict_Parquet k) t = evict_parquet sha e k t"
| "cache_step sha (e, Unpin_All) t = unpin_all t"

fun releases :: "string \<Rightarrow> cache_op \<Rightarrow> bool" where
  "releases k (Pin_Parquet k' d) = (k' = k)"
| "releases k (Evict_Parquet k') = (k' = k)"
| "releases k Unpin_All = True"
| "releases k _ = False"

lemma tier_frame [simp]:
  "t_pinned (disk_write sha e k d t) = t_pinned t" "t_parquet (disk_write sha e k d t) = t_parquet t"
  "t_store (disk_write sha e k d t) = t_store t"
  "t_pinned (store_write e k d t) = t_pinned t" "t_parquet (store_write e k d t) = t_parquet t"
  "t_disk (store_write e k d t) = t_disk t"
  "t_pinned (store_delete e k t) = t_pinned t" "t_parquet (store_delete e k t) = t_parquet t"
  "t_disk (store_delete e k t) = t_disk t"
  "t_pinned (promote e k d t) = t_pinned t" "t_disk (promote e k d t) = t_disk t"
  "t_store (promote e k d t) = t_store t"
  by (simp_all add: disk_write_def store_write_def store_delete_def promote_def)

lemma cache_step_pinned:
  assumes "\<not> releases k op" and "map_of (t_pinned t) k = Some d"
  shows "map_of (t_pinned (cache_step sha (e, op) t)) k = Some d"
  using assms
  by (cases op)
     (auto simp: get_metadata_def put_metadata_def get_parquet_def peek_parquet_def warm_parquet_def
        put_parquet_def pin_parquet_def evict_parquet_def Let_def split: prod.splits option.splits)

text \<open>
  Pinned snapshot files are served byte for byte. After a split is pinned, whatever cache
  operations follow (any byte pressure, any passing of time, any disk or store failures), lookups
  return exactly the pinned bytes and change nothing, until the same key is pinned again or evicted,
  or all pins are dropped.
\<close>

theorem pinned_served_verbatim:
  assumes "\<forall>(e, op) \<in> set ops. \<not> releases k op"
  shows "let t' = fold (cache_step sha) ops (pin_parquet sha e0 k d t) in
    get_parquet sha e k t' = (Some d, t') \<and> peek_parquet sha e k t' = (Some d, t')"
proof -
  have "map_of (t_pinned (fold (cache_step sha) ops t0)) k = Some d" if "map_of (t_pinned t0) k = Some d" for t0
    using assms that cache_step_pinned by (induction ops arbitrary: t0) fastforce+
  then have "map_of (t_pinned (fold (cache_step sha) ops (pin_parquet sha e0 k d t))) k = Some d"
    by (simp add: pin_parquet_def)
  then show ?thesis by (simp add: get_parquet_def peek_parquet_def)
qed

definition demo_env :: tier_env where
  "demo_env = \<lparr>te_disk_cache = True, te_disk_dir = ''/c'', te_store_serving = True, te_disk_up = True,
     te_store_up = True, te_now = 0\<rparr>"

definition demo_tiers :: tiers where
  "demo_tiers = \<lparr>t_metadata = new_lru 4 5, t_parquet = new_lru 4 5, t_pinned = [], t_disk = [], t_store = []\<rparr>"

theorem pinned_served_verbatim_witness:
  "fst (get_parquet id demo_env ''k''
     (fold (cache_step id)
        [(demo_env, Put_Parquet ''k'' ''xy''), (demo_env, Evict_Parquet ''j''), (demo_env, Put_Parquet ''m'' ''zzzz'')]
        (pin_parquet id demo_env ''k'' ''abc'' demo_tiers))) = Some ''abc''"
  using pinned_served_verbatim [of
      "[(demo_env, Put_Parquet ''k'' ''xy''), (demo_env, Evict_Parquet ''j''), (demo_env, Put_Parquet ''m'' ''zzzz'')]"
      "''k''" id demo_env "''abc''" demo_tiers demo_env]
  by (simp only: Let_def) simp

text \<open>Content-addressed use: every write of a key carries the bytes \<open>content key\<close>.\<close>

fun op_honest :: "(string \<Rightarrow> bytes) \<Rightarrow> string set \<Rightarrow> cache_op \<Rightarrow> bool" where
  "op_honest content K (Put_Parquet k d) = (k \<in> K \<and> d = content k)"
| "op_honest content K (Pin_Parquet k d) = (k \<in> K \<and> d = content k)"
| "op_honest content K (Get_Parquet k) = (k \<in> K)"
| "op_honest content K (Peek_Parquet k) = (k \<in> K)"
| "op_honest content K (Warm_Parquet k) = (k \<in> K)"
| "op_honest content K (Evict_Parquet k) = (k \<in> K)"
| "op_honest content K _ = True"

definition coherent :: "(string \<Rightarrow> string) \<Rightarrow> string \<Rightarrow> (string \<Rightarrow> bytes) \<Rightarrow> string set \<Rightarrow> tiers \<Rightarrow> bool" where
  "coherent sha dir content K t \<longleftrightarrow>
     (\<forall>k d. map_of (t_pinned t) k = Some d \<longrightarrow> d = content k)
     \<and> lru.all_entries (\<lambda>k d. d = content k) (t_parquet t)
     \<and> (\<forall>k\<in>K. \<forall>d. map_of (t_disk t) (os_join dir [sha k @ ''.parquet'']) = Some d \<longrightarrow> d = content k)
     \<and> (\<forall>k\<in>K. \<forall>d. map_of (t_store t) k = Some d \<longrightarrow> d = content k)"

lemma os_join_one_inj: "os_join dir [a @ ''.parquet''] = os_join dir [b @ ''.parquet''] \<Longrightarrow>
    \<not> py_startswith a ''/'' \<Longrightarrow> \<not> py_startswith b ''/'' \<Longrightarrow> a = b"
  by (cases a; cases b) (auto split: if_splits)

lemma coherent_promote:
  "coherent sha dir content K t \<Longrightarrow> d = content k \<Longrightarrow> coherent sha dir content K (promote e k d t)"
  unfolding coherent_def using lru.all_entries_insert by (simp add: promote_def)

lemma coherent_disk_write:
  assumes "coherent sha dir content K t" and "inj_on sha K" and "k \<in> K" and "te_disk_dir e = dir"
    and "\<forall>k\<in>K. \<not> py_startswith (sha k) ''/''"
  shows "coherent sha dir content K (disk_write sha e k (content k) t)"
proof -
  have "k' = k" if "k' \<in> K" "disk_path sha e k' = disk_path sha e k" for k'
    using that assms(2-5) os_join_one_inj [of dir "sha k'" "sha k"]
    by (auto simp: disk_path_def inj_on_def simp del: os_join.simps)
  then show ?thesis
    using assms(1,4) unfolding coherent_def
    by (auto simp: disk_write_def disk_path_def simp del: os_join.simps)
qed

lemma coherent_store_write:
  assumes "coherent sha dir content K t" and "plain_key k"
  shows "coherent sha dir content K (store_write e k (content k) t)"
  using assms unfolding coherent_def by (auto simp: store_write_def put_def)

lemma coherent_reads:
  assumes "coherent sha dir content K t" and "k \<in> K" and "plain_key k" and "te_disk_dir e = dir"
  shows "disk_read sha e k t = Some d \<Longrightarrow> d = content k" and "store_read e k t = Some d \<Longrightarrow> d = content k"
  using assms unfolding coherent_def
  by (auto simp: disk_read_def disk_path_def store_read_def get_object_def simp del: os_join.simps
      split: if_splits sum.splits option.splits)

lemma coherent_lru_get:
  assumes "coherent sha dir content K t" and "lru_get now k (t_parquet t) = (r, c)"
  shows "coherent sha dir content K (t\<lparr>t_parquet := c\<rparr>)" and "r = Some d \<Longrightarrow> d = content k"
  using assms lru.all_entries_lookup [OF assms(2), of "\<lambda>k d. d = content k"]
  unfolding coherent_def by auto

lemma coherent_get:
  assumes "coherent sha dir content K t" and "k \<in> K" and "plain_key k" and "te_disk_dir e = dir"
  shows "coherent sha dir content K (snd (get_parquet sha e k t))"
    and "fst (get_parquet sha e k t) \<in> {None, Some (content k)}"
proof -
  obtain r c where get: "lru_get (te_now e) k (t_parquet t) = (r, c)" by fastforce
  note c = coherent_lru_get [OF assms(1) get]
  note reads = coherent_reads [OF c(1) assms(2-4)]
  show "coherent sha dir content K (snd (get_parquet sha e k t))"
    using c assms(1) reads coherent_promote [OF c(1)]
    by (auto simp: get_parquet_def get Let_def split: option.splits)
  show "fst (get_parquet sha e k t) \<in> {None, Some (content k)}"
    using c assms(1) reads
    by (auto simp: get_parquet_def get Let_def coherent_def split: option.splits)
qed

lemma coherent_peek:
  assumes "coherent sha dir content K t" and "k \<in> K" and "plain_key k" and "te_disk_dir e = dir"
  shows "coherent sha dir content K (snd (peek_parquet sha e k t))"
    and "fst (peek_parquet sha e k t) \<in> {None, Some (content k)}"
proof -
  obtain r c where get: "lru_get (te_now e) k (t_parquet t) = (r, c)" by fastforce
  note c = coherent_lru_get [OF assms(1) get]
  note reads = coherent_reads [OF c(1) assms(2-4)]
  show "coherent sha dir content K (snd (peek_parquet sha e k t))"
    using c assms(1) by (auto simp: peek_parquet_def get Let_def split: option.splits)
  show "fst (peek_parquet sha e k t) \<in> {None, Some (content k)}"
    using c assms(1) reads
    by (cases "store_read e k (t\<lparr>t_parquet := c\<rparr>)")
       (auto simp: peek_parquet_def get Let_def coherent_def split: option.splits)
qed

lemma coherent_warm:
  assumes "coherent sha dir content K t" and "k \<in> K" and "plain_key k" and "te_disk_dir e = dir"
  shows "coherent sha dir content K (snd (warm_parquet sha e k t))"
    and "fst (warm_parquet sha e k t) \<in> {None, Some (content k)}"
proof -
  note reads = coherent_reads [OF assms]
  show "coherent sha dir content K (snd (warm_parquet sha e k t))"
    using reads assms(1) coherent_promote [OF assms(1)]
    by (auto simp: warm_parquet_def Let_def split: option.splits)
  show "fst (warm_parquet sha e k t) \<in> {None, Some (content k)}"
    using reads by (cases "store_read e k t") (auto simp: warm_parquet_def Let_def split: option.splits)
qed

lemma coherent_evict:
  assumes "coherent sha dir content K t" and "plain_key k"
  shows "coherent sha dir content K (evict_parquet sha e k t)"
  using assms lru.all_entries_forget unfolding coherent_def
  by (auto simp: evict_parquet_def store_delete_def delete_object_def Let_def split: if_splits)

lemma cache_step_coherent:
  assumes "coherent sha dir content K t" and "op_honest content K op" and "te_disk_dir e = dir"
    and "inj_on sha K" and "\<forall>k\<in>K. plain_key k" and "\<forall>k\<in>K. \<not> py_startswith (sha k) ''/''"
  shows "coherent sha dir content K (cache_step sha (e, op) t)"
proof (cases op)
  case (Put_Parquet k d)
  then show ?thesis
    using assms coherent_promote [OF assms(1)] coherent_disk_write coherent_store_write
    by (simp add: put_parquet_def)
next
  case (Pin_Parquet k d)
  have "coherent sha dir content K (t\<lparr>t_pinned := AList.update k (content k) (t_pinned t)\<rparr>)"
    using assms(1) unfolding coherent_def by auto
  then show ?thesis
    using Pin_Parquet assms coherent_disk_write coherent_store_write by (simp add: pin_parquet_def)
next
  case (Get_Metadata k)
  then show ?thesis
    using assms(1) unfolding coherent_def by (auto simp: get_metadata_def Let_def split: prod.splits)
next
  case Unpin_All
  then show ?thesis using assms(1) unfolding coherent_def by (auto simp: unpin_all_def)
next
  case (Put_Metadata k d)
  then show ?thesis using assms(1) unfolding coherent_def by (auto simp: put_metadata_def)
qed (use assms coherent_get(1) coherent_peek(1) coherent_warm(1) coherent_evict in auto)

text \<open>
  C38: The tiers agree. If every write of a key in use carries the bytes that belong to the key (keys are
  content-addressed), the hash that names the disk files has no collision among the keys in use, and the
  keys are normalized, then after any operations on an initially coherent cache, with any disk and store
  failures, a lookup, a sizing probe or a warm-up of a key returns nothing or exactly the bytes of that key.
\<close>

theorem tiers_serve_content:
  assumes "coherent sha dir content K t" and "\<forall>(e, op) \<in> set ops. te_disk_dir e = dir \<and> op_honest content K op"
    and "inj_on sha K" and "\<forall>k\<in>K. plain_key k" and "\<forall>k\<in>K. \<not> py_startswith (sha k) ''/''"
    and "k \<in> K" and "te_disk_dir e = dir"
  shows "let t' = fold (cache_step sha) ops t in
    fst (get_parquet sha e k t') \<in> {None, Some (content k)}
    \<and> fst (peek_parquet sha e k t') \<in> {None, Some (content k)}
    \<and> fst (warm_parquet sha e k t') \<in> {None, Some (content k)}"
proof -
  have "coherent sha dir content K (fold (cache_step sha) ops t)"
    using assms(1,2)
  proof (induction ops arbitrary: t)
    case (Cons p ops)
    obtain e op where p: "p = (e, op)" by fastforce
    have "coherent sha dir content K (cache_step sha (e, op) t)"
      using Cons.prems p assms(3-5) by (intro cache_step_coherent) auto
    then show ?case using Cons.IH Cons.prems(2) p by auto
  qed simp
  then show ?thesis
    using coherent_get(2) coherent_peek(2) coherent_warm(2) assms(4,6,7) by (simp add: Let_def)
qed

lemma demo_coherent: "coherent id ''/c'' content K demo_tiers"
  by (simp add: coherent_def demo_tiers_def lru.all_entries_def lru_view_def new_lru_def)

theorem tiers_serve_content_witness:
  "fst (get_parquet id demo_env ''k'' (fold (cache_step id) [(demo_env, Put_Parquet ''k'' ''ab'')] demo_tiers))
     \<in> {None, Some ''ab''}"
  using tiers_serve_content [OF demo_coherent [of "\<lambda>_. ''ab''" "{''k''}"],
      of "[(demo_env, Put_Parquet ''k'' ''ab'')]" "''k''" demo_env]
  by (simp add: demo_env_def plain_key_def plain_segment_def Let_def)

text \<open>
  Insert and look up. With the disk cache on and working, a value just put under an unpinned key is
  what a lookup returns at any later time, whether memory still holds it, it has expired there, or it was
  too large for memory (and memory held no older value of the key).
\<close>

theorem put_then_get_parquet:
  assumes "map_of (t_pinned t) k = None" and "lru_ok (t_parquet t)"
    and "te_disk_cache e1" and "te_disk_up e1" and "te_disk_cache e2" and "te_disk_up e2"
    and "te_disk_dir e1 = te_disk_dir e2"
    and "int (length d) \<le> lru_max_bytes (t_parquet t) \<or> lru_view (t_parquet t) k = None"
  shows "fst (get_parquet sha e2 k (put_parquet sha e1 k d t)) = Some d"
proof -
  let ?t = "put_parquet sha e1 k d t"
  obtain r c where get: "lru_get (te_now e2) k (t_parquet ?t) = (r, c)" by fastforce
  have "lru_view (t_parquet ?t) k \<in> {None, Some d}"
  proof (cases "int (length d) \<le> lru_max_bytes (t_parquet t)")
    case True
    then show ?thesis
      using put_stored [OF assms(2) True] by (simp add: put_parquet_def promote_def lru_view_def)
  next
    case False
    then show ?thesis
      using assms(8) by (simp add: put_parquet_def promote_def lru_put_def)
  qed
  then have "r \<in> {None, Some d}" using lru.lookup_sound [of "te_now e2" k "t_parquet ?t"] get
    by (cases r) auto
  moreover have "disk_read sha e2 k (?t\<lparr>t_parquet := c\<rparr>) = Some d"
    using assms(3-7) by (simp add: disk_read_def put_parquet_def disk_write_def disk_path_def
        promote_def store_write_def del: os_join.simps)
  ultimately show ?thesis
    using assms(1) get by (auto simp: get_parquet_def put_parquet_def [symmetric] Let_def)
      (auto simp: put_parquet_def)
qed

theorem put_then_get_parquet_witness:
  "fst (get_parquet id demo_env ''k'' (put_parquet id demo_env ''k'' ''large'' demo_tiers)) = Some ''large''"
  by (rule put_then_get_parquet)
     (simp_all add: demo_env_def demo_tiers_def lru_ok_def new_lru_def lru_view_def)

end
