(* ===== verification/Split_Planner.thy ===== *)
theory Split_Planner
  imports Prelude Complex_Main "HOL-Library.Multiset"
begin

text \<open>
  Split planning (\<open>planner/split_planner.py\<close>): choice of the split key and of the number of splits,
  integer key ranges, ranges from optimizer statistics, and the row sets that the three split
  predicates of \<open>planner/dialects.py\<close> select.

  Row counts and quantiles are compared exactly (\<open>rat\<close> and integer division), which agrees with the
  code's floating-point arithmetic while the products stay below \<open>2^53\<close>. The remainder operator of the
  source database is the argument \<open>dbmod\<close>. Date and timestamp keys are not covered.
\<close>

section \<open>Tables and key selection\<close>

record column =
  col_name :: string
  col_type :: string
  col_nullable :: bool
  col_source :: "string option"
  col_transform :: bool

definition source_name :: "column \<Rightarrow> string" where
  "source_name c = (case col_source c of None \<Rightarrow> col_name c | Some s \<Rightarrow> if s = [] then col_name c else s)"

record table_def =
  td_schema :: "column list"
  td_num_splits :: int
  td_key_column :: "string option"
  td_split_target_rows :: "int option"
  td_split_target_bytes :: "int option"
  td_split_estimated_bytes_per_row :: "int option"

record planner_config =
  pc_explicit_key :: bool
  pc_target_rows :: int
  pc_target_bytes :: int
  pc_bytes_per_row :: int
  pc_split_min :: int
  pc_split_max :: int
  pc_query_max_rows :: int

datatype plan_error = Key_Required | Key_Not_In_Columns string | Index_Error

definition truthy :: "string option \<Rightarrow> bool" where
  "truthy s \<longleftrightarrow> s \<noteq> None \<and> s \<noteq> Some []"

definition require_explicit_split_key ::
  "planner_config \<Rightarrow> table_def \<Rightarrow> plan_error + string option" where
  "require_explicit_split_key pc t =
     (if \<not> pc_explicit_key pc then Inr None
      else let key = py_strip_space (case td_key_column t of None \<Rightarrow> [] | Some k \<Rightarrow> k) in
        if key = [] then Inl Key_Required
        else if td_schema t \<noteq> []
              \<and> \<not> list_ex (\<lambda>c. key = col_name c \<or> key = source_name c) (td_schema t)
        then Inl (Key_Not_In_Columns key)
        else Inr (Some key))"

definition int_types :: "string list" where
  "int_types = [''int'', ''long'']"

definition temporal_types :: "string list" where
  "temporal_types = [''date'', ''timestamp'', ''timestamptz'']"

definition pk_column :: "planner_config \<Rightarrow> table_def \<Rightarrow> plan_error + string" where
  "pk_column pc t =
     (case require_explicit_split_key pc t of
        Inl e \<Rightarrow> Inl e
      | Inr _ \<Rightarrow>
          if truthy (td_key_column t) then Inr (the (td_key_column t))
          else (case List.find (\<lambda>c. \<not> col_nullable c \<and> col_type c \<in> set int_types) (td_schema t) of
                  Some c \<Rightarrow> Inr (col_name c)
                | None \<Rightarrow> (case td_schema t of [] \<Rightarrow> Inl Index_Error | c # _ \<Rightarrow> Inr (col_name c))))"

definition column_type :: "table_def \<Rightarrow> string \<Rightarrow> string option" where
  "column_type t name =
     map_option col_type
       (List.find (\<lambda>c. py_casefold name = py_casefold (col_name c)
                     \<or> py_casefold name = py_casefold (source_name c)) (td_schema t))"

definition first_column_of_type :: "table_def \<Rightarrow> string list \<Rightarrow> string option" where
  "first_column_of_type t allowed =
     map_option col_name (List.find (\<lambda>c. col_type c \<in> set allowed) (td_schema t))"

definition choose_strategy_key ::
  "planner_config \<Rightarrow> table_def \<Rightarrow> string \<Rightarrow> plan_error + string" where
  "choose_strategy_key pc t strategy =
     (case require_explicit_split_key pc t of
        Inl e \<Rightarrow> Inl e
      | Inr explicit \<Rightarrow>
          if truthy explicit then Inr (the explicit)
          else if truthy (td_key_column t) then Inr (the (td_key_column t))
          else let int_col = (if strategy \<in> {''range'', ''auto''}
                              then first_column_of_type t int_types else None);
                   time_col = (if strategy \<in> {''date'', ''auto''}
                               then first_column_of_type t temporal_types else None)
               in if truthy int_col then Inr (the int_col)
                  else if truthy time_col then Inr (the time_col)
                  else pk_column pc t)"

section \<open>Key ranges\<close>

definition compute_key_ranges :: "int \<Rightarrow> int \<Rightarrow> int \<Rightarrow> (int \<times> int) list" where
  "compute_key_ranges lo hi n0 =
     (let n = max 1 n0 in
      if hi < lo then (lo, lo + 1) # replicate (nat (n - 1)) (lo + 1, lo + 1)
      else let span = hi - lo + 1;
               bounds = map (\<lambda>i. lo + (span * int i) div n) [0..<nat n + 1];
               bounds = (bounds[0 := lo])[nat n := hi + 1]
           in map (\<lambda>i. (bounds ! i, bounds ! (i + 1))) [0..<nat n])"

fun emit_mins :: "int \<Rightarrow> rat \<Rightarrow> 'k \<Rightarrow> rat \<Rightarrow> nat \<Rightarrow> int \<Rightarrow> 'k list \<times> int" where
  "emit_mins n total_rows high cum 0 k = ([], k)"
| "emit_mins n total_rows high cum (Suc fuel) k =
     (if k < n \<and> cum \<ge> (of_int k * total_rows) / of_int n
      then (case emit_mins n total_rows high cum fuel (k + 1) of (ms, k') \<Rightarrow> (high # ms, k'))
      else ([], k))"

text \<open>The inner loop runs at most \<open>n - k\<close> times, which is the fuel it gets.\<close>

fun histogram_loop :: "int \<Rightarrow> rat \<Rightarrow> ('k \<times> rat) list \<Rightarrow> rat \<Rightarrow> int \<Rightarrow> 'k list" where
  "histogram_loop n total_rows [] cum k = []"
| "histogram_loop n total_rows ((high, rows) # steps) cum k =
     (case emit_mins n total_rows high cum (nat (n - k)) k of
        (ms, k') \<Rightarrow> ms @ histogram_loop n total_rows steps (cum + max 0 rows) k')"

definition mins_from_histogram_steps :: "('k \<times> rat) list \<Rightarrow> int \<Rightarrow> 'k list option" where
  "mins_from_histogram_steps steps n =
     (if n < 1 \<or> steps = [] then None
      else let total_rows = sum_list (map (\<lambda>(_, r). max 0 r) steps) in
        if total_rows \<le> 0 then None
        else let mins = fst (hd steps) # histogram_loop n total_rows steps 0 1;
                 padded = mins @ replicate (nat n - length mins) (fst (last steps))
             in Some (take (nat n) padded))"

definition mins_from_equidepth :: "'k list \<Rightarrow> int \<Rightarrow> 'k list option" where
  "mins_from_equidepth bounds n =
     (if n < 1 \<or> bounds = [] \<or> length bounds < 2 then None
      else let b = length bounds in
        Some (map (\<lambda>i. bounds ! ((i * (b - 1)) div nat n)) [0..<nat n]))"

definition ranges_from_mins :: "'k list \<Rightarrow> 'k \<Rightarrow> int \<Rightarrow> ('k \<times> 'k) list option" where
  "ranges_from_mins mins upper n =
     (if mins = [] then None
      else let ranges = map (\<lambda>i. (mins ! i, if i + 1 < length mins then mins ! (i + 1) else upper))
                          [0..<length mins];
               padded = ranges @ replicate (nat n - length ranges) (upper, upper)
           in Some (take (nat n) padded))"

section \<open>Split counts and row caps\<close>

definition ceil_div :: "int \<Rightarrow> int \<Rightarrow> int" where
  "ceil_div a b = - ((- a) div b)"

definition clamp :: "int \<Rightarrow> int \<Rightarrow> int \<Rightarrow> int" where
  "clamp lo hi x = max lo (min hi x)"

definition compute_split_count ::
  "int option \<Rightarrow> int \<Rightarrow> int \<Rightarrow> int \<Rightarrow> int \<Rightarrow> int \<Rightarrow> int \<Rightarrow> int" where
  "compute_split_count estimated_rows target_rows target_bytes bytes_per_row min_splits max_splits default_splits =
     (case estimated_rows of
        None \<Rightarrow> clamp min_splits max_splits default_splits
      | Some rows \<Rightarrow>
          if rows \<le> 0 then clamp min_splits max_splits default_splits
          else let proposals =
                 (if target_rows > 0 then [ceil_div rows target_rows] else [])
                 @ (if target_bytes > 0 \<and> bytes_per_row > 0
                    then [ceil_div (rows * bytes_per_row) target_bytes] else [])
               in if proposals = [] then clamp min_splits max_splits default_splits
                  else clamp min_splits max_splits (Max (set proposals)))"

definition effective_target_rows :: "planner_config \<Rightarrow> table_def \<Rightarrow> int" where
  "effective_target_rows pc t = (case td_split_target_rows t of None \<Rightarrow> pc_target_rows pc | Some r \<Rightarrow> r)"

definition effective_target_bytes :: "planner_config \<Rightarrow> table_def \<Rightarrow> int" where
  "effective_target_bytes pc t = (case td_split_target_bytes t of None \<Rightarrow> pc_target_bytes pc | Some b \<Rightarrow> b)"

definition effective_bytes_per_row :: "planner_config \<Rightarrow> table_def \<Rightarrow> int" where
  "effective_bytes_per_row pc t =
     (case td_split_estimated_bytes_per_row t of None \<Rightarrow> pc_bytes_per_row pc | Some b \<Rightarrow> b)"

definition effective_max_rows :: "planner_config \<Rightarrow> table_def \<Rightarrow> int" where
  "effective_max_rows pc t =
     (let tb = effective_target_bytes pc t; bpr = effective_bytes_per_row pc t;
          byte_target_rows = (if tb > 0 \<and> bpr > 0 then max 1 ((tb + bpr - 1) div bpr) else 0)
      in max (max (pc_query_max_rows pc) (effective_target_rows pc t)) byte_target_rows)"

text \<open>\<open>est\<close> is the answer of \<open>fetch_table_row_count\<close>; \<open>Inl\<close> is a raised exception.\<close>

definition choose_table_num_splits ::
  "planner_config \<Rightarrow> unit + int option \<Rightarrow> table_def \<Rightarrow> int" where
  "choose_table_num_splits pc est t =
     (let target_rows = effective_target_rows pc t; target_bytes = effective_target_bytes pc t;
          bpr = effective_bytes_per_row pc t
      in if target_rows \<le> 0 \<and> (target_bytes \<le> 0 \<or> bpr \<le> 0) then td_num_splits t
         else (case est of
                 Inl _ \<Rightarrow> td_num_splits t
               | Inr rows \<Rightarrow>
                   compute_split_count rows target_rows target_bytes bpr
                     (pc_split_min pc) (pc_split_max pc) (td_num_splits t)))"

section \<open>The rows of a split\<close>

text \<open>
  The rows that the statement of a split returns. \<open>key\<close> reads the split column (\<open>None\<close> is SQL NULL, for
  which no predicate holds), \<open>max_rows\<close> is the row cap of the statement. For the row-number predicate the
  rows are given in the order that the database's \<open>ORDER BY\<close> puts them in.
\<close>

definition capped :: "int \<Rightarrow> 'r list \<Rightarrow> 'r list" where
  "capped max_rows rows = take (nat max_rows) rows"

definition modulo_rows ::
  "(int \<Rightarrow> int \<Rightarrow> int) \<Rightarrow> ('r \<Rightarrow> int option) \<Rightarrow> int \<Rightarrow> int \<Rightarrow> int \<Rightarrow> 'r list \<Rightarrow> 'r list" where
  "modulo_rows dbmod key num_splits split_index max_rows rows =
     capped max_rows (sort_key (the \<circ> key)
       (filter (\<lambda>r. case key r of None \<Rightarrow> False | Some k \<Rightarrow> dbmod k num_splits = split_index) rows))"

definition range_rows ::
  "('r \<Rightarrow> int option) \<Rightarrow> int \<Rightarrow> int \<Rightarrow> int \<Rightarrow> 'r list \<Rightarrow> 'r list" where
  "range_rows key key_lo key_hi max_rows rows =
     capped max_rows (sort_key (the \<circ> key)
       (filter (\<lambda>r. case key r of None \<Rightarrow> False | Some k \<Rightarrow> key_lo \<le> k \<and> k < key_hi) rows))"

definition row_number_rows ::
  "(int \<Rightarrow> int \<Rightarrow> int) \<Rightarrow> int \<Rightarrow> int \<Rightarrow> int \<Rightarrow> 'r list \<Rightarrow> 'r list" where
  "row_number_rows dbmod num_splits split_index max_rows ordered =
     capped max_rows
       (map snd (filter (\<lambda>(row_num, _). dbmod (row_num - 1) num_splits = split_index)
                   (zip (map (\<lambda>i. int i + 1) [0..<length ordered]) ordered)))"

record split_descriptor =
  sp_index :: int
  sp_num_splits :: int
  sp_key_lo :: "int option"
  sp_key_hi :: "int option"

text \<open>The choice of the predicate in \<open>build_split_query\<close>, by the split's range and the key's type.\<close>

definition split_rows ::
  "(int \<Rightarrow> int \<Rightarrow> int) \<Rightarrow> ('r \<Rightarrow> int option) \<Rightarrow> string option \<Rightarrow> int \<Rightarrow> split_descriptor \<Rightarrow> 'r list \<Rightarrow> 'r list"
where
  "split_rows dbmod key key_type max_rows sp ordered =
     (if sp_key_lo sp \<noteq> None \<and> sp_key_hi sp \<noteq> None
      then range_rows key (the (sp_key_lo sp)) (the (sp_key_hi sp)) max_rows ordered
      else if \<not> (\<exists>ty. key_type = Some ty \<and> ty \<in> set int_types)
      then row_number_rows dbmod (sp_num_splits sp) (sp_index sp) max_rows ordered
      else modulo_rows dbmod key (sp_num_splits sp) (sp_index sp) max_rows ordered)"

section \<open>Chains of half-open ranges\<close>

fun chain :: "'k::linorder \<Rightarrow> 'k \<Rightarrow> ('k \<times> 'k) list \<Rightarrow> bool" where
  "chain a b [] = (a = b)"
| "chain a b ((x, y) # rs) = (x = a \<and> x \<le> y \<and> chain y b rs)"

abbreviation in_range :: "'k::linorder \<Rightarrow> 'k \<times> 'k \<Rightarrow> bool" where
  "in_range k r \<equiv> fst r \<le> k \<and> k < snd r"

lemma chain_le: "chain a b rs \<Longrightarrow> a \<le> b"
  by (induction rs arbitrary: a) fastforce+

lemma chain_append: "chain a b (rs @ rs') \<longleftrightarrow> (\<exists>m. chain a m rs \<and> chain m b rs')"
  by (induction rs arbitrary: a) auto

lemma chain_outside: "chain a b rs \<Longrightarrow> r \<in> set rs \<Longrightarrow> in_range k r \<Longrightarrow> a \<le> k \<and> k < b"
  by (induction rs arbitrary: a) (fastforce dest: chain_le)+

text \<open>Every key between the ends lies in exactly one range of the chain.\<close>

lemma chain_count:
  "chain a b rs \<Longrightarrow> length (filter (in_range k) rs) = (if a \<le> k \<and> k < b then 1 else 0)"
proof (induction rs arbitrary: a)
  case (Cons r rs)
  obtain x y where r: "r = (x, y)" by fastforce
  have y: "chain y b rs" "x = a" "x \<le> y" "y \<le> b" using r Cons.prems chain_le by auto
  then have "length (filter (in_range k) rs) = (if y \<le> k \<and> k < b then 1 else 0)" using Cons.IH by blast
  then show ?case using y(2-4) r by (auto split: if_splits)
qed auto

lemma chain_replicate: "chain a b (replicate m (c, c)) \<longleftrightarrow> a = b \<and> (m = 0 \<or> a = c)"
  by (induction m arbitrary: a) auto

lemma chain_steps:
  assumes "\<forall>i<m. f i \<le> f (Suc i)"
  shows "chain (f 0) (f m) (map (\<lambda>i. (f i, f (Suc i))) [0..<m])"
  using assms by (induction m) (auto simp: chain_append)

text \<open>Splitting rows along a chain loses and repeats nothing.\<close>

lemma mset_concat_filters:
  assumes "\<forall>r\<in>set rows. length (filter (\<lambda>P. P r) Ps) = 1"
  shows "mset (concat (map (\<lambda>P. filter P rows) Ps)) = mset rows"
  using assms
proof (induction rows)
  case (Cons r rows)
  have "mset (concat (map (\<lambda>P. filter P (r # rows)) Ps))
      = mset (concat (map (\<lambda>P. filter P rows) Ps)) + replicate_mset (length (filter (\<lambda>P. P r) Ps)) r"
    by (induction Ps) auto
  then show ?case using Cons by simp
qed (induction Ps, auto)

lemma mset_concat_cong:
  "\<forall>x\<in>set xs. mset (f x) = mset (g x) \<Longrightarrow> mset (concat (map f xs)) = mset (concat (map g xs))"
  by (induction xs) auto

lemma capped_id: "int (length rows) \<le> max_rows \<Longrightarrow> capped max_rows rows = rows"
  by (simp add: capped_def)

lemma key_ranges_steps:
  fixes lo hi n :: int
  assumes "lo \<le> hi"
  shows "compute_key_ranges lo hi n =
    map (\<lambda>i. (lo + ((hi - lo + 1) * int i) div max 1 n, lo + ((hi - lo + 1) * int (Suc i)) div max 1 n))
      [0..<nat (max 1 n)]"
proof -
  define m where "m = nat (max 1 n)"
  have m: "max 1 n = int m" "0 < m" by (simp_all add: m_def)
  define f where "f i = lo + ((hi - lo + 1) * int i) div int m" for i
  have ends: "f 0 = lo" "f m = hi + 1" using m by (simp_all add: f_def)
  have "((map f [0..<m + 1])[0 := lo])[m := hi + 1] = map f [0..<m + 1]"
    using ends by (intro nth_equalityI) (auto simp: nth_list_update nth_append)
  moreover have "compute_key_ranges lo hi n =
      (let b = ((map f [0..<m + 1])[0 := lo])[m := hi + 1] in map (\<lambda>i. (b ! i, b ! (i + 1))) [0..<m])"
    using assms by (simp add: compute_key_ranges_def m(1) Let_def f_def [abs_def] del: upt_Suc)
  moreover have "map f [0..<m + 1] ! i = f i" if "i \<le> m" for i
    using that nth_map [of i "[0..<m + 1]" f] by (simp del: upt_Suc)
  ultimately show ?thesis by (simp add: Let_def m(1) f_def del: upt_Suc)
qed

lemma key_ranges_chain:
  assumes "lo \<le> hi"
  shows "chain lo (hi + 1) (compute_key_ranges lo hi n)"
proof -
  define f where "f i = lo + ((hi - lo + 1) * int i) div max 1 n" for i
  define m where "m = nat (max 1 n)"
  have m: "max 1 n = int m" "0 < m" by (simp_all add: m_def)
  have "f i \<le> f (Suc i)" for i
    unfolding f_def using assms by (intro add_left_mono zdiv_mono1) (auto simp: mult_left_mono)
  then have "chain (f 0) (f m) (map (\<lambda>i. (f i, f (Suc i))) [0..<m])" using chain_steps by blast
  moreover have "f 0 = lo" "f m = hi + 1" using m by (simp_all add: f_def)
  ultimately show ?thesis
    using key_ranges_steps [OF assms, of n] by (simp add: f_def m_def)
qed

lemma div_add_near:
  fixes x y m :: int
  assumes "0 < m"
  shows "(x + y) div m - x div m \<in> {y div m, y div m + 1}"
proof (cases "x mod m + y mod m < m")
  case True
  then have "(x mod m + y mod m) div m = 0" using assms by simp
  then show ?thesis using div_add1_eq [of x y m] by simp
next
  case False
  have "x mod m < m" "y mod m < m" using assms by simp_all
  with False have "(x mod m + y mod m) div m = 1"
    using div_pos_geq [OF assms, of "x mod m + y mod m"] by simp
  then show ?thesis using div_add1_eq [of x y m] by simp
qed

text \<open>
  C35: Integer range planning. The ranges are \<open>max 1 n\<close> in number and follow one another from the minimum
  to one past the maximum, so that every key between the two lies in exactly one range and no other key in
  any; and the ranges are balanced: each holds the quotient of the span by the number of splits, or
  one more.
\<close>

theorem key_ranges_partition:
  assumes "lo \<le> hi"
  shows "length (compute_key_ranges lo hi n) = nat (max 1 n)
    \<and> (\<forall>k. length (filter (\<lambda>(a, b). a \<le> k \<and> k < b) (compute_key_ranges lo hi n))
             = (if lo \<le> k \<and> k \<le> hi then 1 else 0))
    \<and> (\<forall>(a, b) \<in> set (compute_key_ranges lo hi n).
         b - a \<in> {(hi - lo + 1) div max 1 n, (hi - lo + 1) div max 1 n + 1})"
proof -
  have "length (filter (\<lambda>(a, b). a \<le> k \<and> k < b) (compute_key_ranges lo hi n))
      = (if lo \<le> k \<and> k \<le> hi then 1 else 0)" for k
    using chain_count [OF key_ranges_chain [OF assms], of k n] by (simp add: case_prod_unfold)
  moreover have "b - a \<in> {(hi - lo + 1) div max 1 n, (hi - lo + 1) div max 1 n + 1}"
    if mem: "(a, b) \<in> set (compute_key_ranges lo hi n)" for a b
  proof -
    let ?s = "hi - lo + 1"
    obtain i where "a = lo + (?s * int i) div max 1 n" "b = lo + (?s * int (Suc i)) div max 1 n"
      using mem unfolding key_ranges_steps [OF assms] by auto
    then have "b - a = (?s * int i + ?s) div max 1 n - (?s * int i) div max 1 n"
      by (simp add: algebra_simps)
    moreover have "(?s * int i + ?s) div max 1 n - (?s * int i) div max 1 n \<in> {?s div max 1 n, ?s div max 1 n + 1}"
      by (rule div_add_near) simp
    ultimately show ?thesis by simp
  qed
  moreover have "length (compute_key_ranges lo hi n) = nat (max 1 n)"
    by (simp add: key_ranges_steps [OF assms])
  ultimately show ?thesis by fast
qed

theorem key_ranges_partition_witness:
  "length (filter (\<lambda>(a, b). a \<le> (-3) \<and> (-3) < b) (compute_key_ranges (-5) 7 4)) = 1"
  using key_ranges_partition [of "-5" 7 4] by auto



text \<open>The remainder of SQL engines truncates: it has the sign of the dividend.\<close>

definition sql_mod :: "int \<Rightarrow> int \<Rightarrow> int" where
  "sql_mod a b = sgn a * (\<bar>a\<bar> mod \<bar>b\<bar>)"

lemma sql_mod_nonneg: "0 \<le> k \<Longrightarrow> 0 < n \<Longrightarrow> sql_mod k n = k mod n"
  by (cases "k = 0") (simp_all add: sql_mod_def)

lemma residue_count:
  fixes n x :: int
  assumes "0 \<le> x" and "x < n"
  shows "length (filter (\<lambda>i. x = int i) [0..<nat n]) = 1"
proof -
  have eq: "(\<lambda>i. x = int i) = (\<lambda>i. i = nat x)" using assms(1) by (auto simp: fun_eq_iff)
  have "length (filter (\<lambda>i. i = j) [0..<m]) = (if j < m then 1 else 0)" for j m :: nat
    by (induction m) auto
  then show ?thesis unfolding eq using assms by simp
qed

lemma modulo_rows_mset:
  assumes "int (length rows) \<le> max_rows"
  shows "mset (modulo_rows dbmod key n i max_rows rows) =
    mset (filter (\<lambda>r. case key r of None \<Rightarrow> False | Some k \<Rightarrow> dbmod k n = i) rows)"
proof -
  have "int (length (filter P rows)) \<le> max_rows" for P
    using assms length_filter_le [of P rows] by linarith
  then show ?thesis by (simp add: modulo_rows_def capped_id)
qed

text \<open>
  Modulo splits serve tables with non-negative keys exactly. For a database whose remainder agrees with
  the mathematical one on non-negative numbers, if every key is present and not negative and the cap is not
  reached, the modulo statements of all splits return every row exactly once per occurrence.
\<close>

theorem modulo_splits_serve_nonnegative:
  assumes "0 < n" and "\<forall>r\<in>set rows. \<exists>k\<ge>0. key r = Some k" and "int (length rows) \<le> max_rows"
    and "\<forall>k\<ge>0. dbmod k n = k mod n"
  shows "mset (concat (map (\<lambda>i. modulo_rows dbmod key n (int i) max_rows rows) [0..<nat n])) = mset rows"
proof -
  let ?P = "\<lambda>i r. case key r of None \<Rightarrow> False | Some k \<Rightarrow> dbmod k n = int i"
  have one: "length (filter (\<lambda>P. P r) (map ?P [0..<nat n])) = 1" if r: "r \<in> set rows" for r
  proof -
    obtain k where k: "0 \<le> k" "key r = Some k" using assms(2) r by blast
    then have "filter (\<lambda>P. P r) (map ?P [0..<nat n]) = map ?P (filter (\<lambda>i. k mod n = int i) [0..<nat n])"
      using assms(4) by (simp add: filter_map o_def)
    then show ?thesis using residue_count [of "k mod n" n] assms(1) by simp
  qed
  have "mset (concat (map (\<lambda>i. modulo_rows dbmod key n (int i) max_rows rows) [0..<nat n]))
      = mset (concat (map (\<lambda>P. filter P rows) (map ?P [0..<nat n])))"
    using mset_concat_cong [of "[0..<nat n]" "\<lambda>i. modulo_rows dbmod key n (int i) max_rows rows"
        "\<lambda>i. filter (?P i) rows"] modulo_rows_mset [OF assms(3)] by (simp add: comp_def)
  then show ?thesis using mset_concat_filters [of rows "map ?P [0..<nat n]"] one by simp
qed

theorem modulo_splits_serve_nonnegative_witness:
  "mset (concat (map (\<lambda>i. modulo_rows sql_mod Some 3 (int i) 10 [0, 4, 7 :: int]) [0..<nat 3])) = mset [0, 4, 7]"
  by (rule modulo_splits_serve_nonnegative) (auto simp: sql_mod_nonneg)

text \<open>
  C36: Modulo splits lose rows with negative keys. With the truncating remainder of SQL, a row whose key is
  negative and not a multiple of the number of splits is returned by none of the splits.
\<close>

theorem modulo_splits_lose_negative:
  assumes "0 < n" and "key r = Some k" and "k < 0" and "k mod n \<noteq> 0"
  shows "r \<notin> set (concat (map (\<lambda>i. modulo_rows sql_mod key n (int i) max_rows rows) [0..<nat n]))"
proof -
  have "\<bar>k\<bar> mod n \<noteq> 0" using assms(3,4) by (simp add: zmod_zminus1_not_zero)
  then have "0 < \<bar>k\<bar> mod n" using pos_mod_sign [OF assms(1), of "\<bar>k\<bar>"] by linarith
  then have "sql_mod k n < 0" using assms(1,3) by (simp add: sql_mod_def)
  then have "r \<notin> set (modulo_rows sql_mod key n (int i) max_rows rows)" for i
    using assms(2) by (auto simp: modulo_rows_def capped_def dest!: in_set_takeD)
  then show ?thesis by simp
qed

theorem modulo_splits_lose_negative_witness:
  "concat (map (\<lambda>i. modulo_rows sql_mod Some 4 (int i) 10 [-3 :: int]) [0..<nat 4]) = []"
proof -
  have "x = -3" if "x \<in> set (concat (map (\<lambda>i. modulo_rows sql_mod Some 4 (int i) 10 [-3 :: int]) [0..<nat 4]))" for x
    using that by (auto simp: modulo_rows_def capped_def dest!: in_set_takeD split: if_splits)
  moreover have "-3 \<notin> set (concat (map (\<lambda>i. modulo_rows sql_mod Some 4 (int i) 10 [-3 :: int]) [0..<nat 4]))"
    by (rule modulo_splits_lose_negative [where k = "-3"]) simp_all
  ultimately show ?thesis by (metis last_in_set)
qed

text \<open>
  Row-number splits serve every row. Whatever the key values are (also NULL or repeated ones), if the cap is
  not reached the row-number statements of all splits return every row exactly once per occurrence.
\<close>

theorem row_number_splits_serve_all:
  assumes "0 < n" and "int (length ordered) \<le> max_rows" and "\<forall>k\<ge>0. dbmod k n = k mod n"
  shows "mset (concat (map (\<lambda>i. row_number_rows dbmod n (int i) max_rows ordered) [0..<nat n])) = mset ordered"
proof -
  let ?zs = "zip (map (\<lambda>i. int i + 1) [0..<length ordered]) ordered"
  let ?P = "\<lambda>i p. dbmod (fst p - 1) n = int i"
  have one: "length (filter (\<lambda>P. P p) (map ?P [0..<nat n])) = 1" if p: "p \<in> set ?zs" for p
  proof -
    have "0 \<le> fst p - 1" using p by (auto simp: set_zip)
    then have "filter (\<lambda>P. P p) (map ?P [0..<nat n]) = map ?P (filter (\<lambda>i. (fst p - 1) mod n = int i) [0..<nat n])"
      using assms(3) by (simp add: filter_map o_def)
    then show ?thesis using residue_count [of "(fst p - 1) mod n" n] assms(1) by simp
  qed
  have "row_number_rows dbmod n (int i) max_rows ordered = map snd (filter (?P i) ?zs)" for i
  proof -
    have "length (filter (?P i) ?zs) \<le> length ordered" using length_filter_le [of "?P i" ?zs] by simp
    then have "int (length (map snd (filter (?P i) ?zs))) \<le> max_rows" using assms(2) by simp
    then show ?thesis by (simp add: row_number_rows_def capped_id case_prod_unfold)
  qed
  then have eq: "concat (map (\<lambda>i. row_number_rows dbmod n (int i) max_rows ordered) [0..<nat n])
      = map snd (concat (map (\<lambda>P. filter P ?zs) (map ?P [0..<nat n])))"
    by (simp add: map_concat comp_def)
  have ms: "mset (concat (map (\<lambda>P. filter P ?zs) (map ?P [0..<nat n]))) = mset ?zs"
    using one by (intro mset_concat_filters) blast
  have zs: "map snd ?zs = ordered" by simp
  show ?thesis unfolding eq mset_map ms unfolding mset_map [symmetric] zs ..
qed

theorem row_number_splits_serve_all_witness:
  "mset (concat (map (\<lambda>i. row_number_rows sql_mod 2 (int i) 5 [None, Some 3, Some (-3 :: int)]) [0..<nat 2]))
     = mset [None, Some 3, Some (-3)]"
  by (rule row_number_splits_serve_all) (simp_all add: sql_mod_nonneg)

section \<open>Ranges from statistics\<close>

lemma emit_mins_bounds:
  assumes "emit_mins n total_rows high cum fuel k = (ms, k')"
  shows "k' = k + int (length ms)" and "set ms \<subseteq> {high}" and "k \<le> n \<Longrightarrow> k' \<le> n"
proof -
  have "k' = k + int (length ms) \<and> set ms \<subseteq> {high} \<and> (k \<le> n \<longrightarrow> k' \<le> n)"
    using assms
  proof (induction fuel arbitrary: k ms)
    case (Suc fuel)
    obtain ms1 where "emit_mins n total_rows high cum fuel (k + 1) = (ms1, k') \<and> ms = high # ms1 \<and> k < n
        \<or> ms = [] \<and> k' = k"
      using Suc.prems by (auto split: if_splits prod.splits)
    then show ?case using Suc.IH [of "k + 1"] by auto
  qed simp
  then show "k' = k + int (length ms)" and "set ms \<subseteq> {high}" and "k \<le> n \<Longrightarrow> k' \<le> n" by auto
qed

lemma histogram_loop_bounds:
  assumes "k \<le> n"
  shows "set (histogram_loop n total_rows steps cum k) \<subseteq> set (map fst steps)"
    and "k + int (length (histogram_loop n total_rows steps cum k)) \<le> n"
proof -
  have "set (histogram_loop n total_rows steps cum k) \<subseteq> set (map fst steps)
      \<and> k + int (length (histogram_loop n total_rows steps cum k)) \<le> n"
    using assms
  proof (induction n total_rows steps cum k rule: histogram_loop.induct)
    case (2 n total_rows high rows steps cum k)
    obtain ms k' where em: "emit_mins n total_rows high cum (nat (n - k)) k = (ms, k')" by fastforce
    note b = emit_mins_bounds [OF em]
    show ?case using "2.IH" [OF em [symmetric]] b "2.prems" em by auto
  qed auto
  then show "set (histogram_loop n total_rows steps cum k) \<subseteq> set (map fst steps)"
    and "k + int (length (histogram_loop n total_rows steps cum k)) \<le> n" by auto
qed

lemma histogram_loop_sorted:
  fixes steps :: "('k::linorder \<times> rat) list"
  assumes "sorted (map fst steps)" and "k \<le> n"
  shows "sorted (histogram_loop n total_rows steps cum k)"
  using assms
proof (induction n total_rows steps cum k rule: histogram_loop.induct)
  case (2 n total_rows high rows steps cum k)
  obtain ms k' where em: "emit_mins n total_rows high cum (nat (n - k)) k = (ms, k')" by fastforce
  note b = emit_mins_bounds [OF em]
  have "ms = replicate (length ms) high" using b(2) by (metis replicate_length_same singletonD subsetD)
  then have "sorted ms" by (metis sorted_replicate)
  moreover have "sorted (histogram_loop n total_rows steps (cum + max 0 rows) k')"
    using "2.IH" [OF em [symmetric]] b(3) "2.prems" by simp
  moreover have "set (histogram_loop n total_rows steps (cum + max 0 rows) k') \<subseteq> set (map fst steps)"
    by (rule histogram_loop_bounds(1) [OF b(3) [OF "2.prems"(2)]])
  ultimately show ?case using b(2) "2.prems"(1) em by (auto simp: sorted_append)
qed simp

lemma sorted_Cons_min: "sorted xs \<Longrightarrow> set ys \<subseteq> set xs \<Longrightarrow> sorted ys \<Longrightarrow> xs \<noteq> [] \<Longrightarrow> sorted (hd xs # ys)"
  by (cases xs) auto

lemma sorted_le_last: "sorted xs \<Longrightarrow> x \<in> set xs \<Longrightarrow> x \<le> last xs"
  by (cases xs rule: rev_cases) (auto simp: sorted_append)

lemma sorted_pad: "sorted xs \<Longrightarrow> set xs \<subseteq> {..m} \<Longrightarrow> sorted (xs @ replicate k m)"
  by (auto simp: sorted_append)

text \<open>
  Bucket minimums from a histogram. For ascending steps with some rows, the routine returns exactly \<open>n\<close>
  keys in ascending order, all of them high keys of steps, the first one the smallest.
\<close>

theorem histogram_mins_spec:
  fixes steps :: "('k::linorder \<times> rat) list"
  assumes "1 \<le> n" and "sorted (map fst steps)" and "0 < (\<Sum>(_, r)\<leftarrow>steps. max 0 r)"
  shows "\<exists>mins. mins_from_histogram_steps steps n = Some mins \<and> int (length mins) = n \<and> sorted mins
    \<and> set mins \<subseteq> fst ` set steps \<and> hd mins = fst (hd steps)"
proof -
  define tot where "tot = (\<Sum>(_, r)\<leftarrow>steps. max 0 r)"
  have ne: "steps \<noteq> []" using assms(3) by auto
  define body where "body = fst (hd steps) # histogram_loop n tot steps 0 1"
  define pad where "pad = replicate (nat n - length body) (fst (last steps))"
  have len: "int (length body) \<le> n" using histogram_loop_bounds(2) [of 1 n] assms(1) by (simp add: body_def)
  have sub: "set body \<subseteq> fst ` set steps"
    using histogram_loop_bounds(1) [of 1 n tot steps 0] assms(1) ne by (auto simp: body_def)
  have "sorted body"
    using sorted_Cons_min [OF assms(2), of "histogram_loop n tot steps 0 1"] ne assms(1)
      histogram_loop_bounds(1) [of 1 n tot steps 0] histogram_loop_sorted [OF assms(2,1)]
    by (simp add: body_def hd_map)
  moreover have "set body \<subseteq> {..fst (last steps)}"
    using sub sorted_le_last [OF assms(2)] ne by (auto simp: last_map)
  ultimately have "sorted (body @ pad)" unfolding pad_def by (rule sorted_pad)
  moreover have "mins_from_histogram_steps steps n = Some (body @ pad)"
    using assms(1,3) ne len
    by (simp add: mins_from_histogram_steps_def Let_def tot_def [symmetric] body_def [symmetric] pad_def [symmetric])
  moreover have "set (body @ pad) \<subseteq> fst ` set steps" using sub ne by (auto simp: pad_def)
  ultimately show ?thesis using len by (auto simp: pad_def body_def)
qed

theorem histogram_mins_spec_witness:
  "\<exists>mins. mins_from_histogram_steps [(1 :: int, 5), (7, 3), (9, 4)] 3 = Some mins \<and> length mins = 3 \<and> hd mins = 1"
  using histogram_mins_spec [of 3 "[(1 :: int, 5), (7, 3), (9, 4)]"] by auto

lemma equidepth_mins:
  fixes bounds :: "'k::linorder list"
  assumes "1 \<le> n" and "2 \<le> length bounds" and "sorted bounds"
  shows "\<exists>mins. mins_from_equidepth bounds n = Some mins \<and> int (length mins) = n \<and> sorted mins
    \<and> set mins \<subseteq> set bounds \<and> hd mins = hd bounds"
proof -
  let ?b = "length bounds" and ?f = "\<lambda>i. i * (length bounds - 1) div nat n"
  have n: "0 < nat n" using assms(1) by simp
  have idx: "?f i < ?b" if "i < nat n" for i
  proof -
    have "i * (?b - 1) \<le> nat n * (?b - 1)" using that by (simp add: mult_right_mono)
    then have "?f i \<le> nat n * (?b - 1) div nat n" by (rule div_le_mono)
    then show ?thesis using n assms(2) by simp
  qed
  have "?f i \<le> ?f j" if "i \<le> j" for i j using that by (intro div_le_mono mult_right_mono) auto
  then have "sorted (map (\<lambda>i. bounds ! ?f i) [0..<nat n])"
    using idx sorted_nth_mono [OF assms(3)] by (auto simp: sorted_iff_nth_mono)
  moreover have "hd (map (\<lambda>i. bounds ! ?f i) [0..<nat n]) = hd bounds"
    using n assms(2) by (cases bounds) (simp_all add: hd_map)
  ultimately show ?thesis
    using assms idx by (intro exI [of _ "map (\<lambda>i. bounds ! ?f i) [0..<nat n]"])
      (auto simp: mins_from_equidepth_def Let_def)
qed

lemma ranges_from_mins_Cons:
  "ranges_from_mins (m # ms) upper n = Some (take (nat n)
     (zip (m # ms) (ms @ [upper]) @ replicate (nat n - Suc (length ms)) (upper, upper)))"
proof -
  have "map (\<lambda>i. ((m # ms) ! i, if i + 1 < length (m # ms) then (m # ms) ! (i + 1) else upper)) [0..<length (m # ms)]
      = zip (m # ms) (ms @ [upper])"
    by (rule nth_equalityI) (auto simp: nth_append less_Suc_eq simp del: upt_Suc)
  then show ?thesis by (simp add: ranges_from_mins_def Let_def del: upt_Suc)
qed

lemma zip_chain:
  "sorted (m # ms) \<Longrightarrow> set (m # ms) \<subseteq> {..upper} \<Longrightarrow> chain m upper (zip (m # ms) (ms @ [upper]))"
  by (induction ms arbitrary: m) auto

lemma balanced_ranges_cover_aux:
  fixes mins :: "'k::linorder list"
  assumes "mins \<noteq> []" and "sorted mins" and "set mins \<subseteq> {..upper}" and "int (length mins) \<le> n"
  shows "\<exists>ranges. ranges_from_mins mins upper n = Some ranges \<and> int (length ranges) = n
    \<and> (\<forall>k. length (filter (\<lambda>(a, b). a \<le> k \<and> k < b) ranges) = (if hd mins \<le> k \<and> k < upper then 1 else 0))"
proof -
  obtain m ms where ms: "mins = m # ms" using assms(1) by (cases mins) auto
  let ?rs = "zip (m # ms) (ms @ [upper]) @ replicate (nat n - Suc (length ms)) (upper, upper)"
  have "chain m upper ?rs"
    using zip_chain [of m ms upper] assms(2,3) ms by (auto simp: chain_append chain_replicate)
  from chain_count [OF this] have "\<forall>k. length (filter (\<lambda>(a, b). a \<le> k \<and> k < b) ?rs)
      = (if m \<le> k \<and> k < upper then 1 else 0)" by (simp add: case_prod_unfold)
  moreover have "ranges_from_mins mins upper n = Some ?rs" "int (length ?rs) = n"
    using assms(4) ms by (auto simp: ranges_from_mins_Cons)
  ultimately show ?thesis using ms by auto
qed

text \<open>
  Equal-count planning covers exactly the keys the statistics cover. When the bucket minimums are
  ascending, at most \<open>n\<close> in number and below the exclusive upper bound, the ranges made from them are
  \<open>n\<close> in number, each key from the first minimum to below the upper bound lies in exactly one of them, and
  a key outside these two lies in none.
\<close>

theorem balanced_ranges_cover:
  fixes mins :: "'k::linorder list"
  assumes "mins \<noteq> []" and "sorted mins" and "set mins \<subseteq> {..upper}" and "int (length mins) \<le> n"
  shows "\<exists>ranges. ranges_from_mins mins upper n = Some ranges \<and> int (length ranges) = n
    \<and> (\<forall>k. length (filter (\<lambda>(a, b). a \<le> k \<and> k < b) ranges) = (if hd mins \<le> k \<and> k < upper then 1 else 0))"
  by (rule balanced_ranges_cover_aux [OF assms])

theorem balanced_ranges_cover_witness:
  "\<exists>ranges. ranges_from_mins [1, 4 :: int] 10 3 = Some ranges
     \<and> length (filter (\<lambda>(a, b). a \<le> 4 \<and> 4 < b) ranges) = 1 \<and> length (filter (\<lambda>(a, b). a \<le> 12 \<and> 12 < b) ranges) = 0"
proof -
  obtain ranges where r: "ranges_from_mins [1, 4 :: int] 10 3 = Some ranges"
    "\<forall>k. length (filter (\<lambda>(a, b). a \<le> k \<and> k < b) ranges) = (if hd [1, 4] \<le> k \<and> k < 10 then 1 else 0)"
    using balanced_ranges_cover [of "[1, 4 :: int]" 10 3] by auto
  show ?thesis using r(1) spec [OF r(2), of 4] spec [OF r(2), of 12] by simp
qed

text \<open>
  Planning from optimizer statistics can leave rows unserved. The histogram of a table may be older than
  its rows: a row whose key is below the first or above the last histogram bound is returned by no split of
  the plan made from the histogram.
\<close>

theorem stats_plan_misses_outside_rows:
  assumes "1 \<le> n" and "2 \<le> length bounds" and "sorted bounds"
    and "key r = Some k" and "k < hd bounds \<or> last bounds < k"
  shows "\<exists>mins ranges. mins_from_equidepth bounds n = Some mins
    \<and> ranges_from_mins mins (last bounds + 1) n = Some ranges
    \<and> (\<forall>(a, b) \<in> set ranges. r \<notin> set (range_rows key a b max_rows rows))"
proof -
  obtain mins where mins: "mins_from_equidepth bounds n = Some mins" "int (length mins) = n" "sorted mins"
      "set mins \<subseteq> set bounds" "hd mins = hd bounds" using equidepth_mins [OF assms(1-3)] by blast
  have "mins \<noteq> []" using mins(2) assms(1) by auto
  moreover have "set mins \<subseteq> {..last bounds + 1}"
    using mins(4) sorted_le_last [OF assms(3)] by (auto simp: subset_iff intro: order_trans [OF _ less_imp_le])
  ultimately obtain ranges where rs: "ranges_from_mins mins (last bounds + 1) n = Some ranges"
      "\<forall>k. length (filter (\<lambda>(a, b). a \<le> k \<and> k < b) ranges) = (if hd mins \<le> k \<and> k < last bounds + 1 then 1 else 0)"
    using balanced_ranges_cover_aux [of mins "last bounds + 1" n] mins(2,3) by auto
  have "length (filter (\<lambda>(a, b). a \<le> k \<and> k < b) ranges) = 0" using rs(2) assms(5) mins(5) by auto
  then have "\<forall>(a, b) \<in> set ranges. r \<notin> set (range_rows key a b max_rows rows)"
    using assms(4) by (auto simp: filter_empty_conv range_rows_def capped_def dest!: in_set_takeD)
  then show ?thesis using mins(1) rs(1) by blast
qed

theorem stats_plan_misses_outside_rows_witness:
  "\<exists>mins ranges. mins_from_equidepth [0, 50, 100] 2 = Some mins \<and> ranges_from_mins mins 101 2 = Some ranges
    \<and> (\<forall>(a, b) \<in> set ranges. (200 :: int) \<notin> set (range_rows Some a b 10 [50, 200]))"
  using stats_plan_misses_outside_rows [of 2 "[0, 50, 100]" Some 200 200 10 "[50, 200]"] by simp

section \<open>The number of splits\<close>

lemma ceil_div_spec:
  assumes "0 < b"
  shows "a \<le> ceil_div a b * b" and "(ceil_div a b - 1) * b < a"
proof -
  define q where "q = (- a) div b"
  have "q * b + (- a) mod b = - a" unfolding q_def by (rule div_mult_mod_eq)
  moreover have "0 \<le> (- a) mod b" "(- a) mod b < b" using assms by simp_all
  ultimately show "a \<le> ceil_div a b * b" "(ceil_div a b - 1) * b < a"
    by (simp_all add: ceil_div_def left_diff_distrib q_def [symmetric])
qed

lemma ceil_div_below:
  assumes "0 < b" and "x \<le> ceil_div a b"
  shows "(x - 1) * b < a"
proof -
  have "(x - 1) * b \<le> (ceil_div a b - 1) * b" using assms by (intro mult_right_mono) auto
  then show ?thesis using ceil_div_spec(2) [OF assms(1), of a] by linarith
qed

lemma clamp_bounds: "lo \<le> hi \<Longrightarrow> lo \<le> clamp lo hi x \<and> clamp lo hi x \<le> hi"
  by (simp add: clamp_def)

text \<open>
  The planned number of splits stays between the configured minimum and maximum. Unless it is cut off at the
  maximum it meets every configured target (so many splits of the target size hold all rows, or all bytes), and
  unless it is raised to the minimum, one split less would miss a target.
\<close>

theorem split_count_meets_targets:
  assumes "min_splits \<le> max_splits" and "0 < rows" and "0 < target_rows \<or> (0 < target_bytes \<and> 0 < bpr)"
  shows "let c = compute_split_count (Some rows) target_rows target_bytes bpr min_splits max_splits dflt in
    min_splits \<le> c \<and> c \<le> max_splits
    \<and> (c < max_splits \<longrightarrow> (0 < target_rows \<longrightarrow> rows \<le> c * target_rows)
         \<and> (0 < target_bytes \<and> 0 < bpr \<longrightarrow> rows * bpr \<le> c * target_bytes))
    \<and> (min_splits < c \<longrightarrow> (0 < target_rows \<and> (c - 1) * target_rows < rows)
         \<or> (0 < target_bytes \<and> 0 < bpr \<and> (c - 1) * target_bytes < rows * bpr))"
proof -
  let ?r = "if target_rows > 0 then [ceil_div rows target_rows] else []"
  let ?b = "if target_bytes > 0 \<and> bpr > 0 then [ceil_div (rows * bpr) target_bytes] else []"
  define p where "p = Max (set (?r @ ?b))"
  have ne: "?r @ ?b \<noteq> []" using assms(3) by auto
  then have p: "p \<in> set (?r @ ?b)" "\<forall>x\<in>set (?r @ ?b). x \<le> p" unfolding p_def by (simp_all del: set_append)
  define c where "c = compute_split_count (Some rows) target_rows target_bytes bpr min_splits max_splits dflt"
  have c: "c = clamp min_splits max_splits p" using assms(2,3) ne
    by (auto simp: c_def compute_split_count_def p_def Let_def)
  have targets: "rows \<le> x * target_rows" if "0 < target_rows" "ceil_div rows target_rows \<le> x" for x
    using ceil_div_spec(1) [OF that(1), of rows] that mult_right_mono [of _ x target_rows] by (meson order_trans less_imp_le)
  have bytes: "rows * bpr \<le> x * target_bytes" if "0 < target_bytes" "ceil_div (rows * bpr) target_bytes \<le> x" for x
    using ceil_div_spec(1) [OF that(1), of "rows * bpr"] that mult_right_mono [of _ x target_bytes]
    by (meson order_trans less_imp_le)
  have "p \<le> c" if "c < max_splits" using that by (simp add: c clamp_def max_def min_def split: if_splits)
  then have up: "c < max_splits \<longrightarrow> (0 < target_rows \<longrightarrow> rows \<le> c * target_rows)
      \<and> (0 < target_bytes \<and> 0 < bpr \<longrightarrow> rows * bpr \<le> c * target_bytes)"
    using p(2) targets [of c] bytes [of c] by force
  have "c \<le> p" if "min_splits < c" using that by (simp add: c clamp_def max_def min_def split: if_splits)
  moreover have "0 < target_rows \<and> (x - 1) * target_rows < rows
      \<or> 0 < target_bytes \<and> 0 < bpr \<and> (x - 1) * target_bytes < rows * bpr" if "x \<le> p" for x
    using p(1) that ceil_div_below [of target_rows x rows] ceil_div_below [of target_bytes x "rows * bpr"]
    by (auto split: if_splits)
  ultimately show ?thesis
    using up clamp_bounds [OF assms(1), of p] unfolding c_def [symmetric] c Let_def by blast
qed

theorem split_count_meets_targets_witness:
  "1 \<le> compute_split_count (Some 1000) 300 0 0 1 64 8 \<and> compute_split_count (Some 1000) 300 0 0 1 64 8 \<le> 64"
  using split_count_meets_targets [of 1 64 1000 300 0 0 8] by (simp add: Let_def)

end
