(* ===== verification/Shard_Weight.thy ===== *)
theory Shard_Weight
  imports Artifact_Store Complex_Main "HOL-Library.Product_Lexorder" "HOL-Library.Multiset"
begin

text \<open>
  Size-weighted split ownership (\<open>planner/shard_weight.py\<close>): the greedy assignment of splits to agent
  shards by observed sizes, and the weights sidecar in the artifact store.

  Weights are exact rationals (floating-point rounding of the sums is not modelled). The sidecar is
  stored decoded: \<open>None\<close> is an object that is no JSON dictionary, and an entry is \<open>None\<close> when its value
  is no number. A snapshot is its table name with the indices of its splits.
\<close>

type_synonym weights = "(string, rat) dict"

type_synonym sidecar = "(string, rat option) dict option"

definition SHARD_WEIGHTS_KEY :: string where
  "SHARD_WEIGHTS_KEY = ''_control/shard_weights.json''"

definition stable_key :: "string \<Rightarrow> int \<Rightarrow> string" where
  "stable_key table split_index = table @ ''#'' @ py_str_int split_index"

definition default_weight :: "rat list \<Rightarrow> rat" where
  "default_weight known =
     (let vals = filter (\<lambda>v. v > 0) known in
      if vals = [] then 1 else sum_list vals / of_nat (length vals))"

definition weight_of :: "weights \<Rightarrow> string \<Rightarrow> rat" where
  "weight_of w k = (case map_of w k of None \<Rightarrow> 1 | Some v \<Rightarrow> v)"

definition least_loaded :: "rat list \<Rightarrow> nat" where
  "least_loaded loads = hd (filter (\<lambda>i. loads ! i = Min (set loads)) [0..<length loads])"

definition assign_step :: "weights \<Rightarrow> string \<Rightarrow> (string, nat) dict \<times> rat list \<Rightarrow> (string, nat) dict \<times> rat list" where
  "assign_step w k st =
     (case st of (assignment, loads) \<Rightarrow>
        let shard = least_loaded loads in
        (AList.update k shard assignment, loads[shard := loads ! shard + weight_of w k]))"

definition assign_owners :: "string list \<Rightarrow> int \<Rightarrow> weights \<Rightarrow> (string, nat) dict" where
  "assign_owners ks shard_count w =
     (let n = max 1 shard_count in
      if n = 1 then fold (\<lambda>k. AList.update k 0) ks []
      else fst (fold (assign_step w) (sort_key (\<lambda>x. (- weight_of w x, x)) ks) ([], replicate (nat n) 0)))"

definition snapshot_keys :: "string \<times> int list \<Rightarrow> string list" where
  "snapshot_keys snap = map (stable_key (fst snap)) (snd snap)"

definition snapshot_weights :: "weights \<Rightarrow> string list \<Rightarrow> weights" where
  "snapshot_weights w ks =
     (let dflt = default_weight (List.map_filter (map_of w) ks) in
      fold (\<lambda>k. AList.update k (case map_of w k of None \<Rightarrow> dflt | Some v \<Rightarrow> v)) ks [])"

definition build_assignment :: "(string \<times> int list) list \<Rightarrow> int \<Rightarrow> weights \<Rightarrow> (string, nat) dict" where
  "build_assignment snapshots shard_count w =
     fold (\<lambda>snap assignment.
             let ks = snapshot_keys snap in
             if ks = [] then assignment
             else fold (\<lambda>(k, s). AList.update k s) (assign_owners ks shard_count (snapshot_weights w ks)) assignment)
       snapshots []"

definition py_int :: "rat \<Rightarrow> int" where
  "py_int x = (if x \<ge> 0 then floor x else ceiling x)"

definition shard_loads :: "(string, nat) dict \<Rightarrow> int \<Rightarrow> weights \<Rightarrow> (nat \<times> nat \<times> int) list" where
  "shard_loads assignment shard_count w =
     (let n = nat (max 1 shard_count) in
      map (\<lambda>i. let mine = filter (\<lambda>(_, s). s = i) assignment in
             (i, length mine,
              py_int (\<Sum>(k, _)\<leftarrow>mine. case map_of w k of None \<Rightarrow> 0 | Some v \<Rightarrow> v))) [0..<n])"

text \<open>\<open>store\<close> is \<open>None\<close> when there is no artifact store, or the outcome of \<open>get\<close> and \<open>put\<close> on it.\<close>

definition load_weights :: "sidecar store option \<Rightarrow> string \<Rightarrow> weights" where
  "load_weights st key =
     (case st of
        None \<Rightarrow> []
      | Some s \<Rightarrow>
          (case get_object key s of
             Inl _ \<Rightarrow> []
           | Inr None \<Rightarrow> []
           | Inr (Some data) \<Rightarrow>
               List.map_filter (\<lambda>(k, v). case v of None \<Rightarrow> None | Some x \<Rightarrow> if x > 0 then Some (k, x) else None) data))"

definition save_weights ::
  "sidecar store option \<Rightarrow> (string, rat option) dict \<Rightarrow> string \<Rightarrow> bool \<times> sidecar store option" where
  "save_weights st sizes key =
     (case st of
        None \<Rightarrow> (False, None)
      | Some s \<Rightarrow>
          if sizes = [] then (False, Some s)
          else let merged = fold (\<lambda>(k, v) m. case v of None \<Rightarrow> m | Some x \<Rightarrow> if x > 0 then AList.update k x m else m)
                              sizes (load_weights st key)
               in (case put key (Some (map (\<lambda>(k, x). (k, Some x)) merged)) s of
                     (Inl _, s') \<Rightarrow> (False, Some s')
                   | (Inr _, s') \<Rightarrow> (True, Some s')))"

section \<open>Run-stable split keys\<close>

lemma py_str_int_no_hash: "CHR ''#'' \<notin> set (py_str_int i)"
  using nat_digits_value [of "nat i"] nat_digits_value [of "nat (- i)"] by (auto simp: py_str_int_def)

text \<open>
  The identity of a split is unambiguous: no two pairs of a table name and a split index have the same
  stable key, whatever characters the table names contain.
\<close>

theorem stable_key_injective: "stable_key t i = stable_key t' i' \<longleftrightarrow> t = t' \<and> i = i'"
proof
  assume eq: "stable_key t i = stable_key t' i'"
  have tail: "takeWhile (\<lambda>c. c \<noteq> CHR ''#'') (rev (stable_key t i)) = rev (py_str_int i)" for t i
  proof -
    have "takeWhile (\<lambda>c. c \<noteq> CHR ''#'') (xs @ CHR ''#'' # ys) = xs" if "CHR ''#'' \<notin> set xs" for xs ys
      using that by (induction xs) auto
    then show ?thesis using py_str_int_no_hash [of i] by (simp add: stable_key_def)
  qed
  have "py_str_int i = py_str_int i'" using tail [of t i] tail [of t' i'] eq by simp
  then show "t = t' \<and> i = i'" using eq py_str_int_inj by (auto simp: stable_key_def)
qed simp

section \<open>The greedy assignment\<close>

lemma least_loaded_spec:
  assumes "loads \<noteq> []"
  shows "least_loaded loads < length loads" and "\<forall>i<length loads. loads ! least_loaded loads \<le> loads ! i"
    and "\<forall>i<least_loaded loads. loads ! least_loaded loads < loads ! i"
proof -
  let ?m = "Min (set loads)"
  let ?is = "filter (\<lambda>i. loads ! i = ?m) [0..<length loads]"
  have "?m \<in> set loads" using assms by simp
  then obtain i where "i < length loads" "loads ! i = ?m" by (metis in_set_conv_nth)
  then have "?is \<noteq> []" by (auto simp: filter_empty_conv)
  then have mem: "least_loaded loads \<in> set ?is" unfolding least_loaded_def by (rule hd_in_set)
  then show lt: "least_loaded loads < length loads" and le: "\<forall>i<length loads. loads ! least_loaded loads \<le> loads ! i"
    using assms by auto
  have "sorted ?is" by (simp add: sorted_wrt_filter)
  then have first: "\<forall>i\<in>set ?is. least_loaded loads \<le> i"
    using \<open>?is \<noteq> []\<close> unfolding least_loaded_def by (cases ?is) auto
  show "\<forall>i<least_loaded loads. loads ! least_loaded loads < loads ! i"
  proof (intro allI impI)
    fix i assume i: "i < least_loaded loads"
    then have "i \<notin> set ?is" using first by (meson leD)
    then have "loads ! i \<noteq> ?m" using i lt by simp
    moreover have "loads ! least_loaded loads = ?m" using mem by simp
    moreover have "loads ! least_loaded loads \<le> loads ! i" using le lt i by simp
    ultimately show "loads ! least_loaded loads < loads ! i" by simp
  qed
qed

text \<open>The state of the loop: the recorded loads are the loads of the assignment, and they are close.\<close>

definition owned :: "weights \<Rightarrow> (string, nat) dict \<Rightarrow> string list \<Rightarrow> nat \<Rightarrow> rat" where
  "owned w assignment ks s = (\<Sum>k\<leftarrow>filter (\<lambda>k. map_of assignment k = Some s) ks. weight_of w k)"

definition lpt_ok :: "weights \<Rightarrow> nat \<Rightarrow> rat \<Rightarrow> string list \<Rightarrow> (string, nat) dict \<times> rat list \<Rightarrow> bool" where
  "lpt_ok w n m seen st \<longleftrightarrow> (case st of (assignment, loads) \<Rightarrow>
     length loads = n \<and> (\<forall>s<n. loads ! s = owned w assignment seen s)
     \<and> (\<forall>k\<in>set seen. \<exists>s<n. map_of assignment k = Some s)
     \<and> (\<forall>i<n. \<forall>j<n. loads ! i \<le> loads ! j + m))"

lemma assign_step_ok:
  assumes "lpt_ok w n m seen st" and "0 < n" and "k \<notin> set seen" and "0 \<le> weight_of w k" and "weight_of w k \<le> m"
  shows "lpt_ok w n m (seen @ [k]) (assign_step w k st)"
proof -
  obtain a loads where st: "st = (a, loads)" by fastforce
  note ok = assms(1) [unfolded lpt_ok_def st prod.case]
  let ?s = "least_loaded loads" and ?loads = "loads[least_loaded loads := loads ! least_loaded loads + weight_of w k]"
  have ne: "loads \<noteq> []" using ok assms(2) by auto
  have s: "?s < n" "\<forall>i<n. loads ! ?s \<le> loads ! i" using least_loaded_spec [OF ne] ok by auto
  have "filter (\<lambda>k'. map_of (AList.update k ?s a) k' = Some t) seen = filter (\<lambda>k'. map_of a k' = Some t) seen" for t
    using assms(3) by (intro filter_cong) auto
  then have "owned w (AList.update k ?s a) (seen @ [k]) t = owned w a seen t + (if t = ?s then weight_of w k else 0)" for t
    by (simp add: owned_def)
  then have "\<forall>t<n. ?loads ! t = owned w (AList.update k ?s a) (seen @ [k]) t"
    using ok s(1) by (simp add: nth_list_update)
  moreover have "\<forall>k'\<in>set (seen @ [k]). \<exists>t<n. map_of (AList.update k ?s a) k' = Some t" using ok s(1) by auto
  moreover have "?loads ! i \<le> ?loads ! j + m" if ij: "i < n" "j < n" for i j
  proof -
    have "loads ! i \<le> loads ! j + m" "loads ! ?s \<le> loads ! j" "0 \<le> m" using ok s assms(4,5) ij by auto
    moreover have "length loads = n" using ok by blast
    ultimately show ?thesis using ij assms(4,5) by (cases "i = ?s"; cases "j = ?s") simp_all
  qed
  ultimately show ?thesis using ok by (simp add: lpt_ok_def st assign_step_def Let_def)
qed

lemma assign_loop_ok:
  assumes "lpt_ok w n m seen st" and "0 < n" and "distinct (seen @ ks)"
    and "\<forall>k\<in>set ks. 0 \<le> weight_of w k \<and> weight_of w k \<le> m"
  shows "lpt_ok w n m (seen @ ks) (fold (assign_step w) ks st)"
  using assms
proof (induction ks arbitrary: seen st)
  case (Cons k ks)
  then have "lpt_ok w n m (seen @ [k]) (assign_step w k st)" by (intro assign_step_ok) auto
  then show ?case using Cons.IH [of "seen @ [k]"] Cons.prems by auto
qed simp

lemma owned_perm: "mset ks = mset ks' \<Longrightarrow> owned w a ks s = owned w a ks' s"
proof -
  assume eq: "mset ks = mset ks'"
  have "owned w a xs s = sum_mset (image_mset (weight_of w) (filter_mset (\<lambda>k. map_of a k = Some s) (mset xs)))" for xs
    by (simp add: owned_def sum_mset_sum_list flip: mset_filter mset_map)
  then show ?thesis using eq by simp
qed

lemma sort_key_inj_perm:
  assumes "inj f" and "mset xs = mset ys"
  shows "sort_key f xs = sort_key f ys"
proof -
  have "map f (sort_key f zs) = sort (map f zs)" for zs
    by (rule properties_for_sort [symmetric]) simp_all
  moreover have "sort (map f xs) = sort (map f ys)"
    using assms(2) by (intro properties_for_sort) simp_all
  ultimately show ?thesis using assms(1) by (metis inj_map_eq_map)
qed

lemma assign_owners_perm:
  assumes "2 \<le> n" and "mset ks' = mset ks"
  shows "assign_owners ks' n w = assign_owners ks n w"
proof -
  have "inj (\<lambda>x. (- weight_of w x, x))" by (auto simp: inj_on_def)
  from sort_key_inj_perm [OF this assms(2)] show ?thesis
    using assms(1) by (simp add: assign_owners_def)
qed

lemma owned_total:
  "\<forall>k\<in>set ks. \<exists>s<n. map_of a k = Some s \<Longrightarrow> (\<Sum>s<n. owned w a ks s) = (\<Sum>k\<leftarrow>ks. weight_of w k)"
proof (induction ks)
  case (Cons k ks)
  then obtain s0 where s0: "s0 < n" "map_of a k = Some s0" by auto
  then have "owned w a (k # ks) s = owned w a ks s + (if s = s0 then weight_of w k else 0)" for s
    by (simp add: owned_def)
  then show ?case using Cons s0 by (simp add: sum.distrib)
qed (simp add: owned_def)

lemma lpt_result:
  assumes "2 \<le> n" and "distinct ks" and "\<forall>k\<in>set ks. 0 \<le> weight_of w k \<and> weight_of w k \<le> m" and "0 \<le> m"
  shows "\<exists>loads. lpt_ok w (nat n) m (sort_key (\<lambda>x. (- weight_of w x, x)) ks) (assign_owners ks n w, loads)"
proof -
  let ?ks = "sort_key (\<lambda>x. (- weight_of w x, x)) ks"
  have "lpt_ok w (nat n) m [] ([], replicate (nat n) 0)" using assms(4) by (simp add: lpt_ok_def owned_def)
  then have "lpt_ok w (nat n) m ([] @ ?ks) (fold (assign_step w) ?ks ([], replicate (nat n) 0))"
    using assms by (intro assign_loop_ok) auto
  then show ?thesis using assms(1) by (cases "fold (assign_step w) ?ks ([], replicate (nat n) 0)")
      (auto simp: assign_owners_def Let_def)
qed

text \<open>
  C37: Ownership is total, deterministic and balanced. With several shards, distinct splits and weights between
  zero and \<open>m\<close>: every split is owned by one of the shards; the assignment does not depend on the order in which
  the splits are listed; the loads of any two shards differ by at most \<open>m\<close>; and no shard exceeds the average load
  by more than \<open>(1 - 1 / n) * m\<close>.
\<close>

theorem lpt_assignment_balanced:
  assumes "2 \<le> n" and "distinct ks" and "\<forall>k\<in>set ks. 0 \<le> weight_of w k \<and> weight_of w k \<le> m" and "0 \<le> m"
  shows "(\<forall>k\<in>set ks. \<exists>s<nat n. map_of (assign_owners ks n w) k = Some s)
    \<and> (\<forall>ks'. mset ks' = mset ks \<longrightarrow> assign_owners ks' n w = assign_owners ks n w)
    \<and> (\<forall>i<nat n. \<forall>j<nat n. owned w (assign_owners ks n w) ks i \<le> owned w (assign_owners ks n w) ks j + m)
    \<and> (\<forall>i<nat n. of_int n * owned w (assign_owners ks n w) ks i \<le> (\<Sum>k\<leftarrow>ks. weight_of w k) + of_int (n - 1) * m)"
proof -
  let ?f = "\<lambda>x. (- weight_of w x, x)" and ?a = "assign_owners ks n w"
  obtain loads where ok: "lpt_ok w (nat n) m (sort_key ?f ks) (?a, loads)" using lpt_result [OF assms] by blast
  have own: "owned w ?a (sort_key ?f ks) s = owned w ?a ks s" for s by (rule owned_perm) simp
  have total: "\<forall>k\<in>set ks. \<exists>s<nat n. map_of ?a k = Some s" using ok by (auto simp: lpt_ok_def)
  have spread: "\<forall>i<nat n. \<forall>j<nat n. owned w ?a ks i \<le> owned w ?a ks j + m"
    using ok by (auto simp: lpt_ok_def own)
  have "\<forall>ks'. mset ks' = mset ks \<longrightarrow> assign_owners ks' n w = ?a"
    using assign_owners_perm [OF assms(1)] by blast
  moreover have "of_int n * owned w ?a ks i \<le> (\<Sum>k\<leftarrow>ks. weight_of w k) + of_int (n - 1) * m" if i: "i < nat n" for i
  proof -
    have "(\<Sum>s\<in>{..<nat n} - {i}. owned w ?a ks i) \<le> (\<Sum>s\<in>{..<nat n} - {i}. owned w ?a ks s + m)"
      using spread i by (intro sum_mono) auto
    then have "of_int (n - 1) * owned w ?a ks i \<le> (\<Sum>s\<in>{..<nat n} - {i}. owned w ?a ks s) + of_int (n - 1) * m"
      using i assms(1) by (simp add: sum.distrib of_nat_diff)
    moreover have "(\<Sum>s\<in>{..<nat n} - {i}. owned w ?a ks s) = (\<Sum>k\<leftarrow>ks. weight_of w k) - owned w ?a ks i"
      using owned_total [OF total, of w] i by (simp add: sum_diff1)
    ultimately show ?thesis by (simp add: algebra_simps)
  qed
  ultimately show ?thesis using total spread by blast
qed

theorem lpt_assignment_balanced_witness:
  "of_int 2 * owned [] (assign_owners [''a'', ''b'', ''c''] 2 []) [''a'', ''b'', ''c''] 0
     \<le> (\<Sum>k\<leftarrow>[''a'', ''b'', ''c'']. weight_of [] k) + of_int (2 - 1) * 1"
  by (rule lpt_assignment_balanced [THEN conjunct2, THEN conjunct2, THEN conjunct2, rule_format])
     (auto simp: weight_of_def)

end
