(* ===== verification/Json_Text.thy ===== *)
theory Json_Text
  imports Complex_Main Prelude "HOL-Library.Char_ord" "HOL-Library.List_Lexorder"
begin

text \<open>
  What the components use of Python's standard library for configuration documents: the values \<open>json.loads\<close>
  returns, shell patterns (\<open>fnmatch.fnmatchcase\<close>), and the parts of \<open>urllib.parse.urlsplit\<close>.
\<close>

section \<open>JSON values\<close>

datatype json = JNull | JBool bool | JInt int | JReal rat | JStr string | JList "json list" | JObj "(string, json) dict"

fun json_text :: "json \<Rightarrow> string option" where
  "json_text (JStr s) = Some s"
| "json_text _ = None"

fun is_obj :: "json \<Rightarrow> bool" where
  "is_obj (JObj _) = True"
| "is_obj _ = False"

definition json_get :: "(string, json) dict \<Rightarrow> string \<Rightarrow> json \<Rightarrow> json" where
  "json_get d k fallback = (case map_of d k of None \<Rightarrow> fallback | Some v \<Rightarrow> v)"

text \<open>\<open>s.partition(sep)\<close> for a separator of more than one character.\<close>

fun py_partition_str :: "string \<Rightarrow> string \<Rightarrow> string \<times> bool \<times> string" where
  "py_partition_str sep [] = ([], False, [])"
| "py_partition_str sep (x # xs) =
     (if py_startswith (x # xs) sep then ([], True, drop (length sep) (x # xs))
      else case py_partition_str sep xs of (a, f, b) \<Rightarrow> (x # a, f, b))"

section \<open>Shell patterns\<close>

text \<open>A pattern is a list of tokens; a character class is a list of ranges.\<close>

datatype glob = G_Star | G_Any | G_Never | G_Char char | G_Class bool "(char \<times> char) list"

fun find_hyphen :: "nat \<Rightarrow> string \<Rightarrow> nat option" where
  "find_hyphen k [] = None"
| "find_hyphen 0 (c # cs) = (if c = CHR ''-'' then Some 0 else map_option Suc (find_hyphen 0 cs))"
| "find_hyphen (Suc k) (c # cs) = map_option Suc (find_hyphen k cs)"

lemma find_hyphen_less: "find_hyphen k s = Some p \<Longrightarrow> p < length s"
  by (induction k s arbitrary: p rule: find_hyphen.induct) (auto split: if_splits)

function class_chunks :: "nat \<Rightarrow> string \<Rightarrow> string list" where
  "class_chunks k s =
     (case find_hyphen k s of None \<Rightarrow> [s] | Some p \<Rightarrow> take p s # class_chunks 2 (drop (Suc p) s))"
  by pat_completeness auto
termination by (relation "measure (length \<circ> snd)") (auto dest: find_hyphen_less)

definition close_chunks :: "string list \<Rightarrow> string list" where
  "close_chunks cs =
     (if length cs > 1 \<and> last cs = [] then butlast (butlast cs) @ [last (butlast cs) @ ''-''] else cs)"

fun merge_chunks :: "string list \<Rightarrow> string list" where
  "merge_chunks [] = []"
| "merge_chunks (c # cs) =
     (case merge_chunks cs of
        [] \<Rightarrow> [c]
      | d # ds \<Rightarrow> if last c > hd d then (butlast c @ tl d) # ds else c # d # ds)"

fun chunk_ranges :: "string list \<Rightarrow> (char \<times> char) list" where
  "chunk_ranges [] = []"
| "chunk_ranges [c] = map (\<lambda>x. (x, x)) c"
| "chunk_ranges (c # d # ds) = map (\<lambda>x. (x, x)) c @ (last c, hd d) # chunk_ranges (d # ds)"

definition glob_class :: "string \<Rightarrow> glob" where
  "glob_class stuff =
     (let cs = (if CHR ''-'' \<in> set stuff
                then merge_chunks (close_chunks (class_chunks (if hd stuff = CHR ''!'' then 2 else 1) stuff))
                else [stuff]) in
      if cs = [[]] then G_Never
      else if cs = [''!''] then G_Any
      else if hd (hd cs) = CHR ''!'' then G_Class False (chunk_ranges (tl (hd cs) # tl cs))
      else G_Class True (chunk_ranges cs))"

text \<open>The end of a class: a closing bracket directly after the opening one or the exclamation mark is an ordinary character.\<close>

definition class_end :: "string \<Rightarrow> (string \<times> string) option" where
  "class_end s =
     (let n1 = (if s \<noteq> [] \<and> hd s = CHR ''!'' then 1 else 0);
          n2 = (if drop n1 s \<noteq> [] \<and> hd (drop n1 s) = CHR '']'' then n1 + 1 else n1);
          body = takeWhile (\<lambda>c. c \<noteq> CHR '']'') (drop n2 s);
          n = n2 + length body
      in if n < length s then Some (take n s, drop (Suc n) s) else None)"

lemma class_end_less: "class_end s = Some (a, b) \<Longrightarrow> length b < length s"
  by (auto simp: class_end_def Let_def split: if_splits)

function glob_translate :: "string \<Rightarrow> glob list" where
  "glob_translate [] = []"
| "glob_translate (c # cs) =
     (if c = CHR ''*'' then G_Star # glob_translate cs
      else if c = CHR ''?'' then G_Any # glob_translate cs
      else if c = CHR ''['' then
        (case class_end cs of
           None \<Rightarrow> G_Char c # glob_translate cs
         | Some (stuff, rest) \<Rightarrow> glob_class stuff # glob_translate rest)
      else G_Char c # glob_translate cs)"
  by pat_completeness auto
termination by (relation "measure length") (auto dest: class_end_less)

fun token_matches :: "glob \<Rightarrow> char \<Rightarrow> bool" where
  "token_matches G_Any x = True"
| "token_matches (G_Char c) x = (x = c)"
| "token_matches (G_Class pos rs) x = ((\<exists>(a, b)\<in>set rs. a \<le> x \<and> x \<le> b) = pos)"
| "token_matches _ x = False"

fun glob_match :: "glob list \<Rightarrow> string \<Rightarrow> bool" where
  "glob_match [] s = (s = [])"
| "glob_match (G_Star # gs) [] = glob_match gs []"
| "glob_match (G_Star # gs) (x # s) = (glob_match gs (x # s) \<or> glob_match (G_Star # gs) s)"
| "glob_match (g # gs) [] = False"
| "glob_match (g # gs) (x # s) = (token_matches g x \<and> glob_match gs s)"

definition fnmatchcase :: "string \<Rightarrow> string \<Rightarrow> bool" where
  "fnmatchcase name pat = glob_match (glob_translate pat) name"

definition plain_pattern :: "string \<Rightarrow> bool" where
  "plain_pattern p \<longleftrightarrow> set p \<inter> {CHR ''*'', CHR ''?'', CHR ''[''} = {}"

lemma fnmatchcase_plain: "plain_pattern p \<Longrightarrow> fnmatchcase s p \<longleftrightarrow> s = p"
proof (induction p arbitrary: s)
  case (Cons c p)
  then have "fnmatchcase s p \<longleftrightarrow> s = p" for s by (simp add: plain_pattern_def)
  then show ?case using Cons.prems by (cases s) (auto simp: fnmatchcase_def plain_pattern_def)
qed (simp add: fnmatchcase_def)

lemma fnmatchcase_prefix:
  assumes "plain_pattern p"
  shows "fnmatchcase s (p @ ''*'') \<longleftrightarrow> py_startswith s p"
  using assms
proof (induction p arbitrary: s)
  case Nil
  have "glob_match [G_Star] s" by (induction s) simp_all
  then show ?case by (simp add: fnmatchcase_def)
next
  case (Cons c p)
  then have "fnmatchcase s (p @ ''*'') \<longleftrightarrow> py_startswith s p" for s by (simp add: plain_pattern_def)
  then show ?case using Cons.prems by (cases s) (auto simp: fnmatchcase_def plain_pattern_def)
qed

section \<open>URLs\<close>

text \<open>
  The test that a URL uses HTTPS, names a host and has no credentials, query or fragment, on the components of
  \<open>urlsplit\<close>. A bracketed host must be an IP literal, which \<open>valid_ip\<close> decides; the error of an invalid one is a
  \<open>ValueError\<close> like that of the test.
\<close>

definition url_clean :: "string \<Rightarrow> string" where
  "url_clean u =
     filter (\<lambda>c. c \<notin> {CHR 0x09, CHR 0x0A, CHR 0x0D}) (dropWhile (\<lambda>c. (of_char c :: nat) \<le> 32) u)"

definition is_alpha :: "char \<Rightarrow> bool" where
  "is_alpha c = (let v = (of_char c :: nat) in 65 \<le> v \<and> v \<le> 90 \<or> 97 \<le> v \<and> v \<le> 122)"

definition is_digit :: "char \<Rightarrow> bool" where
  "is_digit c = (let v = (of_char c :: nat) in 48 \<le> v \<and> v \<le> 57)"

definition url_scheme :: "string \<Rightarrow> string \<times> string" where
  "url_scheme u =
     (case py_partition (CHR '':'') u of
        (s, found, rest) \<Rightarrow>
          if found \<and> s \<noteq> [] \<and> is_alpha (hd s) \<and> (\<forall>c\<in>set s. is_alpha c \<or> is_digit c \<or> c \<in> set ''+-.'')
          then (py_casefold s, rest) else ([], u))"

definition https_url :: "(string \<Rightarrow> bool) \<Rightarrow> string \<Rightarrow> bool" where
  "https_url valid_ip url =
     (let (scheme, u) = url_scheme (url_clean url);
          netloc = (if take 2 u = ''//'' then takeWhile (\<lambda>c. c \<notin> set ''/?#'') (drop 2 u) else []);
          rest = (if take 2 u = ''//'' then dropWhile (\<lambda>c. c \<notin> set ''/?#'') (drop 2 u) else u);
          (before, has_fragment, fragment) = py_partition (CHR ''#'') rest;
          (path, has_query, query) = py_partition (CHR ''?'') before;
          userinfo = rev (snd (snd (py_partition (CHR ''@'') (rev netloc))));
          host = (if CHR ''@'' \<in> set netloc then rev (fst (py_partition (CHR ''@'') (rev netloc))) else netloc);
          (username, has_password, password) = py_partition (CHR '':'') userinfo;
          hostname = (if CHR ''['' \<in> set host
                      then fst (py_partition (CHR '']'') (snd (snd (py_partition (CHR ''['') host))))
                      else fst (py_partition (CHR '':'') host))
      in (CHR ''['' \<in> set netloc \<longleftrightarrow> CHR '']'' \<in> set netloc)
         \<and> (CHR ''['' \<in> set netloc \<longrightarrow> valid_ip (fst (py_partition (CHR '']'') (snd (snd (py_partition (CHR ''['') netloc))))))
         \<and> scheme = ''https'' \<and> hostname \<noteq> [] \<and> username = [] \<and> password = [] \<and> query = [] \<and> fragment = [])"

end
