(* ===== verification/Placement.thy ===== *)
theory Placement
  imports Json_Text
begin

text \<open>
  Placement policies of the Manager (\<open>enterprise/control/placement.py\<close>): the validated configuration, the parser
  \<open>PlacementConfig.from_dict\<close>, and the checks that dispatch applies. Frozen sets are lists, dictionaries are
  insertion-ordered association lists, and errors carry the class of the exception and a fixed part of its message.
\<close>

section \<open>Configuration\<close>

datatype placement_error =
    Value_Error string
  | Residency_Violation string
  | Tenant_Violation string
  | Version_Unsupported string
  | Key_Error string

record version_policy =
  vp_current :: string
  vp_previous :: string
  vp_rollout_order :: "string list"
  vp_rings :: "(string, string list) dict"

record store_profile =
  spf_location :: string
  spf_provider :: string
  spf_tenant_id :: string

record serving_endpoint =
  se_location :: string
  se_storage_profile :: string
  se_url :: string
  se_tenant_id :: string

record pool =
  pl_pool_id :: string
  pl_identities :: "string list"
  pl_location :: string
  pl_storage_profile :: string
  pl_allowed_connection_ids :: "string list"
  pl_allowed_table_patterns :: "string list"
  pl_max_concurrency :: "int option"
  pl_heartbeat_ms :: "int option"
  pl_heartbeat_miss_limit :: "int option"
  pl_claim_lease_seconds :: "int option"
  pl_tenant_id :: string
  pl_upgrade_ring :: string

record policy =
  po_tenant_id :: string
  po_required_pool :: string
  po_required_location :: string
  po_required_storage_profile :: string
  po_fallback_pools :: "string list"
  po_max_concurrency :: "int option"
  po_source_max_concurrency :: "int option"
  po_residency_locations :: "string list"
  po_staging_storage_profile :: string
  po_serving_endpoints :: "string list"
  po_replica_storage_profiles :: "string list"
  po_cache_storage_profiles :: "string list"
  po_freshness_target_ms :: "int option"

record placement =
  pc_pools :: "(string, pool) dict"
  pc_connections :: "(string, policy) dict"
  pc_tables :: "(string \<times> string, policy) dict"
  pc_stores :: "(string, store_profile) dict"
  pc_serving_endpoints :: "(string, serving_endpoint) dict"
  pc_tenants :: "string list"
  pc_agent_versions :: "version_policy option"
  pc_active_storage_profile :: string

definition default_policy :: policy where
  "default_policy =
     \<lparr>po_tenant_id = [], po_required_pool = [], po_required_location = [], po_required_storage_profile = [],
      po_fallback_pools = [], po_max_concurrency = None, po_source_max_concurrency = None, po_residency_locations = [],
      po_staging_storage_profile = [], po_serving_endpoints = [], po_replica_storage_profiles = [],
      po_cache_storage_profiles = [], po_freshness_target_ms = None\<rparr>"

definition allows :: "pool \<Rightarrow> string \<Rightarrow> string \<Rightarrow> bool" where
  "allows p connection_id source_table \<longleftrightarrow>
     connection_id \<noteq> [] \<and> connection_id \<in> set (pl_allowed_connection_ids p)
     \<and> (pl_allowed_table_patterns p = [] \<or> (\<exists>pat\<in>set (pl_allowed_table_patterns p). fnmatchcase source_table pat))"

definition placement_enabled :: "placement \<Rightarrow> bool" where
  "placement_enabled c \<longleftrightarrow> pc_tenants c \<noteq> [] \<or> pc_pools c \<noteq> [] \<or> pc_connections c \<noteq> [] \<or> pc_tables c \<noteq> []"

definition identity_pools :: "placement \<Rightarrow> (string, pool) dict" where
  "identity_pools c =
     fold (\<lambda>(i, p) d. AList.update i p d) (concat (map (\<lambda>(_, p). map (\<lambda>i. (i, p)) (pl_identities p)) (pc_pools c))) []"

definition pool_for_identity :: "placement \<Rightarrow> string \<Rightarrow> pool option" where
  "pool_for_identity c identity = map_of (identity_pools c) identity"

section \<open>Agent versions\<close>

definition span_digits :: "string \<Rightarrow> string \<times> string" where
  "span_digits s = (takeWhile is_digit s, dropWhile is_digit s)"

definition digits_int :: "string \<Rightarrow> string" where
  "digits_int s = py_str_int (the (py_int_of s))"

text \<open>The regular expressions \<open>(\d+)\.(\d+)(?:\.\d+)?(?:[-+][0-9A-Za-z.-]+)?\<close> and \<open>\d+\.\d+\<close>, matched in full.\<close>

definition version_suffix :: "string \<Rightarrow> bool" where
  "version_suffix s \<longleftrightarrow>
     s = [] \<or> hd s \<in> set ''-+'' \<and> tl s \<noteq> [] \<and> (\<forall>c\<in>set (tl s). is_digit c \<or> is_alpha c \<or> c \<in> set ''.-'')"

definition release_of :: "string \<Rightarrow> string option" where
  "release_of s =
     (let (major, r1) = span_digits s; (minor, r2) = span_digits (drop 1 r1);
          (patch, r3) = span_digits (drop 1 r2);
          rest = (if take 1 r2 = ''.'' \<and> patch \<noteq> [] then r3 else r2)
      in if major \<noteq> [] \<and> take 1 r1 = ''.'' \<and> minor \<noteq> [] \<and> version_suffix rest
         then Some (digits_int major @ ''.'' @ digits_int minor) else None)"

definition validate_agent_version :: "placement \<Rightarrow> string \<Rightarrow> string \<Rightarrow> placement_error + unit" where
  "validate_agent_version c identity version =
     (case pc_agent_versions c of
        None \<Rightarrow> Inr ()
      | Some vp \<Rightarrow>
          (case pool_for_identity c identity of
             None \<Rightarrow> Inl (Version_Unsupported ''not assigned to a version ring'')
           | Some p \<Rightarrow>
               (case release_of (py_strip_space version) of
                  None \<Rightarrow> Inl (Version_Unsupported ''did not report a semantic version'')
                | Some release \<Rightarrow>
                    if release \<notin> {vp_current vp, vp_previous vp} then Inl (Version_Unsupported ''outside N/N-1'')
                    else (case map_of (vp_rings vp) (pl_upgrade_ring p) of
                            None \<Rightarrow> Inl (Key_Error (pl_upgrade_ring p))
                          | Some allowed \<Rightarrow>
                              ensure (release \<in> set allowed) (Version_Unsupported ''not enabled for ring'')))))"

section \<open>Policies and dispatch checks\<close>

definition policy_for :: "placement \<Rightarrow> string \<Rightarrow> string \<Rightarrow> policy" where
  "policy_for c connection_id source_table =
     (let parent = (case map_of (pc_connections c) connection_id of None \<Rightarrow> default_policy | Some p \<Rightarrow> p) in
      case map_of (pc_tables c) (connection_id, source_table) of
        None \<Rightarrow> parent
      | Some p \<Rightarrow>
          if po_source_max_concurrency p = None \<and> po_source_max_concurrency parent \<noteq> None
          then p\<lparr>po_source_max_concurrency := po_source_max_concurrency parent\<rparr> else p)"

definition validate_task_tenant :: "placement \<Rightarrow> string \<Rightarrow> policy \<Rightarrow> placement_error + unit" where
  "validate_task_tenant c tenant_id p =
     (if pc_tenants c = [] then ensure (tenant_id = []) (Tenant_Violation ''tenant isolation is disabled'')
      else ensure (tenant_id \<noteq> [] \<and> tenant_id = po_tenant_id p) (Tenant_Violation ''task tenant does not match dataset tenant''))"

definition nonempty :: "string list \<Rightarrow> string list" where
  "nonempty = filter (\<lambda>s. s \<noteq> [])"

definition policy_pools :: "policy \<Rightarrow> string list" where
  "policy_pools p = po_required_pool p # po_fallback_pools p"

definition declared_profiles :: "policy \<Rightarrow> string list" where
  "declared_profiles p =
     [po_required_storage_profile p, po_staging_storage_profile p] @ po_replica_storage_profiles p
       @ po_cache_storage_profiles p"

definition validate_tenant :: "placement \<Rightarrow> policy \<Rightarrow> string \<Rightarrow> placement_error + unit" where
  "validate_tenant c p connection_id =
     (if pc_tenants c = [] then Inr ()
      else
        sbind (ensure (po_tenant_id p \<in> set (pc_tenants c)) (Tenant_Violation ''must belong to one configured tenant'')) (\<lambda>_.
        sbind (case map_of (pc_connections c) connection_id of
                 None \<Rightarrow> Inr ()
               | Some parent \<Rightarrow> ensure (po_tenant_id parent = po_tenant_id p) (Tenant_Violation ''cannot change connection tenant'')) (\<lambda>_.
        sbind (ensure (\<forall>k\<in>set (nonempty (declared_profiles p)).
                 case map_of (pc_stores c) k of None \<Rightarrow> False | Some s \<Rightarrow> spf_tenant_id s = po_tenant_id p)
                 (Tenant_Violation ''store belongs to another tenant'')) (\<lambda>_.
        sbind (ensure (\<forall>k\<in>set (nonempty (policy_pools p)).
                 case map_of (pc_pools c) k of None \<Rightarrow> False | Some s \<Rightarrow> pl_tenant_id s = po_tenant_id p)
                 (Tenant_Violation ''pool belongs to another tenant'')) (\<lambda>_.
        ensure (\<forall>k\<in>set (po_serving_endpoints p).
                 case map_of (pc_serving_endpoints c) k of None \<Rightarrow> False | Some s \<Rightarrow> se_tenant_id s = po_tenant_id p)
                 (Tenant_Violation ''serving endpoint belongs to another tenant''))))))"


definition check_endpoint :: "placement \<Rightarrow> policy \<Rightarrow> string \<Rightarrow> placement_error + string" where
  "check_endpoint c p k =
     (case map_of (pc_serving_endpoints c) k of
        None \<Rightarrow> Inl (Residency_Violation ''serving endpoint is missing or outside the boundary'')
      | Some e \<Rightarrow>
          sbind (ensure (se_location e \<in> set (po_residency_locations p))
                   (Residency_Violation ''serving endpoint is missing or outside the boundary'')) (\<lambda>_.
          sbind (ensure (case map_of (pc_stores c) (se_storage_profile e) of
                            None \<Rightarrow> False | Some s \<Rightarrow> spf_location s = se_location e)
                   (Residency_Violation ''serving endpoint must read a store in its own location'')) (\<lambda>_.
          sbind (ensure (se_storage_profile e \<in> set (po_required_storage_profile p # po_replica_storage_profiles p))
                   (Residency_Violation ''serving endpoint must read the published store or a configured replica'')) (\<lambda>_.
          Inr (se_storage_profile e)))))"

definition check_residency_pool :: "placement \<Rightarrow> policy \<Rightarrow> string \<Rightarrow> placement_error + string" where
  "check_residency_pool c p k =
     (case map_of (pc_pools c) k of
        None \<Rightarrow> Inl (Residency_Violation ''pool is missing or outside the boundary'')
      | Some pl \<Rightarrow>
          sbind (ensure (pl_location pl \<in> set (po_residency_locations p) \<and> pl_storage_profile pl \<noteq> [])
                   (Residency_Violation ''pool is missing or outside the boundary'')) (\<lambda>_.
          Inr (pl_storage_profile pl)))"

definition staging_profile :: "policy \<Rightarrow> string" where
  "staging_profile p =
     (if po_staging_storage_profile p \<noteq> [] then po_staging_storage_profile p else po_required_storage_profile p)"

definition widens :: "placement \<Rightarrow> policy \<Rightarrow> string \<Rightarrow> bool" where
  "widens c p connection_id =
     (case map_of (pc_connections c) connection_id of
        None \<Rightarrow> False
      | Some parent \<Rightarrow>
          po_residency_locations parent \<noteq> []
          \<and> (po_residency_locations p = [] \<or> \<not> set (po_residency_locations p) \<subseteq> set (po_residency_locations parent)))"

definition validate_residency :: "placement \<Rightarrow> policy \<Rightarrow> string \<Rightarrow> placement_error + unit" where
  "validate_residency c p connection_id =
     sbind (ensure (\<not> widens c p connection_id) (Residency_Violation ''table override cannot widen connection residency'')) (\<lambda>_.
     if po_residency_locations p = [] then
       ensure (po_staging_storage_profile p = [] \<and> po_serving_endpoints p = [] \<and> po_replica_storage_profiles p = []
               \<and> po_cache_storage_profiles p = []) (Residency_Violation ''federated chain requires residency_locations'')
     else
       sbind (ensure (po_required_pool p \<noteq> [] \<and> po_required_storage_profile p \<noteq> [] \<and> po_serving_endpoints p \<noteq> [])
                (Residency_Violation ''constrained policy requires pool, published store and serving endpoint'')) (\<lambda>_.
       sbind (ensure (po_required_location p = [] \<or> po_required_location p \<in> set (po_residency_locations p))
                (Residency_Violation ''required location is outside the boundary'')) (\<lambda>_.
       sbind (straverse (check_residency_pool c p) (policy_pools p)) (\<lambda>pool_profiles.
       sbind (straverse (check_endpoint c p) (po_serving_endpoints p)) (\<lambda>endpoint_profiles.
       ensure (\<forall>k\<in>set ([po_required_storage_profile p, staging_profile p] @ po_replica_storage_profiles p
                       @ po_cache_storage_profiles p @ pool_profiles @ endpoint_profiles).
                 case map_of (pc_stores c) k of None \<Rightarrow> False | Some s \<Rightarrow> spf_location s \<in> set (po_residency_locations p))
         (Residency_Violation ''store is missing or outside the boundary''))))))"

definition validate_dispatch :: "placement \<Rightarrow> policy \<Rightarrow> string \<Rightarrow> placement_error + unit" where
  "validate_dispatch c p connection_id =
     sbind (validate_tenant c p connection_id) (\<lambda>_.
     sbind (validate_residency c p connection_id) (\<lambda>_.
     if po_residency_locations p = [] then Inr ()
     else
       sbind (ensure (pc_active_storage_profile c \<noteq> [])
                (Residency_Violation ''FSP_ARTIFACT_STORE_PROFILE is required for constrained dispatch'')) (\<lambda>_.
       ensure (po_required_storage_profile p = pc_active_storage_profile c \<and> staging_profile p = pc_active_storage_profile c
               \<and> (\<forall>k\<in>set (policy_pools p). case map_of (pc_pools c) k of
                     None \<Rightarrow> False | Some pl \<Rightarrow> pl_storage_profile pl = pc_active_storage_profile c))
         (Residency_Violation ''cross-store dispatch is not enabled''))))"

definition all_policies :: "placement \<Rightarrow> policy list" where
  "all_policies c = map snd (pc_connections c) @ map snd (pc_tables c)"

definition bind_runtime_store :: "string \<Rightarrow> string \<Rightarrow> placement \<Rightarrow> (placement_error + unit) \<times> placement" where
  "bind_runtime_store profile_id provider c =
     (let c' = c\<lparr>pc_active_storage_profile := profile_id\<rparr> in
      (sbind (ensure (profile_id = [] \<or> (case map_of (pc_stores c) profile_id of
                                           None \<Rightarrow> False | Some s \<Rightarrow> spf_provider s = provider))
                (Residency_Violation ''active artifact store does not match its declared provider'')) (\<lambda>_.
       sbind (straverse (\<lambda>p. validate_dispatch c' p []) (all_policies c')) (\<lambda>_. Inr ())), c'))"

definition bind_serving_store :: "string \<Rightarrow> string \<Rightarrow> string \<Rightarrow> placement \<Rightarrow> (placement_error + unit) \<times> placement" where
  "bind_serving_store profile_id provider endpoint_id c =
     (case sbind (ensure (case (map_of (pc_stores c) profile_id, map_of (pc_serving_endpoints c) endpoint_id) of
                            (Some s, Some e) \<Rightarrow>
                              spf_provider s = provider \<and> se_storage_profile e = profile_id \<and> se_location e = spf_location s
                          | _ \<Rightarrow> False)
                   (Residency_Violation ''serving store must match its declared provider and endpoint'')) (\<lambda>_.
           straverse (\<lambda>(k, p). sbind (validate_tenant c p k) (\<lambda>_. validate_residency c p k)) (pc_connections c)) of
        Inl e \<Rightarrow> (Inl e, c)
      | Inr _ \<Rightarrow> (Inr (), c\<lparr>pc_active_storage_profile := profile_id\<rparr>))"

section \<open>Parsing\<close>

definition optional_text :: "(string, json) dict \<Rightarrow> string \<Rightarrow> placement_error + string" where
  "optional_text item key =
     (case map_of item key of
        None \<Rightarrow> Inr []
      | Some (JStr s) \<Rightarrow> Inr (py_strip_space s)
      | Some _ \<Rightarrow> Inl (Value_Error ''placement field must be a string''))"

definition required_text :: "(string, json) dict \<Rightarrow> string \<Rightarrow> placement_error + string" where
  "required_text item key =
     sbind (optional_text item key) (\<lambda>v. if v = [] then Inl (Value_Error ''placement field must be non-empty'') else Inr v)"

definition text_items :: "json list \<Rightarrow> string list option" where
  "text_items xs =
     (if \<forall>x\<in>set xs. case json_text x of None \<Rightarrow> False | Some s \<Rightarrow> py_strip_space s \<noteq> []
      then Some (map (\<lambda>x. py_strip_space (the (json_text x))) xs) else None)"

definition text_list :: "(string, json) dict \<Rightarrow> string \<Rightarrow> bool \<Rightarrow> placement_error + string list" where
  "text_list item key required =
     (case map_of item key of
        None \<Rightarrow> if required then Inl (Value_Error ''placement field must be a list of strings'') else Inr []
      | Some (JList xs) \<Rightarrow>
          (case text_items xs of
             None \<Rightarrow> Inl (Value_Error ''placement field must be a list of strings'')
           | Some ss \<Rightarrow> Inr (first_occurrences ss))
      | Some _ \<Rightarrow> Inl (Value_Error ''placement field must be a list of strings''))"

definition positive_limit :: "json option \<Rightarrow> placement_error + int option" where
  "positive_limit v =
     (case v of
        None \<Rightarrow> Inr None
      | Some JNull \<Rightarrow> Inr None
      | Some (JInt i) \<Rightarrow> if i < 1 then Inl (Value_Error ''must be a positive integer'') else Inr (Some i)
      | Some _ \<Rightarrow> Inl (Value_Error ''must be a positive integer''))"

definition tenant_format :: "string \<Rightarrow> bool" where
  "tenant_format s \<longleftrightarrow>
     s \<noteq> [] \<and> (is_alpha (hd s) \<or> is_digit (hd s)) \<and> length s \<le> 64
     \<and> (\<forall>c\<in>set (tl s). is_alpha c \<or> is_digit c \<or> c \<in> set ''._:-'')"

definition parse_tenant_id :: "json \<Rightarrow> bool \<Rightarrow> string list \<Rightarrow> placement_error + string" where
  "parse_tenant_id item required tenants =
     (case (case item of JObj d \<Rightarrow> json_get d ''tenant_id'' (JStr []) | _ \<Rightarrow> item) of
        JStr v \<Rightarrow>
          let t = py_strip_space v in
          if required \<and> t = [] then Inl (Tenant_Violation ''must belong to one configured tenant'')
          else if t \<noteq> [] \<and> \<not> tenant_format t then Inl (Value_Error ''tenant_id has an invalid format'')
          else if t \<noteq> [] \<and> tenants \<noteq> [] \<and> t \<notin> set tenants then Inl (Tenant_Violation ''references unknown tenant'')
          else if is_obj item \<and> t \<noteq> [] \<and> tenants = [] then Inl (Tenant_Violation ''requires a top-level tenants declaration'')
          else Inr t
      | _ \<Rightarrow> Inl (Value_Error ''tenant_id must be a string''))"

definition release_line :: "json \<Rightarrow> placement_error + string" where
  "release_line v =
     (case v of
        JStr s \<Rightarrow>
          (let (major, r1) = span_digits (py_strip_space s); (minor, r2) = span_digits (drop 1 r1) in
           if major \<noteq> [] \<and> take 1 r1 = ''.'' \<and> minor \<noteq> [] \<and> r2 = []
           then Inr (digits_int major @ ''.'' @ digits_int minor)
           else Inl (Value_Error ''must use major.minor''))
      | _ \<Rightarrow> Inl (Value_Error ''must use major.minor''))"


definition parse_ring :: "string list \<Rightarrow> string \<times> json \<Rightarrow> placement_error + string \<times> string list" where
  "parse_ring supported = (\<lambda>(ring_id, releases).
     case releases of
       JList rs \<Rightarrow>
         if py_strip_space ring_id = [] \<or> rs = [] then Inl (Value_Error ''ring definitions must be non-empty lists'')
         else
           sbind (straverse release_line rs) (\<lambda>normalized.
           if set normalized \<subseteq> set supported then Inr (py_strip_space ring_id, normalized)
           else Inl (Value_Error ''ring includes a release outside N/N-1''))
     | _ \<Rightarrow> Inl (Value_Error ''ring definitions must be non-empty lists''))"

definition parse_rings :: "string \<Rightarrow> string \<Rightarrow> json \<Rightarrow> json \<Rightarrow> placement_error + version_policy" where
  "parse_rings current previous raw_rings raw_order =
     (case (raw_rings, raw_order) of
        (JObj rings, JList items) \<Rightarrow>
          (case text_items items of
             None \<Rightarrow> Inl (Value_Error ''requires non-empty rings and rollout_order'')
           | Some order \<Rightarrow>
               if rings = [] then Inl (Value_Error ''requires non-empty rings and rollout_order'')
               else if \<not> distinct order \<or> set order \<noteq> set (keys_of rings)
               then Inl (Value_Error ''rollout_order must list every ring exactly once'')
               else
                 sbind (straverse (parse_ring [current, previous]) rings) (\<lambda>rs.
                 Inr \<lparr>vp_current = current, vp_previous = previous, vp_rollout_order = order,
                      vp_rings = fold (\<lambda>(k, v) acc. AList.update k v acc) rs []\<rparr>))
      | _ \<Rightarrow> Inl (Value_Error ''requires non-empty rings and rollout_order''))"

definition agent_version_policy :: "json option \<Rightarrow> placement_error + version_policy option" where
  "agent_version_policy raw =
     (case raw of
        None \<Rightarrow> Inr None
      | Some JNull \<Rightarrow> Inr None
      | Some (JObj d) \<Rightarrow>
          if d = [] then Inr None
          else if set (keys_of d) \<noteq> {''current'', ''previous'', ''rings'', ''rollout_order''}
          then Inl (Value_Error ''agent_versions requires current, previous, rings and rollout_order'')
          else
            sbind (release_line (json_get d ''current'' JNull)) (\<lambda>current.
            sbind (release_line (json_get d ''previous'' JNull)) (\<lambda>previous.
            if current = previous then Inl (Value_Error ''current and previous must differ'')
            else sbind (parse_rings current previous (json_get d ''rings'' JNull) (json_get d ''rollout_order'' JNull))
                   (\<lambda>vp. Inr (Some vp))))
      | Some _ \<Rightarrow> Inl (Value_Error ''agent_versions requires current, previous, rings and rollout_order''))"

definition parse_upgrade_ring :: "(string, json) dict \<Rightarrow> version_policy option \<Rightarrow> placement_error + string" where
  "parse_upgrade_ring item vp =
     sbind (optional_text item ''upgrade_ring'') (\<lambda>ring.
     case vp of
       None \<Rightarrow> if ring \<noteq> [] then Inl (Value_Error ''upgrade_ring requires agent_versions'') else Inr []
     | Some v \<Rightarrow>
         if ring = [] \<or> ring \<notin> set (keys_of (vp_rings v)) then Inl (Value_Error ''must reference one configured upgrade ring'')
         else Inr ring)"

definition policy_keys :: "string list" where
  "policy_keys =
     [''required_pool'', ''required_location'', ''required_storage_profile'', ''fallback_pools'', ''max_concurrency'',
      ''source_max_concurrency'', ''residency_locations'', ''staging_storage_profile'', ''serving_endpoints'',
      ''replica_storage_profiles'', ''cache_storage_profiles'', ''freshness_target_ms'', ''tenant_id'']"

definition parse_policy :: "(string, pool) dict \<Rightarrow> string list \<Rightarrow> json \<Rightarrow> placement_error + policy" where
  "parse_policy pools tenants raw =
     (case raw of
        JObj d \<Rightarrow>
          if \<not> set (keys_of d) \<subseteq> set policy_keys then Inl (Value_Error ''policy has unknown keys'')
          else
            sbind (optional_text d ''required_pool'') (\<lambda>required_pool.
            sbind (optional_text d ''required_location'') (\<lambda>required_location.
            sbind (optional_text d ''required_storage_profile'') (\<lambda>required_storage_profile.
            sbind (text_list d ''fallback_pools'' False) (\<lambda>fallback_pools.
            let named = (if required_pool \<noteq> [] then [required_pool] else []) @ fallback_pools in
            if fallback_pools \<noteq> [] \<and> required_pool = [] then Inl (Value_Error ''fallback_pools requires required_pool'')
            else if \<not> set named \<subseteq> set (keys_of pools) then Inl (Value_Error ''references unknown pools'')
            else if \<not> distinct named then Inl (Value_Error ''policy repeats a pool'')
            else
              sbind (parse_tenant_id raw (tenants \<noteq> []) tenants) (\<lambda>tenant_id.
              sbind (positive_limit (map_of d ''max_concurrency'')) (\<lambda>max_concurrency.
              sbind (positive_limit (map_of d ''source_max_concurrency'')) (\<lambda>source_max_concurrency.
              sbind (text_list d ''residency_locations'' False) (\<lambda>residency_locations.
              sbind (optional_text d ''staging_storage_profile'') (\<lambda>staging.
              sbind (text_list d ''serving_endpoints'' False) (\<lambda>endpoints.
              sbind (text_list d ''replica_storage_profiles'' False) (\<lambda>replicas.
              sbind (text_list d ''cache_storage_profiles'' False) (\<lambda>caches.
              sbind (positive_limit (map_of d ''freshness_target_ms'')) (\<lambda>freshness.
              Inr \<lparr>po_tenant_id = tenant_id, po_required_pool = required_pool, po_required_location = required_location,
                   po_required_storage_profile = required_storage_profile, po_fallback_pools = fallback_pools,
                   po_max_concurrency = max_concurrency, po_source_max_concurrency = source_max_concurrency,
                   po_residency_locations = residency_locations, po_staging_storage_profile = staging,
                   po_serving_endpoints = endpoints, po_replica_storage_profiles = replicas,
                   po_cache_storage_profiles = caches, po_freshness_target_ms = freshness\<rparr>)))))))))))))
      | _ \<Rightarrow> Inl (Value_Error ''policy must be an object''))"


definition pool_keys :: "string list" where
  "pool_keys =
     [''pool_id'', ''identities'', ''location'', ''storage_profile'', ''allowed_connection_ids'', ''allowed_table_patterns'',
      ''max_concurrency'', ''heartbeat_ms'', ''heartbeat_miss_limit'', ''claim_lease_seconds'', ''tenant_id'', ''upgrade_ring'']"

definition parse_tenants :: "(string, json) dict \<Rightarrow> placement_error + string list" where
  "parse_tenants d =
     (case json_get d ''tenants'' (JList []) of
        JList items \<Rightarrow>
          sbind (straverse (\<lambda>i. parse_tenant_id i True []) items) (\<lambda>ts.
          if distinct ts then Inr ts else Inl (Value_Error ''placement tenants must be unique''))
      | _ \<Rightarrow> Inl (Value_Error ''placement tenants must be a list''))"

definition parse_pool ::
  "string list \<Rightarrow> version_policy option \<Rightarrow> json \<Rightarrow> (string, pool) dict \<times> string list
     \<Rightarrow> placement_error + (string, pool) dict \<times> string list" where
  "parse_pool tenants vp item = (\<lambda>(pools, identities).
     case item of
       JObj d \<Rightarrow>
         if \<not> set (keys_of d) \<subseteq> set pool_keys then Inl (Value_Error ''pool definition has unknown fields'')
         else
           sbind (required_text d ''pool_id'') (\<lambda>pool_id.
           if pool_id \<in> set (keys_of pools) then Inl (Value_Error ''duplicate materializer pool'')
           else
             sbind (text_list d ''identities'' True) (\<lambda>ids.
             if ids = [] then Inl (Value_Error ''pool must define identities'')
             else if set identities \<inter> set ids \<noteq> {} then Inl (Value_Error ''agent identities are assigned to multiple pools'')
             else
               sbind (text_list d ''allowed_connection_ids'' True) (\<lambda>allowed_connections.
               sbind (text_list d ''allowed_table_patterns'' False) (\<lambda>table_patterns.
               sbind (positive_limit (map_of d ''max_concurrency'')) (\<lambda>max_concurrency.
               sbind (optional_text d ''location'') (\<lambda>location.
               sbind (optional_text d ''storage_profile'') (\<lambda>storage_profile.
               sbind (positive_limit (map_of d ''heartbeat_ms'')) (\<lambda>heartbeat_ms.
               sbind (positive_limit (map_of d ''heartbeat_miss_limit'')) (\<lambda>miss_limit.
               sbind (positive_limit (map_of d ''claim_lease_seconds'')) (\<lambda>claim_lease.
               sbind (parse_tenant_id item (tenants \<noteq> []) tenants) (\<lambda>tenant_id.
               sbind (parse_upgrade_ring d vp) (\<lambda>ring.
               Inr (AList.update pool_id
                      \<lparr>pl_pool_id = pool_id, pl_identities = ids, pl_location = location, pl_storage_profile = storage_profile,
                       pl_allowed_connection_ids = allowed_connections, pl_allowed_table_patterns = table_patterns,
                       pl_max_concurrency = max_concurrency, pl_heartbeat_ms = heartbeat_ms,
                       pl_heartbeat_miss_limit = miss_limit, pl_claim_lease_seconds = claim_lease,
                       pl_tenant_id = tenant_id, pl_upgrade_ring = ring\<rparr> pools,
                    identities @ ids)))))))))))))
     | _ \<Rightarrow> Inl (Value_Error ''each placement pool must be an object''))"

definition parse_pools :: "string list \<Rightarrow> version_policy option \<Rightarrow> (string, json) dict \<Rightarrow> placement_error + (string, pool) dict" where
  "parse_pools tenants vp d =
     (case json_get d ''pools'' (JList []) of
        JList items \<Rightarrow> sbind (sfold (parse_pool tenants vp) items ([], [])) (\<lambda>(pools, _). Inr pools)
      | _ \<Rightarrow> Inl (Value_Error ''placement pools must be a list''))"

definition parse_connection ::
  "(string, pool) dict \<Rightarrow> string list \<Rightarrow> string \<times> json \<Rightarrow> (string, policy) dict \<times> (string, json) dict
     \<Rightarrow> placement_error + (string, policy) dict \<times> (string, json) dict" where
  "parse_connection pools tenants = (\<lambda>(connection_id, raw) (connections, definitions).
     let key = py_strip_space connection_id in
     if key = [] then Inl (Value_Error ''connection policy keys must be non-empty'')
     else sbind (parse_policy pools tenants raw) (\<lambda>p.
          Inr (AList.update key p connections, AList.update key raw definitions)))"

definition parse_connections ::
  "(string, pool) dict \<Rightarrow> string list \<Rightarrow> (string, json) dict \<Rightarrow> placement_error + (string, policy) dict \<times> (string, json) dict" where
  "parse_connections pools tenants d =
     (case json_get d ''connections'' (JObj []) of
        JObj items \<Rightarrow> sfold (parse_connection pools tenants) items ([], [])
      | _ \<Rightarrow> Inl (Value_Error ''placement connections must be an object''))"

definition obj_items :: "json \<Rightarrow> (string, json) dict" where
  "obj_items j = (case j of JObj d \<Rightarrow> d | _ \<Rightarrow> [])"

definition inherit_tenant :: "policy option \<Rightarrow> (string, json) dict \<Rightarrow> (string, json) dict" where
  "inherit_tenant parent d =
     (case parent of
        None \<Rightarrow> d
      | Some p \<Rightarrow>
          if po_tenant_id p \<noteq> [] \<and> ''tenant_id'' \<notin> set (keys_of d)
          then AList.update ''tenant_id'' (JStr (po_tenant_id p)) d else d)"

definition merge_dicts :: "(string, json) dict \<Rightarrow> (string, json) dict \<Rightarrow> (string, json) dict" where
  "merge_dicts a b = AList.merge a b"

definition inherit_residency :: "policy option \<Rightarrow> json \<Rightarrow> (string, json) dict \<Rightarrow> placement_error + (string, json) dict" where
  "inherit_residency parent definition_of_parent d =
     (case parent of
        None \<Rightarrow> Inr d
      | Some p \<Rightarrow>
          if po_residency_locations p = [] then Inr d
          else
            let d' = merge_dicts (obj_items definition_of_parent) d in
            sbind (text_list d' ''residency_locations'' False) (\<lambda>locations.
            if locations = [] \<or> \<not> set locations \<subseteq> set (po_residency_locations p)
            then Inl (Residency_Violation ''table override cannot widen connection residency'')
            else Inr d'))"

definition changes_tenant :: "policy option \<Rightarrow> (string, json) dict \<Rightarrow> bool" where
  "changes_tenant parent d =
     (case parent of
        None \<Rightarrow> False
      | Some p \<Rightarrow> po_tenant_id p \<noteq> [] \<and> map_of d ''tenant_id'' \<noteq> Some (JStr (po_tenant_id p)))"

definition parse_table ::
  "(string, pool) dict \<Rightarrow> string list \<Rightarrow> (string, policy) dict \<Rightarrow> (string, json) dict \<Rightarrow> string \<times> json
     \<Rightarrow> (string \<times> string, policy) dict \<Rightarrow> placement_error + (string \<times> string, policy) dict" where
  "parse_table pools tenants connections definitions = (\<lambda>(table_id, raw) tables.
     case py_partition_str ''::'' table_id of
       (connection_id, found, source_table) \<Rightarrow>
         let key = (py_strip_space connection_id, py_strip_space source_table); parent = map_of connections (fst key) in
         if \<not> found \<or> fst key = [] \<or> snd key = [] then Inl (Value_Error ''table policy keys must use connection_id::source_table'')
         else
           (case raw of
              JObj d0 \<Rightarrow>
                let d = inherit_tenant parent d0 in
                if changes_tenant parent d then Inl (Tenant_Violation ''table override cannot change connection tenant'')
                else
                  sbind (inherit_residency parent (json_get definitions (fst key) JNull) d) (\<lambda>d'.
                  sbind (parse_policy pools tenants (JObj d')) (\<lambda>p.
                  Inr (AList.update key p tables)))
            | _ \<Rightarrow> Inl (Value_Error ''table policy must be an object'')))"

definition parse_tables ::
  "(string, pool) dict \<Rightarrow> string list \<Rightarrow> (string, policy) dict \<Rightarrow> (string, json) dict \<Rightarrow> (string, json) dict
     \<Rightarrow> placement_error + (string \<times> string, policy) dict" where
  "parse_tables pools tenants connections definitions d =
     (case json_get d ''tables'' (JObj []) of
        JObj items \<Rightarrow> sfold (parse_table pools tenants connections definitions) items []
      | _ \<Rightarrow> Inl (Value_Error ''placement tables must be an object''))"


definition parse_store :: "string list \<Rightarrow> string \<times> json \<Rightarrow> (string, store_profile) dict \<Rightarrow> placement_error + (string, store_profile) dict" where
  "parse_store tenants = (\<lambda>(name, raw) stores.
     if py_strip_space name = [] then Inl (Value_Error ''store profile names must be non-empty strings'')
     else
       (case raw of
          JObj d \<Rightarrow>
            if \<not> set (keys_of d) \<subseteq> {''location'', ''provider'', ''tenant_id''}
            then Inl (Value_Error ''store profiles require location, provider and optional tenant_id'')
            else
              sbind (required_text d ''provider'') (\<lambda>provider.
              if provider \<notin> set [''azure'', ''s3'', ''gcs'', ''local''] then Inl (Value_Error ''unsupported store provider'')
              else
                sbind (required_text d ''location'') (\<lambda>location.
                sbind (parse_tenant_id raw (tenants \<noteq> []) tenants) (\<lambda>tenant_id.
                Inr (AList.update name \<lparr>spf_location = location, spf_provider = provider, spf_tenant_id = tenant_id\<rparr> stores))))
        | _ \<Rightarrow> Inl (Value_Error ''store profiles require location, provider and optional tenant_id'')))"

definition parse_stores :: "string list \<Rightarrow> (string, json) dict \<Rightarrow> placement_error + (string, store_profile) dict" where
  "parse_stores tenants d =
     (case json_get d ''stores'' (JObj []) of
        JObj items \<Rightarrow> sfold (parse_store tenants) items []
      | _ \<Rightarrow> Inl (Value_Error ''placement stores must be an object''))"

definition parse_endpoint ::
  "(string \<Rightarrow> bool) \<Rightarrow> string list \<Rightarrow> string \<times> json \<Rightarrow> (string, serving_endpoint) dict
     \<Rightarrow> placement_error + (string, serving_endpoint) dict" where
  "parse_endpoint valid_ip tenants = (\<lambda>(name, raw) endpoints.
     if py_strip_space name = [] then Inl (Value_Error ''serving endpoint names must be non-empty strings'')
     else
       (case raw of
          JObj d \<Rightarrow>
            if \<not> set (keys_of d) \<subseteq> {''location'', ''storage_profile'', ''url'', ''tenant_id''}
            then Inl (Value_Error ''serving endpoints require location, storage_profile, url and optional tenant_id'')
            else
              sbind (required_text d ''url'') (\<lambda>url.
              if \<not> https_url valid_ip url then Inl (Value_Error ''serving endpoint URL must use HTTPS without credentials'')
              else
                sbind (required_text d ''location'') (\<lambda>location.
                sbind (required_text d ''storage_profile'') (\<lambda>storage_profile.
                sbind (parse_tenant_id raw (tenants \<noteq> []) tenants) (\<lambda>tenant_id.
                Inr (AList.update name
                       \<lparr>se_location = location, se_storage_profile = storage_profile, se_url = url, se_tenant_id = tenant_id\<rparr>
                       endpoints)))))
        | _ \<Rightarrow> Inl (Value_Error ''serving endpoints require location, storage_profile, url and optional tenant_id'')))"

definition parse_endpoints :: "(string \<Rightarrow> bool) \<Rightarrow> string list \<Rightarrow> (string, json) dict \<Rightarrow> placement_error + (string, serving_endpoint) dict" where
  "parse_endpoints valid_ip tenants d =
     (case json_get d ''serving_endpoints'' (JObj []) of
        JObj items \<Rightarrow> sfold (parse_endpoint valid_ip tenants) items []
      | _ \<Rightarrow> Inl (Value_Error ''placement serving_endpoints must be an object''))"

definition check_pool_connection :: "placement \<Rightarrow> pool \<Rightarrow> string \<Rightarrow> placement_error + unit" where
  "check_pool_connection c p connection_id =
     (case map_of (pc_connections c) connection_id of
        None \<Rightarrow> Inl (Value_Error ''pool references unknown connection'')
      | Some conn \<Rightarrow>
          ensure (po_tenant_id conn = pl_tenant_id p) (Tenant_Violation ''pool cannot access connection from another tenant''))"

definition placement_keys :: "string list" where
  "placement_keys =
     [''tenants'', ''pools'', ''connections'', ''tables'', ''stores'', ''serving_endpoints'', ''agent_versions'']"

definition check_policy :: "placement \<Rightarrow> policy \<Rightarrow> placement_error + unit" where
  "check_policy c p = sbind (validate_tenant c p []) (\<lambda>_. validate_residency c p [])"

definition check_pool :: "placement \<Rightarrow> string \<times> pool \<Rightarrow> placement_error + unit list" where
  "check_pool c = (\<lambda>(_, p). straverse (check_pool_connection c p) (pl_allowed_connection_ids p))"

definition placement_from_dict :: "(string \<Rightarrow> bool) \<Rightarrow> (string, json) dict \<Rightarrow> placement_error + placement" where
  "placement_from_dict valid_ip d =
     (if \<not> set (keys_of d) \<subseteq> set placement_keys then Inl (Value_Error ''unknown placement configuration keys'')
      else
        sbind (parse_tenants d) (\<lambda>tenants.
        sbind (agent_version_policy (map_of d ''agent_versions'')) (\<lambda>versions.
        sbind (parse_pools tenants versions d) (\<lambda>pools.
        sbind (parse_connections pools tenants d) (\<lambda>(connections, definitions).
        sbind (parse_tables pools tenants connections definitions d) (\<lambda>tables.
        sbind (parse_stores tenants d) (\<lambda>stores.
        sbind (parse_endpoints valid_ip tenants d) (\<lambda>endpoints.
        let c = \<lparr>pc_pools = pools, pc_connections = connections, pc_tables = tables, pc_stores = stores,
                 pc_serving_endpoints = endpoints, pc_tenants = tenants, pc_agent_versions = versions,
                 pc_active_storage_profile = []\<rparr> in
        sbind (straverse (check_policy c) (all_policies c)) (\<lambda>_.
        if tenants = [] then Inr c
        else sbind (straverse (check_pool c) pools) (\<lambda>_. Inr c))))))))))"

section \<open>Configured identities\<close>

text \<open>
  \<open>validate_identity_tokens\<close> (after JSON decoding of the environment value), \<open>validate_entra_identities\<close> and
  \<open>validate_mtls_identities\<close>.
\<close>

definition token_text :: "string \<Rightarrow> bool" where
  "token_text t \<longleftrightarrow> length t \<ge> 32 \<and> (\<forall>c\<in>set t. (of_char c :: nat) \<ge> 33 \<and> (of_char c :: nat) \<le> 126)"

definition token_items :: "json \<Rightarrow> (string, string) dict option" where
  "token_items j =
     (case j of
        JObj d \<Rightarrow>
          if \<forall>(i, t)\<in>set d. i \<noteq> [] \<and> (case json_text t of None \<Rightarrow> False | Some s \<Rightarrow> token_text s)
          then Some (map (\<lambda>(i, t). (i, the (json_text t))) d) else None
      | _ \<Rightarrow> None)"

definition shared_across_pools :: "placement \<Rightarrow> (string, string) dict \<Rightarrow> bool" where
  "shared_across_pools c bindings \<longleftrightarrow>
     (\<exists>(i, t)\<in>set bindings. \<exists>(j, u)\<in>set bindings. t = u \<and>
        (case (pool_for_identity c i, pool_for_identity c j) of
           (Some p, Some q) \<Rightarrow> pl_pool_id p \<noteq> pl_pool_id q | _ \<Rightarrow> False))"

definition validate_identity_tokens :: "placement \<Rightarrow> json option \<Rightarrow> string list \<Rightarrow> placement_error + unit" where
  "validate_identity_tokens c raw shared_tokens =
     (case raw of
        None \<Rightarrow> Inl (Value_Error ''AGENT_IDENTITY_TOKENS must be valid JSON'')
      | Some j \<Rightarrow>
          (case token_items j of
             None \<Rightarrow> Inl (Value_Error ''AGENT_IDENTITY_TOKENS must map agent IDs to tokens of at least 32 bytes'')
           | Some tokens \<Rightarrow>
               let ids = keys_of (identity_pools c) in
               if placement_enabled c \<and> \<not> set ids \<subseteq> set (keys_of tokens) then Inl (Value_Error ''missing pool identities'')
               else if placement_enabled c \<and> \<not> set (keys_of tokens) \<subseteq> set ids then Inl (Value_Error ''contains unmapped identities'')
               else if shared_across_pools c tokens then Inl (Value_Error ''identity tokens must be unique across materializer pools'')
               else ensure (set (map snd tokens) \<inter> set (nonempty shared_tokens) = {})
                      (Value_Error ''identity tokens must differ from AGENT_TOKEN and AGENT_TOKEN_PREVIOUS'')))"

definition validate_mtls_identities :: "placement \<Rightarrow> (string, string) dict \<Rightarrow> placement_error + unit" where
  "validate_mtls_identities c identities =
     ensure (set (map snd identities) \<subseteq> set (keys_of (identity_pools c)))
       (Value_Error ''mTLS bindings contain unmapped Agent identities'')"


definition shared_binding :: "placement \<Rightarrow> (string \<Rightarrow> string) \<Rightarrow> bool" where
  "shared_binding c binding \<longleftrightarrow>
     (\<exists>(i, p)\<in>set (identity_pools c). \<exists>(j, q)\<in>set (identity_pools c). binding i = binding j \<and> pl_pool_id p \<noteq> pl_pool_id q)"

definition validate_entra_identities :: "placement \<Rightarrow> (string, string \<times> string) dict \<Rightarrow> placement_error + unit" where
  "validate_entra_identities c identities =
     (if \<not> set (keys_of (identity_pools c)) \<subseteq> set (keys_of identities) then Inl (Value_Error ''Entra bindings are missing pool identities'')
      else if shared_binding c (\<lambda>i. fst (the (map_of identities i))) then Inl (Value_Error ''Entra client_id bindings must be unique across materializer pools'')
      else ensure (\<not> shared_binding c (\<lambda>i. snd (the (map_of identities i))))
             (Value_Error ''Entra principal_id bindings must be unique across materializer pools''))"

section \<open>Locations and tenants of a dataset's chain\<close>

definition store_keys :: "placement \<Rightarrow> policy \<Rightarrow> string set" where
  "store_keys c p =
     set [po_required_storage_profile p, staging_profile p] \<union> set (po_replica_storage_profiles p) \<union> set (po_cache_storage_profiles p)
     \<union> {pl_storage_profile pl | pl k. k \<in> set (policy_pools p) \<and> map_of (pc_pools c) k = Some pl}
     \<union> {se_storage_profile e | e k. k \<in> set (po_serving_endpoints p) \<and> map_of (pc_serving_endpoints c) k = Some e}"

definition chain_locations :: "placement \<Rightarrow> policy \<Rightarrow> string option set" where
  "chain_locations c p =
     (\<lambda>k. map_option pl_location (map_of (pc_pools c) k)) ` set (policy_pools p)
     \<union> (\<lambda>k. map_option se_location (map_of (pc_serving_endpoints c) k)) ` set (po_serving_endpoints p)
     \<union> (\<lambda>k. map_option spf_location (map_of (pc_stores c) k)) ` store_keys c p"

definition chain_tenants :: "placement \<Rightarrow> policy \<Rightarrow> string option set" where
  "chain_tenants c p =
     (\<lambda>k. map_option pl_tenant_id (map_of (pc_pools c) k)) ` set (nonempty (policy_pools p))
     \<union> (\<lambda>k. map_option se_tenant_id (map_of (pc_serving_endpoints c) k)) ` set (po_serving_endpoints p)
     \<union> (\<lambda>k. map_option spf_tenant_id (map_of (pc_stores c) k)) ` set (nonempty (declared_profiles p))"

lemma case_option_ex: "(case m of None \<Rightarrow> False | Some s \<Rightarrow> P s) \<longleftrightarrow> (\<exists>s. m = Some s \<and> P s)"
  by (cases m) simp_all

lemma check_residency_pool_Inr [result_simps]:
  "check_residency_pool c p k = Inr s \<longleftrightarrow>
     (\<exists>pl. map_of (pc_pools c) k = Some pl \<and> pl_location pl \<in> set (po_residency_locations p) \<and> pl_storage_profile pl \<noteq> []
        \<and> s = pl_storage_profile pl)"
  by (auto simp: check_residency_pool_def result_simps split: option.splits)

lemma check_endpoint_Inr [result_simps]:
  "check_endpoint c p k = Inr s \<longleftrightarrow>
     (\<exists>e. map_of (pc_serving_endpoints c) k = Some e \<and> se_location e \<in> set (po_residency_locations p) \<and> s = se_storage_profile e
        \<and> map_option spf_location (map_of (pc_stores c) s) = Some (se_location e)
        \<and> s \<in> set (po_required_storage_profile p # po_replica_storage_profiles p))"
  by (auto simp: check_endpoint_def result_simps case_option_ex split: option.splits)

lemma straverse_lookup:
  assumes "straverse f xs = Inr ys" and "x \<in> set xs"
  shows "\<exists>y\<in>set ys. f x = Inr y"
  using assms by (force simp: straverse_Inr list_all2_conv_all_nth in_set_conv_nth)

lemma validate_residency_stores:
  assumes "validate_residency c p k = Inr u" and "po_residency_locations p \<noteq> []"
  obtains ps es where "straverse (check_residency_pool c p) (policy_pools p) = Inr ps"
    and "straverse (check_endpoint c p) (po_serving_endpoints p) = Inr es"
    and "\<forall>k\<in>set ([po_required_storage_profile p, staging_profile p] @ po_replica_storage_profiles p
        @ po_cache_storage_profiles p @ ps @ es).
        \<exists>s. map_of (pc_stores c) k = Some s \<and> spf_location s \<in> set (po_residency_locations p)"
proof -
  from assms show ?thesis
    unfolding validate_residency_def sbind_Inr ensure_Inr case_option_ex if_not_P [OF assms(2)]
    by (elim exE conjE) (rule that; assumption)
qed

lemma residency_confined:
  assumes "validate_residency c p k = Inr u" and "po_residency_locations p \<noteq> []"
  shows "chain_locations c p \<subseteq> Some ` set (po_residency_locations p)"
proof -
  let ?L = "set (po_residency_locations p)"
  obtain ps es where ps: "straverse (check_residency_pool c p) (policy_pools p) = Inr ps"
    and es: "straverse (check_endpoint c p) (po_serving_endpoints p) = Inr es"
    and stores: "\<forall>k\<in>set ([po_required_storage_profile p, staging_profile p] @ po_replica_storage_profiles p
        @ po_cache_storage_profiles p @ ps @ es). \<exists>s. map_of (pc_stores c) k = Some s \<and> spf_location s \<in> ?L"
    using assms by (rule validate_residency_stores)
  have pools: "map_option pl_location (map_of (pc_pools c) k) \<in> Some ` ?L"
    and pool_stores: "\<And>pl. map_of (pc_pools c) k = Some pl \<Longrightarrow> pl_storage_profile pl \<in> set ps" if "k \<in> set (policy_pools p)" for k
    using straverse_lookup [OF ps that] by (auto simp: check_residency_pool_Inr)
  have endpoints: "map_option se_location (map_of (pc_serving_endpoints c) k) \<in> Some ` ?L"
    and endpoint_stores: "\<And>e. map_of (pc_serving_endpoints c) k = Some e \<Longrightarrow> se_storage_profile e \<in> set es" if "k \<in> set (po_serving_endpoints p)" for k
    using straverse_lookup [OF es that] by (auto simp: check_endpoint_Inr)
  have "map_option spf_location (map_of (pc_stores c) k) \<in> Some ` ?L"
    if "k \<in> set ([po_required_storage_profile p, staging_profile p] @ po_replica_storage_profiles p
        @ po_cache_storage_profiles p @ ps @ es)" for k
    using bspec [OF stores that] by auto
  then have "map_option spf_location (map_of (pc_stores c) k) \<in> Some ` ?L" if "k \<in> store_keys c p" for k
    using that pool_stores endpoint_stores unfolding store_keys_def by auto
  then show ?thesis using pools endpoints unfolding chain_locations_def by blast
qed

lemma tenant_confined:
  assumes "validate_tenant c p k = Inr u" and "pc_tenants c \<noteq> []"
  shows "po_tenant_id p \<in> set (pc_tenants c)" and "chain_tenants c p \<subseteq> {Some (po_tenant_id p)}"
  using assms by (auto simp: validate_tenant_def sbind_Inr ensure_Inr case_option_ex chain_tenants_def)


lemma parse_policy_fields:
  assumes "parse_policy pools tenants (JObj d) = Inr p"
  shows "text_list d ''residency_locations'' False = Inr (po_residency_locations p)"
    and "parse_tenant_id (JObj d) (tenants \<noteq> []) tenants = Inr (po_tenant_id p)"
  using assms by (auto simp: parse_policy_def Let_def sbind_Inr split: if_splits)


lemma tenant_of_text:
  "parse_tenant_id (JObj d) required tenants = Inr t \<Longrightarrow> map_of d ''tenant_id'' = Some (JStr s) \<Longrightarrow> t = py_strip_space s"
  by (auto simp: parse_tenant_id_def json_get_def Let_def split: if_splits)

lemma tenant_stripped: "parse_tenant_id j required tenants = Inr t \<Longrightarrow> py_strip_space t = t"
  by (auto simp: parse_tenant_id_def Let_def split: json.splits if_splits)

lemma parse_policy_stripped: "parse_policy pools tenants j = Inr p \<Longrightarrow> py_strip_space (po_tenant_id p) = po_tenant_id p"
proof (cases j)
  case (JObj d)
  then show "parse_policy pools tenants j = Inr p \<Longrightarrow> ?thesis" using parse_policy_fields(2) tenant_stripped by blast
qed (simp_all add: parse_policy_def)

definition overrides_ok :: "(string, policy) dict \<Rightarrow> (string \<times> string, policy) dict \<Rightarrow> bool" where
  "overrides_ok connections tables \<longleftrightarrow>
     (\<forall>k t p parent. map_of tables (k, t) = Some p \<longrightarrow> map_of connections k = Some parent \<longrightarrow>
        (po_residency_locations parent \<noteq> [] \<longrightarrow>
           po_residency_locations p \<noteq> [] \<and> set (po_residency_locations p) \<subseteq> set (po_residency_locations parent))
        \<and> (po_tenant_id parent \<noteq> [] \<longrightarrow> po_tenant_id p = po_tenant_id parent))"

lemma inherit_residency_Inr:
  assumes "inherit_residency (Some parent) defs d = Inr d'"
  shows "map_of d k = Some v \<Longrightarrow> map_of d' k = Some v"
    and "po_residency_locations parent \<noteq> [] \<Longrightarrow> \<exists>ls. text_list d' ''residency_locations'' False = Inr ls
      \<and> ls \<noteq> [] \<and> set ls \<subseteq> set (po_residency_locations parent)"
  using assms
  by (auto simp: inherit_residency_def Let_def sbind_Inr merge_dicts_def merge_conv' split: if_splits)

lemma parse_table_ok:
  assumes "parse_table pools tenants connections definitions x tables = Inr tables'"
    and "overrides_ok connections tables"
    and stripped: "\<And>k p. map_of connections k = Some p \<Longrightarrow> py_strip_space (po_tenant_id p) = po_tenant_id p"
  shows "overrides_ok connections tables'"
proof -
  obtain tid raw where x: "x = (tid, raw)" by (cases x)
  obtain cid f st where part: "py_partition_str ''::'' tid = (cid, f, st)" by (metis prod_cases3)
  let ?k = "(py_strip_space cid, py_strip_space st)"
  let ?parent = "map_of connections (py_strip_space cid)"
  obtain d0 where raw: "raw = JObj d0"
    using assms(1) x part by (cases raw) (auto simp: parse_table_def Let_def split: if_splits)
  let ?d = "inherit_tenant ?parent d0"
  obtain d' p where d': "inherit_residency ?parent (json_get definitions (py_strip_space cid) JNull) ?d = Inr d'"
    and p: "parse_policy pools tenants (JObj d') = Inr p" and tables': "tables' = AList.update ?k p tables"
    and tenant: "\<not> changes_tenant ?parent ?d"
    using assms(1) x part raw by (auto simp: parse_table_def Let_def sbind_Inr split: if_splits)
  have new: "(po_residency_locations parent \<noteq> [] \<longrightarrow>
           po_residency_locations p \<noteq> [] \<and> set (po_residency_locations p) \<subseteq> set (po_residency_locations parent))
        \<and> (po_tenant_id parent \<noteq> [] \<longrightarrow> po_tenant_id p = po_tenant_id parent)" if parent: "?parent = Some parent" for parent
  proof -
    note inh = inherit_residency_Inr [OF d' [unfolded parent]]
    have "po_tenant_id p = po_tenant_id parent" if "po_tenant_id parent \<noteq> []"
    proof -
      have "map_of ?d ''tenant_id'' = Some (JStr (po_tenant_id parent))"
        using tenant that parent by (simp add: changes_tenant_def)
      then have "map_of d' ''tenant_id'' = Some (JStr (po_tenant_id parent))" using inh(1) parent by simp
      then show ?thesis using tenant_of_text [OF parse_policy_fields(2) [OF p]] stripped [OF parent] by simp
    qed
    then show ?thesis using inh(2) parse_policy_fields(1) [OF p] by auto
  qed
  show ?thesis using assms(2) new unfolding overrides_ok_def tables' by (auto split: if_splits)
qed

lemma parse_connections_stripped:
  assumes "parse_connections pools tenants d = Inr (connections, definitions)" and "map_of connections k = Some p"
  shows "py_strip_space (po_tenant_id p) = po_tenant_id p"
proof -
  obtain items where run: "sfold (parse_connection pools tenants) items ([], []) = Inr (connections, definitions)"
    using assms(1) by (auto simp: parse_connections_def split: json.splits)
  have "\<forall>k p. map_of (fst (connections, definitions)) k = Some p \<longrightarrow> py_strip_space (po_tenant_id p) = po_tenant_id p"
  proof (rule sfold_invariant [OF run])
    fix x s t
    assume "\<forall>k p. map_of (fst s) k = Some p \<longrightarrow> py_strip_space (po_tenant_id p) = po_tenant_id p"
      and "parse_connection pools tenants x s = Inr t"
    then show "\<forall>k p. map_of (fst t) k = Some p \<longrightarrow> py_strip_space (po_tenant_id p) = po_tenant_id p"
      by (auto simp: parse_connection_def Let_def sbind_Inr dest: parse_policy_stripped split: prod.splits if_splits)
  qed simp
  then show ?thesis using assms(2) by simp
qed

lemma parse_tables_ok:
  assumes "parse_connections pools tenants d = Inr (connections, definitions)"
    and "parse_tables pools tenants connections definitions d = Inr tables"
  shows "overrides_ok connections tables"
proof -
  obtain items where run: "sfold (parse_table pools tenants connections definitions) items [] = Inr tables"
    using assms(2) by (auto simp: parse_tables_def split: json.splits)
  show ?thesis
  proof (rule sfold_invariant [OF run])
    show "overrides_ok connections []" by (simp add: overrides_ok_def)
    show "overrides_ok connections t" if "overrides_ok connections s"
      "parse_table pools tenants connections definitions x s = Inr t" for x s t
      using parse_table_ok [OF that(2,1)] parse_connections_stripped [OF assms(1)] by blast
  qed
qed


section \<open>Accepted configurations\<close>

lemma from_dict_facts:
  assumes "placement_from_dict valid_ip d = Inr c"
  shows "p \<in> set (all_policies c) \<Longrightarrow> \<exists>u. check_policy c p = Inr u"
    and "overrides_ok (pc_connections c) (pc_tables c)"
    and "pc_tenants c \<noteq> [] \<Longrightarrow> (k, pl) \<in> set (pc_pools c) \<Longrightarrow> conn \<in> set (pl_allowed_connection_ids pl)
      \<Longrightarrow> \<exists>u. check_pool_connection c pl conn = Inr u"
proof -
  obtain tenants versions pools connections definitions tables stores endpoints us where
    parts: "parse_connections pools tenants d = Inr (connections, definitions)"
      "parse_tables pools tenants connections definitions d = Inr tables"
    and us: "straverse (check_policy c) (all_policies c) = Inr us"
    and pools: "tenants \<noteq> [] \<Longrightarrow> \<exists>vs. straverse (check_pool c) pools = Inr vs"
    and c: "pc_connections c = connections" "pc_tables c = tables" "pc_pools c = pools" "pc_tenants c = tenants"
    using assms by (auto simp: placement_from_dict_def sbind_Inr Let_def split: if_splits prod.splits)
  show "p \<in> set (all_policies c) \<Longrightarrow> \<exists>u. check_policy c p = Inr u" using straverse_unit_Inr [OF us] by blast
  show "overrides_ok (pc_connections c) (pc_tables c)" using parse_tables_ok [OF parts] c by simp
  assume "pc_tenants c \<noteq> []" and mem: "(k, pl) \<in> set (pc_pools c)" "conn \<in> set (pl_allowed_connection_ids pl)"
  then obtain vs where "straverse (check_pool c) pools = Inr vs" using pools c by auto
  then obtain ws where "check_pool c (k, pl) = Inr ws" using straverse_unit_Inr mem(1) c(3) by metis
  then have "straverse (check_pool_connection c pl) (pl_allowed_connection_ids pl) = Inr ws" by (simp add: check_pool_def)
  then show "\<exists>u. check_pool_connection c pl conn = Inr u" using mem(2) by (rule straverse_unit_Inr)
qed

lemma source_limit_irrelevant:
  "chain_locations c (p\<lparr>po_source_max_concurrency := x\<rparr>) = chain_locations c p"
  "chain_tenants c (p\<lparr>po_source_max_concurrency := x\<rparr>) = chain_tenants c p"
  by (simp_all add: chain_locations_def chain_tenants_def store_keys_def policy_pools_def staging_profile_def declared_profiles_def)

lemma policy_for_cases:
  obtains (default_case) "map_of (pc_connections c) conn = None" "policy_for c conn tab = default_policy"
  | (connection) p where "map_of (pc_connections c) conn = Some p" "p \<in> set (all_policies c)" "policy_for c conn tab = p"
  | (table) p x where "map_of (pc_tables c) (conn, tab) = Some p" "p \<in> set (all_policies c)"
      "policy_for c conn tab = p\<lparr>po_source_max_concurrency := x\<rparr>"
proof -
  have mem: "map_of (pc_connections c) conn = Some p \<Longrightarrow> p \<in> set (all_policies c)"
    "map_of (pc_tables c) (conn, tab) = Some p \<Longrightarrow> p \<in> set (all_policies c)" for p
    by (auto simp: all_policies_def dest!: map_of_SomeD intro: rev_image_eqI)
  show ?thesis
  proof (cases "map_of (pc_tables c) (conn, tab)")
    case None
    then show ?thesis using that(1,2) mem(1) by (cases "map_of (pc_connections c) conn") (simp_all add: policy_for_def)
  next
    case (Some p)
    have same: "p\<lparr>po_source_max_concurrency := po_source_max_concurrency p\<rparr> = p" by simp
    have "\<exists>x. policy_for c conn tab = p\<lparr>po_source_max_concurrency := x\<rparr>"
    proof (cases "policy_for c conn tab = p")
      case True
      then show ?thesis using same by (intro exI [of _ "po_source_max_concurrency p"]) (simp only:)
    next
      case False
      then show ?thesis using Some by (auto simp: policy_for_def Let_def split: if_splits)
    qed
    then show ?thesis using that(3) [OF Some mem(2) [OF Some]] by blast
  qed
qed

lemma dataset_confined:
  assumes "placement_from_dict valid_ip d = Inr c" and "po_residency_locations (policy_for c conn tab) \<noteq> []"
  shows "chain_locations c (policy_for c conn tab) \<subseteq> Some ` set (po_residency_locations (policy_for c conn tab))"
proof (cases rule: policy_for_cases [of c conn tab])
  case default_case
  then show ?thesis using assms(2) by (simp add: default_policy_def)
next
  case (connection p)
  then obtain u where "validate_residency c p [] = Inr u"
    using from_dict_facts(1) [OF assms(1)] by (auto simp: check_policy_def sbind_Inr)
  then show ?thesis using residency_confined assms(2) connection(3) by simp
next
  case (table p x)
  then obtain u where "validate_residency c p [] = Inr u"
    using from_dict_facts(1) [OF assms(1)] by (auto simp: check_policy_def sbind_Inr)
  then show ?thesis using residency_confined [of c p "[]" u] assms(2) table(3) by (simp add: source_limit_irrelevant)
qed


lemma from_dict_tenants:
  assumes "placement_from_dict valid_ip d = Inr c"
  shows "[] \<notin> set (pc_tenants c)"
proof -
  have "parse_tenants d = Inr (pc_tenants c)"
    using assms by (auto simp: placement_from_dict_def sbind_Inr Let_def split: if_splits prod.splits)
  then obtain items where "straverse (\<lambda>i. parse_tenant_id i True []) items = Inr (pc_tenants c)"
    by (auto simp: parse_tenants_def sbind_Inr split: json.splits if_splits)
  moreover have "parse_tenant_id i True [] \<noteq> Inr []" for i
    by (auto simp: parse_tenant_id_def Let_def split: json.splits)
  ultimately show ?thesis by (auto simp: straverse_Inr list_all2_conv_all_nth in_set_conv_nth)
qed

lemma dataset_tenant:
  assumes "placement_from_dict valid_ip d = Inr c" and "pc_tenants c \<noteq> []" and conn: "map_of (pc_connections c) conn = Some parent"
  shows "po_tenant_id (policy_for c conn tab) = po_tenant_id parent" and "po_tenant_id parent \<in> set (pc_tenants c)"
    and "chain_tenants c (policy_for c conn tab) \<subseteq> {Some (po_tenant_id parent)}"
proof -
  have valid: "\<exists>u. validate_tenant c p [] = Inr u" if "p \<in> set (all_policies c)" for p
    using from_dict_facts(1) [OF assms(1) that] by (auto simp: check_policy_def sbind_Inr)
  have "parent \<in> set (all_policies c)"
    using conn by (auto simp: all_policies_def dest!: map_of_SomeD intro: rev_image_eqI)
  then have parent: "po_tenant_id parent \<in> set (pc_tenants c)" "chain_tenants c parent \<subseteq> {Some (po_tenant_id parent)}"
    using valid tenant_confined assms(2) by blast+
  then have nonempty: "po_tenant_id parent \<noteq> []" using from_dict_tenants [OF assms(1)] by auto
  have "po_tenant_id (policy_for c conn tab) = po_tenant_id parent
    \<and> chain_tenants c (policy_for c conn tab) \<subseteq> {Some (po_tenant_id parent)}"
  proof (cases rule: policy_for_cases [of c conn tab])
    case (table p x)
    have "chain_tenants c p \<subseteq> {Some (po_tenant_id p)}" using valid [OF table(2)] tenant_confined(2) assms(2) by blast
    moreover have "po_tenant_id p = po_tenant_id parent"
      using from_dict_facts(2) [OF assms(1)] table(1) conn nonempty unfolding overrides_ok_def by blast
    ultimately show ?thesis using table(3) by (simp add: source_limit_irrelevant)
  qed (use conn parent in simp_all)
  then show "po_tenant_id (policy_for c conn tab) = po_tenant_id parent"
    and "chain_tenants c (policy_for c conn tab) \<subseteq> {Some (po_tenant_id parent)}" by blast+
  show "po_tenant_id parent \<in> set (pc_tenants c)" using parent(1) .
qed

lemma pool_tenant:
  assumes "placement_from_dict valid_ip d = Inr c" and "pc_tenants c \<noteq> []"
    and "map_of (pc_pools c) k = Some pl" and "allows pl conn tab"
  shows "\<exists>parent. map_of (pc_connections c) conn = Some parent \<and> po_tenant_id parent = pl_tenant_id pl"
proof -
  have "(k, pl) \<in> set (pc_pools c)" using assms(3) by (rule map_of_SomeD)
  moreover have "conn \<in> set (pl_allowed_connection_ids pl)" using assms(4) by (simp add: allows_def)
  ultimately obtain u where "check_pool_connection c pl conn = Inr u" using from_dict_facts(3) [OF assms(1,2)] by blast
  then show ?thesis by (auto simp: check_pool_connection_def ensure_Inr split: option.splits)
qed

text \<open>
  C26: Residency of a dataset. In every configuration that the parser accepts, if the policy of a table names residency locations,
  then every pool that may materialize the table, every serving endpoint and every store on its path (published, staging, replicas,
  caches, and the stores of these pools and endpoints) exists and lies in one of these locations; and if its connection
  is constrained, so is the table, to locations of the connection.
\<close>

theorem residency_is_confined:
  assumes "placement_from_dict valid_ip d = Inr c"
  shows "(po_residency_locations (policy_for c conn tab) \<noteq> [] \<longrightarrow>
      chain_locations c (policy_for c conn tab) \<subseteq> Some ` set (po_residency_locations (policy_for c conn tab)))
    \<and> (\<forall>parent. map_of (pc_connections c) conn = Some parent \<and> po_residency_locations parent \<noteq> [] \<longrightarrow>
         po_residency_locations (policy_for c conn tab) \<noteq> []
         \<and> set (po_residency_locations (policy_for c conn tab)) \<subseteq> set (po_residency_locations parent))"
proof -
  have "po_residency_locations (policy_for c conn tab) \<noteq> []
      \<and> set (po_residency_locations (policy_for c conn tab)) \<subseteq> set (po_residency_locations parent)"
    if parent: "map_of (pc_connections c) conn = Some parent" "po_residency_locations parent \<noteq> []" for parent
  proof (cases rule: policy_for_cases [of c conn tab])
    case (table p x)
    then show ?thesis using from_dict_facts(2) [OF assms] parent unfolding overrides_ok_def by simp
  qed (use parent in simp_all)
  then show ?thesis using dataset_confined [OF assms] by blast
qed

text \<open>
  C27: Tenant isolation of the configuration. In every configuration with tenants that the parser accepts, a table of a configured
  connection belongs to the connection's tenant, one of the configured ones; all declared pools, stores and serving endpoints of
  its policy belong to this tenant; and a pool that may materialize the table belongs to it as well.
\<close>

theorem tenants_are_isolated:
  assumes "placement_from_dict valid_ip d = Inr c" and "pc_tenants c \<noteq> []"
    and "map_of (pc_connections c) conn = Some parent"
  shows "po_tenant_id (policy_for c conn tab) = po_tenant_id parent \<and> po_tenant_id parent \<in> set (pc_tenants c)
    \<and> chain_tenants c (policy_for c conn tab) \<subseteq> {Some (po_tenant_id parent)}
    \<and> (\<forall>k pl. map_of (pc_pools c) k = Some pl \<and> allows pl conn tab \<longrightarrow> pl_tenant_id pl = po_tenant_id parent)"
proof -
  have "pl_tenant_id pl = po_tenant_id parent" if "map_of (pc_pools c) k = Some pl" "allows pl conn tab" for k pl
    using pool_tenant [OF assms(1,2) that] assms(3) by auto
  then show ?thesis using dataset_tenant [OF assms] by blast
qed

definition demo_placement :: "(string, json) dict" where
  "demo_placement =
     [(''tenants'', JList [JStr ''acme'']),
      (''pools'', JList [JObj [(''pool_id'', JStr ''p1''), (''identities'', JList [JStr ''agent-1'']), (''location'', JStr ''eu''),
         (''storage_profile'', JStr ''blob''), (''allowed_connection_ids'', JList [JStr ''db'']), (''tenant_id'', JStr ''acme'')]]),
      (''connections'', JObj [(''db'', JObj [(''tenant_id'', JStr ''acme''), (''required_pool'', JStr ''p1''),
         (''required_storage_profile'', JStr ''blob''), (''residency_locations'', JList [JStr ''eu'']),
         (''serving_endpoints'', JList [JStr ''s1''])])]),
      (''stores'', JObj [(''blob'', JObj [(''location'', JStr ''eu''), (''provider'', JStr ''azure''), (''tenant_id'', JStr ''acme'')])]),
      (''serving_endpoints'', JObj [(''s1'', JObj [(''location'', JStr ''eu''), (''storage_profile'', JStr ''blob''),
         (''url'', JStr ''https://s1.example''), (''tenant_id'', JStr ''acme'')])])]"

definition demo_policy :: policy where
  "demo_policy = default_policy\<lparr>po_tenant_id := ''acme'', po_required_pool := ''p1'', po_required_storage_profile := ''blob'',
     po_residency_locations := [''eu''], po_serving_endpoints := [''s1'']\<rparr>"

lemma demo_placement_accepted:
  "case placement_from_dict (\<lambda>_. False) demo_placement of Inl e \<Rightarrow> False
   | Inr c \<Rightarrow> pc_tenants c = [''acme''] \<and> map_of (pc_connections c) ''db'' = Some demo_policy
       \<and> policy_for c ''db'' ''orders'' = demo_policy"
  by code_simp

theorem residency_is_confined_witness:
  "\<exists>c. placement_from_dict (\<lambda>_. False) demo_placement = Inr c \<and> po_residency_locations (policy_for c ''db'' ''orders'') = [''eu'']
     \<and> chain_locations c (policy_for c ''db'' ''orders'') \<subseteq> {Some ''eu''}"
proof -
  obtain c where c: "placement_from_dict (\<lambda>_. False) demo_placement = Inr c" "policy_for c ''db'' ''orders'' = demo_policy"
    using demo_placement_accepted by (auto split: sum.splits)
  have "po_residency_locations demo_policy = [''eu'']" by (simp add: demo_policy_def)
  then show ?thesis using residency_is_confined [OF c(1), of "''db''" "''orders''"] c by auto
qed

theorem tenants_are_isolated_witness:
  "\<exists>c. placement_from_dict (\<lambda>_. False) demo_placement = Inr c \<and> po_tenant_id (policy_for c ''db'' ''orders'') = ''acme''
     \<and> chain_tenants c (policy_for c ''db'' ''orders'') \<subseteq> {Some ''acme''}"
proof -
  obtain c where c: "placement_from_dict (\<lambda>_. False) demo_placement = Inr c" "pc_tenants c \<noteq> []"
    "map_of (pc_connections c) ''db'' = Some demo_policy"
    using demo_placement_accepted by (auto split: sum.splits)
  have "po_tenant_id demo_policy = ''acme''" by (simp add: demo_policy_def)
  then show ?thesis using tenants_are_isolated [OF c, of "''orders''"] c(1) by auto
qed

end
