(* ===== verification/Contract.thy ===== *)
theory Contract
  imports Json_Text
begin

text \<open>
  The messages between Manager and Agents (\<open>enterprise/control/contract.py\<close>): task states, message records, and the
  codec \<open>to_dict\<close>/\<open>from_dict\<close> of every message. An encoder gives a JSON value; a decoder takes the decoded JSON
  value and fails as the Python code raises. \<open>str()\<close> of a float, a list or a dictionary and \<open>float()\<close> of a string are
  collected in the record \<open>py_text\<close>. The error \<open>Untyped\<close> marks a value that Python would keep in a field of another type.
\<close>

section \<open>Task states\<close>

datatype task_state = QUEUED | CLAIMED | SUCCEEDED | RETRY_WAIT | FAILED | EXPIRED | CANCELLED

definition terminal :: "task_state \<Rightarrow> bool" where
  "terminal s \<longleftrightarrow> s \<in> {SUCCEEDED, FAILED, CANCELLED}"

fun task_transitions :: "task_state \<Rightarrow> task_state list" where
  "task_transitions QUEUED = [CLAIMED, FAILED, CANCELLED]"
| "task_transitions CLAIMED = [SUCCEEDED, RETRY_WAIT, FAILED, EXPIRED, CANCELLED]"
| "task_transitions RETRY_WAIT = [QUEUED, FAILED, CANCELLED]"
| "task_transitions EXPIRED = [QUEUED, FAILED, CANCELLED]"
| "task_transitions SUCCEEDED = []"
| "task_transitions FAILED = []"
| "task_transitions CANCELLED = []"

definition valid_task_transition :: "task_state \<Rightarrow> task_state \<Rightarrow> bool" where
  "valid_task_transition current target \<longleftrightarrow> target \<in> set (task_transitions current)"

datatype result_code =
    Accepted | Duplicate | Stale_Claim | Stale_Generation | Wrong_Owner | Invalid_Output | Conflict | Rejected

fun state_text :: "task_state \<Rightarrow> string" where
  "state_text QUEUED = ''QUEUED''"
| "state_text CLAIMED = ''CLAIMED''"
| "state_text SUCCEEDED = ''SUCCEEDED''"
| "state_text RETRY_WAIT = ''RETRY_WAIT''"
| "state_text FAILED = ''FAILED''"
| "state_text EXPIRED = ''EXPIRED''"
| "state_text CANCELLED = ''CANCELLED''"

fun code_text :: "result_code \<Rightarrow> string" where
  "code_text Accepted = ''accepted''"
| "code_text Duplicate = ''duplicate''"
| "code_text Stale_Claim = ''stale_claim''"
| "code_text Stale_Generation = ''stale_generation''"
| "code_text Wrong_Owner = ''wrong_owner''"
| "code_text Invalid_Output = ''invalid_output''"
| "code_text Conflict = ''conflict''"
| "code_text Rejected = ''rejected''"

section \<open>Contract versions\<close>

definition CONTRACT_VERSION :: string where
  "CONTRACT_VERSION = ''1.1''"

definition MIN_COMPATIBLE_CONTRACT_VERSION :: string where
  "MIN_COMPATIBLE_CONTRACT_VERSION = ''1.0''"

definition version_tuple :: "string \<Rightarrow> (int \<times> int) option" where
  "version_tuple v =
     (case py_partition (CHR ''.'') v of
        (major, found, minor) \<Rightarrow>
          if \<not> found then None
          else (case (py_int_of major, py_int_of minor) of (Some a, Some b) \<Rightarrow> Some (a, b) | _ \<Rightarrow> None))"

fun tuple_le :: "int \<times> int \<Rightarrow> int \<times> int \<Rightarrow> bool" where
  "tuple_le (a, b) (c, d) \<longleftrightarrow> a < c \<or> a = c \<and> b \<le> d"

definition contract_compatible :: "string \<Rightarrow> bool" where
  "contract_compatible v =
     (case (version_tuple CONTRACT_VERSION, version_tuple MIN_COMPATIBLE_CONTRACT_VERSION, version_tuple v) of
        (Some current, Some minimum, Some candidate) \<Rightarrow>
          fst candidate = fst current \<and> tuple_le minimum candidate \<and> tuple_le candidate current
      | _ \<Rightarrow> False)"

section \<open>Messages\<close>

record key_range =
  kr_lo :: int
  kr_hi :: int

record wire_column =
  wc_field_id :: int
  wc_name :: string
  wc_iceberg_type :: string
  wc_nullable :: bool
  wc_source :: string
  wc_transform :: "(string, json) dict option"
  wc_policy_id :: string

record split_ref =
  sf_object_key :: string
  sf_size_bytes :: int
  sf_record_count :: int
  sf_content_hash :: string
  sf_range :: "key_range option"

record snapshot_manifest =
  mf_table :: string
  mf_epoch :: int
  mf_table_format :: string
  mf_splits :: "split_ref list"
  mf_metadata_keys :: "string list"
  mf_generation_id :: string
  mf_generation_fence :: int
  mf_plan_sha256 :: string
  mf_published_at_ms :: int
  mf_request_id :: string
  mf_dataset_id :: string
  mf_produced_at_ms :: int
  mf_tenant_id :: string

record register_request =
  rg_agent_id :: string
  rg_host :: string
  rg_port :: int
  rg_os :: string
  rg_version :: string
  rg_capacity_hint :: int
  rg_advertise_host :: string
  rg_contract_version :: string
  rg_capabilities :: "string list"
  rg_pool_id :: string
  rg_location :: string
  rg_shard_index :: int

record register_response =
  rp_lease_id :: string
  rp_heartbeat_ms :: int
  rp_contract_version :: string

record agent_health =
  ah_cpu_pct :: rat
  ah_mem_bytes :: int
  ah_cache_bytes :: int
  ah_inflight :: int

record heartbeat_request =
  hb_agent_id :: string
  hb_lease_id :: string
  hb_health :: agent_health
  hb_serving_tables :: "string list"
  hb_epochs :: "(string, int) dict"
  hb_active_task_ids :: "string list"

record materialize_task =
  mt_table :: string
  mt_epoch :: int
  mt_split_index :: int
  mt_source_table :: string
  mt_output_key :: string
  mt_schema :: "wire_column list"
  mt_range :: "key_range option"
  mt_task_id :: string
  mt_request_id :: string
  mt_claim_token :: string
  mt_attempt :: int
  mt_claim_expires_at_ms :: int
  mt_connection_id :: string
  mt_connection_fingerprint :: string
  mt_generation_id :: string
  mt_generation_fence :: int
  mt_plan_sha256 :: string
  mt_table_format :: string
  mt_deadline_ms :: int
  mt_num_splits :: int
  mt_key_column :: string
  mt_split_strategy :: string
  mt_membership_version :: int
  mt_worker_fence :: int
  mt_tenant_id :: string

record task_result =
  tr_agent_id :: string
  tr_table :: string
  tr_epoch :: int
  tr_split_index :: int
  tr_ok :: bool
  tr_size_bytes :: int
  tr_record_count :: int
  tr_content_hash :: string
  tr_error :: string
  tr_task_id :: string
  tr_request_id :: string
  tr_claim_token :: string
  tr_attempt :: int
  tr_generation_id :: string
  tr_generation_fence :: int
  tr_plan_sha256 :: string
  tr_retryable :: bool
  tr_completed_at_ms :: int
  tr_error_code :: string
  tr_membership_version :: int
  tr_worker_fence :: int
  tr_s3_etag :: string

record assignment =
  as_agent_id :: string
  as_tables :: "string list"

record publish_command =
  pb_table :: string
  pb_epoch :: int

record control_command =
  cc_kind :: string
  cc_drain :: "int option"
  cc_reload :: "string option"
  cc_materialize :: "materialize_task option"
  cc_publish :: "publish_command option"

record ack =
  ack_ok :: bool
  ack_state :: "task_state option"
  ack_duplicate :: bool
  ack_terminal :: bool
  ack_reason_code :: result_code

record ack_message =
  am_ok :: bool
  am_state :: string
  am_duplicate :: bool
  am_terminal :: bool
  am_reason_code :: string

definition ack_text :: "ack \<Rightarrow> ack_message" where
  "ack_text a =
     \<lparr>am_ok = ack_ok a, am_state = (case ack_state a of None \<Rightarrow> [] | Some s \<Rightarrow> state_text s),
      am_duplicate = ack_duplicate a, am_terminal = ack_terminal a, am_reason_code = code_text (ack_reason_code a)\<rparr>"

section \<open>Reading JSON values\<close>

record py_text =
  pt_str :: "json \<Rightarrow> string"
  pt_float :: "string \<Rightarrow> rat option"

datatype codec_error = Missing_Key string | Type_Mismatch | Bad_Number | Untyped

fun str_of :: "py_text \<Rightarrow> json \<Rightarrow> string" where
  "str_of pt (JStr s) = s"
| "str_of pt (JInt i) = py_str_int i"
| "str_of pt (JBool b) = (if b then ''True'' else ''False'')"
| "str_of pt JNull = ''None''"
| "str_of pt j = pt_str pt j"

definition rat_trunc :: "rat \<Rightarrow> int" where
  "rat_trunc r = (if r < 0 then - \<lfloor>- r\<rfloor> else \<lfloor>r\<rfloor>)"

fun int_of :: "json \<Rightarrow> codec_error + int" where
  "int_of (JInt i) = Inr i"
| "int_of (JBool b) = Inr (if b then 1 else 0)"
| "int_of (JReal r) = Inr (rat_trunc r)"
| "int_of (JStr s) = (case py_int_of s of None \<Rightarrow> Inl Bad_Number | Some i \<Rightarrow> Inr i)"
| "int_of j = Inl Type_Mismatch"

fun float_of :: "py_text \<Rightarrow> json \<Rightarrow> codec_error + rat" where
  "float_of pt (JReal r) = Inr r"
| "float_of pt (JInt i) = Inr (of_int i)"
| "float_of pt (JBool b) = Inr (if b then 1 else 0)"
| "float_of pt (JStr s) = (case pt_float pt s of None \<Rightarrow> Inl Bad_Number | Some r \<Rightarrow> Inr r)"
| "float_of pt j = Inl Type_Mismatch"

fun truth :: "json \<Rightarrow> bool" where
  "truth JNull = False"
| "truth (JBool b) = b"
| "truth (JInt i) = (i \<noteq> 0)"
| "truth (JReal r) = (r \<noteq> 0)"
| "truth (JStr s) = (s \<noteq> [])"
| "truth (JList xs) = (xs \<noteq> [])"
| "truth (JObj d) = (d \<noteq> [])"

fun iter_of :: "json \<Rightarrow> codec_error + json list" where
  "iter_of (JList xs) = Inr xs"
| "iter_of (JStr s) = Inr (map (\<lambda>c. JStr [c]) s)"
| "iter_of (JObj d) = Inr (map (\<lambda>(k, _). JStr k) d)"
| "iter_of j = Inl Type_Mismatch"

fun obj_of :: "json \<Rightarrow> codec_error + (string, json) dict" where
  "obj_of (JObj d) = Inr d"
| "obj_of j = Inl Type_Mismatch"

fun typed_text :: "json \<Rightarrow> codec_error + string" where
  "typed_text (JStr s) = Inr s"
| "typed_text j = Inl Untyped"

text \<open>\<open>d[k]\<close>, and \<open>d.get(k, fallback)\<close> converted by \<open>str\<close>, \<open>int\<close>, \<open>bool\<close> or iterated.\<close>

definition item_of :: "(string, json) dict \<Rightarrow> string \<Rightarrow> codec_error + json" where
  "item_of d k = (case map_of d k of None \<Rightarrow> Inl (Missing_Key k) | Some v \<Rightarrow> Inr v)"

definition req_str :: "py_text \<Rightarrow> (string, json) dict \<Rightarrow> string \<Rightarrow> codec_error + string" where
  "req_str pt d k = sbind (item_of d k) (\<lambda>v. Inr (str_of pt v))"

definition req_int :: "(string, json) dict \<Rightarrow> string \<Rightarrow> codec_error + int" where
  "req_int d k = sbind (item_of d k) int_of"

definition opt_str :: "py_text \<Rightarrow> (string, json) dict \<Rightarrow> string \<Rightarrow> string \<Rightarrow> string" where
  "opt_str pt d k fallback = str_of pt (json_get d k (JStr fallback))"

definition opt_int :: "(string, json) dict \<Rightarrow> string \<Rightarrow> int \<Rightarrow> codec_error + int" where
  "opt_int d k fallback = int_of (json_get d k (JInt fallback))"

definition opt_bool :: "(string, json) dict \<Rightarrow> string \<Rightarrow> bool \<Rightarrow> bool" where
  "opt_bool d k fallback = truth (json_get d k (JBool fallback))"

definition texts_of :: "(string, json) dict \<Rightarrow> string \<Rightarrow> codec_error + string list" where
  "texts_of d k = sbind (iter_of (json_get d k (JList []))) (straverse typed_text)"

definition nonempty_set :: "py_text \<Rightarrow> (string, json) dict \<Rightarrow> string \<Rightarrow> codec_error + string list" where
  "nonempty_set pt d k =
     sbind (iter_of (json_get d k (JList []))) (\<lambda>vs. Inr (sort (remdups (filter (\<lambda>s. s \<noteq> []) (map (str_of pt) vs)))))"

definition int_items :: "json \<Rightarrow> codec_error + (string, int) dict" where
  "int_items j =
     sbind (obj_of j) (straverse (\<lambda>(k, v). sbind (int_of v) (\<lambda>i. Inr (k, i))))"

text \<open>Optional keys of an encoded object: texts and numbers are left out when they are empty or zero.\<close>

definition some_texts :: "(string \<times> string) list \<Rightarrow> (string, json) dict" where
  "some_texts kvs = map (\<lambda>(k, v). (k, JStr v)) (filter (\<lambda>(_, v). v \<noteq> []) kvs)"

definition some_ints :: "(string \<times> int) list \<Rightarrow> (string, json) dict" where
  "some_ints kvs = map (\<lambda>(k, v). (k, JInt v)) (filter (\<lambda>(_, v). v \<noteq> 0) kvs)"

definition some_value :: "string \<Rightarrow> json option \<Rightarrow> (string, json) dict" where
  "some_value k v = (case v of None \<Rightarrow> [] | Some j \<Rightarrow> [(k, j)])"

definition text_array :: "string list \<Rightarrow> json" where
  "text_array ss = JList (map JStr ss)"

definition int_object :: "(string, int) dict \<Rightarrow> json" where
  "int_object d = JObj (map (\<lambda>(k, i). (k, JInt i)) d)"

section \<open>Codecs\<close>

definition key_range_to_dict :: "key_range \<Rightarrow> json" where
  "key_range_to_dict r = JObj [(''lo'', JInt (kr_lo r)), (''hi'', JInt (kr_hi r))]"

definition key_range_from_dict :: "json \<Rightarrow> codec_error + key_range" where
  "key_range_from_dict j =
     sbind (obj_of j) (\<lambda>d.
     sbind (req_int d ''lo'') (\<lambda>lo.
     sbind (req_int d ''hi'') (\<lambda>hi.
     Inr \<lparr>kr_lo = lo, kr_hi = hi\<rparr>)))"

definition range_from :: "(string, json) dict \<Rightarrow> codec_error + key_range option" where
  "range_from d =
     (let rng = json_get d ''range'' JNull in
      if truth rng then sbind (key_range_from_dict rng) (\<lambda>r. Inr (Some r)) else Inr None)"

definition column_to_dict :: "wire_column \<Rightarrow> json" where
  "column_to_dict c =
     JObj ([(''field_id'', JInt (wc_field_id c)), (''name'', JStr (wc_name c)),
            (''iceberg_type'', JStr (wc_iceberg_type c)), (''nullable'', JBool (wc_nullable c))]
       @ some_texts [(''source'', wc_source c)]
       @ some_value ''transform'' (map_option JObj (wc_transform c))
       @ some_texts [(''policy_id'', wc_policy_id c)])"

definition column_from_dict :: "py_text \<Rightarrow> json \<Rightarrow> codec_error + wire_column" where
  "column_from_dict pt j =
     sbind (obj_of j) (\<lambda>d.
     sbind (req_int d ''field_id'') (\<lambda>field_id.
     sbind (req_str pt d ''name'') (\<lambda>name.
     sbind (req_str pt d ''iceberg_type'') (\<lambda>iceberg_type.
     Inr \<lparr>wc_field_id = field_id, wc_name = name, wc_iceberg_type = iceberg_type,
          wc_nullable = opt_bool d ''nullable'' True, wc_source = opt_str pt d ''source'' [],
          wc_transform = (case map_of d ''transform'' of Some (JObj t) \<Rightarrow> Some t | _ \<Rightarrow> None),
          wc_policy_id = opt_str pt d ''policy_id'' []\<rparr>))))"

definition split_ref_to_dict :: "split_ref \<Rightarrow> json" where
  "split_ref_to_dict s =
     JObj ([(''object_key'', JStr (sf_object_key s)), (''size_bytes'', JInt (sf_size_bytes s)),
            (''record_count'', JInt (sf_record_count s)), (''content_hash'', JStr (sf_content_hash s))]
       @ some_value ''range'' (map_option key_range_to_dict (sf_range s)))"

definition split_ref_from_dict :: "py_text \<Rightarrow> json \<Rightarrow> codec_error + split_ref" where
  "split_ref_from_dict pt j =
     sbind (obj_of j) (\<lambda>d.
     sbind (req_str pt d ''object_key'') (\<lambda>object_key.
     sbind (req_int d ''size_bytes'') (\<lambda>size_bytes.
     sbind (req_int d ''record_count'') (\<lambda>record_count.
     sbind (req_str pt d ''content_hash'') (\<lambda>content_hash.
     sbind (range_from d) (\<lambda>rng.
     Inr \<lparr>sf_object_key = object_key, sf_size_bytes = size_bytes, sf_record_count = record_count,
          sf_content_hash = content_hash, sf_range = rng\<rparr>))))))"

definition manifest_to_dict :: "snapshot_manifest \<Rightarrow> json" where
  "manifest_to_dict m =
     JObj ([(''table'', JStr (mf_table m)), (''epoch'', JInt (mf_epoch m)), (''table_format'', JStr (mf_table_format m)),
            (''splits'', JList (map split_ref_to_dict (mf_splits m))), (''metadata_keys'', text_array (mf_metadata_keys m))]
       @ some_texts [(''generation_id'', mf_generation_id m)]
       @ some_ints [(''generation_fence'', mf_generation_fence m)]
       @ some_texts [(''plan_sha256'', mf_plan_sha256 m)]
       @ some_ints [(''published_at_ms'', mf_published_at_ms m)]
       @ some_texts [(''request_id'', mf_request_id m), (''dataset_id'', mf_dataset_id m)]
       @ some_ints [(''produced_at_ms'', mf_produced_at_ms m)]
       @ some_texts [(''tenant_id'', mf_tenant_id m)])"

definition manifest_from_dict :: "py_text \<Rightarrow> json \<Rightarrow> codec_error + snapshot_manifest" where
  "manifest_from_dict pt j =
     sbind (obj_of j) (\<lambda>d.
     sbind (req_str pt d ''table'') (\<lambda>tab.
     sbind (req_int d ''epoch'') (\<lambda>epoch.
     sbind (req_str pt d ''table_format'') (\<lambda>table_format.
     sbind (sbind (iter_of (json_get d ''splits'' (JList []))) (straverse (split_ref_from_dict pt))) (\<lambda>splits.
     sbind (texts_of d ''metadata_keys'') (\<lambda>metadata_keys.
     sbind (opt_int d ''generation_fence'' 0) (\<lambda>generation_fence.
     sbind (opt_int d ''published_at_ms'' 0) (\<lambda>published_at_ms.
     sbind (opt_int d ''produced_at_ms'' 0) (\<lambda>produced_at_ms.
     Inr \<lparr>mf_table = tab, mf_epoch = epoch, mf_table_format = table_format, mf_splits = splits,
          mf_metadata_keys = metadata_keys, mf_generation_id = opt_str pt d ''generation_id'' [],
          mf_generation_fence = generation_fence, mf_plan_sha256 = opt_str pt d ''plan_sha256'' [],
          mf_published_at_ms = published_at_ms, mf_request_id = opt_str pt d ''request_id'' [],
          mf_dataset_id = opt_str pt d ''dataset_id'' [], mf_produced_at_ms = produced_at_ms,
          mf_tenant_id = opt_str pt d ''tenant_id'' []\<rparr>)))))))))"

definition register_request_to_dict :: "register_request \<Rightarrow> json" where
  "register_request_to_dict r =
     JObj [(''agent_id'', JStr (rg_agent_id r)), (''host'', JStr (rg_host r)), (''port'', JInt (rg_port r)),
           (''os'', JStr (rg_os r)), (''version'', JStr (rg_version r)), (''capacity_hint'', JInt (rg_capacity_hint r)),
           (''advertise_host'', JStr (rg_advertise_host r)), (''contract_version'', JStr (rg_contract_version r)),
           (''capabilities'', text_array (rg_capabilities r)), (''pool_id'', JStr (rg_pool_id r)),
           (''location'', JStr (rg_location r)), (''shard_index'', JInt (rg_shard_index r))]"

definition register_request_from_dict :: "py_text \<Rightarrow> json \<Rightarrow> codec_error + register_request" where
  "register_request_from_dict pt j =
     sbind (obj_of j) (\<lambda>d.
     sbind (req_str pt d ''agent_id'') (\<lambda>agent_id.
     sbind (req_str pt d ''host'') (\<lambda>host.
     sbind (req_int d ''port'') (\<lambda>port.
     sbind (req_str pt d ''os'') (\<lambda>os.
     sbind (req_str pt d ''version'') (\<lambda>version.
     sbind (opt_int d ''capacity_hint'' 0) (\<lambda>capacity_hint.
     sbind (nonempty_set pt d ''capabilities'') (\<lambda>capabilities.
     sbind (opt_int d ''shard_index'' (- 1)) (\<lambda>shard_index.
     Inr \<lparr>rg_agent_id = agent_id, rg_host = host, rg_port = port, rg_os = os, rg_version = version,
          rg_capacity_hint = capacity_hint, rg_advertise_host = opt_str pt d ''advertise_host'' [],
          rg_contract_version = opt_str pt d ''contract_version'' MIN_COMPATIBLE_CONTRACT_VERSION,
          rg_capabilities = capabilities, rg_pool_id = opt_str pt d ''pool_id'' [],
          rg_location = opt_str pt d ''location'' [], rg_shard_index = shard_index\<rparr>)))))))))"

definition register_response_to_dict :: "register_response \<Rightarrow> json" where
  "register_response_to_dict r =
     JObj [(''lease_id'', JStr (rp_lease_id r)), (''heartbeat_ms'', JInt (rp_heartbeat_ms r)),
           (''contract_version'', JStr (rp_contract_version r))]"

definition register_response_from_dict :: "py_text \<Rightarrow> json \<Rightarrow> codec_error + register_response" where
  "register_response_from_dict pt j =
     sbind (obj_of j) (\<lambda>d.
     sbind (req_str pt d ''lease_id'') (\<lambda>lease_id.
     sbind (req_int d ''heartbeat_ms'') (\<lambda>heartbeat_ms.
     Inr \<lparr>rp_lease_id = lease_id, rp_heartbeat_ms = heartbeat_ms,
          rp_contract_version = opt_str pt d ''contract_version'' MIN_COMPATIBLE_CONTRACT_VERSION\<rparr>)))"

definition health_to_dict :: "agent_health \<Rightarrow> json" where
  "health_to_dict h =
     JObj [(''cpu_pct'', JReal (ah_cpu_pct h)), (''mem_bytes'', JInt (ah_mem_bytes h)),
           (''cache_bytes'', JInt (ah_cache_bytes h)), (''inflight'', JInt (ah_inflight h))]"

definition health_from_dict :: "py_text \<Rightarrow> json \<Rightarrow> codec_error + agent_health" where
  "health_from_dict pt j =
     sbind (obj_of j) (\<lambda>d.
     sbind (float_of pt (json_get d ''cpu_pct'' (JReal 0))) (\<lambda>cpu_pct.
     sbind (opt_int d ''mem_bytes'' 0) (\<lambda>mem_bytes.
     sbind (opt_int d ''cache_bytes'' 0) (\<lambda>cache_bytes.
     sbind (opt_int d ''inflight'' 0) (\<lambda>inflight.
     Inr \<lparr>ah_cpu_pct = cpu_pct, ah_mem_bytes = mem_bytes, ah_cache_bytes = cache_bytes, ah_inflight = inflight\<rparr>)))))"

definition heartbeat_to_dict :: "heartbeat_request \<Rightarrow> json" where
  "heartbeat_to_dict h =
     JObj [(''agent_id'', JStr (hb_agent_id h)), (''lease_id'', JStr (hb_lease_id h)),
           (''health'', health_to_dict (hb_health h)), (''serving_tables'', text_array (hb_serving_tables h)),
           (''epochs'', int_object (hb_epochs h)), (''active_task_ids'', text_array (hb_active_task_ids h))]"

definition heartbeat_from_dict :: "py_text \<Rightarrow> json \<Rightarrow> codec_error + heartbeat_request" where
  "heartbeat_from_dict pt j =
     sbind (obj_of j) (\<lambda>d.
     sbind (req_str pt d ''agent_id'') (\<lambda>agent_id.
     sbind (req_str pt d ''lease_id'') (\<lambda>lease_id.
     sbind (health_from_dict pt (json_get d ''health'' (JObj []))) (\<lambda>health.
     sbind (texts_of d ''serving_tables'') (\<lambda>serving_tables.
     sbind (int_items (json_get d ''epochs'' (JObj []))) (\<lambda>epochs.
     sbind (nonempty_set pt d ''active_task_ids'') (\<lambda>active_task_ids.
     Inr \<lparr>hb_agent_id = agent_id, hb_lease_id = lease_id, hb_health = health, hb_serving_tables = serving_tables,
          hb_epochs = epochs, hb_active_task_ids = active_task_ids\<rparr>)))))))"

definition task_items :: "materialize_task \<Rightarrow> (string, json) dict" where
  "task_items t =
     [(''table'', JStr (mt_table t)), (''epoch'', JInt (mt_epoch t)), (''split_index'', JInt (mt_split_index t)),
            (''source_table'', JStr (mt_source_table t)), (''output_key'', JStr (mt_output_key t)),
            (''schema'', JList (map column_to_dict (mt_schema t)))]
       @ some_value ''range'' (map_option key_range_to_dict (mt_range t))
       @ some_texts
           [(''task_id'', mt_task_id t), (''request_id'', mt_request_id t), (''claim_token'', mt_claim_token t),
            (''connection_id'', mt_connection_id t), (''connection_fingerprint'', mt_connection_fingerprint t),
            (''generation_id'', mt_generation_id t), (''plan_sha256'', mt_plan_sha256 t),
            (''table_format'', mt_table_format t), (''key_column'', mt_key_column t),
            (''split_strategy'', mt_split_strategy t), (''tenant_id'', mt_tenant_id t)]
       @ some_ints
           [(''attempt'', mt_attempt t), (''claim_expires_at_ms'', mt_claim_expires_at_ms t),
            (''generation_fence'', mt_generation_fence t), (''deadline_ms'', mt_deadline_ms t),
            (''num_splits'', mt_num_splits t), (''membership_version'', mt_membership_version t),
            (''worker_fence'', mt_worker_fence t)]"

definition task_to_dict :: "materialize_task \<Rightarrow> json" where
  "task_to_dict t = JObj (task_items t)"

definition task_from_dict :: "py_text \<Rightarrow> json \<Rightarrow> codec_error + materialize_task" where
  "task_from_dict pt j =
     sbind (obj_of j) (\<lambda>d.
     sbind (req_str pt d ''table'') (\<lambda>tab.
     sbind (req_int d ''epoch'') (\<lambda>epoch.
     sbind (req_int d ''split_index'') (\<lambda>split_index.
     sbind (req_str pt d ''source_table'') (\<lambda>source_table.
     sbind (req_str pt d ''output_key'') (\<lambda>output_key.
     sbind (sbind (iter_of (json_get d ''schema'' (JList []))) (straverse (column_from_dict pt))) (\<lambda>schema.
     sbind (range_from d) (\<lambda>rng.
     sbind (opt_int d ''attempt'' 0) (\<lambda>attempt.
     sbind (opt_int d ''claim_expires_at_ms'' 0) (\<lambda>claim_expires_at_ms.
     sbind (opt_int d ''generation_fence'' 0) (\<lambda>generation_fence.
     sbind (opt_int d ''deadline_ms'' 0) (\<lambda>deadline_ms.
     sbind (opt_int d ''num_splits'' 1) (\<lambda>num_splits.
     sbind (opt_int d ''membership_version'' 0) (\<lambda>membership_version.
     sbind (opt_int d ''worker_fence'' 0) (\<lambda>worker_fence.
     Inr \<lparr>mt_table = tab, mt_epoch = epoch, mt_split_index = split_index, mt_source_table = source_table,
          mt_output_key = output_key, mt_schema = schema, mt_range = rng, mt_task_id = opt_str pt d ''task_id'' [],
          mt_request_id = opt_str pt d ''request_id'' [], mt_claim_token = opt_str pt d ''claim_token'' [],
          mt_attempt = attempt, mt_claim_expires_at_ms = claim_expires_at_ms,
          mt_connection_id = opt_str pt d ''connection_id'' ''default'',
          mt_connection_fingerprint = opt_str pt d ''connection_fingerprint'' [],
          mt_generation_id = opt_str pt d ''generation_id'' [], mt_generation_fence = generation_fence,
          mt_plan_sha256 = opt_str pt d ''plan_sha256'' [], mt_table_format = opt_str pt d ''table_format'' [],
          mt_deadline_ms = deadline_ms, mt_num_splits = num_splits, mt_key_column = opt_str pt d ''key_column'' [],
          mt_split_strategy = opt_str pt d ''split_strategy'' [], mt_membership_version = membership_version,
          mt_worker_fence = worker_fence, mt_tenant_id = opt_str pt d ''tenant_id'' []\<rparr>)))))))))))))))"

text \<open>What a task is after it was encoded and decoded: two defaults replace missing keys.\<close>

definition canonical_task :: "materialize_task \<Rightarrow> materialize_task" where
  "canonical_task t =
     t\<lparr>mt_connection_id := (if mt_connection_id t = [] then ''default'' else mt_connection_id t),
       mt_num_splits := (if mt_num_splits t = 0 then 1 else mt_num_splits t)\<rparr>"

definition result_to_dict :: "task_result \<Rightarrow> json" where
  "result_to_dict r =
     JObj [(''agent_id'', JStr (tr_agent_id r)), (''table'', JStr (tr_table r)), (''epoch'', JInt (tr_epoch r)),
           (''split_index'', JInt (tr_split_index r)), (''ok'', JBool (tr_ok r)), (''size_bytes'', JInt (tr_size_bytes r)),
           (''record_count'', JInt (tr_record_count r)), (''content_hash'', JStr (tr_content_hash r)),
           (''error'', JStr (tr_error r)), (''task_id'', JStr (tr_task_id r)), (''request_id'', JStr (tr_request_id r)),
           (''claim_token'', JStr (tr_claim_token r)), (''attempt'', JInt (tr_attempt r)),
           (''generation_id'', JStr (tr_generation_id r)), (''generation_fence'', JInt (tr_generation_fence r)),
           (''plan_sha256'', JStr (tr_plan_sha256 r)), (''retryable'', JBool (tr_retryable r)),
           (''completed_at_ms'', JInt (tr_completed_at_ms r)), (''error_code'', JStr (tr_error_code r)),
           (''membership_version'', JInt (tr_membership_version r)), (''worker_fence'', JInt (tr_worker_fence r)),
           (''s3_etag'', JStr (tr_s3_etag r))]"

definition result_from_dict :: "py_text \<Rightarrow> json \<Rightarrow> codec_error + task_result" where
  "result_from_dict pt j =
     sbind (obj_of j) (\<lambda>d.
     sbind (req_str pt d ''agent_id'') (\<lambda>agent_id.
     sbind (req_str pt d ''table'') (\<lambda>tab.
     sbind (req_int d ''epoch'') (\<lambda>epoch.
     sbind (req_int d ''split_index'') (\<lambda>split_index.
     sbind (item_of d ''ok'') (\<lambda>ok.
     sbind (opt_int d ''size_bytes'' 0) (\<lambda>size_bytes.
     sbind (opt_int d ''record_count'' 0) (\<lambda>record_count.
     sbind (opt_int d ''attempt'' 0) (\<lambda>attempt.
     sbind (opt_int d ''generation_fence'' 0) (\<lambda>generation_fence.
     sbind (opt_int d ''completed_at_ms'' 0) (\<lambda>completed_at_ms.
     sbind (opt_int d ''membership_version'' 0) (\<lambda>membership_version.
     sbind (opt_int d ''worker_fence'' 0) (\<lambda>worker_fence.
     Inr \<lparr>tr_agent_id = agent_id, tr_table = tab, tr_epoch = epoch, tr_split_index = split_index, tr_ok = truth ok,
          tr_size_bytes = size_bytes, tr_record_count = record_count, tr_content_hash = opt_str pt d ''content_hash'' [],
          tr_error = opt_str pt d ''error'' [], tr_task_id = opt_str pt d ''task_id'' [],
          tr_request_id = opt_str pt d ''request_id'' [], tr_claim_token = opt_str pt d ''claim_token'' [],
          tr_attempt = attempt, tr_generation_id = opt_str pt d ''generation_id'' [],
          tr_generation_fence = generation_fence, tr_plan_sha256 = opt_str pt d ''plan_sha256'' [],
          tr_retryable = opt_bool d ''retryable'' False, tr_completed_at_ms = completed_at_ms,
          tr_error_code = opt_str pt d ''error_code'' [], tr_membership_version = membership_version,
          tr_worker_fence = worker_fence, tr_s3_etag = opt_str pt d ''s3_etag'' []\<rparr>)))))))))))))"

definition assignment_to_dict :: "assignment \<Rightarrow> json" where
  "assignment_to_dict a = JObj [(''agent_id'', JStr (as_agent_id a)), (''tables'', text_array (as_tables a))]"

definition assignment_from_dict :: "py_text \<Rightarrow> json \<Rightarrow> codec_error + assignment" where
  "assignment_from_dict pt j =
     sbind (obj_of j) (\<lambda>d.
     sbind (req_str pt d ''agent_id'') (\<lambda>agent_id.
     sbind (texts_of d ''tables'') (\<lambda>tables.
     Inr \<lparr>as_agent_id = agent_id, as_tables = tables\<rparr>)))"

definition drain_from_dict :: "json \<Rightarrow> codec_error + int" where
  "drain_from_dict j = sbind (obj_of j) (\<lambda>d. opt_int d ''grace_ms'' 5000)"

definition reload_from_dict :: "py_text \<Rightarrow> json \<Rightarrow> codec_error + string" where
  "reload_from_dict pt j = sbind (obj_of j) (\<lambda>d. Inr (opt_str pt d ''reason'' []))"

definition publish_from_dict :: "py_text \<Rightarrow> json \<Rightarrow> codec_error + publish_command" where
  "publish_from_dict pt j =
     sbind (obj_of j) (\<lambda>d.
     sbind (req_str pt d ''table'') (\<lambda>tab.
     sbind (req_int d ''epoch'') (\<lambda>epoch.
     Inr \<lparr>pb_table = tab, pb_epoch = epoch\<rparr>)))"

definition publish_to_dict :: "publish_command \<Rightarrow> json" where
  "publish_to_dict p = JObj [(''table'', JStr (pb_table p)), (''epoch'', JInt (pb_epoch p))]"

definition command_items :: "control_command \<Rightarrow> (string, json) dict" where
  "command_items c =
     [(''kind'', JStr (cc_kind c))]
       @ some_value ''drain'' (map_option (\<lambda>g. JObj [(''grace_ms'', JInt g)]) (cc_drain c))
       @ some_value ''reload'' (map_option (\<lambda>r. JObj [(''reason'', JStr r)]) (cc_reload c))
       @ some_value ''materialize'' (map_option task_to_dict (cc_materialize c))
       @ some_value ''publish'' (map_option publish_to_dict (cc_publish c))"

definition command_to_dict :: "control_command \<Rightarrow> json" where
  "command_to_dict c = JObj (command_items c)"

definition payload :: "(json \<Rightarrow> codec_error + 'a) \<Rightarrow> (string, json) dict \<Rightarrow> string \<Rightarrow> codec_error + 'a option" where
  "payload f d k =
     (let v = json_get d k JNull in if truth v then sbind (f v) (\<lambda>x. Inr (Some x)) else Inr None)"

definition command_from_dict :: "py_text \<Rightarrow> json \<Rightarrow> codec_error + control_command" where
  "command_from_dict pt j =
     sbind (obj_of j) (\<lambda>d.
     sbind (req_str pt d ''kind'') (\<lambda>kind.
     sbind (payload drain_from_dict d ''drain'') (\<lambda>drain.
     sbind (payload (reload_from_dict pt) d ''reload'') (\<lambda>reload.
     sbind (payload (task_from_dict pt) d ''materialize'') (\<lambda>materialize.
     sbind (payload (publish_from_dict pt) d ''publish'') (\<lambda>publish.
     Inr \<lparr>cc_kind = kind, cc_drain = drain, cc_reload = reload, cc_materialize = materialize, cc_publish = publish\<rparr>))))))"

definition canonical_command :: "control_command \<Rightarrow> control_command" where
  "canonical_command c = c\<lparr>cc_materialize := map_option canonical_task (cc_materialize c)\<rparr>"

definition ack_to_dict :: "ack_message \<Rightarrow> json" where
  "ack_to_dict a =
     JObj ([(''ok'', JBool (am_ok a))]
       @ some_texts [(''state'', am_state a)]
       @ (if am_duplicate a then [(''duplicate'', JBool True)] else [])
       @ (if am_terminal a then [(''terminal'', JBool True)] else [])
       @ some_texts [(''reason_code'', am_reason_code a)])"

definition ack_from_dict :: "py_text \<Rightarrow> json \<Rightarrow> codec_error + ack_message" where
  "ack_from_dict pt j =
     sbind (obj_of j) (\<lambda>d.
     Inr \<lparr>am_ok = opt_bool d ''ok'' True, am_state = opt_str pt d ''state'' [],
          am_duplicate = opt_bool d ''duplicate'' False, am_terminal = opt_bool d ''terminal'' False,
          am_reason_code = opt_str pt d ''reason_code'' []\<rparr>)"

section \<open>Round trips\<close>

lemma lookup_some_texts:
  "map_of (some_texts []) k = None"
  "map_of (some_texts ((k', v) # kvs)) k = (if k = k' \<and> v \<noteq> [] then Some (JStr v) else map_of (some_texts kvs) k)"
  by (simp_all add: some_texts_def)

lemma lookup_some_ints:
  "map_of (some_ints []) k = None"
  "map_of (some_ints ((k', v) # kvs)) k = (if k = k' \<and> v \<noteq> 0 then Some (JInt v) else map_of (some_ints kvs) k)"
  by (simp_all add: some_ints_def)

lemma lookup_some_value: "map_of (some_value k' v) k = (if k = k' then v else None)"
  by (simp add: some_value_def split: option.splits)

lemmas lookups = map_add_def lookup_some_texts lookup_some_ints lookup_some_value

lemmas readers = item_of_def req_str_def req_int_def opt_str_def opt_int_def opt_bool_def json_get_def

lemma straverse_map: "(\<And>x. x \<in> set xs \<Longrightarrow> f (g x) = Inr (h x)) \<Longrightarrow> straverse f (map g xs) = Inr (map h xs)"
  by (induction xs) simp_all

lemma typed_texts [simp]: "straverse typed_text (map JStr ss) = Inr ss"
  by (induction ss) simp_all

lemma int_items_object [simp]: "int_items (int_object d) = Inr d"
  by (induction d) (auto simp: int_items_def int_object_def sbind_def split: sum.splits)

lemma key_range_roundtrip [simp]: "key_range_from_dict (key_range_to_dict r) = Inr r"
  by (simp add: key_range_from_dict_def key_range_to_dict_def readers)

lemma truth_key_range [simp]: "truth (key_range_to_dict r)"
  by (simp add: key_range_to_dict_def)

lemma range_from_encoded:
  "map_of d ''range'' = map_option key_range_to_dict r \<Longrightarrow> range_from d = Inr r"
  by (cases r) (simp_all add: range_from_def json_get_def)

lemma column_roundtrip [simp]: "column_from_dict pt (column_to_dict c) = Inr c"
  by (simp add: column_from_dict_def column_to_dict_def readers lookups split: option.splits)

lemma columns_roundtrip [simp]: "straverse (column_from_dict pt) (map column_to_dict cs) = Inr cs"
  using straverse_map [of cs "column_from_dict pt" column_to_dict id] by simp

lemma split_ref_roundtrip [simp]: "split_ref_from_dict pt (split_ref_to_dict s) = Inr s"
  by (simp add: split_ref_from_dict_def split_ref_to_dict_def range_from_encoded [of _ "sf_range s"] readers lookups)

lemma split_refs_roundtrip [simp]: "straverse (split_ref_from_dict pt) (map split_ref_to_dict ss) = Inr ss"
  using straverse_map [of ss "split_ref_from_dict pt" split_ref_to_dict id] by simp

lemma manifest_roundtrip: "manifest_from_dict pt (manifest_to_dict m) = Inr m"
  by (simp add: manifest_from_dict_def manifest_to_dict_def texts_of_def text_array_def readers lookups)

lemma register_request_roundtrip:
  "register_request_from_dict pt (register_request_to_dict r)
     = Inr (r\<lparr>rg_capabilities := sort (remdups (filter (\<lambda>s. s \<noteq> []) (rg_capabilities r)))\<rparr>)"
  by (simp add: register_request_from_dict_def register_request_to_dict_def nonempty_set_def text_array_def readers comp_def)

lemma register_response_roundtrip: "register_response_from_dict pt (register_response_to_dict r) = Inr r"
  by (simp add: register_response_from_dict_def register_response_to_dict_def readers)

lemma health_roundtrip [simp]: "health_from_dict pt (health_to_dict h) = Inr h"
  by (simp add: health_from_dict_def health_to_dict_def readers)

lemma heartbeat_roundtrip:
  "heartbeat_from_dict pt (heartbeat_to_dict h)
     = Inr (h\<lparr>hb_active_task_ids := sort (remdups (filter (\<lambda>s. s \<noteq> []) (hb_active_task_ids h)))\<rparr>)"
  by (simp add: heartbeat_from_dict_def heartbeat_to_dict_def nonempty_set_def texts_of_def text_array_def readers comp_def)

lemma task_required:
  "map_of (task_items t) ''table'' = Some (JStr (mt_table t))"
  "map_of (task_items t) ''epoch'' = Some (JInt (mt_epoch t))"
  "map_of (task_items t) ''split_index'' = Some (JInt (mt_split_index t))"
  "map_of (task_items t) ''source_table'' = Some (JStr (mt_source_table t))"
  "map_of (task_items t) ''output_key'' = Some (JStr (mt_output_key t))"
  "map_of (task_items t) ''schema'' = Some (JList (map column_to_dict (mt_schema t)))"
  "map_of (task_items t) ''range'' = map_option key_range_to_dict (mt_range t)"
  by (simp_all add: task_items_def lookups split: option.splits)

lemma task_optional:
  "opt_str pt (task_items t) ''task_id'' [] = mt_task_id t"
  "opt_str pt (task_items t) ''request_id'' [] = mt_request_id t"
  "opt_str pt (task_items t) ''claim_token'' [] = mt_claim_token t"
  "opt_str pt (task_items t) ''connection_id'' ''default'' = mt_connection_id (canonical_task t)"
  "opt_str pt (task_items t) ''connection_fingerprint'' [] = mt_connection_fingerprint t"
  "opt_str pt (task_items t) ''generation_id'' [] = mt_generation_id t"
  "opt_str pt (task_items t) ''plan_sha256'' [] = mt_plan_sha256 t"
  "opt_str pt (task_items t) ''table_format'' [] = mt_table_format t"
  "opt_str pt (task_items t) ''key_column'' [] = mt_key_column t"
  "opt_str pt (task_items t) ''split_strategy'' [] = mt_split_strategy t"
  "opt_str pt (task_items t) ''tenant_id'' [] = mt_tenant_id t"
  "opt_int (task_items t) ''attempt'' 0 = Inr (mt_attempt t)"
  "opt_int (task_items t) ''claim_expires_at_ms'' 0 = Inr (mt_claim_expires_at_ms t)"
  "opt_int (task_items t) ''generation_fence'' 0 = Inr (mt_generation_fence t)"
  "opt_int (task_items t) ''deadline_ms'' 0 = Inr (mt_deadline_ms t)"
  "opt_int (task_items t) ''num_splits'' 1 = Inr (mt_num_splits (canonical_task t))"
  "opt_int (task_items t) ''membership_version'' 0 = Inr (mt_membership_version t)"
  "opt_int (task_items t) ''worker_fence'' 0 = Inr (mt_worker_fence t)"
  by (simp_all add: opt_str_def opt_int_def json_get_def task_items_def canonical_task_def lookups)

lemma task_roundtrip [simp]: "task_from_dict pt (task_to_dict t) = Inr (canonical_task t)"
proof -
  have "range_from (task_items t) = Inr (mt_range t)" using task_required(7) by (rule range_from_encoded)
  then show ?thesis
    by (simp add: task_from_dict_def task_to_dict_def task_required task_optional item_of_def req_str_def req_int_def
        json_get_def) (simp add: canonical_task_def)
qed

lemma truth_task [simp]: "truth (task_to_dict t)"
  by (simp add: task_to_dict_def task_items_def)

lemma result_roundtrip: "result_from_dict pt (result_to_dict r) = Inr r"
  by (simp add: result_from_dict_def result_to_dict_def readers)

lemma assignment_roundtrip: "assignment_from_dict pt (assignment_to_dict a) = Inr a"
  by (simp add: assignment_from_dict_def assignment_to_dict_def texts_of_def text_array_def readers)

lemma publish_roundtrip [simp]: "publish_from_dict pt (publish_to_dict p) = Inr p"
  by (simp add: publish_from_dict_def publish_to_dict_def readers)

lemma ack_roundtrip: "ack_from_dict pt (ack_to_dict a) = Inr a"
  by (simp add: ack_from_dict_def ack_to_dict_def readers lookups)

lemma payload_encoded:
  "map_of d k = map_option g x \<Longrightarrow> (\<And>y. truth (g y)) \<Longrightarrow> (\<And>y. f (g y) = Inr (h y)) \<Longrightarrow> payload f d k = Inr (map_option h x)"
  by (cases x) (simp_all add: payload_def json_get_def)

lemma command_payloads:
  "map_of (command_items c) ''kind'' = Some (JStr (cc_kind c))"
  "map_of (command_items c) ''drain'' = map_option (\<lambda>g. JObj [(''grace_ms'', JInt g)]) (cc_drain c)"
  "map_of (command_items c) ''reload'' = map_option (\<lambda>r. JObj [(''reason'', JStr r)]) (cc_reload c)"
  "map_of (command_items c) ''materialize'' = map_option task_to_dict (cc_materialize c)"
  "map_of (command_items c) ''publish'' = map_option publish_to_dict (cc_publish c)"
  by (simp_all add: command_items_def lookups split: option.splits)

lemma command_roundtrip [simp]: "command_from_dict pt (command_to_dict c) = Inr (canonical_command c)"
proof -
  have "payload drain_from_dict (command_items c) ''drain'' = Inr (map_option id (cc_drain c))"
    by (rule payload_encoded [OF command_payloads(2)]) (simp_all add: drain_from_dict_def opt_int_def json_get_def)
  moreover have "payload (reload_from_dict pt) (command_items c) ''reload'' = Inr (map_option id (cc_reload c))"
    by (rule payload_encoded [OF command_payloads(3)]) (simp_all add: reload_from_dict_def opt_str_def json_get_def)
  moreover have "payload (task_from_dict pt) (command_items c) ''materialize'' = Inr (map_option canonical_task (cc_materialize c))"
    by (rule payload_encoded [OF command_payloads(4)]) simp_all
  moreover have "payload (publish_from_dict pt) (command_items c) ''publish'' = Inr (map_option id (cc_publish c))"
    by (rule payload_encoded [OF command_payloads(5)]) (simp_all, simp add: publish_to_dict_def)
  ultimately show ?thesis
    by (simp add: command_from_dict_def command_to_dict_def command_payloads(1) req_str_def item_of_def option.map_id
        canonical_command_def)
qed

lemma canonical_task_idem [simp]: "canonical_task (canonical_task t) = canonical_task t"
  by (simp add: canonical_task_def)

lemma canonical_command_idem [simp]: "canonical_command (canonical_command c) = canonical_command c"
  by (simp add: canonical_command_def option.map_comp comp_def)

text \<open>
  C28: The wire contract is lossless. Every message that is encoded by \<open>to_dict\<close> is decoded by \<open>from_dict\<close> to the same message,
  whatever \<open>str()\<close> and \<open>float()\<close> do on other values, with three exceptions that the right-hand sides state: a
  task without connection becomes one of the connection \<open>default\<close>, a task with 0 splits one with 1 split, and the capabilities of a registration and
  the active tasks of a heartbeat become sorted lists without duplicates and empty texts.
\<close>

theorem contract_roundtrip:
  "command_from_dict pt (command_to_dict c)
     = Inr (c\<lparr>cc_materialize := map_option (\<lambda>t. t\<lparr>mt_connection_id := (if mt_connection_id t = [] then ''default'' else mt_connection_id t),
         mt_num_splits := (if mt_num_splits t = 0 then 1 else mt_num_splits t)\<rparr>) (cc_materialize c)\<rparr>)
   \<and> result_from_dict pt (result_to_dict r) = Inr r
   \<and> manifest_from_dict pt (manifest_to_dict m) = Inr m
   \<and> register_request_from_dict pt (register_request_to_dict q)
     = Inr (q\<lparr>rg_capabilities := sort (remdups (filter (\<lambda>s. s \<noteq> []) (rg_capabilities q)))\<rparr>)
   \<and> register_response_from_dict pt (register_response_to_dict p) = Inr p
   \<and> heartbeat_from_dict pt (heartbeat_to_dict h)
     = Inr (h\<lparr>hb_active_task_ids := sort (remdups (filter (\<lambda>s. s \<noteq> []) (hb_active_task_ids h)))\<rparr>)
   \<and> assignment_from_dict pt (assignment_to_dict a) = Inr a
   \<and> ack_from_dict pt (ack_to_dict k) = Inr k"
  using command_roundtrip [of pt c] result_roundtrip manifest_roundtrip register_request_roundtrip register_response_roundtrip
    heartbeat_roundtrip assignment_roundtrip ack_roundtrip
  unfolding canonical_command_def canonical_task_def by simp

end
