(* ===== verification/Registry.thy ===== *)
theory Registry
  imports Lease Placement Contract
begin

text \<open>
  The Manager's registry of Agents (\<open>enterprise/control/registry.py\<close>): leases, heartbeats, the command queue of each Agent, and the
  durable snapshot that the active Manager keeps in the state of its leader lease.

  An operation works on the registry, the Manager's lease object and the shared control store. The arguments of a call are
  the monotonic clock in seconds, the wall clock of the lease in milliseconds and the attempts of the store calls (see \<open>Lease\<close>);
  the clock stands still during a call. The fresh lease id (\<open>uuid4\<close>) is an argument of \<open>register\<close>; \<open>in_network\<close> says
  whether a text is an IP address of a network (\<open>False\<close> where the \<open>ipaddress\<close> module raises).
\<close>

section \<open>State\<close>

record agent_record =
  ar_agent_id :: string
  ar_lease_id :: string
  ar_host :: string
  ar_port :: int
  ar_os :: string
  ar_version :: string
  ar_capacity_hint :: int
  ar_registered_at :: rat
  ar_last_seen :: rat
  ar_advertise_host :: string
  ar_health :: agent_health
  ar_serving_tables :: "string list"
  ar_epochs :: "(string, int) dict"
  ar_capabilities :: "string list"
  ar_shard_index :: int
  ar_contract_version :: string
  ar_pool_id :: string
  ar_location :: string
  ar_storage_profile :: string
  ar_tenant_id :: string
  ar_upgrade_ring :: string
  ar_allowed_connection_ids :: "string list"
  ar_allowed_table_patterns :: "string list"
  ar_commands :: "control_command list"
  ar_draining :: bool

record registry =
  re_heartbeat_ms :: int
  re_miss_limit :: int
  re_agents :: "(string, agent_record) dict"
  re_allowed_hosts :: "string list"
  re_placement :: placement
  re_durable :: bool

datatype registry_error =
    Invalid_Request string
  | Placement_Refused placement_error
  | Stale_Agent_Lease
  | Durable_State lease_error
  | Bad_Snapshot string
  | Bad_Agent_Record codec_error

record 'x control =
  ct_registry :: registry
  ct_lease :: leader_lease
  ct_store :: "(json, 'x) control_store"

record 'x call =
  ca_now :: rat
  ca_wall :: int
  ca_env :: "nat \<Rightarrow> (json, 'x) control_store attempt"

definition new_registry :: "int \<Rightarrow> int \<Rightarrow> string list \<Rightarrow> placement \<Rightarrow> registry" where
  "new_registry heartbeat_ms miss_limit allowed_hosts placement =
     \<lparr>re_heartbeat_ms = heartbeat_ms, re_miss_limit = max 1 miss_limit, re_agents = [],
      re_allowed_hosts = filter (\<lambda>x. x \<noteq> []) (map (\<lambda>x. py_casefold (py_strip_space x)) allowed_hosts),
      re_placement = placement, re_durable = False\<rparr>"

section \<open>The durable snapshot\<close>

definition age_ms :: "rat \<Rightarrow> rat \<Rightarrow> int" where
  "age_ms now t = max 0 (rat_trunc ((now - t) * 1000))"

definition agent_items :: "rat \<Rightarrow> agent_record \<Rightarrow> (string, json) dict" where
  "agent_items now r =
     [(''agent_id'', JStr (ar_agent_id r)), (''lease_id'', JStr (ar_lease_id r)), (''host'', JStr (ar_host r)),
      (''port'', JInt (ar_port r)), (''os'', JStr (ar_os r)), (''version'', JStr (ar_version r)),
      (''capacity_hint'', JInt (ar_capacity_hint r)), (''registered_age_ms'', JInt (age_ms now (ar_registered_at r))),
      (''last_seen_age_ms'', JInt (age_ms now (ar_last_seen r))), (''advertise_host'', JStr (ar_advertise_host r)),
      (''health'', health_to_dict (ar_health r)), (''serving_tables'', text_array (ar_serving_tables r)),
      (''epochs'', int_object (ar_epochs r)), (''capabilities'', text_array (ar_capabilities r)),
      (''shard_index'', JInt (ar_shard_index r)), (''contract_version'', JStr (ar_contract_version r)),
      (''pool_id'', JStr (ar_pool_id r)), (''location'', JStr (ar_location r)),
      (''storage_profile'', JStr (ar_storage_profile r)), (''tenant_id'', JStr (ar_tenant_id r)),
      (''upgrade_ring'', JStr (ar_upgrade_ring r)),
      (''allowed_connection_ids'', text_array (ar_allowed_connection_ids r)),
      (''allowed_table_patterns'', text_array (ar_allowed_table_patterns r)),
      (''commands'', JList (map command_to_dict (ar_commands r))), (''draining'', JBool (ar_draining r))]"

definition snapshot :: "rat \<Rightarrow> registry \<Rightarrow> json" where
  "snapshot now rg =
     JObj [(''version'', JInt 1),
           (''agents'', JList (map (\<lambda>r. JObj (agent_items now r)) (sort_key ar_agent_id (map snd (re_agents rg)))))]"

definition is_one :: "json \<Rightarrow> bool" where
  "is_one j \<longleftrightarrow> (case j of JInt i \<Rightarrow> i = 1 | JReal r \<Rightarrow> r = 1 | JBool b \<Rightarrow> b | _ \<Rightarrow> False)"

definition in_pool :: "pool option \<Rightarrow> agent_record \<Rightarrow> agent_record" where
  "in_pool p r =
     r\<lparr>ar_pool_id := (case p of None \<Rightarrow> [] | Some p \<Rightarrow> pl_pool_id p),
       ar_location := (case p of None \<Rightarrow> [] | Some p \<Rightarrow> pl_location p),
       ar_storage_profile := (case p of None \<Rightarrow> [] | Some p \<Rightarrow> pl_storage_profile p),
       ar_tenant_id := (case p of None \<Rightarrow> [] | Some p \<Rightarrow> pl_tenant_id p),
       ar_upgrade_ring := (case p of None \<Rightarrow> [] | Some p \<Rightarrow> pl_upgrade_ring p),
       ar_allowed_connection_ids := (case p of None \<Rightarrow> [] | Some p \<Rightarrow> sort (pl_allowed_connection_ids p)),
       ar_allowed_table_patterns := (case p of None \<Rightarrow> [] | Some p \<Rightarrow> pl_allowed_table_patterns p)\<rparr>"

definition or_empty :: "json \<Rightarrow> json" where
  "or_empty j = (if truth j then j else JObj [])"

definition str_items :: "py_text \<Rightarrow> (string, json) dict \<Rightarrow> string \<Rightarrow> codec_error + string list" where
  "str_items pt d k = sbind (iter_of (json_get d k (JList []))) (\<lambda>vs. Inr (map (str_of pt) vs))"

definition agent_from_items :: "py_text \<Rightarrow> rat \<Rightarrow> (string, json) dict \<Rightarrow> string \<Rightarrow> codec_error + agent_record" where
  "agent_from_items pt now d agent_id =
     sbind (req_str pt d ''lease_id'') (\<lambda>lease_id.
     sbind (req_str pt d ''host'') (\<lambda>host.
     sbind (req_int d ''port'') (\<lambda>port.
     sbind (opt_int d ''capacity_hint'' 0) (\<lambda>capacity_hint.
     sbind (opt_int d ''registered_age_ms'' 0) (\<lambda>registered_age.
     sbind (opt_int d ''last_seen_age_ms'' 0) (\<lambda>last_seen_age.
     sbind (health_from_dict pt (or_empty (json_get d ''health'' JNull))) (\<lambda>health.
     sbind (str_items pt d ''serving_tables'') (\<lambda>serving_tables.
     sbind (int_items (or_empty (json_get d ''epochs'' JNull))) (\<lambda>epochs.
     sbind (str_items pt d ''capabilities'') (\<lambda>capabilities.
     sbind (opt_int d ''shard_index'' (- 1)) (\<lambda>shard_index.
     sbind (sbind (iter_of (json_get d ''commands'' (JList []))) (straverse (command_from_dict pt))) (\<lambda>commands.
     Inr \<lparr>ar_agent_id = agent_id, ar_lease_id = lease_id, ar_host = host, ar_port = port, ar_os = opt_str pt d ''os'' [],
          ar_version = opt_str pt d ''version'' [], ar_capacity_hint = capacity_hint,
          ar_registered_at = now - of_int (max 0 registered_age) / 1000, ar_last_seen = now - of_int (max 0 last_seen_age) / 1000,
          ar_advertise_host = opt_str pt d ''advertise_host'' [], ar_health = health, ar_serving_tables = serving_tables,
          ar_epochs = epochs, ar_capabilities = sort (remdups capabilities), ar_shard_index = shard_index,
          ar_contract_version = opt_str pt d ''contract_version'' ''1.0'', ar_pool_id = [], ar_location = [],
          ar_storage_profile = [], ar_tenant_id = [], ar_upgrade_ring = [], ar_allowed_connection_ids = [],
          ar_allowed_table_patterns = [], ar_commands = commands, ar_draining = opt_bool d ''draining'' False\<rparr>))))))))))))"

definition restore_agent ::
  "py_text \<Rightarrow> rat \<Rightarrow> placement \<Rightarrow> json \<Rightarrow> (string, agent_record) dict \<Rightarrow> registry_error + (string, agent_record) dict" where
  "restore_agent pt now pc j restored =
     (case j of
        JObj d \<Rightarrow>
          (case req_str pt d ''agent_id'' of
             Inl e \<Rightarrow> Inl (Bad_Agent_Record e)
           | Inr agent_id \<Rightarrow>
               (case validate_agent_version pc agent_id (opt_str pt d ''version'' []) of
                  Inl (Version_Unsupported _) \<Rightarrow> Inr restored
                | Inl e \<Rightarrow> Inl (Placement_Refused e)
                | Inr _ \<Rightarrow>
                    (case agent_from_items pt now d agent_id of
                       Inl e \<Rightarrow> Inl (Bad_Agent_Record e)
                     | Inr r \<Rightarrow> Inr (AList.update agent_id (in_pool (pool_for_identity pc agent_id) r) restored))))
      | _ \<Rightarrow> Inl (Bad_Snapshot ''durable registry agent record must be an object''))"

definition restore :: "py_text \<Rightarrow> rat \<Rightarrow> json \<Rightarrow> registry \<Rightarrow> registry_error + registry" where
  "restore pt now j rg =
     (case j of
        JObj d \<Rightarrow>
          if \<not> is_one (json_get d ''version'' JNull) then Inl (Bad_Snapshot ''unsupported durable registry snapshot'')
          else (case json_get d ''agents'' JNull of
                  JList records \<Rightarrow>
                    sbind (sfold (restore_agent pt now (re_placement rg)) records []) (\<lambda>agents.
                    Inr (rg\<lparr>re_agents := agents\<rparr>))
                | _ \<Rightarrow> Inl (Bad_Snapshot ''durable registry snapshot agents must be a list''))
      | _ \<Rightarrow> Inl (Bad_Snapshot ''unsupported durable registry snapshot''))"

definition save :: "'x call \<Rightarrow> 'x control \<Rightarrow> (lease_error + int) \<times> 'x control" where
  "save k c =
     (case mutate_state (ca_wall k) ''registry'' (snapshot (ca_now k) (ct_registry c)) (ca_env k) (ct_lease c) (ct_store c) of
        (res, l, s) \<Rightarrow> (res, c\<lparr>ct_lease := l, ct_store := s\<rparr>))"

definition persist :: "py_text \<Rightarrow> 'x call \<Rightarrow> json \<Rightarrow> 'x control \<Rightarrow> (registry_error + unit) \<times> 'x control" where
  "persist pt k before c =
     (if \<not> re_durable (ct_registry c) then (Inr (), c)
      else (case save k c of
              (Inr _, c') \<Rightarrow> (Inr (), c')
            | (Inl e, c') \<Rightarrow>
                (case restore pt (ca_now k) before (ct_registry c') of
                   Inl e' \<Rightarrow> (Inl e', c')
                 | Inr rg \<Rightarrow> (Inl (Durable_State e), c'\<lparr>ct_registry := rg\<rparr>))))"

definition read_durable :: "bool \<Rightarrow> 'x control \<Rightarrow> registry_error + json option" where
  "read_durable store_up c =
     (case read_state store_up ''registry'' (ct_store c) of Inl e \<Rightarrow> Inl (Durable_State e) | Inr v \<Rightarrow> Inr v)"

definition attach_durable_state ::
  "py_text \<Rightarrow> 'x call \<Rightarrow> bool \<Rightarrow> bool \<Rightarrow> 'x control \<Rightarrow> (registry_error + int) \<times> 'x control" where
  "attach_durable_state pt k restoring store_up c0 =
     (let c = c0\<lparr>ct_registry := (ct_registry c0)\<lparr>re_durable := True\<rparr>\<rparr>;
          loaded = (if restoring then read_durable store_up c else Inr None)
      in case sbind loaded (\<lambda>v. case v of None \<Rightarrow> Inr (ct_registry c) | Some j \<Rightarrow> restore pt (ca_now k) j (ct_registry c)) of
           Inl e \<Rightarrow> (Inl e, c)
         | Inr rg \<Rightarrow>
             (case save k (c\<lparr>ct_registry := rg\<rparr>) of
                (Inl e, c') \<Rightarrow> (Inl (Durable_State e), c')
              | (Inr fence, c') \<Rightarrow> (Inr fence, c')))"

definition detach_durable_state :: "'x control \<Rightarrow> 'x control" where
  "detach_durable_state c = c\<lparr>ct_registry := (ct_registry c)\<lparr>re_durable := False\<rparr>\<rparr>"

section \<open>Operations\<close>

definition host_allowed :: "(string \<Rightarrow> string \<Rightarrow> bool) \<Rightarrow> registry \<Rightarrow> string \<Rightarrow> bool" where
  "host_allowed in_network rg host \<longleftrightarrow>
     re_allowed_hosts rg = []
     \<or> (let v = py_rstrip (CHR ''.'') (py_casefold (py_strip_space host)) in
        \<exists>entry\<in>set (re_allowed_hosts rg). v = py_rstrip (CHR ''.'') entry \<or> in_network v entry)"

definition heartbeat_interval :: "registry \<Rightarrow> pool option \<Rightarrow> int" where
  "heartbeat_interval rg p =
     (case p of
        None \<Rightarrow> re_heartbeat_ms rg
      | Some p \<Rightarrow> (case pl_heartbeat_ms p of None \<Rightarrow> re_heartbeat_ms rg | Some h \<Rightarrow> if h \<noteq> 0 then h else re_heartbeat_ms rg))"

definition new_agent :: "rat \<Rightarrow> string \<Rightarrow> pool option \<Rightarrow> register_request \<Rightarrow> agent_record" where
  "new_agent now lease p q =
     in_pool p
       \<lparr>ar_agent_id = rg_agent_id q, ar_lease_id = lease, ar_host = rg_host q, ar_port = rg_port q, ar_os = rg_os q,
        ar_version = rg_version q, ar_capacity_hint = rg_capacity_hint q, ar_registered_at = now, ar_last_seen = now,
        ar_advertise_host = rg_advertise_host q,
        ar_health = \<lparr>ah_cpu_pct = 0, ah_mem_bytes = 0, ah_cache_bytes = 0, ah_inflight = 0\<rparr>, ar_serving_tables = [],
        ar_epochs = [], ar_capabilities = sort (remdups (rg_capabilities q)), ar_shard_index = rg_shard_index q,
        ar_contract_version = rg_contract_version q, ar_pool_id = [], ar_location = [], ar_storage_profile = [],
        ar_tenant_id = [], ar_upgrade_ring = [], ar_allowed_connection_ids = [], ar_allowed_table_patterns = [],
        ar_commands = [], ar_draining = False\<rparr>"

definition check_registration :: "(string \<Rightarrow> string \<Rightarrow> bool) \<Rightarrow> registry \<Rightarrow> register_request \<Rightarrow> registry_error + unit" where
  "check_registration in_network rg q =
     (let advertised = (if rg_advertise_host q \<noteq> [] then rg_advertise_host q else rg_host q) in
      if \<not> (1 \<le> rg_port q \<and> rg_port q \<le> 65535) then Inl (Invalid_Request ''agent port must be in 1..65535'')
      else if rg_shard_index q < - 1 then Inl (Invalid_Request ''agent shard_index must be >= -1'')
      else if \<not> contract_compatible (rg_contract_version q) then Inl (Invalid_Request ''incompatible control contract'')
      else if \<not> host_allowed in_network rg (rg_host q) \<or> \<not> host_allowed in_network rg advertised
      then Inl (Invalid_Request ''agent host is not allowed by AGENT_HOST_ALLOWLIST'')
      else (case validate_agent_version (re_placement rg) (rg_agent_id q) (rg_version q) of
              Inl e \<Rightarrow> Inl (Placement_Refused e)
            | Inr _ \<Rightarrow> Inr ()))"

definition with_agents :: "'x control \<Rightarrow> (string, agent_record) dict \<Rightarrow> 'x control" where
  "with_agents c agents = c\<lparr>ct_registry := (ct_registry c)\<lparr>re_agents := agents\<rparr>\<rparr>"

definition commit_agents ::
  "py_text \<Rightarrow> 'x call \<Rightarrow> (string, agent_record) dict \<Rightarrow> 'a \<Rightarrow> 'x control \<Rightarrow> (registry_error + 'a) \<times> 'x control" where
  "commit_agents pt k agents reply c =
     (case persist pt k (snapshot (ca_now k) (ct_registry c)) (with_agents c agents) of
        (Inl e, c') \<Rightarrow> (Inl e, c')
      | (Inr _, c') \<Rightarrow> (Inr reply, c'))"

definition register ::
  "py_text \<Rightarrow> (string \<Rightarrow> string \<Rightarrow> bool) \<Rightarrow> 'x call \<Rightarrow> string \<Rightarrow> register_request \<Rightarrow> 'x control
     \<Rightarrow> (registry_error + register_response) \<times> 'x control" where
  "register pt in_network k lease q c =
     (let rg = ct_registry c; p = pool_for_identity (re_placement rg) (rg_agent_id q) in
      case check_registration in_network rg q of
        Inl e \<Rightarrow> (Inl e, c)
      | Inr _ \<Rightarrow>
          commit_agents pt k (AList.update (rg_agent_id q) (new_agent (ca_now k) lease p q) (re_agents rg))
            \<lparr>rp_lease_id = lease, rp_heartbeat_ms = heartbeat_interval rg p, rp_contract_version = CONTRACT_VERSION\<rparr> c)"

definition seen_agent :: "rat \<Rightarrow> heartbeat_request \<Rightarrow> agent_record \<Rightarrow> agent_record" where
  "seen_agent now h r =
     r\<lparr>ar_last_seen := now, ar_health := hb_health h, ar_serving_tables := hb_serving_tables h, ar_epochs := hb_epochs h,
       ar_commands := []\<rparr>"

definition heartbeat ::
  "py_text \<Rightarrow> 'x call \<Rightarrow> heartbeat_request \<Rightarrow> 'x control \<Rightarrow> (registry_error + control_command list) \<times> 'x control" where
  "heartbeat pt k h c =
     (case map_of (re_agents (ct_registry c)) (hb_agent_id h) of
        None \<Rightarrow> (Inl Stale_Agent_Lease, c)
      | Some r \<Rightarrow>
          if ar_lease_id r \<noteq> hb_lease_id h then (Inl Stale_Agent_Lease, c)
          else commit_agents pt k (AList.update (hb_agent_id h) (seen_agent (ca_now k) h r) (re_agents (ct_registry c)))
                 (ar_commands r) c)"

definition with_command :: "control_command \<Rightarrow> agent_record \<Rightarrow> agent_record" where
  "with_command cmd r =
     r\<lparr>ar_commands := ar_commands r @ [cmd], ar_draining := (if cc_kind cmd = ''drain'' then True else ar_draining r)\<rparr>"

definition queue_command ::
  "py_text \<Rightarrow> 'x call \<Rightarrow> string \<Rightarrow> control_command \<Rightarrow> 'x control \<Rightarrow> (registry_error + bool) \<times> 'x control" where
  "queue_command pt k agent_id cmd c =
     (case map_of (re_agents (ct_registry c)) agent_id of
        None \<Rightarrow> (Inr False, c)
      | Some r \<Rightarrow> commit_agents pt k (AList.update agent_id (with_command cmd r) (re_agents (ct_registry c))) True c)"

definition broadcast ::
  "py_text \<Rightarrow> 'x call \<Rightarrow> control_command \<Rightarrow> 'x control \<Rightarrow> (registry_error + nat) \<times> 'x control" where
  "broadcast pt k cmd c =
     (let agents = re_agents (ct_registry c) in
      commit_agents pt k (map (\<lambda>(i, r). (i, with_command cmd r)) agents) (length agents) c)"

definition remove_agent :: "py_text \<Rightarrow> 'x call \<Rightarrow> string \<Rightarrow> 'x control \<Rightarrow> (registry_error + bool) \<times> 'x control" where
  "remove_agent pt k agent_id c =
     (if agent_id \<in> set (keys_of (re_agents (ct_registry c)))
      then commit_agents pt k (AList.delete agent_id (re_agents (ct_registry c))) True c
      else (Inr False, c))"

section \<open>Liveness and introspection\<close>

definition heartbeat_timeout :: "registry \<Rightarrow> string \<Rightarrow> rat" where
  "heartbeat_timeout rg agent_id =
     (let p = pool_for_identity (re_placement rg) agent_id;
          misses = (case p of
                      None \<Rightarrow> re_miss_limit rg
                    | Some p \<Rightarrow> (case pl_heartbeat_miss_limit p of
                                   None \<Rightarrow> re_miss_limit rg | Some m \<Rightarrow> if m \<noteq> 0 then m else re_miss_limit rg))
      in of_int (heartbeat_interval rg p) / 1000 * of_int misses)"

definition record_alive :: "registry \<Rightarrow> rat \<Rightarrow> agent_record \<Rightarrow> bool" where
  "record_alive rg now r \<longleftrightarrow> now - ar_last_seen r \<le> heartbeat_timeout rg (ar_agent_id r)"

definition is_alive :: "registry \<Rightarrow> rat \<Rightarrow> string \<Rightarrow> bool" where
  "is_alive rg now agent_id = (case map_of (re_agents rg) agent_id of None \<Rightarrow> False | Some r \<Rightarrow> record_alive rg now r)"

definition dead_agents :: "registry \<Rightarrow> rat \<Rightarrow> string list" where
  "dead_agents rg now = map ar_agent_id (filter (\<lambda>r. \<not> record_alive rg now r) (map snd (re_agents rg)))"

text \<open>\<open>round(x, 1)\<close>, half to even.\<close>

definition round_tenth :: "rat \<Rightarrow> rat" where
  "round_tenth x =
     (let n = \<lfloor>x * 10\<rfloor>; f = x * 10 - of_int n in
      of_int (if f < 1 / 2 \<or> f = 1 / 2 \<and> even n then n else n + 1) / 10)"

definition to_public :: "rat \<Rightarrow> agent_record \<Rightarrow> json" where
  "to_public now r =
     JObj [(''agent_id'', JStr (ar_agent_id r)),
           (''host'', JStr (if ar_advertise_host r \<noteq> [] then ar_advertise_host r else ar_host r)),
           (''bind_host'', JStr (ar_host r)), (''port'', JInt (ar_port r)), (''os'', JStr (ar_os r)),
           (''version'', JStr (ar_version r)), (''capacity_hint'', JInt (ar_capacity_hint r)),
           (''serving_tables'', text_array (ar_serving_tables r)), (''epochs'', int_object (ar_epochs r)),
           (''capabilities'', text_array (ar_capabilities r)), (''shard_index'', JInt (ar_shard_index r)),
           (''contract_version'', JStr (ar_contract_version r)), (''pool_id'', JStr (ar_pool_id r)),
           (''location'', JStr (ar_location r)), (''storage_profile'', JStr (ar_storage_profile r)),
           (''tenant_id'', JStr (ar_tenant_id r)), (''upgrade_ring'', JStr (ar_upgrade_ring r)),
           (''allowed_connection_ids'', text_array (ar_allowed_connection_ids r)),
           (''allowed_table_patterns'', text_array (ar_allowed_table_patterns r)),
           (''health'', health_to_dict (ar_health r)),
           (''age_seconds'', JReal (round_tenth (now - ar_registered_at r))),
           (''seconds_since_heartbeat'', JReal (round_tenth (now - ar_last_seen r))),
           (''pending_commands'', JInt (int (length (ar_commands r)))), (''draining'', JBool (ar_draining r))]"

definition list_public :: "registry \<Rightarrow> rat \<Rightarrow> json list" where
  "list_public rg now = map (\<lambda>(_, r). to_public now r) (re_agents rg)"

section \<open>Well-formed registries\<close>

definition agent_ok :: "placement \<Rightarrow> agent_record \<Rightarrow> bool" where
  "agent_ok pc r \<longleftrightarrow>
     validate_agent_version pc (ar_agent_id r) (ar_version r) = Inr ()
     \<and> in_pool (pool_for_identity pc (ar_agent_id r)) r = r
     \<and> sort (remdups (ar_capabilities r)) = ar_capabilities r"

definition registry_ok :: "registry \<Rightarrow> bool" where
  "registry_ok rg \<longleftrightarrow>
     distinct (keys_of (re_agents rg)) \<and> (\<forall>(i, r)\<in>set (re_agents rg). ar_agent_id r = i \<and> agent_ok (re_placement rg) r)"

text \<open>What a snapshot keeps of an agent: all fields, the two times as ages.\<close>

definition aged :: "rat \<Rightarrow> rat \<Rightarrow> agent_record \<Rightarrow> agent_record" where
  "aged now' now r =
     r\<lparr>ar_registered_at := now' - of_int (age_ms now (ar_registered_at r)) / 1000,
       ar_last_seen := now' - of_int (age_ms now (ar_last_seen r)) / 1000,
       ar_commands := map canonical_command (ar_commands r)\<rparr>"

definition durable_view :: "agent_record \<Rightarrow> agent_record" where
  "durable_view r =
     r\<lparr>ar_registered_at := 0, ar_last_seen := 0, ar_commands := map canonical_command (ar_commands r)\<rparr>"

definition fleet :: "registry \<Rightarrow> string \<Rightarrow> agent_record option" where
  "fleet rg i = map_option durable_view (map_of (re_agents rg) i)"

lemma age_ms_nonneg [simp]: "0 \<le> age_ms now t" "max 0 (age_ms now t) = age_ms now t"
  by (simp_all add: age_ms_def)

lemma rat_trunc_close: "0 \<le> x \<Longrightarrow> of_int (rat_trunc x) \<le> x \<and> x < of_int (rat_trunc x) + 1"
  by (auto simp: rat_trunc_def) linarith

text \<open>An age is exact to a millisecond, and never overstated.\<close>

lemma age_ms_close:
  assumes "t \<le> now"
  shows "of_int (age_ms now t) / 1000 \<le> now - t" and "now - t < of_int (age_ms now t) / 1000 + 1 / 1000"
proof -
  have "0 \<le> (now - t) * 1000" using assms by simp
  then have "0 \<le> rat_trunc ((now - t) * 1000)" by (simp add: rat_trunc_def)
  then have "age_ms now t = rat_trunc ((now - t) * 1000)" by (simp add: age_ms_def)
  then have "of_int (age_ms now t) \<le> (now - t) * 1000 \<and> (now - t) * 1000 < of_int (age_ms now t) + 1"
    using rat_trunc_close \<open>0 \<le> (now - t) * 1000\<close> by simp
  then show "of_int (age_ms now t) / 1000 \<le> now - t" and "now - t < of_int (age_ms now t) / 1000 + 1 / 1000"
    by (simp_all add: field_simps)
qed

lemma aged_simps [simp]:
  "ar_agent_id (aged now' now r) = ar_agent_id r" "ar_version (aged now' now r) = ar_version r"
  "ar_capabilities (aged now' now r) = ar_capabilities r" "ar_lease_id (aged now' now r) = ar_lease_id r"
  by (simp_all add: aged_def)

lemma durable_view_aged [simp]: "durable_view (aged now' now r) = durable_view r"
  by (simp add: durable_view_def aged_def)

lemma in_pool_aged: "in_pool p (aged now' now r) = aged now' now (in_pool p r)"
  by (simp add: in_pool_def aged_def)

lemma agent_ok_aged [simp]: "agent_ok pc r \<Longrightarrow> agent_ok pc (aged now' now r)"
  by (simp add: agent_ok_def in_pool_aged)

lemma registry_okD:
  assumes "registry_ok rg" and "map_of (re_agents rg) i = Some r"
  shows "ar_agent_id r = i" and "agent_ok (re_placement rg) r"
  using assms map_of_SomeD [OF assms(2)] by (auto simp: registry_ok_def)

section \<open>Restoring a snapshot\<close>

lemma str_items_array [simp]: "str_items pt d k = Inr ss" if "map_of d k = Some (text_array ss)"
  using that by (simp add: str_items_def json_get_def text_array_def comp_def)

lemma epochs_or_empty [simp]: "int_items (or_empty (int_object d)) = Inr d"
proof (cases d)
  case Nil
  then show ?thesis using int_items_object [of "[]"] by (simp add: or_empty_def int_object_def)
next
  case (Cons a as)
  then have "truth (int_object d)" by (simp add: int_object_def)
  then show ?thesis by (simp add: or_empty_def)
qed

lemma health_or_empty [simp]: "or_empty (health_to_dict h) = health_to_dict h"
  by (simp add: or_empty_def health_to_dict_def)

lemma commands_roundtrip [simp]:
  "straverse (command_from_dict pt) (map command_to_dict cs) = Inr (map canonical_command cs)"
  by (rule straverse_map) simp

lemma agent_items_lookup:
  "map_of (agent_items now r) ''agent_id'' = Some (JStr (ar_agent_id r))"
  "map_of (agent_items now r) ''lease_id'' = Some (JStr (ar_lease_id r))"
  "map_of (agent_items now r) ''host'' = Some (JStr (ar_host r))"
  "map_of (agent_items now r) ''port'' = Some (JInt (ar_port r))"
  "map_of (agent_items now r) ''os'' = Some (JStr (ar_os r))"
  "map_of (agent_items now r) ''version'' = Some (JStr (ar_version r))"
  "map_of (agent_items now r) ''capacity_hint'' = Some (JInt (ar_capacity_hint r))"
  "map_of (agent_items now r) ''registered_age_ms'' = Some (JInt (age_ms now (ar_registered_at r)))"
  "map_of (agent_items now r) ''last_seen_age_ms'' = Some (JInt (age_ms now (ar_last_seen r)))"
  "map_of (agent_items now r) ''advertise_host'' = Some (JStr (ar_advertise_host r))"
  "map_of (agent_items now r) ''health'' = Some (health_to_dict (ar_health r))"
  "map_of (agent_items now r) ''serving_tables'' = Some (text_array (ar_serving_tables r))"
  "map_of (agent_items now r) ''epochs'' = Some (int_object (ar_epochs r))"
  "map_of (agent_items now r) ''capabilities'' = Some (text_array (ar_capabilities r))"
  "map_of (agent_items now r) ''shard_index'' = Some (JInt (ar_shard_index r))"
  "map_of (agent_items now r) ''contract_version'' = Some (JStr (ar_contract_version r))"
  "map_of (agent_items now r) ''commands'' = Some (JList (map command_to_dict (ar_commands r)))"
  "map_of (agent_items now r) ''draining'' = Some (JBool (ar_draining r))"
  by (simp_all add: agent_items_def)

lemma agent_roundtrip:
  assumes "agent_ok pc r"
  shows "restore_agent pt now' pc (JObj (agent_items now r)) acc = Inr (AList.update (ar_agent_id r) (aged now' now r) acc)"
proof -
  have "\<exists>x. agent_from_items pt now' (agent_items now r) (ar_agent_id r) = Inr x
      \<and> in_pool (pool_for_identity pc (ar_agent_id r)) x = in_pool (pool_for_identity pc (ar_agent_id r)) (aged now' now r)"
    using assms
    by (simp add: agent_from_items_def agent_items_lookup readers in_pool_def aged_def agent_ok_def)
  moreover have "in_pool (pool_for_identity pc (ar_agent_id r)) (aged now' now r) = aged now' now r"
    using assms by (simp add: agent_ok_def in_pool_aged)
  ultimately show ?thesis
    using assms by (auto simp: restore_agent_def agent_ok_def agent_items_lookup readers)
qed

lemma restore_agents:
  assumes "\<forall>r\<in>set rs. agent_ok pc r" and "distinct (map ar_agent_id rs)"
    and "set (keys_of acc) \<inter> ar_agent_id ` set rs = {}"
  shows "sfold (restore_agent pt now' pc) (map (\<lambda>r. JObj (agent_items now r)) rs) acc
    = Inr (acc @ map (\<lambda>r. (ar_agent_id r, aged now' now r)) rs)"
  using assms
proof (induction rs arbitrary: acc)
  case (Cons r rs)
  have "ar_agent_id r \<notin> set (keys_of acc)" using Cons.prems by auto
  then have "restore_agent pt now' pc (JObj (agent_items now r)) acc = Inr (acc @ [(ar_agent_id r, aged now' now r)])"
    using Cons.prems by (simp add: agent_roundtrip update_fresh)
  then show ?case using Cons.prems Cons.IH [of "acc @ [(ar_agent_id r, aged now' now r)]"] by auto
qed simp

lemma map_of_by_id:
  assumes "distinct (map f rs)"
  shows "map_of (map (\<lambda>r. (f r, g r)) rs) i = Some y \<longleftrightarrow> (\<exists>r\<in>set rs. f r = i \<and> g r = y)"
proof -
  have "distinct (keys_of (map (\<lambda>r. (f r, g r)) rs))" using assms by (simp add: comp_def)
  then show ?thesis by (auto simp: map_of_eq_Some_iff)
qed

lemma distinct_sorted_ids: "distinct (map f (sort_key f xs)) \<longleftrightarrow> distinct (map f xs)"
  by (simp add: distinct_map)

lemma restore_snapshot:
  assumes "registry_ok rg" and "re_placement rg' = re_placement rg"
  obtains agents where "restore pt now' (snapshot now rg) rg' = Inr (rg'\<lparr>re_agents := agents\<rparr>)"
    and "\<And>i. map_of agents i = map_option (aged now' now) (map_of (re_agents rg) i)"
    and "registry_ok (rg'\<lparr>re_agents := agents\<rparr>)"
proof -
  let ?rs = "sort_key ar_agent_id (map snd (re_agents rg))"
  have ids: "map ar_agent_id (map snd (re_agents rg)) = keys_of (re_agents rg)"
    using assms(1) by (auto simp: registry_ok_def)
  have "distinct (map ar_agent_id (map snd (re_agents rg)))" using assms(1) unfolding ids by (simp add: registry_ok_def)
  then have dist: "distinct (map ar_agent_id ?rs)" unfolding distinct_sorted_ids .
  have ok: "\<forall>r\<in>set ?rs. agent_ok (re_placement rg) r" using assms(1) by (auto simp: registry_ok_def)
  have keyed: "(j, r) \<in> set (re_agents rg) \<Longrightarrow> ar_agent_id r = j" for j r using assms(1) by (auto simp: registry_ok_def)
  have dk: "distinct (keys_of (re_agents rg))" using assms(1) by (simp add: registry_ok_def)
  let ?agents = "map (\<lambda>r. (ar_agent_id r, aged now' now r)) ?rs"
  have "restore pt now' (snapshot now rg) rg' = Inr (rg'\<lparr>re_agents := ?agents\<rparr>)"
    using restore_agents [OF ok dist, of "[]" pt now' now] assms(2)
    by (simp add: restore_def snapshot_def json_get_def is_one_def)
  moreover have "map_of ?agents i = map_option (aged now' now) (map_of (re_agents rg) i)" for i
  proof -
    have "map_of ?agents i = Some y \<longleftrightarrow> (\<exists>r. map_of (re_agents rg) i = Some r \<and> aged now' now r = y)" for y
    proof -
      have "map_of ?agents i = Some y \<longleftrightarrow> (\<exists>r\<in>set (map snd (re_agents rg)). ar_agent_id r = i \<and> aged now' now r = y)"
        using map_of_by_id [OF dist, of "aged now' now" i y] by simp
      also have "\<dots> \<longleftrightarrow> (\<exists>r. (i, r) \<in> set (re_agents rg) \<and> aged now' now r = y)"
        using keyed by force
      also have "\<dots> \<longleftrightarrow> (\<exists>r. map_of (re_agents rg) i = Some r \<and> aged now' now r = y)"
        using dk by (simp only: map_of_eq_Some_iff)
      finally show ?thesis .
    qed
    then show ?thesis by (cases "map_of (re_agents rg) i"; cases "map_of ?agents i") auto
  qed
  moreover have "registry_ok (rg'\<lparr>re_agents := ?agents\<rparr>)"
    using dist ok by (simp add: registry_ok_def assms(2) comp_def)
  ultimately show ?thesis by (rule that)
qed

section \<open>Operations on the fleet\<close>

lemma fleet_lookup: "fleet rg i = None \<longleftrightarrow> map_of (re_agents rg) i = None"
  by (simp add: fleet_def)

lemma save_registry [simp]: "ct_registry (snd (save k c)) = ct_registry c"
  by (simp add: save_def split: prod.splits)

text \<open>An operation either commits the new agents and answers, or fails and leaves the fleet as it was.\<close>

lemma commit_agents_cases [consumes 2, case_names committed failed]:
  assumes "commit_agents pt k agents reply c = (res, c')" and "registry_ok (ct_registry c)"
  obtains (committed) "res = Inr reply" "ct_registry c' = (ct_registry c)\<lparr>re_agents := agents\<rparr>"
      "re_durable (ct_registry c) \<Longrightarrow> \<exists>f. save k (with_agents c agents) = (Inr f, c')"
  | (failed) e rg where "res = Inl (Durable_State e)" "ct_registry c' = (ct_registry c)\<lparr>re_agents := rg\<rparr>"
      "registry_ok (ct_registry c')" "fleet (ct_registry c') = fleet (ct_registry c)"
proof (cases "re_durable (ct_registry c)")
  case False
  then show ?thesis using assms(1) committed by (auto simp: commit_agents_def persist_def with_agents_def)
next
  case True
  obtain sres c1 where save: "save k (with_agents c agents) = (sres, c1)" by (cases "save k (with_agents c agents)")
  have c1: "ct_registry c1 = (ct_registry c)\<lparr>re_agents := agents\<rparr>"
    using save_registry [of k "with_agents c agents"] unfolding save by (simp add: with_agents_def)
  have durable: "re_durable (ct_registry (with_agents c agents))" using True by (simp add: with_agents_def)
  show ?thesis
  proof (cases sres)
    case (Inr f)
    then have "(res, c') = (Inr reply, c1)" using assms(1) durable save by (simp add: commit_agents_def persist_def)
    then show ?thesis using committed c1 save Inr by auto
  next
    case (Inl e)
    obtain ags where ags: "restore pt (ca_now k) (snapshot (ca_now k) (ct_registry c)) (ct_registry c1)
        = Inr ((ct_registry c1)\<lparr>re_agents := ags\<rparr>)"
      and lookup: "\<And>i. map_of ags i = map_option (aged (ca_now k) (ca_now k)) (map_of (re_agents (ct_registry c)) i)"
      and ok: "registry_ok ((ct_registry c1)\<lparr>re_agents := ags\<rparr>)"
      using restore_snapshot [OF assms(2), of "ct_registry c1" pt "ca_now k" "ca_now k"] c1 by auto
    have "(res, c') = (Inl (Durable_State e), c1\<lparr>ct_registry := (ct_registry c1)\<lparr>re_agents := ags\<rparr>\<rparr>)"
      using assms(1) durable save ags Inl by (simp add: commit_agents_def persist_def)
    moreover have "fleet ((ct_registry c1)\<lparr>re_agents := ags\<rparr>) = fleet (ct_registry c)"
      by (rule ext) (simp add: fleet_def lookup option.map_comp comp_def)
    ultimately show ?thesis using failed [of e ags] ok c1 by simp
  qed
qed

datatype reg_op =
    Register string register_request
  | Heartbeat heartbeat_request
  | Queue_Command string control_command
  | Broadcast control_command
  | Remove_Agent string

datatype reg_reply =
    Registered register_response
  | Commands "control_command list"
  | Queued bool
  | Broadcast_To nat
  | Removed bool

fun reply_with :: "('a \<Rightarrow> reg_reply) \<Rightarrow> (registry_error + 'a) \<times> 'x control \<Rightarrow> (registry_error + reg_reply) \<times> 'x control" where
  "reply_with f (Inl e, c) = (Inl e, c)"
| "reply_with f (Inr x, c) = (Inr (f x), c)"

fun run_reg ::
  "py_text \<Rightarrow> (string \<Rightarrow> string \<Rightarrow> bool) \<Rightarrow> 'x call \<times> reg_op \<Rightarrow> 'x control \<Rightarrow> (registry_error + reg_reply) \<times> 'x control" where
  "run_reg pt net (k, Register lease q) c = reply_with Registered (register pt net k lease q c)"
| "run_reg pt net (k, Heartbeat h) c = reply_with Commands (heartbeat pt k h c)"
| "run_reg pt net (k, Queue_Command i cmd) c = reply_with Queued (queue_command pt k i cmd c)"
| "run_reg pt net (k, Broadcast cmd) c = reply_with Broadcast_To (broadcast pt k cmd c)"
| "run_reg pt net (k, Remove_Agent i) c = reply_with Removed (remove_agent pt k i c)"

fun run_regs ::
  "py_text \<Rightarrow> (string \<Rightarrow> string \<Rightarrow> bool) \<Rightarrow> ('x call \<times> reg_op) list \<Rightarrow> 'x control
     \<Rightarrow> (registry_error + reg_reply) list \<times> 'x control" where
  "run_regs pt net [] c = ([], c)"
| "run_regs pt net (op # ops) c =
     (case run_reg pt net op c of (res, c1) \<Rightarrow> case run_regs pt net ops c1 of (rs, c2) \<Rightarrow> (res # rs, c2))"

text \<open>The agents an operation commits, and its answer, when it is carried out.\<close>

inductive carries_out :: "'x call \<Rightarrow> reg_op \<Rightarrow> registry \<Rightarrow> (string, agent_record) dict \<Rightarrow> reg_reply \<Rightarrow> bool" where
  Registers: "validate_agent_version (re_placement rg) (rg_agent_id q) (rg_version q) = Inr ()
    \<Longrightarrow> p = pool_for_identity (re_placement rg) (rg_agent_id q) \<Longrightarrow>
    carries_out k (Register lease q) rg (AList.update (rg_agent_id q) (new_agent (ca_now k) lease p q) (re_agents rg))
      (Registered \<lparr>rp_lease_id = lease, rp_heartbeat_ms = heartbeat_interval rg p, rp_contract_version = CONTRACT_VERSION\<rparr>)"
| Beats: "map_of (re_agents rg) (hb_agent_id h) = Some r \<Longrightarrow> ar_lease_id r = hb_lease_id h \<Longrightarrow>
    carries_out k (Heartbeat h) rg (AList.update (hb_agent_id h) (seen_agent (ca_now k) h r) (re_agents rg)) (Commands (ar_commands r))"
| Queues: "map_of (re_agents rg) i = Some r \<Longrightarrow>
    carries_out k (Queue_Command i cmd) rg (AList.update i (with_command cmd r) (re_agents rg)) (Queued True)"
| Broadcasts:
    "carries_out k (Broadcast cmd) rg (map (\<lambda>(i, r). (i, with_command cmd r)) (re_agents rg)) (Broadcast_To (length (re_agents rg)))"
| Removes: "i \<in> set (keys_of (re_agents rg)) \<Longrightarrow>
    carries_out k (Remove_Agent i) rg (AList.delete i (re_agents rg)) (Removed True)"

text \<open>Every call is refused or has no effect, or is carried out in a single commit.\<close>

lemma run_reg_cases [case_names refused absent commit]:
  obtains (refused) e where "run_reg pt net (k, op) c = (Inl e, c)"
  | (absent) i where "op = Remove_Agent i \<or> (\<exists>cmd. op = Queue_Command i cmd)" "map_of (re_agents (ct_registry c)) i = None"
      "run_reg pt net (k, op) c = (Inr (if op = Remove_Agent i then Removed False else Queued False), c)"
  | (commit) agents reply where "carries_out k op (ct_registry c) agents reply"
      "run_reg pt net (k, op) c = commit_agents pt k agents reply c"
proof (cases op)
  case (Register lease q)
  show ?thesis
  proof (cases "check_registration net (ct_registry c) q")
    case (Inl e)
    then show ?thesis using refused Register by (simp add: register_def Let_def)
  next
    case (Inr u)
    then have "validate_agent_version (re_placement (ct_registry c)) (rg_agent_id q) (rg_version q) = Inr ()"
      by (auto simp: check_registration_def Let_def split: if_splits sum.splits)
    from carries_out.Registers [OF this refl, of k lease, folded Register] show ?thesis
      by (rule commit) (simp add: Register register_def Let_def Inr commit_agents_def split: prod.splits sum.splits)
  qed
next
  case (Heartbeat h)
  show ?thesis
  proof (cases "\<exists>r. map_of (re_agents (ct_registry c)) (hb_agent_id h) = Some r \<and> ar_lease_id r = hb_lease_id h")
    case True
    then obtain r where r: "map_of (re_agents (ct_registry c)) (hb_agent_id h) = Some r" "ar_lease_id r = hb_lease_id h" by blast
    from carries_out.Beats [OF r, of k, folded Heartbeat] show ?thesis
      by (rule commit) (simp add: Heartbeat heartbeat_def r commit_agents_def split: prod.splits sum.splits)
  next
    case False
    then have "run_reg pt net (k, op) c = (Inl Stale_Agent_Lease, c)" by (auto simp: Heartbeat heartbeat_def split: option.splits)
    then show ?thesis by (rule refused)
  qed
next
  case (Queue_Command i cmd)
  show ?thesis
  proof (cases "map_of (re_agents (ct_registry c)) i")
    case None
    then show ?thesis using absent [of i] Queue_Command by (simp add: queue_command_def)
  next
    case (Some r)
    from carries_out.Queues [OF Some, of k cmd, folded Queue_Command] show ?thesis
      by (rule commit) (simp add: Queue_Command queue_command_def Some commit_agents_def split: prod.splits sum.splits)
  qed
next
  case (Broadcast cmd)
  from carries_out.Broadcasts [of k cmd "ct_registry c", folded Broadcast] show ?thesis
    by (rule commit) (simp add: Broadcast broadcast_def Let_def commit_agents_def split: prod.splits sum.splits)
next
  case (Remove_Agent i)
  show ?thesis
  proof (cases "i \<in> set (keys_of (re_agents (ct_registry c)))")
    case False
    then show ?thesis using absent [of i] Remove_Agent by (simp add: remove_agent_def map_of_eq_None_keys)
  next
    case True
    from carries_out.Removes [OF True, of k, folded Remove_Agent] show ?thesis
      by (rule commit) (use True in \<open>simp add: Remove_Agent remove_agent_def commit_agents_def split: prod.splits sum.splits\<close>)
  qed
qed

lemma registry_ok_lookup:
  "registry_ok rg \<longleftrightarrow> distinct (keys_of (re_agents rg))
     \<and> (\<forall>i r. map_of (re_agents rg) i = Some r \<longrightarrow> ar_agent_id r = i \<and> agent_ok (re_placement rg) r)"
  unfolding registry_ok_def by (rule conj_cong [OF refl]) (simp add: map_of_eq_Some_iff split_beta' Ball_def split_paired_All)

lemma in_pool_twice [simp]: "in_pool p (in_pool p' r) = in_pool p r"
  by (simp add: in_pool_def)

lemma in_pool_fields [simp]:
  "ar_agent_id (in_pool p r) = ar_agent_id r" "ar_version (in_pool p r) = ar_version r"
  "ar_capabilities (in_pool p r) = ar_capabilities r" "ar_lease_id (in_pool p r) = ar_lease_id r"
  "ar_commands (in_pool p r) = ar_commands r"
  by (simp_all add: in_pool_def)

lemma new_agent_ok:
  assumes "validate_agent_version pc (rg_agent_id q) (rg_version q) = Inr ()"
  shows "agent_ok pc (new_agent now lease (pool_for_identity pc (rg_agent_id q)) q)"
  using assms by (simp add: agent_ok_def new_agent_def distinct_remdups_id sorted_sort_id)

lemma in_pool_commutes:
  "in_pool p (seen_agent now h r) = seen_agent now h (in_pool p r)"
  "in_pool p (with_command cmd r) = with_command cmd (in_pool p r)"
  by (simp_all add: in_pool_def seen_agent_def with_command_def)

lemma seen_agent_ok: "agent_ok pc r \<Longrightarrow> agent_ok pc (seen_agent now h r)"
  unfolding agent_ok_def by (simp add: in_pool_commutes) (simp add: seen_agent_def)

lemma with_command_ok: "agent_ok pc r \<Longrightarrow> agent_ok pc (with_command cmd r)"
  unfolding agent_ok_def by (simp add: in_pool_commutes) (simp add: with_command_def)

lemma agent_id_simps [simp]:
  "ar_agent_id (new_agent now lease p q) = rg_agent_id q" "ar_agent_id (seen_agent now h r) = ar_agent_id r"
  "ar_agent_id (with_command cmd r) = ar_agent_id r"
  by (simp_all add: new_agent_def seen_agent_def with_command_def)

lemma carries_out_ok:
  assumes "carries_out k op rg agents reply" and "registry_ok rg"
  shows "registry_ok (rg\<lparr>re_agents := agents\<rparr>)"
proof -
  have keys: "distinct (keys_of (re_agents rg))" using assms(2) by (simp add: registry_ok_def)
  have ok: "map_of (re_agents rg) i = Some r \<Longrightarrow> ar_agent_id r = i \<and> agent_ok (re_placement rg) r" for i r
    using registry_okD [OF assms(2)] by blast
  show ?thesis using assms(1)
  proof cases
    case (Registers q p lease)
    then show ?thesis using ok keys new_agent_ok by (auto simp: registry_ok_lookup distinct_update)
  next
    case (Beats h r)
    then show ?thesis using ok keys seen_agent_ok by (auto simp: registry_ok_lookup distinct_update)
  next
    case (Queues i r cmd)
    then show ?thesis using ok keys with_command_ok by (auto simp: registry_ok_lookup distinct_update)
  next
    case (Broadcasts cmd)
    then show ?thesis using ok keys with_command_ok by (auto simp: registry_ok_lookup map_of_map_values keys_map_values)
  next
    case (Removes i)
    then show ?thesis using ok keys by (auto simp: registry_ok_lookup)
  qed
qed

section \<open>Mailboxes\<close>

text \<open>The abstract view of the registry: for each agent its lease and the commands it has not fetched yet.\<close>

type_synonym mailboxes = "string \<Rightarrow> (string \<times> control_command list) option"

definition boxes :: "registry \<Rightarrow> mailboxes" where
  "boxes rg i = map_option (\<lambda>r. (ar_lease_id r, ar_commands r)) (fleet rg i)"

inductive mail_step :: "reg_op \<Rightarrow> reg_reply \<Rightarrow> mailboxes \<Rightarrow> mailboxes \<Rightarrow> bool" where
  Issue: "rp_lease_id resp = lease \<Longrightarrow> mail_step (Register lease q) (Registered resp) m (m(rg_agent_id q \<mapsto> (lease, [])))"
| Collect: "m (hb_agent_id h) = Some (hb_lease_id h, map canonical_command cs) \<Longrightarrow>
    mail_step (Heartbeat h) (Commands cs) m (m(hb_agent_id h \<mapsto> (hb_lease_id h, [])))"
| Post: "m i = Some (l, cs) \<Longrightarrow> mail_step (Queue_Command i cmd) (Queued True) m (m(i \<mapsto> (l, cs @ [canonical_command cmd])))"
| No_Box: "m i = None \<Longrightarrow> mail_step (Queue_Command i cmd) (Queued False) m m"
| Post_All: "n = card (dom m) \<Longrightarrow> mail_step (Broadcast cmd) (Broadcast_To n) m
    (\<lambda>i. map_option (\<lambda>(l, cs). (l, cs @ [canonical_command cmd])) (m i))"
| Discard: "m i \<noteq> None \<Longrightarrow> mail_step (Remove_Agent i) (Removed True) m (m(i := None))"
| No_Agent: "m i = None \<Longrightarrow> mail_step (Remove_Agent i) (Removed False) m m"

inductive mail_run :: "(reg_op \<times> (registry_error + reg_reply)) list \<Rightarrow> mailboxes \<Rightarrow> mailboxes \<Rightarrow> bool" where
  Idle: "mail_run [] m m"
| Failed: "mail_run rs m m' \<Longrightarrow> mail_run ((op, Inl e) # rs) m m'"
| Answered: "mail_step op reply m m1 \<Longrightarrow> mail_run rs m1 m' \<Longrightarrow> mail_run ((op, Inr reply) # rs) m m'"

inductive_cases mail_runE: "mail_run (x # rs) m m'"
inductive_cases mail_run_NilE: "mail_run [] m m'"

lemma boxes_lookup:
  "boxes rg i = map_option (\<lambda>r. (ar_lease_id r, map canonical_command (ar_commands r))) (map_of (re_agents rg) i)"
  by (simp add: boxes_def fleet_def option.map_comp comp_def durable_view_def)

lemma boxes_agents [simp]: "boxes (rg\<lparr>re_agents := re_agents rg\<rparr>) = boxes rg"
  by simp

lemma dom_boxes: "dom (boxes rg) = set (keys_of (re_agents rg))"
  by (auto simp: dom_def boxes_lookup map_of_eq_None_iff [of "re_agents rg"] image_iff dest: map_of_SomeD)

lemma carries_out_step:
  assumes "carries_out k op rg agents reply" and "registry_ok rg"
  shows "mail_step op reply (boxes rg) (boxes (rg\<lparr>re_agents := agents\<rparr>))"
  using assms(1)
proof cases
  case (Registers q p lease)
  have "boxes (rg\<lparr>re_agents := agents\<rparr>) = (boxes rg)(rg_agent_id q \<mapsto> (lease, []))"
    by (rule ext) (simp add: boxes_lookup Registers new_agent_def)
  then show ?thesis using Registers(1,3) by (auto intro: mail_step.Issue)
next
  case (Beats h r)
  have "boxes (rg\<lparr>re_agents := agents\<rparr>) = (boxes rg)(hb_agent_id h \<mapsto> (hb_lease_id h, []))"
    by (rule ext) (simp add: boxes_lookup Beats seen_agent_def)
  then show ?thesis using Beats by (auto intro!: mail_step.Collect simp: boxes_lookup)
next
  case (Queues i r cmd)
  have box: "boxes rg i = Some (ar_lease_id r, map canonical_command (ar_commands r))" by (simp add: boxes_lookup Queues)
  have "boxes (rg\<lparr>re_agents := agents\<rparr>)
      = (boxes rg)(i \<mapsto> (ar_lease_id r, map canonical_command (ar_commands r) @ [canonical_command cmd]))"
    by (rule ext) (simp add: boxes_lookup Queues with_command_def)
  then show ?thesis using mail_step.Post [of "boxes rg", OF box] Queues(1,3) by simp
next
  case (Broadcasts cmd)
  have "boxes (rg\<lparr>re_agents := agents\<rparr>) = (\<lambda>i. map_option (\<lambda>(l, cs). (l, cs @ [canonical_command cmd])) (boxes rg i))"
    by (rule ext) (simp add: boxes_lookup Broadcasts map_of_map_values option.map_comp comp_def with_command_def)
  moreover have "length (re_agents rg) = card (dom (boxes rg))"
    using assms(2) unfolding dom_boxes by (simp only: registry_ok_def distinct_card length_map)
  ultimately show ?thesis using mail_step.Post_All [of _ "boxes rg"] Broadcasts(1,3) by simp
next
  case (Removes i)
  have "boxes (rg\<lparr>re_agents := agents\<rparr>) = (boxes rg)(i := None)"
    by (rule ext) (simp add: boxes_lookup Removes)
  moreover have "boxes rg i \<noteq> None" using Removes(4) dom_boxes [of rg] by blast
  ultimately show ?thesis using mail_step.Discard [of "boxes rg"] Removes(1,3) by simp
qed

text \<open>One call refines one step of the mailboxes, or none when it fails.\<close>

lemma run_reg_refines:
  assumes "registry_ok (ct_registry c)" and "run_reg pt net (k, op) c = (res, c')"
  shows "registry_ok (ct_registry c')"
    and "case res of Inl _ \<Rightarrow> fleet (ct_registry c') = fleet (ct_registry c)
         | Inr reply \<Rightarrow> mail_step op reply (boxes (ct_registry c)) (boxes (ct_registry c'))"
proof -
  have "registry_ok (ct_registry c') \<and> (case res of Inl _ \<Rightarrow> fleet (ct_registry c') = fleet (ct_registry c)
         | Inr reply \<Rightarrow> mail_step op reply (boxes (ct_registry c)) (boxes (ct_registry c')))"
  proof (cases rule: run_reg_cases [of pt net k op c])
    case (refused e)
    then show ?thesis using assms by auto
  next
    case (absent i)
    have "boxes (ct_registry c) i = None" using absent(2) by (simp add: boxes_lookup)
    then show ?thesis
      using assms absent mail_step.No_Agent [of "boxes (ct_registry c)" i] mail_step.No_Box [of "boxes (ct_registry c)" i] by auto
  next
    case (commit agents reply)
    have run: "commit_agents pt k agents reply c = (res, c')" using assms(2) commit(2) by simp
    from run assms(1) show ?thesis
    proof (cases rule: commit_agents_cases)
      case committed
      then show ?thesis using carries_out_ok [OF commit(1) assms(1)] carries_out_step [OF commit(1) assms(1)] by simp
    next
      case (failed e rg)
      then show ?thesis by simp
    qed
  qed
  then show "registry_ok (ct_registry c')"
    and "case res of Inl _ \<Rightarrow> fleet (ct_registry c') = fleet (ct_registry c)
         | Inr reply \<Rightarrow> mail_step op reply (boxes (ct_registry c)) (boxes (ct_registry c'))" by blast+
qed

lemma run_reg_placement:
  assumes "registry_ok (ct_registry c)" and "run_reg pt net (k, op) c = (res, c')"
  shows "re_placement (ct_registry c') = re_placement (ct_registry c)"
proof (cases rule: run_reg_cases [of pt net k op c])
  case (commit agents reply)
  have "commit_agents pt k agents reply c = (res, c')" using assms(2) commit(2) by simp
  from this assms(1) show ?thesis by (cases rule: commit_agents_cases) simp_all
qed (use assms in auto)

lemma run_regs_refine:
  assumes "registry_ok (ct_registry c)" and "run_regs pt net ops c = (rs, c')"
  shows "registry_ok (ct_registry c') \<and> length rs = length ops
    \<and> mail_run (zip (map snd ops) rs) (boxes (ct_registry c)) (boxes (ct_registry c'))"
  using assms
proof (induction ops arbitrary: c rs)
  case Nil
  then show ?case by (auto intro: mail_run.Idle)
next
  case (Cons op ops)
  obtain k o' where op: "op = (k, o')" by (cases op)
  obtain res c1 where run: "run_reg pt net (k, o') c = (res, c1)" by (cases "run_reg pt net (k, o') c")
  obtain rs' where rest: "run_regs pt net ops c1 = (rs', c')" and rs: "rs = res # rs'"
    using Cons.prems(2) run op by (auto split: prod.splits)
  note step = run_reg_refines [OF Cons.prems(1) run]
  note IH = Cons.IH [OF step(1) rest]
  show ?case
  proof (cases res)
    case (Inl e)
    then have "boxes (ct_registry c1) = boxes (ct_registry c)" using step(2) by (auto simp: boxes_def)
    then show ?thesis using IH Inl rs op by (auto intro: mail_run.Failed)
  next
    case (Inr reply)
    then show ?thesis using IH step(2) rs op by (auto intro: mail_run.Answered)
  qed
qed

fun posted :: "string \<Rightarrow> reg_op \<times> (registry_error + reg_reply) \<Rightarrow> control_command list" where
  "posted i (Queue_Command j cmd, Inr (Queued True)) = (if j = i then [canonical_command cmd] else [])"
| "posted i (Broadcast cmd, Inr reply) = [canonical_command cmd]"
| "posted i _ = []"

fun collected :: "string \<Rightarrow> reg_op \<times> (registry_error + reg_reply) \<Rightarrow> control_command list" where
  "collected i (Heartbeat h, Inr (Commands cs)) = (if hb_agent_id h = i then map canonical_command cs else [])"
| "collected i _ = []"

fun reissues :: "string \<Rightarrow> reg_op \<Rightarrow> bool" where
  "reissues i (Register lease q) \<longleftrightarrow> rg_agent_id q = i"
| "reissues i (Remove_Agent j) \<longleftrightarrow> j = i"
| "reissues i _ \<longleftrightarrow> False"

fun grants :: "string \<Rightarrow> string \<Rightarrow> reg_op \<Rightarrow> bool" where
  "grants i lease (Register l q) \<longleftrightarrow> rg_agent_id q = i \<and> l = lease"
| "grants i lease _ \<longleftrightarrow> False"

lemma mail_step_channel:
  assumes "mail_step op reply m m'" and "\<not> reissues i op" and "m i = Some (l, cs)"
  shows "\<exists>cs'. m' i = Some (l, cs') \<and> cs @ posted i (op, Inr reply) = collected i (op, Inr reply) @ cs'"
  using assms by (cases rule: mail_step.cases) (auto split: if_splits)

lemma mail_run_channel:
  assumes "mail_run rs m m'" and "\<forall>(op, _)\<in>set rs. \<not> reissues i op" and "m i = Some (l, cs)"
  shows "\<exists>cs'. m' i = Some (l, cs') \<and> cs @ concat (map (posted i) rs) = concat (map (collected i) rs) @ cs'"
  using assms
proof (induction arbitrary: cs)
  case (Failed rs m m' op e)
  have "posted i (op, Inl e) = []" "collected i (op, Inl e) = []" by (cases op; simp)+
  then show ?case using Failed by simp
next
  case (Answered op reply m m1 rs m')
  have "\<not> reissues i op" using Answered.prems(1) by simp
  from mail_step_channel [OF Answered.hyps(1) this Answered.prems(2)] obtain cs1
    where m1: "m1 i = Some (l, cs1)" and one: "cs @ posted i (op, Inr reply) = collected i (op, Inr reply) @ cs1" by blast
  have "\<forall>(op, _)\<in>set rs. \<not> reissues i op" using Answered.prems(1) by simp
  from Answered.IH [OF this m1] obtain cs' where m': "m' i = Some (l, cs')"
    and rest: "cs1 @ concat (map (posted i) rs) = concat (map (collected i) rs) @ cs'" by blast
  have "cs @ posted i (op, Inr reply) @ concat (map (posted i) rs) = collected i (op, Inr reply) @ concat (map (collected i) rs) @ cs'"
    using one rest by (metis append_assoc)
  then show ?case using m' by simp
qed simp

lemma mail_step_lease:
  assumes "mail_step op reply m m'" and "\<not> grants i lease op" and "\<forall>cs. m i \<noteq> Some (lease, cs)"
  shows "\<forall>cs. m' i \<noteq> Some (lease, cs)"
  using assms by (cases rule: mail_step.cases) (auto split: if_splits)

lemma mail_run_lease:
  assumes "mail_run rs m m'" and "\<forall>(op, _)\<in>set rs. \<not> grants i lease op" and "\<forall>cs. m i \<noteq> Some (lease, cs)"
  shows "\<forall>cs. m' i \<noteq> Some (lease, cs)"
  using assms
proof (induction)
  case (Answered op reply m m1 rs m')
  then show ?case using mail_step_lease [of op reply m m1 i lease] by simp
qed simp_all

lemma heartbeat_refused:
  assumes "\<forall>cs. boxes (ct_registry c) (hb_agent_id h) \<noteq> Some (hb_lease_id h, cs)"
  shows "heartbeat pt k h c = (Inl Stale_Agent_Lease, c)"
proof (cases "map_of (re_agents (ct_registry c)) (hb_agent_id h)")
  case (Some r)
  then have "ar_lease_id r \<noteq> hb_lease_id h" using assms by (simp add: boxes_lookup)
  then show ?thesis using Some by (simp add: heartbeat_def)
qed (simp add: heartbeat_def)

lemma register_box:
  assumes "registry_ok (ct_registry c)" and "register pt net k lease q c = (Inr resp, c')"
  shows "registry_ok (ct_registry c') \<and> boxes (ct_registry c') (rg_agent_id q) = Some (lease, []) \<and> rp_lease_id resp = lease"
proof -
  have run: "run_reg pt net (k, Register lease q) c = (Inr (Registered resp), c')" using assms(2) by simp
  note refines = run_reg_refines [OF assms(1) run]
  have "mail_step (Register lease q) (Registered resp) (boxes (ct_registry c)) (boxes (ct_registry c'))" using refines(2) by simp
  then show ?thesis using refines(1) by (cases rule: mail_step.cases) auto
qed

lemma zip_fst_set: "(op, x) \<in> set (zip (map snd ops) rs) \<Longrightarrow> op \<in> snd ` set ops"
  by (auto dest!: set_zip_leftD)

text \<open>
  C22: The registry refines a set of mailboxes. Abstractly, every agent has a lease and a mailbox of commands: registration opens an
  empty box under a fresh lease, a heartbeat under the current lease empties the box and returns its content, queueing and broadcasting
  append, removal closes the box. Any sequence of registry calls, with any failures of the durable store, leaves a well-formed
  registry and is a run of the mailboxes in which exactly the calls that failed have no effect.
\<close>

theorem registry_refines_mailboxes:
  assumes "registry_ok (ct_registry c)" and "run_regs pt net ops c = (rs, c')"
  shows "registry_ok (ct_registry c') \<and> mail_run (zip (map snd ops) rs) (boxes (ct_registry c)) (boxes (ct_registry c'))"
  using run_regs_refine [OF assms] by blast

text \<open>
  C23: Commands are delivered exactly once and in order. For a registered agent that is not registered again or removed meanwhile,
  the commands pending at first followed by those queued for it or broadcast (in calls that succeeded) are the commands that its
  heartbeats returned, in the same order, followed by those still pending; and its lease stays the same.
\<close>

theorem commands_delivered_in_order:
  assumes "registry_ok (ct_registry c)" and "run_regs pt net ops c = (rs, c')"
    and "\<forall>(k, op)\<in>set ops. \<not> reissues i op" and "boxes (ct_registry c) i = Some (lease, cs)"
  shows "\<exists>cs'. boxes (ct_registry c') i = Some (lease, cs')
    \<and> cs @ concat (map (posted i) (zip (map snd ops) rs)) = concat (map (collected i) (zip (map snd ops) rs)) @ cs'"
proof -
  have "\<forall>(op, _)\<in>set (zip (map snd ops) rs). \<not> reissues i op" using assms(3) zip_fst_set by fastforce
  then show ?thesis using mail_run_channel run_regs_refine [OF assms(1,2)] assms(4) by blast
qed

text \<open>
  C24: A superseded agent is locked out. Once an agent id has been registered under a new lease, a heartbeat of the old process,
  which presents another lease, is refused and changes nothing, whatever calls happened in between, as long as no registration
  of this agent was given the old lease again.
\<close>

theorem superseded_agent_refused:
  assumes "registry_ok (ct_registry c)" and "register pt net k lease q c = (Inr resp, c1)"
    and "run_regs pt net ops c1 = (rs, c2)" and "\<forall>(k, op)\<in>set ops. \<not> grants (rg_agent_id q) old op"
    and "old \<noteq> lease" and "hb_agent_id h = rg_agent_id q" and "hb_lease_id h = old"
  shows "heartbeat pt k2 h c2 = (Inl Stale_Agent_Lease, c2)"
proof -
  note reg = register_box [OF assms(1,2)]
  have "\<forall>(op, _)\<in>set (zip (map snd ops) rs). \<not> grants (rg_agent_id q) old op" using assms(4) zip_fst_set by fastforce
  moreover have "\<forall>cs. boxes (ct_registry c1) (rg_agent_id q) \<noteq> Some (old, cs)" using reg assms(5) by simp
  ultimately have "\<forall>cs. boxes (ct_registry c2) (rg_agent_id q) \<noteq> Some (old, cs)"
    using mail_run_lease run_regs_refine [of c1, OF _ assms(3)] reg by blast
  then show ?thesis using heartbeat_refused assms(6,7) by metis
qed

section \<open>Failover\<close>

lemma committed_is_durable:
  assumes "registry_ok (ct_registry c)" and "re_durable (ct_registry c)" and "run_reg pt net (k, op) c = (Inr reply, c')"
    and "reply \<noteq> Queued False" and "reply \<noteq> Removed False"
  obtains c0 f where "save k c0 = (Inr f, c')" "ct_registry c0 = ct_registry c'" "ct_store c0 = ct_store c"
proof (cases rule: run_reg_cases [of pt net k op c])
  case (refused e)
  then show ?thesis using assms(3) by simp
next
  case (absent i)
  then show ?thesis using assms(3-5) by (auto split: if_splits)
next
  case (commit agents reply')
  have "commit_agents pt k agents reply' c = (Inr reply, c')" using assms(3) commit(2) by simp
  from this assms(1) show ?thesis
  proof (cases rule: commit_agents_cases)
    case committed
    then obtain f where "save k (with_agents c agents) = (Inr f, c')" using assms(2) by blast
    then show ?thesis using that [of "with_agents c agents" f] committed(2) by (simp add: with_agents_def)
  next
    case (failed e rg)
    then show ?thesis by simp
  qed
qed

lemma attach_registry:
  assumes "read_state True ''registry'' (ct_store c) = Inr (Some j)"
    and "restore pt (ca_now k) j ((ct_registry c)\<lparr>re_durable := True\<rparr>) = Inr rg"
  shows "ct_registry (snd (attach_durable_state pt k True True c)) = rg"
proof -
  let ?c = "c\<lparr>ct_registry := rg\<rparr>"
  have "ct_registry c1 = rg" if "save k ?c = (res, c1)" for res c1 using save_registry [of k ?c] unfolding that by simp
  then show ?thesis using assms
    by (auto simp: attach_durable_state_def Let_def read_durable_def split: prod.splits sum.splits)
qed

text \<open>
  C25: The fleet survives a failover. When a registry call of the active Manager has succeeded with an effect, racing with any lease
  activity, and another Manager of the same placement configuration then acquires the lease and attaches the durable state, its
  registry holds the same agents with the same leases, pending commands and all other fields; only the two times are
  re-based on the new Manager's clock, so that the age of the last heartbeat is the age at the time of the call, rounded down to a
  millisecond.
\<close>

theorem fleet_survives_failover:
  assumes "registry_ok (ct_registry c)" and "re_durable (ct_registry c)" and "lease_ok (ct_store c)"
    and "\<forall>i. rely (at_interfere (ca_env k i))"
    and "run_reg pt net (k, op) c = (Inr reply, c')" and "reply \<noteq> Queued False" and "reply \<noteq> Removed False"
    and "acquire_or_renew now2 (\<lambda>_. calm) l2 (ct_store c') = (b, l3, s3)"
    and "re_placement (ct_registry d) = re_placement (ct_registry c')" and "ct_store d = s3"
    and "snd (attach_durable_state pt k2 True True d) = d'"
  shows "fleet (ct_registry d') = fleet (ct_registry c')
    \<and> (\<forall>i r. map_of (re_agents (ct_registry c')) i = Some r \<and> ar_last_seen r \<le> ca_now k \<longrightarrow>
         (\<exists>r'. map_of (re_agents (ct_registry d')) i = Some r'
            \<and> ca_now k2 - ar_last_seen r' \<le> ca_now k - ar_last_seen r
            \<and> ca_now k - ar_last_seen r < ca_now k2 - ar_last_seen r' + 1 / 1000))"
proof -
  obtain c0 f where save: "save k c0 = (Inr f, c')" and c0: "ct_registry c0 = ct_registry c'" "ct_store c0 = ct_store c"
    by (rule committed_is_durable [OF assms(1,2,5,6,7)])
  let ?snap = "snapshot (ca_now k) (ct_registry c')"
  obtain l' where "mutate_state (ca_wall k) ''registry'' ?snap (ca_env k) (ct_lease c0) (ct_store c) = (Inr f, l', ct_store c')"
    using save c0 by (auto simp: save_def split: prod.splits)
  then have read: "read_state True ''registry'' (ct_store d) = Inr (Some ?snap)"
    using mutate_durable [OF assms(3,4) _ assms(8)] assms(10) by blast
  have ok: "registry_ok (ct_registry c')" using run_reg_refines(1) [OF assms(1,5)] .
  obtain agents where restored: "restore pt (ca_now k2) ?snap ((ct_registry d)\<lparr>re_durable := True\<rparr>)
      = Inr ((ct_registry d)\<lparr>re_durable := True, re_agents := agents\<rparr>)"
    and lookup: "\<And>i. map_of agents i = map_option (aged (ca_now k2) (ca_now k)) (map_of (re_agents (ct_registry c')) i)"
    using restore_snapshot [OF ok, of "(ct_registry d)\<lparr>re_durable := True\<rparr>" pt "ca_now k2" "ca_now k"] assms(9) by auto
  have d': "re_agents (ct_registry d') = agents"
    using attach_registry [OF read restored] assms(11) by simp
  have "fleet (ct_registry d') = fleet (ct_registry c')"
    by (rule ext) (simp add: fleet_def d' lookup option.map_comp comp_def)
  moreover have "map_of (re_agents (ct_registry d')) i = Some (aged (ca_now k2) (ca_now k) r)
      \<and> ca_now k2 - ar_last_seen (aged (ca_now k2) (ca_now k) r) \<le> ca_now k - ar_last_seen r
      \<and> ca_now k - ar_last_seen r < ca_now k2 - ar_last_seen (aged (ca_now k2) (ca_now k) r) + 1 / 1000"
    if "map_of (re_agents (ct_registry c')) i = Some r" and "ar_last_seen r \<le> ca_now k" for i r
    using that age_ms_close [OF that(2)] d' lookup by (simp add: aged_def)
  ultimately show ?thesis by blast
qed

section \<open>Examples\<close>

definition demo_text :: py_text where
  "demo_text = \<lparr>pt_str = (\<lambda>_. []), pt_float = (\<lambda>_. None)\<rparr>"

definition no_placement :: placement where
  "no_placement =
     \<lparr>pc_pools = [], pc_connections = [], pc_tables = [], pc_stores = [], pc_serving_endpoints = [], pc_tenants = [],
      pc_agent_versions = None, pc_active_storage_profile = []\<rparr>"

definition demo_control :: "unit control" where
  "demo_control =
     \<lparr>ct_registry = (new_registry 2000 3 [] no_placement)\<lparr>re_durable := True\<rparr>, ct_lease = demo_leader,
      ct_store = [(LEASE_KEY, Lease_Doc (taken_record (new_lease ''A'' 10) 1 None))]\<rparr>"

definition demo_call :: "unit call" where
  "demo_call = \<lparr>ca_now = 7, ca_wall = 5, ca_env = (\<lambda>_. calm)\<rparr>"

definition demo_register :: register_request where
  "demo_register =
     \<lparr>rg_agent_id = ''a'', rg_host = ''h'', rg_port = 80, rg_os = ''linux'', rg_version = ''1.0'', rg_capacity_hint = 0,
      rg_advertise_host = [], rg_contract_version = ''1.1'', rg_capabilities = [''materialize''], rg_pool_id = [],
      rg_location = [], rg_shard_index = - 1\<rparr>"

definition demo_drain :: control_command where
  "demo_drain = \<lparr>cc_kind = ''drain'', cc_drain = Some 5000, cc_reload = None, cc_materialize = None, cc_publish = None\<rparr>"

definition demo_beat :: "string \<Rightarrow> heartbeat_request" where
  "demo_beat lease =
     \<lparr>hb_agent_id = ''a'', hb_lease_id = lease,
      hb_health = \<lparr>ah_cpu_pct = 0, ah_mem_bytes = 0, ah_cache_bytes = 0, ah_inflight = 0\<rparr>, hb_serving_tables = [],
      hb_epochs = [], hb_active_task_ids = []\<rparr>"

definition demo_calls :: "(unit call \<times> reg_op) list" where
  "demo_calls = [(demo_call, Queue_Command ''a'' demo_drain), (demo_call, Heartbeat (demo_beat ''L1''))]"

lemma demo_registered:
  "fst (register demo_text (\<lambda>_ _. False) demo_call ''L1'' demo_register demo_control)
     = Inr \<lparr>rp_lease_id = ''L1'', rp_heartbeat_ms = 2000, rp_contract_version = ''1.1''\<rparr>"
  by code_simp

lemma demo_answers:
  "fst (run_regs demo_text (\<lambda>_ _. False) demo_calls (snd (register demo_text (\<lambda>_ _. False) demo_call ''L1'' demo_register demo_control)))
     = [Inr (Queued True), Inr (Commands [demo_drain])]"
  by code_simp

lemma demo_ok_registry: "registry_ok (ct_registry demo_control)" "re_durable (ct_registry demo_control)"
  by (simp_all add: demo_control_def new_registry_def registry_ok_def)

lemma demo_lease_ok: "lease_ok (ct_store demo_control)"
  by (simp add: demo_control_def lease_ok_def wf_lease_def demo_defs)

definition demo_network :: "string \<Rightarrow> string \<Rightarrow> bool" where
  "demo_network _ _ = False"

lemma demo_start:
  obtains resp c1 where "register demo_text demo_network demo_call ''L1'' demo_register demo_control = (Inr resp, c1)"
    "registry_ok (ct_registry c1)" "boxes (ct_registry c1) ''a'' = Some (''L1'', [])"
    "fst (run_regs demo_text demo_network demo_calls c1) = [Inr (Queued True), Inr (Commands [demo_drain])]"
proof -
  have net: "demo_network = (\<lambda>_ _. False)" by (simp add: demo_network_def fun_eq_iff)
  obtain resp c1 where reg: "register demo_text demo_network demo_call ''L1'' demo_register demo_control = (Inr resp, c1)"
    using demo_registered by (cases "register demo_text demo_network demo_call ''L1'' demo_register demo_control") (simp add: net)
  show ?thesis
    by (rule that [OF reg]) (use register_box [OF demo_ok_registry(1) reg] reg demo_answers in \<open>simp_all add: net demo_register_def\<close>)
qed

theorem registry_refines_mailboxes_witness:
  "\<exists>c1 c2. registry_ok (ct_registry c1)
     \<and> run_regs demo_text demo_network demo_calls c1 = ([Inr (Queued True), Inr (Commands [demo_drain])], c2)
     \<and> mail_run [(Queue_Command ''a'' demo_drain, Inr (Queued True)), (Heartbeat (demo_beat ''L1''), Inr (Commands [demo_drain]))]
         (boxes (ct_registry c1)) (boxes (ct_registry c2))"
proof -
  obtain resp c1 where c1: "registry_ok (ct_registry c1)"
    "fst (run_regs demo_text demo_network demo_calls c1) = [Inr (Queued True), Inr (Commands [demo_drain])]"
    by (rule demo_start)
  obtain c2 where c2: "run_regs demo_text demo_network demo_calls c1 = ([Inr (Queued True), Inr (Commands [demo_drain])], c2)"
    using c1(2) by (cases "run_regs demo_text demo_network demo_calls c1") simp
  show ?thesis using registry_refines_mailboxes [OF c1(1) c2] c1(1) c2 by (auto simp: demo_calls_def)
qed

theorem commands_delivered_in_order_witness:
  "\<exists>c1 c2. boxes (ct_registry c1) ''a'' = Some (''L1'', [])
     \<and> run_regs demo_text demo_network demo_calls c1 = ([Inr (Queued True), Inr (Commands [demo_drain])], c2)
     \<and> boxes (ct_registry c2) ''a'' = Some (''L1'', [])"
proof -
  obtain resp c1 where c1: "registry_ok (ct_registry c1)" "boxes (ct_registry c1) ''a'' = Some (''L1'', [])"
    "fst (run_regs demo_text demo_network demo_calls c1) = [Inr (Queued True), Inr (Commands [demo_drain])]"
    by (rule demo_start)
  obtain c2 where c2: "run_regs demo_text demo_network demo_calls c1 = ([Inr (Queued True), Inr (Commands [demo_drain])], c2)"
    using c1(3) by (cases "run_regs demo_text demo_network demo_calls c1") simp
  have "\<forall>(k, op)\<in>set demo_calls. \<not> reissues ''a'' op" by (simp add: demo_calls_def)
  from commands_delivered_in_order [OF c1(1) c2 this c1(2)]
  have "boxes (ct_registry c2) ''a'' = Some (''L1'', [])" by (simp add: demo_calls_def demo_beat_def)
  then show ?thesis using c1(2) c2 by blast
qed

theorem superseded_agent_refused_witness:
  "\<exists>resp c1 rs c2. register demo_text demo_network demo_call ''L1'' demo_register demo_control = (Inr resp, c1)
     \<and> run_regs demo_text demo_network demo_calls c1 = (rs, c2)
     \<and> heartbeat demo_text demo_call (demo_beat ''L0'') c2 = (Inl Stale_Agent_Lease, c2)"
proof -
  obtain resp c1 where c1: "register demo_text demo_network demo_call ''L1'' demo_register demo_control = (Inr resp, c1)"
    by (rule demo_start)
  obtain rs c2 where c2: "run_regs demo_text demo_network demo_calls c1 = (rs, c2)" by (cases "run_regs demo_text demo_network demo_calls c1")
  have "\<forall>(k, op)\<in>set demo_calls. \<not> grants (rg_agent_id demo_register) ''L0'' op" by (simp add: demo_calls_def)
  then have "heartbeat demo_text demo_call (demo_beat ''L0'') c2 = (Inl Stale_Agent_Lease, c2)"
    by (rule superseded_agent_refused [OF demo_ok_registry(1) c1 c2]) (simp_all add: demo_beat_def demo_register_def)
  then show ?thesis using c1 c2 by blast
qed

theorem fleet_survives_failover_witness:
  "\<exists>resp c' b l3 s3 d'. run_reg demo_text demo_network (demo_call, Register ''L1'' demo_register) demo_control = (Inr (Registered resp), c')
     \<and> acquire_or_renew 20 (\<lambda>_. calm) (new_lease ''B'' 10) (ct_store c') = (b, l3, s3)
     \<and> snd (attach_durable_state demo_text demo_call True True (demo_control\<lparr>ct_store := s3\<rparr>)) = d'
     \<and> fleet (ct_registry d') = fleet (ct_registry c')"
proof -
  obtain resp c' where c': "register demo_text demo_network demo_call ''L1'' demo_register demo_control = (Inr resp, c')"
    by (rule demo_start)
  then have run: "run_reg demo_text demo_network (demo_call, Register ''L1'' demo_register) demo_control = (Inr (Registered resp), c')"
    by simp
  obtain b l3 s3 where acq: "acquire_or_renew 20 (\<lambda>_. calm) (new_lease ''B'' 10) (ct_store c') = (b, l3, s3)"
    using prod_cases3 by blast
  obtain d' where d': "snd (attach_durable_state demo_text demo_call True True (demo_control\<lparr>ct_store := s3\<rparr>)) = d'" by blast
  have calm: "\<forall>i. rely (at_interfere (ca_env demo_call i))" by (simp add: demo_call_def)
  have "re_placement (ct_registry c') = re_placement (ct_registry demo_control)"
    using run_reg_placement [OF demo_ok_registry(1) run] .
  then have "fleet (ct_registry d') = fleet (ct_registry c')"
    using fleet_survives_failover [OF demo_ok_registry demo_lease_ok calm run _ _ acq, of "demo_control\<lparr>ct_store := s3\<rparr>" demo_call d'] d'
    by simp
  then show ?thesis using run acq d' by blast
qed

end
