(* ===== verification/Generation.thy ===== *)
theory Generation
  imports Fencing
begin

text \<open>
  Generation coordination (\<open>runtime/generation.py\<close>): one coordinator record per deployment, replaced with
  a growing fence by every new build generation, and the build record that announces the plan.

  Documents are stored decoded; a field is \<open>None\<close> when the key is missing. Of a table read plan the model
  keeps the table id and the read point fields the coordinator checks, the rest is \<open>tp_rest\<close>. The hash of the
  encoded plan is the argument \<open>digest\<close>; random identifiers and the clock are arguments.
\<close>

section \<open>Records\<close>

record 'p table_plan =
  tp_table_id :: string
  tp_generation_id :: string
  tp_generation_fence :: int
  tp_owner_shard :: int
  tp_provider :: string
  tp_token :: "string option"
  tp_rest :: 'p

record 'p generation_context =
  gc_generation_id :: string
  gc_fence :: int
  gc_lease_token :: string
  gc_shard_count :: int
  gc_expires_at_ms :: int
  gc_source_consistency :: string
  gc_version :: int
  gc_plan_state :: string
  gc_table_plans :: "'p table_plan list"
  gc_plan_sha256 :: string

record 'p gen_doc = fence_doc +
  gd_version :: "int option"
  gd_lease_token :: "string option"
  gd_shard_count :: "int option"
  gd_source_consistency :: "string option"
  gd_plan_state :: "string option"
  gd_plan_sha256 :: "string option"
  gd_table_plans :: "'p table_plan list option"
  gd_state :: "string option"
  gd_error :: "string option"

datatype ('p, 'c) gen_entry = Gen_Doc "'p gen_doc" | Entry 'c

type_synonym ('p, 'c) gen_store = "('p, 'c) gen_entry store"

datatype gen_error =
    Invalid_Record | Invalid_Context | Digest_Mismatch | Coordinator_Lost | Lease_Missing
  | Generation_Fenced | Generation_Expired | Plan_Version | Plan_State string | Duplicate_Tables
  | Foreign_Plan string | Owner_Outside string | Generation_Changed | Plan_Mismatch
  | Planning_Failed string | Join_Timeout | Store_Failed

definition COORDINATOR_KEY :: string where
  "COORDINATOR_KEY = ''.fsp/generation-coordinator.json''"

definition BUILD_KEY :: string where
  "BUILD_KEY = ''.fsp/generation-build.json''"

definition read_raw_json ::
  "string \<Rightarrow> ('p, 'c) gen_store \<Rightarrow> gen_error + (('p, 'c) gen_entry option \<times> 'p gen_doc option)" where
  "read_raw_json key s =
     (case get_object key s of
        Inl (ObjectNotFound _) \<Rightarrow> Inr (None, None)
      | Inl _ \<Rightarrow> Inl Store_Failed
      | Inr (Gen_Doc d) \<Rightarrow> Inr (Some (Gen_Doc d), Some d)
      | Inr (Entry _) \<Rightarrow> Inl Invalid_Record)"

definition plan_payload :: "'p table_plan list \<Rightarrow> 'p table_plan list" where
  "plan_payload plans = sort_key tp_table_id plans"

definition plan_digest :: "('p table_plan list \<Rightarrow> string) \<Rightarrow> 'p table_plan list \<Rightarrow> string" where
  "plan_digest digest plans = digest (plan_payload plans)"

definition record_of :: "'p generation_context \<Rightarrow> 'p gen_doc" where
  "record_of c =
     \<lparr>fd_owner_id = None,
      fd_generation_id = Some (gc_generation_id c),
      fd_fence = Some (gc_fence c),
      fd_renew_ms = None,
      fd_ttl_ms = None,
      fd_expires_at_ms = Some (gc_expires_at_ms c),
      gd_version = Some (gc_version c),
      gd_lease_token = Some (gc_lease_token c),
      gd_shard_count = Some (gc_shard_count c),
      gd_source_consistency = Some (gc_source_consistency c),
      gd_plan_state = (if gc_version c \<ge> 2 then Some (gc_plan_state c) else None),
      gd_plan_sha256 = (if gc_version c \<ge> 2 then Some (gc_plan_sha256 c) else None),
      gd_table_plans = (if gc_version c \<ge> 2 then Some (plan_payload (gc_table_plans c)) else None),
      gd_state = None,
      gd_error = None\<rparr>"

definition context_of ::
  "('p table_plan list \<Rightarrow> string) \<Rightarrow> 'p gen_doc \<Rightarrow> gen_error + 'p generation_context" where
  "context_of digest d =
     (case (fd_generation_id d, fd_fence d, gd_lease_token d, gd_shard_count d, fd_expires_at_ms d) of
        (Some gid, Some fence, Some token, Some shards, Some expires) \<Rightarrow>
          let version = with_default (gd_version d) 1;
              plans = (if version \<ge> 2 then with_default (gd_table_plans d) [] else []);
              sha256 = (if version \<ge> 2
                        then (case gd_plan_sha256 d of
                                None \<Rightarrow> plan_digest digest plans
                              | Some h \<Rightarrow> if h = [] then plan_digest digest plans else h)
                        else [])
          in if version \<ge> 2 \<and> sha256 \<noteq> plan_digest digest plans then Inl Digest_Mismatch
             else Inr
               \<lparr>gc_generation_id = gid, gc_fence = fence, gc_lease_token = token, gc_shard_count = shards,
                gc_expires_at_ms = expires,
                gc_source_consistency = with_default (gd_source_consistency d) ''best_effort'',
                gc_version = version,
                gc_plan_state = (if version \<ge> 2 then with_default (gd_plan_state d) ''READY'' else ''READY''),
                gc_table_plans = plans, gc_plan_sha256 = sha256\<rparr>
      | _ \<Rightarrow> Inl Invalid_Context)"

definition current_generation_record ::
  "('p table_plan list \<Rightarrow> string) \<Rightarrow> ('p, 'c) gen_store
     \<Rightarrow> gen_error + (('p, 'c) gen_entry option \<times> 'p generation_context option)" where
  "current_generation_record digest s =
     (case read_raw_json COORDINATOR_KEY s of
        Inl e \<Rightarrow> Inl e
      | Inr (raw, None) \<Rightarrow> Inr (raw, None)
      | Inr (raw, Some d) \<Rightarrow> (case context_of digest d of Inl e \<Rightarrow> Inl e | Inr c \<Rightarrow> Inr (raw, Some c)))"

definition pad_20 :: "int \<Rightarrow> string" where
  "pad_20 i = (let ds = py_str_int i in replicate (20 - length ds) (CHR ''0'') @ ds)"

section \<open>Leases\<close>

definition lease_age :: "('p gen_doc \<Rightarrow> bool) \<Rightarrow> int \<Rightarrow> ('p, 'c) gen_store \<Rightarrow> gen_error + 'p gen_doc" where
  "lease_age matches now s =
     (case read_raw_json COORDINATOR_KEY s of
        Inl e \<Rightarrow> Inl e
      | Inr (_, None) \<Rightarrow> Inl Lease_Missing
      | Inr (_, Some d) \<Rightarrow>
          if \<not> matches d then Inl Generation_Fenced
          else if with_default (fd_expires_at_ms d) 0 \<le> now then Inl Generation_Expired
          else Inr d)"

definition assert_generation_lease ::
  "int \<Rightarrow> 'p generation_context \<Rightarrow> ('p, 'c) gen_store \<Rightarrow> gen_error + unit" where
  "assert_generation_lease now c s =
     map_sum id (\<lambda>_. ())
       (lease_age (\<lambda>d. gd_lease_token d = Some (gc_lease_token c)
                     \<and> with_default (fd_fence d) (-1) = gc_fence c) now s)"

definition assert_generation_identity ::
  "int \<Rightarrow> string \<Rightarrow> int \<Rightarrow> string \<Rightarrow> string \<Rightarrow> ('p, 'c) gen_store \<Rightarrow> gen_error + unit" where
  "assert_generation_identity now gid fence token plan_sha256 s =
     (case lease_age (\<lambda>d. fd_generation_id d = Some gid \<and> with_default (fd_fence d) (-1) = fence
                        \<and> gd_lease_token d = Some token) now s of
        Inl e \<Rightarrow> Inl e
      | Inr d \<Rightarrow>
          if plan_sha256 \<noteq> [] \<and> gd_plan_sha256 d \<noteq> Some plan_sha256 then Inl Plan_Mismatch
          else Inr ())"

definition new_context ::
  "('p table_plan list \<Rightarrow> string) \<Rightarrow> int \<Rightarrow> string \<Rightarrow> string \<Rightarrow> int \<Rightarrow> int \<Rightarrow> string \<Rightarrow> bool \<Rightarrow> int
     \<Rightarrow> 'p generation_context" where
  "new_context digest now suffix token shard_count lease_seconds consistency prepare_plan fence =
     \<lparr>gc_generation_id = pad_20 fence @ ''-'' @ suffix, gc_fence = fence, gc_lease_token = token,
      gc_shard_count = shard_count, gc_expires_at_ms = now + lease_seconds * 1000,
      gc_source_consistency = consistency, gc_version = 2,
      gc_plan_state = (if prepare_plan then ''PREPARING'' else ''READY''),
      gc_table_plans = [], gc_plan_sha256 = plan_digest digest []\<rparr>"

text \<open>
  \<open>acquire_generation\<close>. The environment may act between the read and the compare-and-swap
  (\<open>at_interfere a\<close>) and between the compare-and-swap and the confirming read (\<open>settle\<close>).
\<close>

definition acquire_generation ::
  "('p table_plan list \<Rightarrow> string) \<Rightarrow> int \<Rightarrow> string \<Rightarrow> string \<Rightarrow> int \<Rightarrow> int \<Rightarrow> string \<Rightarrow> bool
     \<Rightarrow> ('p, 'c) gen_store attempt \<Rightarrow> (('p, 'c) gen_store \<Rightarrow> ('p, 'c) gen_store) \<Rightarrow> ('p, 'c) gen_store
     \<Rightarrow> (gen_error + 'p generation_context) \<times> ('p, 'c) gen_store" where
  "acquire_generation digest now suffix token shard_count lease_seconds consistency prepare_plan a settle s =
     (case read_raw_json COORDINATOR_KEY s of
        Inl e \<Rightarrow> (Inl e, s)
      | Inr (raw, rec) \<Rightarrow>
          let fence = (case rec of None \<Rightarrow> 0 | Some d \<Rightarrow> with_default (fd_fence d) 0) + 1;
              c = new_context digest now suffix token shard_count lease_seconds consistency prepare_plan fence;
              d = record_of c
          in (case compare_and_swap COORDINATOR_KEY raw (Gen_Doc d) (at_interfere a s) of
                (Inr True, s2) \<Rightarrow>
                  let s3 = settle s2 in
                  if read_raw_json COORDINATOR_KEY s3 \<noteq> Inr (Some (Gen_Doc d), Some d)
                  then (Inl Coordinator_Lost, s3)
                  else (Inr c, snd (put BUILD_KEY (Gen_Doc (d\<lparr>gd_state := Some (gc_plan_state c)\<rparr>)) s3))
              | (_, s2) \<Rightarrow> (Inl Coordinator_Lost, s2)))"

definition check_plan :: "'p generation_context \<Rightarrow> 'p table_plan \<Rightarrow> gen_error + unit" where
  "check_plan c p =
     (if tp_generation_id p \<noteq> gc_generation_id c \<or> tp_generation_fence p \<noteq> gc_fence c
      then Inl (Foreign_Plan (tp_table_id p))
      else if tp_owner_shard p \<ge> gc_shard_count c then Inl (Owner_Outside (tp_table_id p))
      else Inr ())"

fun check_plans :: "'p generation_context \<Rightarrow> 'p table_plan list \<Rightarrow> gen_error + unit" where
  "check_plans c [] = Inr ()"
| "check_plans c (p # ps) = (case check_plan c p of Inl e \<Rightarrow> Inl e | Inr _ \<Rightarrow> check_plans c ps)"

definition publish_generation_plan ::
  "('p table_plan list \<Rightarrow> string) \<Rightarrow> int \<Rightarrow> 'p generation_context \<Rightarrow> 'p table_plan list
     \<Rightarrow> ('p, 'c) gen_store attempt \<Rightarrow> (('p, 'c) gen_store \<Rightarrow> ('p, 'c) gen_store) \<Rightarrow> ('p, 'c) gen_store
     \<Rightarrow> (gen_error + 'p generation_context) \<times> ('p, 'c) gen_store" where
  "publish_generation_plan digest now c table_plans a settle s =
     (case assert_generation_lease now c s of
        Inl e \<Rightarrow> (Inl e, s)
      | Inr _ \<Rightarrow>
          if gc_version c < 2 then (Inl Plan_Version, s)
          else if gc_plan_state c \<noteq> ''PREPARING'' then (Inl (Plan_State (gc_plan_state c)), s)
          else let plans = sort_key tp_table_id table_plans in
            if \<not> distinct (map tp_table_id plans) then (Inl Duplicate_Tables, s)
            else (case check_plans c plans of
                    Inl e \<Rightarrow> (Inl e, s)
                  | Inr _ \<Rightarrow>
                      let ready = c\<lparr>gc_plan_state := ''READY'', gc_table_plans := plans,
                                   gc_plan_sha256 := plan_digest digest plans\<rparr>;
                          d = record_of ready
                      in (case read_raw_json COORDINATOR_KEY s of
                            Inl e \<Rightarrow> (Inl e, s)
                          | Inr (raw, None) \<Rightarrow> (Inl Generation_Changed, s)
                          | Inr (raw, Some cur) \<Rightarrow>
                              (case context_of digest cur of
                                 Inl e \<Rightarrow> (Inl e, s)
                               | Inr ctx \<Rightarrow>
                                   if ctx \<noteq> c then (Inl Generation_Changed, s)
                                   else (case compare_and_swap COORDINATOR_KEY raw (Gen_Doc d) (at_interfere a s) of
                                           (Inr True, s2) \<Rightarrow>
                                             let s3 = settle (snd (put BUILD_KEY (Gen_Doc (d\<lparr>gd_state := Some ''READY''\<rparr>)) s2))
                                             in (case read_raw_json COORDINATOR_KEY s3 of
                                                   Inr (_, Some d') \<Rightarrow>
                                                     (case context_of digest d' of
                                                        Inl e \<Rightarrow> (Inl e, s3)
                                                      | Inr ctx' \<Rightarrow> if ctx' \<noteq> ready then (Inl Generation_Changed, s3)
                                                                   else (Inr ready, s3))
                                                 | Inr (_, None) \<Rightarrow> (Inl Invalid_Context, s3)
                                                 | Inl e \<Rightarrow> (Inl e, s3))
                                         | (_, s2) \<Rightarrow> (Inl Generation_Changed, s2))))))"

definition REDACTED :: string where
  "REDACTED = ''[REDACTED]''"

definition redact_reason :: "'p generation_context \<Rightarrow> string \<Rightarrow> string" where
  "redact_reason c reason =
     fold (\<lambda>tok r. py_replace tok REDACTED r)
       (gc_lease_token c # filter (\<lambda>tok. tok \<noteq> []) (List.map_filter tp_token (gc_table_plans c))) reason"

definition fail_generation_plan ::
  "int \<Rightarrow> 'p generation_context \<Rightarrow> string \<Rightarrow> ('p, 'c) gen_store \<Rightarrow> (gen_error + unit) \<times> ('p, 'c) gen_store" where
  "fail_generation_plan now c reason s =
     (case assert_generation_lease now c s of
        Inl e \<Rightarrow> (Inl e, s)
      | Inr _ \<Rightarrow>
          (Inr (),
           snd (put BUILD_KEY
             (Gen_Doc
                \<lparr>fd_owner_id = None, fd_generation_id = Some (gc_generation_id c), fd_fence = Some (gc_fence c),
                 fd_renew_ms = None, fd_ttl_ms = None, fd_expires_at_ms = None,
                 gd_version = Some (max 2 (gc_version c)), gd_lease_token = None,
                 gd_shard_count = Some (gc_shard_count c),
                 gd_source_consistency = Some (gc_source_consistency c),
                 gd_plan_state = Some ''FAILED'', gd_plan_sha256 = Some (gc_plan_sha256 c),
                 gd_table_plans = None, gd_state = Some ''FAILED'',
                 gd_error = Some (take 500 (redact_reason c reason))\<rparr>) s)))"

definition same_generation :: "'p generation_context \<Rightarrow> 'p generation_context \<Rightarrow> bool" where
  "same_generation x y \<longleftrightarrow>
     gc_generation_id x = gc_generation_id y \<and> gc_fence x = gc_fence y \<and> gc_lease_token x = gc_lease_token y
     \<and> gc_shard_count x = gc_shard_count y \<and> gc_version x = gc_version y
     \<and> gc_plan_state x = gc_plan_state y \<and> gc_plan_sha256 x = gc_plan_sha256 y"

definition renewed_build :: "'p generation_context \<Rightarrow> 'p gen_doc \<Rightarrow> 'p gen_doc option \<Rightarrow> 'p gen_doc" where
  "renewed_build c d build =
     (case build of
        Some b \<Rightarrow>
          if fd_generation_id b = Some (gc_generation_id c) \<and> with_default (fd_fence b) (-1) = gc_fence c
          then let b1 = b\<lparr>fd_expires_at_ms := Some (gc_expires_at_ms c), gd_lease_token := Some (gc_lease_token c)\<rparr>
               in if gc_version c \<ge> 2 \<and> gd_state b1 \<noteq> Some ''ACTIVE''
                  then b1\<lparr>gd_version := Some (gc_version c), gd_plan_state := Some (gc_plan_state c),
                         gd_plan_sha256 := Some (gc_plan_sha256 c),
                         gd_table_plans := Some (plan_payload (gc_table_plans c))\<rparr>
                  else b1
          else d\<lparr>gd_state := Some (gc_plan_state c)\<rparr>
      | None \<Rightarrow> d\<lparr>gd_state := Some (gc_plan_state c)\<rparr>)"

definition renew_generation ::
  "('p table_plan list \<Rightarrow> string) \<Rightarrow> int \<Rightarrow> int \<Rightarrow> 'p generation_context \<Rightarrow> ('p, 'c) gen_store attempt
     \<Rightarrow> ('p, 'c) gen_store \<Rightarrow> (gen_error + 'p generation_context) \<times> ('p, 'c) gen_store" where
  "renew_generation digest now lease_seconds c a s =
     (case assert_generation_lease now c s of
        Inl e \<Rightarrow> (Inl e, s)
      | Inr _ \<Rightarrow>
          let renewed = c\<lparr>gc_expires_at_ms := now + lease_seconds * 1000\<rparr>; d = record_of renewed in
          (case read_raw_json COORDINATOR_KEY s of
             Inl e \<Rightarrow> (Inl e, s)
           | Inr (raw, None) \<Rightarrow> (Inl Generation_Changed, s)
           | Inr (raw, Some cur) \<Rightarrow>
               (case context_of digest cur of
                  Inl e \<Rightarrow> (Inl e, s)
                | Inr ctx \<Rightarrow>
                    if \<not> same_generation ctx c then (Inl Generation_Changed, s)
                    else (case compare_and_swap COORDINATOR_KEY raw (Gen_Doc d) (at_interfere a s) of
                            (Inr True, s2) \<Rightarrow>
                              (case read_raw_json BUILD_KEY s2 of
                                 Inl e \<Rightarrow> (Inl e, s2)
                               | Inr (_, build) \<Rightarrow>
                                   (Inr renewed, snd (put BUILD_KEY (Gen_Doc (renewed_build renewed d build)) s2)))
                          | (_, s2) \<Rightarrow> (Inl Generation_Changed, s2)))))"

text \<open>
  \<open>join_generation\<close> polls the two records until its deadline; the argument is the list of the clock
  readings and stores that its polls see.
\<close>

definition joinable ::
  "('p table_plan list \<Rightarrow> string) \<Rightarrow> int \<Rightarrow> int \<Rightarrow> 'p gen_doc \<Rightarrow> 'p gen_doc \<Rightarrow> 'p generation_context option" where
  "joinable digest shard_count now build lease =
     (if gd_state build \<notin> {Some ''STAGING'', Some ''READY'', Some ''ACTIVE''} then None
      else (case context_of digest lease of
              Inl _ \<Rightarrow> None
            | Inr c \<Rightarrow>
                let plan_matches = (gc_version c = 1
                      \<or> (with_default (gd_version build) 1 \<ge> 2 \<and> gc_plan_state c = ''READY''
                         \<and> gd_plan_sha256 build = Some (gc_plan_sha256 c)));
                    build_active = (gd_state build = Some ''ACTIVE''
                      \<and> gd_lease_token build = gd_lease_token lease
                      \<and> with_default (fd_fence build) (-1) = gc_fence c)
                in if gc_shard_count c = shard_count
                     \<and> fd_generation_id build = Some (gc_generation_id c)
                     \<and> gd_lease_token lease = Some (gc_lease_token c)
                     \<and> gc_fence c = with_default (fd_fence lease) (-1)
                     \<and> (build_active \<or> gc_expires_at_ms c > now) \<and> plan_matches
                   then Some (if gd_state build = Some ''ACTIVE'' then c\<lparr>gc_plan_state := ''ACTIVE''\<rparr> else c)
                   else None))"

fun join_generation ::
  "('p table_plan list \<Rightarrow> string) \<Rightarrow> int \<Rightarrow> (int \<times> ('p, 'c) gen_store) list \<Rightarrow> gen_error + 'p generation_context"
where
  "join_generation digest shard_count [] = Inl Join_Timeout"
| "join_generation digest shard_count ((now, s) # polls) =
     (case (read_raw_json BUILD_KEY s, read_raw_json COORDINATOR_KEY s) of
        (Inl e, _) \<Rightarrow> Inl e
      | (_, Inl e) \<Rightarrow> Inl e
      | (Inr (_, Some build), Inr (_, Some lease)) \<Rightarrow>
          if gd_state build = Some ''FAILED'' \<and> fd_generation_id build = fd_generation_id lease
             \<and> with_default (fd_fence build) (-1) = with_default (fd_fence lease) (-2)
          then Inl (Planning_Failed (with_default (gd_error build) []))
          else (case joinable digest shard_count now build lease of
                  Some c \<Rightarrow> Inr c
                | None \<Rightarrow> join_generation digest shard_count polls)
      | _ \<Rightarrow> join_generation digest shard_count polls)"

section \<open>Transitions of the coordinator record\<close>

definition gen_at :: "('p, 'c) gen_store \<Rightarrow> 'p gen_doc option" where
  "gen_at s = (case map_of s COORDINATOR_KEY of Some (Gen_Doc d) \<Rightarrow> Some d | _ \<Rightarrow> None)"

definition gen_fence :: "'p gen_doc option \<Rightarrow> int" where
  "gen_fence rec = (case rec of None \<Rightarrow> 0 | Some d \<Rightarrow> with_default (fd_fence d) 0)"

definition gen_owner :: "'p gen_doc option \<Rightarrow> string option" where
  "gen_owner rec = (case rec of None \<Rightarrow> None | Some d \<Rightarrow> fd_generation_id d)"

definition coord_ok :: "('p, 'c) gen_store \<Rightarrow> bool" where
  "coord_ok s \<longleftrightarrow> (case map_of s COORDINATOR_KEY of
     None \<Rightarrow> True | Some (Gen_Doc d) \<Rightarrow> \<exists>f. fd_fence d = Some f | Some (Entry _) \<Rightarrow> False)"

inductive gen_trans :: "'p gen_doc option \<Rightarrow> 'p gen_doc option \<Rightarrow> bool" where
  New_Generation: "gc_fence c = gen_fence rec + 1 \<Longrightarrow> gen_trans rec (Some (record_of c))"
| Same_Generation: "fd_fence d = Some (gc_fence c) \<Longrightarrow> fd_generation_id d = Some (gc_generation_id c) \<Longrightarrow>
    gen_trans (Some d) (Some (record_of c))"

interpretation generation: fenced_terms gen_trans gen_fence gen_owner
proof unfold_locales
  show "gen_trans r r' \<Longrightarrow> gen_fence r \<le> gen_fence r'" for r r' :: "'a gen_doc option"
    by (induction rule: gen_trans.induct) (auto simp: gen_fence_def record_of_def)
  show "gen_trans r r' \<Longrightarrow> gen_fence r' = gen_fence r \<Longrightarrow> gen_owner r' \<noteq> None \<Longrightarrow> gen_owner r' = gen_owner r"
    for r r' :: "'a gen_doc option"
    by (induction rule: gen_trans.induct) (auto simp: gen_fence_def gen_owner_def record_of_def)
qed

definition gen_rely :: "(('p, 'c) gen_store \<Rightarrow> ('p, 'c) gen_store) \<Rightarrow> bool" where
  "gen_rely f \<longleftrightarrow> (\<forall>s. coord_ok s \<longrightarrow> coord_ok (f s) \<and> gen_trans\<^sup>*\<^sup>* (gen_at s) (gen_at (f s)))"

lemma plain_gen_keys [simp]: "plain_key COORDINATOR_KEY" "plain_key BUILD_KEY" "BUILD_KEY \<noteq> COORDINATOR_KEY"
  "COORDINATOR_KEY \<noteq> BUILD_KEY"
  by (simp_all add: COORDINATOR_KEY_def BUILD_KEY_def plain_key_def plain_segment_def)

lemma read_gen_Inr:
  assumes "read_raw_json COORDINATOR_KEY s = Inr (raw, rec)"
  shows "rec = gen_at s" and "raw = map_option Gen_Doc rec" and "map_of s COORDINATOR_KEY = raw"
  using assms
  by (auto simp: read_raw_json_def get_object_def gen_at_def split: option.splits gen_entry.splits)

lemma read_gen_ok: "coord_ok s \<Longrightarrow> read_raw_json COORDINATOR_KEY s = Inr (map_option Gen_Doc (gen_at s), gen_at s)"
  by (auto simp: coord_ok_def read_raw_json_def get_object_def gen_at_def split: option.splits gen_entry.splits)

lemma coord_put_build [simp]:
  "gen_at (snd (put BUILD_KEY d s)) = gen_at s" "coord_ok (snd (put BUILD_KEY d s)) = coord_ok s"
  using plain_gen_keys by (simp_all add: put_def gen_at_def coord_ok_def)

lemma swap_gen:
  assumes "compare_and_swap COORDINATOR_KEY raw (Gen_Doc d) s = (Inr True, s')" and "fd_fence d = Some f"
  shows "map_of s COORDINATOR_KEY = raw" and "gen_at s' = Some d" and "coord_ok s'"
  using assms by (auto simp: compare_and_swap_def gen_at_def coord_ok_def split: if_splits)

lemma swap_gen_miss:
  assumes "compare_and_swap COORDINATOR_KEY raw d s = (r, s')" and "r \<noteq> Inr True"
  shows "s' = s"
  using assms by (auto simp: compare_and_swap_def split: if_splits)

lemma record_of_fence [simp]: "fd_fence (record_of c) = Some (gc_fence c)"
  "fd_generation_id (record_of c) = Some (gc_generation_id c)" "gd_lease_token (record_of c) = Some (gc_lease_token c)"
  "fd_expires_at_ms (record_of c) = Some (gc_expires_at_ms c)" "fd_owner_id (record_of c) = None"
  "fd_renew_ms (record_of c) = None"
  by (simp_all add: record_of_def)

text \<open>An acquisition is a transition to a larger fence, confirmed at the end; a failed one only lets others act.\<close>

lemma acquire_generation_cases:
  fixes s :: "('p, 'c) gen_store"
  assumes "acquire_generation digest now suffix token n secs cons prep a settle s = (r, s')"
    and "coord_ok s" and "gen_rely (at_interfere a)" and "gen_rely settle"
  shows "coord_ok s' \<and> gen_trans\<^sup>*\<^sup>* (gen_at s) (gen_at s')
    \<and> (\<forall>c. r = Inr c \<longrightarrow> gen_at s' = Some (record_of c) \<and> gen_fence (gen_at s) < gc_fence c
         \<and> gc_lease_token c = token \<and> gc_expires_at_ms c = now + secs * 1000)"
proof -
  define rec where "rec = gen_at s"
  define s1 where "s1 = at_interfere a s"
  have s1: "coord_ok s1" "gen_trans\<^sup>*\<^sup>* rec (gen_at s1)" using assms(2,3) by (auto simp: gen_rely_def s1_def rec_def)
  define c where "c = new_context digest now suffix token n secs cons prep (gen_fence rec + 1)"
  have c: "gc_fence c = gen_fence rec + 1" "gc_lease_token c = token" "gc_expires_at_ms c = now + secs * 1000"
    by (simp_all add: c_def new_context_def)
  obtain res s2 where cas: "compare_and_swap COORDINATOR_KEY (map_option Gen_Doc rec) (Gen_Doc (record_of c)) s1 = (res, s2)"
    by fastforce
  have run: "acquire_generation digest now suffix token n secs cons prep a settle s =
      (if res = Inr True then
        (if read_raw_json COORDINATOR_KEY (settle s2) \<noteq> Inr (Some (Gen_Doc (record_of c)), Some (record_of c))
         then (Inl Coordinator_Lost, settle s2)
         else (Inr c, snd (put BUILD_KEY (Gen_Doc ((record_of c)\<lparr>gd_state := Some (gc_plan_state c)\<rparr>)) (settle s2))))
       else (Inl Coordinator_Lost, s2))"
    using cas unfolding acquire_generation_def read_gen_ok [OF assms(2)] rec_def [symmetric] s1_def [symmetric]
    by (simp add: gen_fence_def [symmetric] c_def [symmetric] Let_def split: sum.splits bool.splits)
  show ?thesis
  proof (cases "res = Inr True")
    case True
    note sw = swap_gen [OF cas [unfolded True], of "gc_fence c", simplified]
    have "gen_at s1 = rec" using sw(1) by (cases rec) (auto simp: gen_at_def)
    then have "gen_trans\<^sup>*\<^sup>* rec (gen_at s2)"
      using s1(2) sw(2) gen_trans.New_Generation [of c rec] by (auto simp: c intro: rtranclp.rtrancl_into_rtrancl)
    moreover have "coord_ok (settle s2)" "gen_trans\<^sup>*\<^sup>* (gen_at s2) (gen_at (settle s2))"
      using assms(4) sw(3) by (auto simp: gen_rely_def)
    moreover have "gen_at (settle s2) = Some (record_of c)"
      if "read_raw_json COORDINATOR_KEY (settle s2) = Inr (Some (Gen_Doc (record_of c)), Some (record_of c))"
      using read_gen_Inr(1) [OF that] by simp
    ultimately show ?thesis
      using assms(1) run True by (auto simp: rec_def c split: if_splits intro: rtranclp_trans)
  next
    case False
    then show ?thesis
      using assms(1) run s1 swap_gen_miss [OF cas False] by (auto simp: rec_def)
  qed
qed

lemma swap_gen_step:
  assumes "compare_and_swap COORDINATOR_KEY raw (Gen_Doc (record_of c)) s1 = (res, s2)"
    and "raw = Some (Gen_Doc cur)" and "fd_fence cur = Some (gc_fence c)"
    and "fd_generation_id cur = Some (gc_generation_id c)"
    and "coord_ok s1" and "gen_trans\<^sup>*\<^sup>* r0 (gen_at s1)"
  shows "coord_ok s2 \<and> gen_trans\<^sup>*\<^sup>* r0 (gen_at s2)"
proof (cases "res = Inr True")
  case True
  note sw = swap_gen [OF assms(1) [unfolded True], of "gc_fence c", simplified]
  have "gen_at s1 = Some cur" using sw(1) assms(2) by (simp add: gen_at_def)
  then show ?thesis
    using sw assms(6) gen_trans.Same_Generation [OF assms(3,4)]
    by (auto intro: rtranclp.rtrancl_into_rtrancl)
qed (use swap_gen_miss [OF assms(1)] assms(5,6) in auto)

lemma context_of_fields:
  assumes "context_of digest d = Inr c"
  shows "fd_fence d = Some (gc_fence c)" and "fd_generation_id d = Some (gc_generation_id c)"
  using assms by (auto simp: context_of_def Let_def split: option.splits if_splits)

lemma renew_generation_refines:
  assumes "renew_generation digest now secs c a s = (r, s')" and "coord_ok s" and "gen_rely (at_interfere a)"
  shows "coord_ok s' \<and> gen_trans\<^sup>*\<^sup>* (gen_at s) (gen_at s')"
proof -
  define d where "d = record_of (c\<lparr>gc_expires_at_ms := now + secs * 1000\<rparr>)"
  define s1 where "s1 = at_interfere a s"
  have s1: "coord_ok s1" "gen_trans\<^sup>*\<^sup>* (gen_at s) (gen_at s1)" using assms(2,3) by (auto simp: gen_rely_def s1_def)
  note read = read_gen_ok [OF assms(2)]
  show ?thesis
  proof (cases "\<exists>cur ctx. gen_at s = Some cur \<and> context_of digest cur = Inr ctx \<and> same_generation ctx c
      \<and> assert_generation_lease now c s = Inr ()")
    case True
    then obtain cur ctx where cur: "gen_at s = Some cur" "context_of digest cur = Inr ctx" "same_generation ctx c"
      "assert_generation_lease now c s = Inr ()" by blast
    obtain res s2 where cas: "compare_and_swap COORDINATOR_KEY (Some (Gen_Doc cur)) (Gen_Doc d) s1 = (res, s2)"
      by fastforce
    have fields: "fd_fence cur = Some (gc_fence c)" "fd_generation_id cur = Some (gc_generation_id c)"
      using context_of_fields [OF cur(2)] cur(3) by (auto simp: same_generation_def)
    have "coord_ok s2 \<and> gen_trans\<^sup>*\<^sup>* (gen_at s) (gen_at s2)"
      using swap_gen_step [OF cas [unfolded d_def] refl] fields s1 by simp
    moreover have "s' = s2 \<or> (\<exists>x. s' = snd (put BUILD_KEY x s2))"
      using assms(1) cur cas read
      by (auto simp: renew_generation_def Let_def d_def [symmetric] s1_def [symmetric]
          split: sum.splits bool.splits prod.splits)
    ultimately show ?thesis by auto
  next
    case False
    then have "s' = s"
      using assms(1) read
      by (auto simp: renew_generation_def Let_def split: sum.splits option.splits if_splits prod.splits)
    then show ?thesis using assms(2) by simp
  qed
qed

lemma publish_generation_refines:
  assumes "publish_generation_plan digest now c plans a settle s = (r, s')" and "coord_ok s"
    and "gen_rely (at_interfere a)" and "gen_rely settle"
  shows "coord_ok s' \<and> gen_trans\<^sup>*\<^sup>* (gen_at s) (gen_at s')"
proof -
  define ps where "ps = sort_key tp_table_id plans"
  define ready where "ready = c\<lparr>gc_plan_state := ''READY'', gc_table_plans := ps, gc_plan_sha256 := plan_digest digest ps\<rparr>"
  define s1 where "s1 = at_interfere a s"
  have s1: "coord_ok s1" "gen_trans\<^sup>*\<^sup>* (gen_at s) (gen_at s1)" using assms(2,3) by (auto simp: gen_rely_def s1_def)
  note read = read_gen_ok [OF assms(2)]
  have defs: "publish_generation_plan digest now c plans a settle s = (r, s')
      \<Longrightarrow> (\<nexists>cur. gen_at s = Some cur \<and> context_of digest cur = Inr c) \<Longrightarrow> s' = s"
    using read by (auto simp: publish_generation_plan_def Let_def split: sum.splits option.splits if_splits prod.splits)
  show ?thesis
  proof (cases "\<exists>cur. gen_at s = Some cur \<and> context_of digest cur = Inr c")
    case True
    then obtain cur where cur: "gen_at s = Some cur" "context_of digest cur = Inr c" by blast
    obtain res s2 where cas: "compare_and_swap COORDINATOR_KEY (Some (Gen_Doc cur)) (Gen_Doc (record_of ready)) s1 = (res, s2)"
      by fastforce
    have fields: "fd_fence cur = Some (gc_fence ready)" "fd_generation_id cur = Some (gc_generation_id ready)"
      using context_of_fields [OF cur(2)] by (auto simp: ready_def)
    have step: "coord_ok s2 \<and> gen_trans\<^sup>*\<^sup>* (gen_at s) (gen_at s2)"
      by (rule swap_gen_step [OF cas refl fields s1])
    have settled: "coord_ok (settle (snd (put BUILD_KEY x s2)))
        \<and> gen_trans\<^sup>*\<^sup>* (gen_at s) (gen_at (settle (snd (put BUILD_KEY x s2))))" for x
      using step assms(4) coord_put_build [of x s2] unfolding gen_rely_def by (metis rtranclp_trans)
    have "s' = s \<or> s' = s2 \<or> (\<exists>x. s' = settle (snd (put BUILD_KEY x s2)))"
      using assms(1) cur cas read
      by (auto simp: publish_generation_plan_def Let_def ps_def [symmetric] ready_def [symmetric] s1_def [symmetric]
          split: sum.splits bool.splits prod.splits option.splits if_splits)
    then show ?thesis using settled step assms(2) by auto
  qed (use defs [OF assms(1)] assms(2) in auto)
qed

section \<open>Properties of generations\<close>

definition gen_view :: "('p, 'c) gen_entry \<Rightarrow> fence_doc option" where
  "gen_view e = (case e of Gen_Doc d \<Rightarrow> Some (fence_doc.truncate d) | Entry _ \<Rightarrow> None)"

lemma fence_matches_gen:
  assumes "coord_ok s" and "fence_matches gen_view now COORDINATOR_KEY owner f s = Inr True"
  shows "gen_fence (gen_at s) = f"
  using assms
  by (auto simp: fence_matches_def gen_view_def gen_fence_def gen_at_def coord_ok_def fence_doc.defs
      split: option.splits gen_entry.splits)

text \<open>
  C29: A superseded generation is fenced for good. After a generation has been acquired and, later, another one,
  with any interference of other coordinators in between, the first generation's fence is smaller, no
  fenced write under it succeeds any more at any later time, and its lease checks fail.
\<close>

theorem superseded_generation_fenced:
  assumes "coord_ok s0" and "gen_rely (at_interfere a1)" and "gen_rely settle1"
    and "acquire_generation digest now1 suf1 tok1 n1 secs1 cons1 prep1 a1 settle1 s0 = (Inr c1, s1)"
    and "coord_ok s2" and "gen_trans\<^sup>*\<^sup>* (gen_at s1) (gen_at s2)"
    and "gen_rely (at_interfere a2)" and "gen_rely settle2"
    and "acquire_generation digest now2 suf2 tok2 n2 secs2 cons2 prep2 a2 settle2 s2 = (Inr c2, s3)"
    and "coord_ok s4" and "gen_trans\<^sup>*\<^sup>* (gen_at s3) (gen_at s4)"
  shows "gc_fence c1 < gc_fence c2
    \<and> fenced_put gen_view now COORDINATOR_KEY (gc_generation_id c1) (gc_fence c1) key d s4 = (Inr False, s4)
    \<and> assert_generation_lease now c1 s4 = Inl Generation_Fenced"
proof -
  note one = acquire_generation_cases [OF assms(4,1-3)]
  note two = acquire_generation_cases [OF assms(9,5,7,8)]
  have "gen_fence (gen_at s1) = gc_fence c1" "gen_fence (gen_at s3) = gc_fence c2"
    using one two by (auto simp: gen_fence_def)
  then have lt: "gc_fence c1 < gc_fence c2" "gc_fence c2 \<le> gen_fence (gen_at s4)"
    using two generation.fence_mono [OF assms(6)] generation.fence_mono [OF assms(11)] by auto
  then have "fence_matches gen_view now COORDINATOR_KEY (gc_generation_id c1) (gc_fence c1) s4 \<noteq> Inr True"
    using fence_matches_gen [OF assms(10)] by fastforce
  moreover have "\<exists>b. fence_matches gen_view now COORDINATOR_KEY (gc_generation_id c1) (gc_fence c1) s4 = Inr b"
    by (simp add: fence_matches_def)
  ultimately have "fenced_put gen_view now COORDINATOR_KEY (gc_generation_id c1) (gc_fence c1) key d s4 = (Inr False, s4)"
    by (auto simp: fenced_put_def)
  moreover have "gen_at s4 \<noteq> None" using assms(11) two by (auto elim: rtranclp.cases gen_trans.cases)
  then have "assert_generation_lease now c1 s4 = Inl Generation_Fenced"
    using lt assms(10) by (auto simp: assert_generation_lease_def lease_age_def read_gen_ok gen_fence_def coord_ok_def gen_at_def
        split: option.splits gen_entry.splits)
  ultimately show ?thesis using lt by simp
qed

lemma gen_rely_id [simp]: "gen_rely (\<lambda>s. s)" "gen_rely (at_interfere calm)"
  by (simp_all add: gen_rely_def calm_def)

lemma read_after_update [simp]:
  "read_raw_json COORDINATOR_KEY (AList.update COORDINATOR_KEY (Gen_Doc d) s) = Inr (Some (Gen_Doc d), Some d)"
  by (simp add: read_raw_json_def get_object_def)

lemma acquire_generation_calm:
  assumes "coord_ok s"
  shows "acquire_generation digest now suffix token n secs cons prep calm (\<lambda>s. s) s =
    (let c = new_context digest now suffix token n secs cons prep (gen_fence (gen_at s) + 1) in
     (Inr c, snd (put BUILD_KEY (Gen_Doc ((record_of c)\<lparr>gd_state := Some (gc_plan_state c)\<rparr>))
               (AList.update COORDINATOR_KEY (Gen_Doc (record_of c)) s))))"
proof -
  have "map_of s COORDINATOR_KEY = map_option Gen_Doc (gen_at s)"
    using read_gen_Inr [OF read_gen_ok [OF assms]] by simp
  then show ?thesis
    using assms
    by (simp add: acquire_generation_def read_gen_ok calm_def gen_fence_def [symmetric] compare_and_swap_def Let_def)
qed

theorem superseded_generation_fenced_witness:
  "\<exists>c1 s1 c2 s2.
     acquire_generation (\<lambda>_. ''h'') 0 ''x'' ''t1'' 1 60 ''best_effort'' False calm (\<lambda>s. s) ([] :: (int, int) gen_store) = (Inr c1, s1)
     \<and> acquire_generation (\<lambda>_. ''h'') 5 ''y'' ''t2'' 1 60 ''best_effort'' False calm (\<lambda>s. s) s1 = (Inr c2, s2)
     \<and> gc_fence c1 < gc_fence c2
     \<and> fenced_put gen_view 6 COORDINATOR_KEY (gc_generation_id c1) (gc_fence c1) ''k'' (Entry 1) s2 = (Inr False, s2)"
proof -
  have ok0: "coord_ok ([] :: (int, int) gen_store)" by (simp add: coord_ok_def)
  obtain c1 s1 where one: "acquire_generation (\<lambda>_. ''h'') 0 ''x'' ''t1'' 1 60 ''best_effort'' False calm (\<lambda>s. s)
      ([] :: (int, int) gen_store) = (Inr c1, s1)"
    using acquire_generation_calm [OF ok0] by (metis (no_types))
  have ok1: "coord_ok s1" using acquire_generation_cases [OF one ok0] by simp
  obtain c2 s2 where two: "acquire_generation (\<lambda>_. ''h'') 5 ''y'' ''t2'' 1 60 ''best_effort'' False calm (\<lambda>s. s) s1
      = (Inr c2, s2)"
    using acquire_generation_calm [OF ok1] by (metis (no_types))
  have ok2: "coord_ok s2" using acquire_generation_cases [OF two ok1] by simp
  show ?thesis
    using one two superseded_generation_fenced [OF ok0 _ _ one ok1 rtranclp.rtrancl_refl _ _ two ok2
        rtranclp.rtrancl_refl, of 6 "''k''" "Entry 1"] by simp
qed

text \<open>
  Coordinator records keep the whole context. Reading back the record written for a context of the
  current version, with its plans in table order and the digest of these plans, gives the same context.
\<close>

theorem context_record_roundtrip:
  assumes "2 \<le> gc_version c" and "sorted (map tp_table_id (gc_table_plans c))"
    and "gc_plan_sha256 c = plan_digest digest (gc_table_plans c)"
  shows "context_of digest (record_of c) = Inr c"
proof -
  have "plan_payload (gc_table_plans c) = gc_table_plans c"
    using assms(2) unfolding plan_payload_def by (rule sort_key_id_if_sorted)
  then show ?thesis
    using assms by (auto simp: context_of_def record_of_def Let_def)
qed

theorem context_record_roundtrip_witness:
  "context_of (\<lambda>_. ''h'')
     (record_of (new_context (\<lambda>_. ''h'') 0 ''s'' ''t'' 2 300 ''best_effort'' False 1 :: int generation_context))
   = Inr (new_context (\<lambda>_. ''h'') 0 ''s'' ''t'' 2 300 ''best_effort'' False 1)"
  by (rule context_record_roundtrip) (simp_all add: new_context_def plan_digest_def)

lemma check_plans_Inr: "check_plans c ps = Inr () \<longleftrightarrow> (\<forall>p\<in>set ps. check_plan c p = Inr ())"
  by (induction ps) (auto split: sum.splits)

lemma read_other_update [simp]:
  "read_raw_json COORDINATOR_KEY (AList.update BUILD_KEY d s) = read_raw_json COORDINATOR_KEY s"
  "read_raw_json BUILD_KEY (AList.update BUILD_KEY (Gen_Doc d') s) = Inr (Some (Gen_Doc d'), Some d')"
  by (simp_all add: read_raw_json_def get_object_def)

lemma publish_calm:
  fixes s :: "('p, 'c) gen_store"
  assumes "gen_at s = Some (record_of c)" and "coord_ok s" and "context_of digest (record_of c) = Inr c"
    and "now < gc_expires_at_ms c" and "2 \<le> gc_version c" and "gc_plan_state c = ''PREPARING''"
    and "distinct (map tp_table_id plans)"
    and "\<forall>p\<in>set plans. tp_generation_id p = gc_generation_id c \<and> tp_generation_fence p = gc_fence c
      \<and> tp_owner_shard p < gc_shard_count c"
  defines "ready \<equiv> c\<lparr>gc_plan_state := ''READY'', gc_table_plans := sort_key tp_table_id plans,
      gc_plan_sha256 := plan_digest digest (sort_key tp_table_id plans)\<rparr>"
  shows "publish_generation_plan digest now c plans calm (\<lambda>s. s) s =
    (Inr ready, snd (put BUILD_KEY (Gen_Doc ((record_of ready)\<lparr>gd_state := Some ''READY''\<rparr>))
       (AList.update COORDINATOR_KEY (Gen_Doc (record_of ready)) s)))"
proof -
  have read: "read_raw_json COORDINATOR_KEY s = Inr (Some (Gen_Doc (record_of c)), Some (record_of c))"
    using read_gen_ok [OF assms(2)] assms(1) by simp
  have lease: "assert_generation_lease now c s = Inr ()"
    using assms(4) by (simp add: assert_generation_lease_def lease_age_def read)
  have dist: "distinct (map tp_table_id (sort_key tp_table_id plans))"
    using assms(7) by (simp add: distinct_map)
  have check: "check_plans c (sort_key tp_table_id plans) = Inr ()"
    using assms(8) by (auto simp: check_plans_Inr check_plan_def)
  have again: "context_of digest (record_of ready) = Inr ready"
  proof -
    have "plan_payload (gc_table_plans ready) = gc_table_plans ready"
      unfolding plan_payload_def by (rule sort_key_id_if_sorted) (simp add: ready_def)
    then show ?thesis using assms(5) by (auto simp: context_of_def record_of_def Let_def ready_def)
  qed
  have store: "map_of s COORDINATOR_KEY = Some (Gen_Doc (record_of c))" using read_gen_Inr [OF read] by simp
  show ?thesis
    unfolding publish_generation_plan_def
    using lease dist check read again store assms(3,5,6)
    by (simp add: Let_def ready_def [symmetric] calm_def compare_and_swap_def put_def)
qed


definition demo_plan :: "int table_plan" where
  "demo_plan = \<lparr>tp_table_id = ''orders'', tp_generation_id = pad_20 1 @ ''-x'', tp_generation_fence = 1,
     tp_owner_shard = 0, tp_provider = ''none'', tp_token = None, tp_rest = 0\<rparr>"


lemma redact_step:
  assumes "tok \<noteq> []" and "set p \<inter> set REDACTED = {}" and "p \<noteq> []"
    and "p = tok \<or> \<not> occurs_in p s"
  shows "\<not> occurs_in p (py_replace tok REDACTED s)"
proof -
  have "REDACTED \<noteq> []" by (simp add: REDACTED_def)
  then show ?thesis
    using assms replaced_gone [of tok REDACTED s] occurs_in_replace [of p tok REDACTED s]
    by (auto simp: py_replace_def)
qed

lemma redact_fold:
  assumes "[] \<notin> set toks" and "set p \<inter> set REDACTED = {}" and "p \<noteq> []" and "p \<in> set toks \<or> \<not> occurs_in p s"
  shows "\<not> occurs_in p (fold (\<lambda>tok r. py_replace tok REDACTED r) toks s)"
  using assms
proof (induction toks arbitrary: s)
  case (Cons tok toks)
  show ?case
  proof (cases "p \<in> set toks")
    case True
    then show ?thesis using Cons by simp
  next
    case False
    then have "\<not> occurs_in p (py_replace tok REDACTED s)" using Cons.prems by (intro redact_step) auto
    then show ?thesis using Cons by simp
  qed
qed simp

text \<open>
  A failed plan does not leak its tokens. The error text that \<open>fail_generation_plan\<close> publishes contains
  neither the coordinator's lease token nor the read-point token of any planned table, for every
  reason given (tokens that share a character with the replacement text excepted).
\<close>

theorem failed_plan_hides_tokens:
  assumes "fail_generation_plan now c reason s = (Inr (), s')"
    and "tok \<noteq> []" and "set tok \<inter> set REDACTED = {}" and "gc_lease_token c \<noteq> []"
    and "tok = gc_lease_token c \<or> (\<exists>p\<in>set (gc_table_plans c). tp_token p = Some tok)"
  shows "\<exists>d e. map_of s' BUILD_KEY = Some (Gen_Doc d) \<and> gd_error d = Some e \<and> gd_lease_token d = None
    \<and> gd_table_plans d = None \<and> \<not> occurs_in tok e"
proof -
  let ?toks = "gc_lease_token c # filter (\<lambda>tok. tok \<noteq> []) (List.map_filter tp_token (gc_table_plans c))"
  have "tok \<in> set ?toks" using assms(2,5) by (auto simp: List.map_filter_def image_iff)
  then have "\<not> occurs_in tok (redact_reason c reason)"
    using redact_fold [of ?toks tok reason] assms(2-4) by (simp add: redact_reason_def)
  then have "\<not> occurs_in tok (take 500 (redact_reason c reason))" using occurs_in_take by blast
  then show ?thesis
    using assms(1) by (auto simp: fail_generation_plan_def put_def split: sum.splits)
qed

theorem failed_plan_hides_tokens_witness:
  "\<exists>c s' d e. fail_generation_plan 1 (c :: int generation_context) ''token ab leaked'' s' = (Inr (), snd (fail_generation_plan 1 c ''token ab leaked'' s'))
     \<and> map_of (snd (fail_generation_plan 1 c ''token ab leaked'' s')) BUILD_KEY = Some (Gen_Doc d :: (int, int) gen_entry)
     \<and> gd_error d = Some e \<and> \<not> occurs_in ''ab'' e"
proof -
  define c :: "int generation_context" where "c = new_context (\<lambda>_. ''h'') 0 ''x'' ''ab'' 1 60 ''best_effort'' True 1"
  define s :: "(int, int) gen_store" where "s = [(COORDINATOR_KEY, Gen_Doc (record_of c))]"
  have "assert_generation_lease 1 c s = Inr ()"
    by (simp add: assert_generation_lease_def lease_age_def read_raw_json_def get_object_def s_def c_def new_context_def
        record_of_def)
  then have run: "fail_generation_plan 1 c ''token ab leaked'' s = (Inr (), snd (fail_generation_plan 1 c ''token ab leaked'' s))"
    by (simp add: fail_generation_plan_def)
  then show ?thesis
    using failed_plan_hides_tokens [OF run, of "''ab''"] by (auto simp: c_def new_context_def REDACTED_def)
qed

end
