(* ===== verification/Split_Completion.thy ===== *)
theory Split_Completion
  imports Generation
begin

text \<open>
  Completion records of distributed split materialization (\<open>runtime/split_completion.py\<close>): the data object
  is written first, under a key that never changes content within a generation, and the completion record
  last, fenced by the generation's coordinator record.

  Control documents (coordinator, build and completion records) and data objects live in two stores of the
  state, since their keys are disjoint. \<open>sha\<close> and \<open>md5\<close> are the hexadecimal digests of the standard library.
\<close>

section \<open>Column statistics\<close>

record column_stats =
  st_field_id :: int
  st_column_size :: int
  st_value_count :: int
  st_null_count :: int
  st_lower :: "bytes option"
  st_upper :: "bytes option"

record stats_doc =
  sd_field_id :: int
  sd_column_size :: int
  sd_value_count :: int
  sd_null_count :: int
  sd_lower :: "string option"
  sd_upper :: "string option"

definition encode_stats :: "(int, column_stats) dict \<Rightarrow> (string, stats_doc) dict" where
  "encode_stats stats =
     map (\<lambda>(field_id, st).
            (py_str_int field_id,
             \<lparr>sd_field_id = st_field_id st, sd_column_size = st_column_size st, sd_value_count = st_value_count st,
              sd_null_count = st_null_count st, sd_lower = map_option py_hex (st_lower st),
              sd_upper = map_option py_hex (st_upper st)\<rparr>)) stats"

definition decode_bound :: "string option \<Rightarrow> bytes option option" where
  "decode_bound b = (case b of None \<Rightarrow> Some None | Some h \<Rightarrow> map_option Some (py_fromhex h))"

definition decode_stat :: "string \<times> stats_doc \<Rightarrow> (int \<times> column_stats) option" where
  "decode_stat p =
     (case (py_int_of (fst p), decode_bound (sd_lower (snd p)), decode_bound (sd_upper (snd p))) of
        (Some field_id, Some lower, Some upper) \<Rightarrow>
          if sd_field_id (snd p) \<noteq> field_id then None
          else Some (field_id,
                 \<lparr>st_field_id = field_id, st_column_size = sd_column_size (snd p),
                  st_value_count = sd_value_count (snd p), st_null_count = sd_null_count (snd p),
                  st_lower = lower, st_upper = upper\<rparr>)
      | _ \<Rightarrow> None)"

text \<open>\<open>None\<close> stands for the \<open>ValueError\<close> of a malformed statistic, which the reader reports as an invalid record.\<close>

fun decode_stats :: "(string, stats_doc) dict \<Rightarrow> (int, column_stats) dict \<Rightarrow> (int, column_stats) dict option" where
  "decode_stats [] result = Some result"
| "decode_stats (p # raw) result =
     (case decode_stat p of None \<Rightarrow> None | Some (k, st) \<Rightarrow> decode_stats raw (AList.update k st result))"

section \<open>Completion records\<close>

record split_completion =
  sc_generation_id :: string
  sc_fence :: int
  sc_plan_sha256 :: string
  sc_object_key :: string
  sc_file_size :: int
  sc_record_count :: int
  sc_sha256 :: string
  sc_s3_etag :: string
  sc_stats :: "(int, column_stats) dict"

record completion_doc =
  cd_version :: "int option"
  cd_generation_id :: "string option"
  cd_fence :: "int option"
  cd_plan_sha256 :: "string option"
  cd_object_key :: "string option"
  cd_file_size :: "int option"
  cd_record_count :: "int option"
  cd_sha256 :: "string option"
  cd_s3_etag :: "string option"
  cd_stats :: "(string, stats_doc) dict option"

text \<open>The fields of a split descriptor; a split without a generation is a \<open>legacy\<close> one.\<close>

record split =
  sp_object_key :: string
  sp_file_size :: "int option"
  sp_record_count :: "int option"
  sp_stats :: "(int, column_stats) dict option"
  sp_content_hash :: "string option"
  sp_s3_etag :: "string option"
  sp_generation_id :: string
  sp_generation_fence :: int
  sp_generation_token :: string
  sp_generation_plan :: string

record 'p completion_state =
  cs_control :: "('p, completion_doc) gen_store"
  cs_data :: "bytes store"

datatype completion_error =
    Metadata_Missing | Bad_Content_Hash | Bad_Etag | Generation_Failure gen_error | Immutable_Conflict
  | Store_Raised store_error | Size_Mismatch | Completion_Fenced | Invalid_Completion | Data_Mismatch

definition completion_key :: "(string \<Rightarrow> string) \<Rightarrow> string \<Rightarrow> string \<Rightarrow> string" where
  "completion_key sha object_key generation_id =
     ''.fsp/generations/'' @ generation_id @ ''/split-completions/'' @ sha object_key @ ''.json''"

definition assign_generation :: "'p generation_context \<Rightarrow> split \<Rightarrow> split" where
  "assign_generation c sp =
     sp\<lparr>sp_generation_id := gc_generation_id c, sp_generation_fence := gc_fence c,
        sp_generation_token := gc_lease_token c, sp_generation_plan := gc_plan_sha256 c\<rparr>"

definition lower_hex :: "nat \<Rightarrow> string \<Rightarrow> bool" where
  "lower_hex n h \<longleftrightarrow> length h = n \<and> list_all (\<lambda>c. c \<in> set ''0123456789abcdef'') h"

definition check_identity ::
  "int \<Rightarrow> split \<Rightarrow> 'p completion_state \<Rightarrow> completion_error + unit" where
  "check_identity now sp st =
     (if sp_generation_id sp = ''legacy'' then Inr ()
      else map_sum Generation_Failure id
             (assert_generation_identity now (sp_generation_id sp) (sp_generation_fence sp)
                (sp_generation_token sp) (sp_generation_plan sp) (cs_control st)))"

definition completion_doc_of :: "split_completion \<Rightarrow> completion_doc" where
  "completion_doc_of c =
     \<lparr>cd_version = Some 2, cd_generation_id = Some (sc_generation_id c), cd_fence = Some (sc_fence c),
      cd_plan_sha256 = Some (sc_plan_sha256 c), cd_object_key = Some (sc_object_key c),
      cd_file_size = Some (sc_file_size c), cd_record_count = Some (sc_record_count c),
      cd_sha256 = Some (sc_sha256 c), cd_s3_etag = Some (sc_s3_etag c),
      cd_stats = Some (encode_stats (sc_stats c))\<rparr>"

definition publish_split_completion_record ::
  "(string \<Rightarrow> string) \<Rightarrow> int \<Rightarrow> split \<Rightarrow> string \<Rightarrow> string \<Rightarrow> 'p completion_state
     \<Rightarrow> (completion_error + split_completion) \<times> 'p completion_state" where
  "publish_split_completion_record sha now sp content_hash s3_etag st =
     (case (sp_file_size sp, sp_record_count sp) of
        (Some fsize, Some rcount) \<Rightarrow>
          if \<not> lower_hex 64 content_hash then (Inl Bad_Content_Hash, st)
          else if \<not> lower_hex 32 s3_etag then (Inl Bad_Etag, st)
          else (case check_identity now sp st of
                  Inl e \<Rightarrow> (Inl e, st)
                | Inr _ \<Rightarrow>
                    (case head (sp_object_key sp) (cs_data st) of
                       Inl e \<Rightarrow> (Inl (Store_Raised e), st)
                     | Inr None \<Rightarrow> (Inl Size_Mismatch, st)
                     | Inr (Some stat) \<Rightarrow>
                         if int (st_size stat) \<noteq> fsize then (Inl Size_Mismatch, st)
                         else let c = \<lparr>sc_generation_id = sp_generation_id sp, sc_fence = sp_generation_fence sp,
                                       sc_plan_sha256 = sp_generation_plan sp, sc_object_key = sp_object_key sp,
                                       sc_file_size = fsize, sc_record_count = rcount, sc_sha256 = content_hash,
                                       sc_s3_etag = s3_etag, sc_stats = with_default (sp_stats sp) []\<rparr>;
                                  key = completion_key sha (sp_object_key sp) (sp_generation_id sp);
                                  doc = Entry (completion_doc_of c)
                              in if sp_generation_id sp = ''legacy''
                                 then (case put key doc (cs_control st) of
                                         (Inl e, s') \<Rightarrow> (Inl (Store_Raised e), st)
                                       | (Inr _, s') \<Rightarrow> (Inr c, st\<lparr>cs_control := s'\<rparr>))
                                 else (case fenced_put gen_view now COORDINATOR_KEY (sp_generation_id sp)
                                              (sp_generation_fence sp) key doc (cs_control st) of
                                         (Inl e, s') \<Rightarrow> (Inl (Store_Raised e), st)
                                       | (Inr False, s') \<Rightarrow> (Inl Completion_Fenced, st)
                                       | (Inr True, s') \<Rightarrow> (Inr c, st\<lparr>cs_control := s'\<rparr>))))
      | _ \<Rightarrow> (Inl Metadata_Missing, st))"

text \<open>\<open>settle\<close> is what other processes do between the data write and the publication of the record.\<close>

definition publish_split_completion ::
  "(string \<Rightarrow> string) \<Rightarrow> (bytes \<Rightarrow> string) \<Rightarrow> int \<Rightarrow> split \<Rightarrow> bytes \<Rightarrow> ('p completion_state \<Rightarrow> 'p completion_state)
     \<Rightarrow> 'p completion_state \<Rightarrow> (completion_error + split_completion) \<times> 'p completion_state" where
  "publish_split_completion sha md5 now sp data settle st =
     (if sp_file_size sp = None \<or> sp_record_count sp = None then (Inl Metadata_Missing, st)
      else (case check_identity now sp st of
              Inl e \<Rightarrow> (Inl e, st)
            | Inr _ \<Rightarrow>
                let written =
                  (if sp_generation_id sp = ''legacy''
                   then (case put (sp_object_key sp) data (cs_data st) of
                           (Inl e, d) \<Rightarrow> (Inl (Store_Raised e), d) | (Inr _, d) \<Rightarrow> (Inr (), d))
                   else (case put_stream_if_absent sha (sp_object_key sp) (Reader [data])
                                (Some (int (length data))) (cs_data st) of
                           (Inl ObjectConflict, d) \<Rightarrow> (Inl Immutable_Conflict, d)
                         | (Inl e, d) \<Rightarrow> (Inl (Store_Raised e), d)
                         | (Inr _, d) \<Rightarrow> (Inr (), d)))
                in (case written of
                      (Inl e, d) \<Rightarrow> (Inl e, st\<lparr>cs_data := d\<rparr>)
                    | (Inr _, d) \<Rightarrow>
                        publish_split_completion_record sha now sp (sha data) (md5 data)
                          (settle (st\<lparr>cs_data := d\<rparr>)))))"

definition matches_split :: "split \<Rightarrow> completion_doc \<Rightarrow> bool" where
  "matches_split sp d \<longleftrightarrow>
     cd_version d \<in> {Some 1, Some 2}
     \<and> cd_generation_id d = Some (sp_generation_id sp)
     \<and> with_default (cd_fence d) (-1) = sp_generation_fence sp
     \<and> cd_object_key d = Some (sp_object_key sp)
     \<and> (sp_generation_plan sp = [] \<or> with_default (cd_plan_sha256 d) [] = sp_generation_plan sp)"

definition decode_completion ::
  "(bytes \<Rightarrow> string) \<Rightarrow> split \<Rightarrow> completion_doc \<Rightarrow> bytes store \<Rightarrow> completion_error + split_completion" where
  "decode_completion md5 sp d data =
     (if \<not> matches_split sp d then Inl Invalid_Completion
      else (case (if cd_s3_etag d \<in> {None, Some []}
                  then map_sum (\<lambda>_. Invalid_Completion) md5 (get_object (sp_object_key sp) data)
                  else Inr (the (cd_s3_etag d))) of
              Inl e \<Rightarrow> Inl e
            | Inr s3_etag \<Rightarrow>
                (case (cd_fence d, cd_file_size d, cd_record_count d, cd_sha256 d,
                       decode_stats (with_default (cd_stats d) []) []) of
                   (Some fence, Some fsize, Some rcount, Some h, Some stats) \<Rightarrow>
                     Inr \<lparr>sc_generation_id = sp_generation_id sp, sc_fence = fence,
                          sc_plan_sha256 = with_default (cd_plan_sha256 d) [], sc_object_key = sp_object_key sp,
                          sc_file_size = fsize, sc_record_count = rcount, sc_sha256 = h, sc_s3_etag = s3_etag,
                          sc_stats = stats\<rparr>
                 | _ \<Rightarrow> Inl Invalid_Completion)))"

definition read_split_completion ::
  "(string \<Rightarrow> string) \<Rightarrow> (bytes \<Rightarrow> string) \<Rightarrow> int \<Rightarrow> split \<Rightarrow> 'p completion_state
     \<Rightarrow> completion_error + split_completion option" where
  "read_split_completion sha md5 now sp st =
     (case check_identity now sp st of
        Inl e \<Rightarrow> Inl e
      | Inr _ \<Rightarrow>
          (case get_object (completion_key sha (sp_object_key sp) (sp_generation_id sp)) (cs_control st) of
             Inl (ObjectNotFound _) \<Rightarrow> Inr None
           | Inl e \<Rightarrow> Inl (Store_Raised e)
           | Inr (Gen_Doc _) \<Rightarrow> Inl Invalid_Completion
           | Inr (Entry d) \<Rightarrow>
               (case decode_completion md5 sp d (cs_data st) of
                  Inl e \<Rightarrow> Inl e
                | Inr c \<Rightarrow>
                    (case head (sp_object_key sp) (cs_data st) of
                       Inl e \<Rightarrow> Inl (Store_Raised e)
                     | Inr None \<Rightarrow> Inl Data_Mismatch
                     | Inr (Some stat) \<Rightarrow>
                         if int (st_size stat) \<noteq> sc_file_size c
                            \<or> verify sha (sp_object_key sp) (sc_file_size c) (sc_sha256 c) (cs_data st) \<noteq> Inr True
                         then Inl Data_Mismatch
                         else Inr (Some c)))))"

definition apply_split_completion :: "split \<Rightarrow> split_completion \<Rightarrow> int \<times> split" where
  "apply_split_completion sp c =
     (sc_record_count c,
      sp\<lparr>sp_file_size := Some (sc_file_size c), sp_record_count := Some (sc_record_count c),
         sp_stats := Some (sc_stats c), sp_content_hash := Some (sc_sha256 c), sp_s3_etag := Some (sc_s3_etag c)\<rparr>)"

section \<open>Properties\<close>

lemma decode_encode_stats:
  assumes "distinct (map fst (acc @ stats))" and "\<forall>(k, st) \<in> set stats. st_field_id st = k"
  shows "decode_stats (encode_stats stats) acc = Some (acc @ stats)"
  using assms
proof (induction stats arbitrary: acc)
  case (Cons p stats)
  obtain k st where p: "p = (k, st)" by fastforce
  have fresh: "k \<notin> set (keys_of acc)" and id: "st_field_id st = k" using Cons.prems p by auto
  have "decode_bound (map_option py_hex b) = Some b" for b by (cases b) (simp_all add: decode_bound_def)
  then have "decode_stat (py_str_int k,
      \<lparr>sd_field_id = st_field_id st, sd_column_size = st_column_size st, sd_value_count = st_value_count st,
       sd_null_count = st_null_count st, sd_lower = map_option py_hex (st_lower st),
       sd_upper = map_option py_hex (st_upper st)\<rparr>) = Some (k, st)"
    using id by (simp add: decode_stat_def)
  moreover have "AList.update k st acc = acc @ [(k, st)]" using fresh by (induction acc) auto
  ultimately show ?case
    using Cons.IH [of "acc @ [(k, st)]"] Cons.prems p by (simp add: encode_stats_def)
qed (simp add: encode_stats_def)

text \<open>
  Column statistics survive the completion record: decoding the encoded statistics of distinct fields
  gives the statistics back, with all bounds byte for byte.
\<close>

theorem stats_roundtrip:
  assumes "distinct (keys_of stats)" and "\<forall>(k, st) \<in> set stats. st_field_id st = k"
  shows "decode_stats (encode_stats stats) [] = Some stats"
  using decode_encode_stats [of "[]" stats] assms by simp

theorem stats_roundtrip_witness:
  "decode_stats (encode_stats
     [(3, \<lparr>st_field_id = 3, st_column_size = 10, st_value_count = 4, st_null_count = 1,
           st_lower = Some ''ab'', st_upper = None\<rparr>)]) []
   = Some [(3, \<lparr>st_field_id = 3, st_column_size = 10, st_value_count = 4, st_null_count = 1,
           st_lower = Some ''ab'', st_upper = None\<rparr>)]"
  by (rule stats_roundtrip) simp_all

text \<open>
  C32: A completion that is read is backed by its data. Whenever a completion is returned for a split, the
  data object exists with the recorded size and content hash, the record belongs to this split and
  generation, and (outside legacy splits) the generation still owns the coordinator record.
\<close>

theorem completion_read_is_backed:
  assumes "read_split_completion sha md5 now sp st = Inr (Some c)" and "plain_key (sp_object_key sp)"
  shows "\<exists>data. map_of (cs_data st) (sp_object_key sp) = Some data
      \<and> int (length data) = sc_file_size c \<and> sha data = sc_sha256 c
      \<and> sc_object_key c = sp_object_key sp \<and> sc_generation_id c = sp_generation_id sp
      \<and> sc_fence c = sp_generation_fence sp
      \<and> (sp_generation_id sp = ''legacy''
         \<or> assert_generation_identity now (sp_generation_id sp) (sp_generation_fence sp)
              (sp_generation_token sp) (sp_generation_plan sp) (cs_control st) = Inr ())"
proof -
  have ident: "check_identity now sp st = Inr ()"
    using assms(1) by (auto simp: read_split_completion_def split: sum.splits)
  obtain d where d: "decode_completion md5 sp d (cs_data st) = Inr c"
    using assms(1) by (auto simp: read_split_completion_def split: sum.splits store_error.splits gen_entry.splits
        option.splits if_splits)
  have "verify sha (sp_object_key sp) (sc_file_size c) (sc_sha256 c) (cs_data st) = Inr True"
    using assms(1) d by (auto simp: read_split_completion_def split: sum.splits store_error.splits gen_entry.splits
        option.splits if_splits)
  then obtain data where "map_of (cs_data st) (sp_object_key sp) = Some data" "int (length data) = sc_file_size c"
    "sha data = sc_sha256 c"
    using assms(2) by (auto simp: verify_def split: option.splits)
  moreover have "sc_object_key c = sp_object_key sp" "sc_generation_id c = sp_generation_id sp"
    "sc_fence c = sp_generation_fence sp"
    using d by (auto simp: decode_completion_def matches_split_def split: if_splits sum.splits option.splits prod.splits)
  moreover have "sp_generation_id sp = ''legacy'' \<or> assert_generation_identity now (sp_generation_id sp)
      (sp_generation_fence sp) (sp_generation_token sp) (sp_generation_plan sp) (cs_control st) = Inr ()"
    using ident
    by (cases "assert_generation_identity now (sp_generation_id sp)
      (sp_generation_fence sp) (sp_generation_token sp) (sp_generation_plan sp) (cs_control st)")
       (auto simp: check_identity_def split: if_splits)
  ultimately show ?thesis by blast
qed

lemma put_absent_data:
  assumes "put_stream_if_absent sha key (Reader [v]) (Some (int (length v))) d = (r, d')" and "plain_key key"
  shows "r = Inr stat \<Longrightarrow> \<exists>stored. map_of d' key = Some stored \<and> length stored = length v \<and> sha stored = sha v"
    and "map_of d k = Some x \<Longrightarrow> map_of d' k = Some x"
proof -
  have v: "concat (input_chunks (Reader [v])) = v" by (cases v) auto
  have run: "put_stream_if_absent sha key (Reader [v]) (Some (int (length v))) d =
    (if map_of d key = None then (Inr \<lparr>st_key = key, st_size = length v\<rparr>, AList.update key v d)
     else if length (the (map_of d key)) = length v \<and> sha (the (map_of d key)) = sha v
     then (Inr \<lparr>st_key = key, st_size = length v\<rparr>, d) else (Inl ObjectConflict, d))"
    using assms(2) unfolding put_stream_if_absent_def v
    by (auto simp: Let_def compare_and_swap_def head_def verify_def split: option.splits)
  show "r = Inr stat \<Longrightarrow> \<exists>stored. map_of d' key = Some stored \<and> length stored = length v \<and> sha stored = sha v"
    and "map_of d k = Some x \<Longrightarrow> map_of d' k = Some x"
    using assms(1) unfolding run by (auto split: if_splits)
qed

lemma publish_record_Inr:
  assumes "publish_split_completion_record sha now sp h tag st = (Inr c, st')"
    and "plain_key (sp_object_key sp)" and "plain_key (completion_key sha (sp_object_key sp) (sp_generation_id sp))"
  shows "\<exists>fsize rcount data. sp_file_size sp = Some fsize \<and> sp_record_count sp = Some rcount
    \<and> map_of (cs_data st) (sp_object_key sp) = Some data \<and> int (length data) = fsize \<and> lower_hex 32 tag
    \<and> c = \<lparr>sc_generation_id = sp_generation_id sp, sc_fence = sp_generation_fence sp,
           sc_plan_sha256 = sp_generation_plan sp, sc_object_key = sp_object_key sp, sc_file_size = fsize,
           sc_record_count = rcount, sc_sha256 = h, sc_s3_etag = tag, sc_stats = with_default (sp_stats sp) []\<rparr>
    \<and> st' = st\<lparr>cs_control := AList.update (completion_key sha (sp_object_key sp) (sp_generation_id sp))
                               (Entry (completion_doc_of c)) (cs_control st)\<rparr>"
proof -
  obtain fsize rcount where sz: "sp_file_size sp = Some fsize" "sp_record_count sp = Some rcount"
    using assms(1) by (auto simp: publish_split_completion_record_def split: option.splits)
  have hex: "lower_hex 64 h" "lower_hex 32 tag" and ident: "check_identity now sp st = Inr ()"
    using assms(1) sz by (auto simp: publish_split_completion_record_def split: if_splits sum.splits)
  obtain data where data: "map_of (cs_data st) (sp_object_key sp) = Some data" "int (length data) = fsize"
    using assms(1,2) sz hex ident
    by (auto simp: publish_split_completion_record_def head_def split: option.splits if_splits)
  show ?thesis
    using assms sz hex ident data
    by (auto simp: publish_split_completion_record_def head_def put_def fenced_put_def Let_def
        split: if_splits sum.splits bool.splits)
qed

lemma completion_roundtrip_aux:
  assumes "publish_split_completion sha md5 now sp data settle st = (Inr c, st')"
    and "\<forall>s. map_of (cs_data (settle s)) (sp_object_key sp) = map_of (cs_data s) (sp_object_key sp)"
    and "plain_key (sp_object_key sp)" and "plain_key (completion_key sha (sp_object_key sp) (sp_generation_id sp))"
    and "distinct (keys_of (with_default (sp_stats sp) []))"
    and "\<forall>(k, x) \<in> set (with_default (sp_stats sp) []). st_field_id x = k"
    and "check_identity now' sp st' = Inr ()"
  shows "read_split_completion sha md5 now' sp st' = Inr (Some c) \<and> sc_sha256 c = sha data
    \<and> sc_s3_etag c = md5 data \<and> sp_file_size sp = Some (sc_file_size c) \<and> sp_record_count sp = Some (sc_record_count c)"
proof -
  let ?key = "sp_object_key sp" and ?ckey = "completion_key sha (sp_object_key sp) (sp_generation_id sp)"
  obtain d where d: "publish_split_completion_record sha now sp (sha data) (md5 data) (settle (st\<lparr>cs_data := d\<rparr>)) = (Inr c, st')"
    and stored: "\<exists>x. map_of d ?key = Some x \<and> length x = length data \<and> sha x = sha data"
    using assms(1,3)
    by (auto simp: publish_split_completion_def Let_def put_def
        split: if_splits sum.splits prod.splits store_error.splits
        dest!: put_absent_data(1) [OF _ assms(3) refl])
  note pub = publish_record_Inr [OF d assms(3,4)]
  obtain x where x: "map_of d ?key = Some x" "length x = length data" "sha x = sha data" using stored by blast
  have data': "cs_data st' = cs_data (settle (st\<lparr>cs_data := d\<rparr>))" "map_of (cs_data st') ?key = Some x"
    using pub assms(2) x by auto
  have doc: "get_object ?ckey (cs_control st') = Inr (Entry (completion_doc_of c))"
    using pub assms(4) by (auto simp: get_object_def)
  have fields: "sc_file_size c = int (length x)" "sc_sha256 c = sha data" "sc_s3_etag c = md5 data"
    "sp_file_size sp = Some (sc_file_size c)" "sp_record_count sp = Some (sc_record_count c)"
    "sc_stats c = with_default (sp_stats sp) []" "sc_generation_id c = sp_generation_id sp"
    "sc_fence c = sp_generation_fence sp" "sc_plan_sha256 c = sp_generation_plan sp" "sc_object_key c = ?key"
    and tag: "md5 data \<noteq> []"
    using pub data' assms(2) x by (auto simp: lower_hex_def)
  have "decode_completion md5 sp (completion_doc_of c) (cs_data st') = Inr c"
    using fields tag decode_encode_stats [of "[]" "sc_stats c"] assms(5,6)
    by (cases c) (simp add: decode_completion_def matches_split_def completion_doc_of_def)
  then show ?thesis
    using assms(3,7) doc data' fields x(3)
    by (simp add: read_split_completion_def head_def verify_def)
qed

text \<open>
  C31: Publish and read back. If publishing a split's bytes succeeds (other processes leaving this split's data
  alone meanwhile), then as long as the generation owns the coordinator record, reading the completion
  returns what was published: size, row count, content hash, entity tag and column statistics.
\<close>

theorem completion_roundtrip:
  assumes "publish_split_completion sha md5 now sp data settle st = (Inr c, st')"
    and "\<forall>s. map_of (cs_data (settle s)) (sp_object_key sp) = map_of (cs_data s) (sp_object_key sp)"
    and "plain_key (sp_object_key sp)" and "plain_key (completion_key sha (sp_object_key sp) (sp_generation_id sp))"
    and "distinct (keys_of (with_default (sp_stats sp) []))"
    and "\<forall>(k, x) \<in> set (with_default (sp_stats sp) []). st_field_id x = k"
    and "check_identity now' sp st' = Inr ()"
  shows "read_split_completion sha md5 now' sp st' = Inr (Some c) \<and> sc_sha256 c = sha data
    \<and> sc_s3_etag c = md5 data \<and> sp_file_size sp = Some (sc_file_size c) \<and> sp_record_count sp = Some (sc_record_count c)"
  by (rule completion_roundtrip_aux [OF assms])

definition demo_split :: split where
  "demo_split = \<lparr>sp_object_key = ''t/data/0.parquet'', sp_file_size = Some 3, sp_record_count = Some 7, sp_stats = None,
     sp_content_hash = None, sp_s3_etag = None, sp_generation_id = ''legacy'', sp_generation_fence = 0,
     sp_generation_token = [], sp_generation_plan = []\<rparr>"

definition demo_sha :: "string \<Rightarrow> string" where
  "demo_sha s = replicate 64 (CHR ''a'')"

definition demo_md5 :: "string \<Rightarrow> string" where
  "demo_md5 s = replicate 32 (CHR ''b'')"

definition demo_state :: "int completion_state" where
  "demo_state = \<lparr>cs_control = [], cs_data = []\<rparr>"

lemma demo_split_keys:
  "plain_key (sp_object_key demo_split)" "sp_generation_id demo_split = ''legacy''"
  "plain_key (completion_key demo_sha (sp_object_key demo_split) ''legacy'')"
  by (simp_all add: demo_split_def completion_key_def demo_sha_def plain_key_def plain_segment_def numeral_eq_Suc)

lemma demo_publish:
  "\<exists>c st'. publish_split_completion demo_sha demo_md5 0 demo_split ''abc'' (\<lambda>s. s) demo_state = (Inr c, st')"
proof -
  have hex: "lower_hex 64 (demo_sha ''abc'')" "lower_hex 32 (demo_md5 ''abc'')"
    by (simp_all add: lower_hex_def demo_sha_def demo_md5_def list_all_iff)
  have key: "plain_key ''t/data/0.parquet''" using demo_split_keys(1) by (simp add: demo_split_def)
  have ckey: "plain_key (completion_key demo_sha ''t/data/0.parquet'' ''legacy'')"
    using demo_split_keys(3) by (simp add: demo_split_def)
  show ?thesis
    using hex key ckey
    by (simp add: publish_split_completion_def publish_split_completion_record_def check_identity_def demo_split_def
        demo_state_def put_def head_def Let_def)
qed

theorem completion_roundtrip_witness:
  "\<exists>c st'. publish_split_completion demo_sha demo_md5 0 demo_split ''abc'' (\<lambda>s. s) demo_state = (Inr c, st')
     \<and> read_split_completion demo_sha demo_md5 1 demo_split st' = Inr (Some c)"
proof -
  obtain c st' where run: "publish_split_completion demo_sha demo_md5 0 demo_split ''abc'' (\<lambda>s. s) demo_state = (Inr c, st')"
    using demo_publish by blast
  have "check_identity 1 demo_split st' = Inr ()" by (simp add: check_identity_def demo_split_keys)
  then show ?thesis
    using run completion_roundtrip [OF run, of 1] demo_split_keys by (simp add: demo_split_def)
qed

theorem completion_read_is_backed_witness:
  "\<exists>st' data. map_of (cs_data st') ''t/data/0.parquet'' = Some data \<and> int (length data) = 3
     \<and> publish_split_completion demo_sha demo_md5 0 demo_split ''abc'' (\<lambda>s. s) demo_state = (Inr
         \<lparr>sc_generation_id = ''legacy'', sc_fence = 0, sc_plan_sha256 = [], sc_object_key = ''t/data/0.parquet'',
          sc_file_size = 3, sc_record_count = 7, sc_sha256 = demo_sha ''abc'', sc_s3_etag = demo_md5 ''abc'', sc_stats = []\<rparr>, st')"
proof -
  obtain c st' where run: "publish_split_completion demo_sha demo_md5 0 demo_split ''abc'' (\<lambda>s. s) demo_state = (Inr c, st')"
    using demo_publish by blast
  have c: "c = \<lparr>sc_generation_id = ''legacy'', sc_fence = 0, sc_plan_sha256 = [], sc_object_key = ''t/data/0.parquet'',
      sc_file_size = 3, sc_record_count = 7, sc_sha256 = demo_sha ''abc'', sc_s3_etag = demo_md5 ''abc'', sc_stats = []\<rparr>"
    using run demo_split_keys
    by (auto simp: publish_split_completion_def publish_split_completion_record_def check_identity_def demo_split_def
        demo_state_def put_def head_def Let_def split: if_splits)
  have "check_identity 1 demo_split st' = Inr ()" by (simp add: check_identity_def demo_split_keys)
  then have "read_split_completion demo_sha demo_md5 1 demo_split st' = Inr (Some c)"
    using completion_roundtrip_aux [OF run, of 1] demo_split_keys by (simp add: demo_split_def)
  from completion_read_is_backed [OF this] show ?thesis
    using run c demo_split_keys(1) by (auto simp: demo_split_def)
qed



end
