(* ===== verification/Work_Queue.thy ===== *)
theory Work_Queue
  imports Split_Completion Contract
begin

text \<open>
  The durable work queue of the Manager (\<open>enterprise/control/work_queue.py\<close>) over the messages of \<open>Contract\<close>.

  The queue's records are kept in one dictionary per key prefix, by the identifier the key is made of
  (requests, tasks, results, snapshots, idempotency records and memberships), beside the data objects. The
  records are kept decoded: a stored task is the task that decoding gives back (\<open>canonical_task\<close>). An operation is a state transformer
  with an error result. Every record write asks the schedule \<open>q_io\<close> what happens to it: it commits; it is
  refused (the leadership check raises, the fenced put answers \<open>False\<close>, or the store raises), which leaves
  the record as it was; or it commits but the read-back verification raises. An error ends the operation with
  the records written so far, so that all statements hold for an operation that is cut off anywhere.
  A missing schedule entry is a commit. Reads of well-formed records do not fail.

  \<open>sha\<close> is the hexadecimal SHA-256, \<open>redact\<close> is \<open>config.redact_db_url\<close>, \<open>parquet_rows\<close> reads the row count of a
  Parquet file (\<open>None\<close> when it is invalid); the clock and random tokens are arguments.
\<close>

section \<open>Records\<close>

record claim =
  cl_agent_id :: string
  cl_agent_lease_hash :: string
  cl_claim_token :: string
  cl_claimed_at_ms :: int
  cl_expires_at_ms :: int
  cl_manager_owner :: string
  cl_manager_fence :: int
  cl_membership_version :: int
  cl_worker_fence :: int
  cl_staging_key :: string
  cl_lease_seconds :: int

record saved_result =
  sr_agent_id :: string
  sr_attempt :: int
  sr_size_bytes :: "int option"
  sr_record_count :: "int option"
  sr_content_hash :: "string option"
  sr_s3_etag :: "string option"
  sr_output_key :: "string option"
  sr_completed_at_ms :: int
  sr_error_code :: string

type_synonym stamp = "(string \<times> int) option"

record task =
  tk_task_id :: string
  tk_request_id :: string
  tk_state :: task_state
  tk_attempt :: int
  tk_max_attempts :: int
  tk_available_at_ms :: int
  tk_claim :: "claim option"
  tk_task :: materialize_task
  tk_result :: "saved_result option"
  tk_last_error :: string
  tk_created_at_ms :: int
  tk_updated_at_ms :: int
  tk_revision :: int
  tk_dispatch_status :: "string option"
  tk_reassignment_count :: int
  tk_manager :: stamp

record request =
  rq_request_id :: string
  rq_idempotency_key :: string
  rq_requested_key :: string
  rq_table :: string
  rq_epoch :: int
  rq_table_format :: string
  rq_dataset_id :: string
  rq_tenant_id :: string
  rq_generation_id :: string
  rq_generation_fence :: int
  rq_plan_sha256 :: string
  rq_deadline_ms :: int
  rq_task_ids :: "string list"
  rq_state :: task_state
  rq_published :: bool
  rq_snapshot_key :: "(string \<times> int) option"
  rq_error :: string
  rq_created_at_ms :: int
  rq_updated_at_ms :: int
  rq_ready :: bool
  rq_manager :: stamp

record result_record =
  rr_task_id :: string
  rr_attempt :: int
  rr_state :: task_state
  rr_result :: saved_result
  rr_agent_lease_hash :: string
  rr_manager :: stamp

datatype worker_state = Active | Departed

record worker =
  wk_lease_hash :: string
  wk_capacity :: int
  wk_state :: worker_state
  wk_worker_fence :: int
  wk_joined_at_ms :: int
  wk_last_seen_ms :: int

record membership =
  mb_generation_id :: string
  mb_generation_fence :: int
  mb_version :: int
  mb_policy :: string
  mb_workers :: "(string, worker) dict"
  mb_reassignment_count :: int
  mb_last_change_reason :: string
  mb_created_at_ms :: int
  mb_updated_at_ms :: int
  mb_manager :: stamp

datatype write_io = Io_Ok | Io_Refused | Io_Unverified

datatype queue_error = Work_Queue_Error string | Work_Queue_Conflict string | Stale_Leader_Error | Bad_Value string

record queue =
  q_requests :: "(string, request) dict"
  q_tasks :: "(string, task) dict"
  q_results :: "(string \<times> int, result_record) dict"
  q_snapshots :: "(string \<times> int, snapshot_manifest) dict"
  q_idempotency :: "(string, string) dict"
  q_memberships :: "(string, membership) dict"
  q_objects :: "bytes store"
  q_completions :: "completion_doc store"
  q_generation :: "unit generation_context option"
  q_io :: "write_io list"

record queue_config =
  qc_task_lease_seconds :: int
  qc_max_attempts :: int
  qc_retry_backoff_seconds :: int
  qc_retry_max_seconds :: int
  qc_leader :: stamp

definition new_config :: "int \<Rightarrow> int \<Rightarrow> int \<Rightarrow> int \<Rightarrow> stamp \<Rightarrow> queue_config" where
  "new_config task_lease_seconds max_attempts retry_backoff_seconds retry_max_seconds leader =
     \<lparr>qc_task_lease_seconds = max 1 task_lease_seconds, qc_max_attempts = max 1 max_attempts,
      qc_retry_backoff_seconds = max 0 retry_backoff_seconds,
      qc_retry_max_seconds = max (max 0 retry_backoff_seconds) retry_max_seconds, qc_leader = leader\<rparr>"

section \<open>Operations with errors\<close>

type_synonym 'a qm = "queue \<Rightarrow> (queue_error + 'a) \<times> queue"

definition qreturn :: "'a \<Rightarrow> 'a qm" where
  "qreturn x q = (Inr x, q)"

definition qraise :: "queue_error \<Rightarrow> 'a qm" where
  "qraise e q = (Inl e, q)"

definition qget :: "(queue \<Rightarrow> 'a) \<Rightarrow> 'a qm" where
  "qget f q = (Inr (f q), q)"

definition qbind :: "'a qm \<Rightarrow> ('a \<Rightarrow> 'b qm) \<Rightarrow> 'b qm" where
  "qbind m f q = (case m q of (Inl e, q') \<Rightarrow> (Inl e, q') | (Inr x, q') \<Rightarrow> f x q')"

fun qsum :: "('a \<Rightarrow> nat qm) \<Rightarrow> 'a list \<Rightarrow> nat qm" where
  "qsum f [] = qreturn 0"
| "qsum f (x # xs) = qbind (f x) (\<lambda>m. qbind (qsum f xs) (\<lambda>n. qreturn (m + n)))"

fun qfor :: "('a \<Rightarrow> unit qm) \<Rightarrow> 'a list \<Rightarrow> unit qm" where
  "qfor f [] = qreturn ()"
| "qfor f (x # xs) = qbind (f x) (\<lambda>_. qfor f xs)"

definition commit_with :: "queue_error \<Rightarrow> queue_error \<Rightarrow> (queue \<Rightarrow> queue) \<Rightarrow> unit qm" where
  "commit_with refused unverified upd q =
     (case q_io q of
        [] \<Rightarrow> (Inr (), upd q)
      | Io_Ok # io \<Rightarrow> (Inr (), upd (q\<lparr>q_io := io\<rparr>))
      | Io_Refused # io \<Rightarrow> (Inl refused, q\<lparr>q_io := io\<rparr>)
      | Io_Unverified # io \<Rightarrow> (Inl unverified, upd (q\<lparr>q_io := io\<rparr>)))"

definition commit :: "(queue \<Rightarrow> queue) \<Rightarrow> unit qm" where
  "commit = commit_with Stale_Leader_Error (Work_Queue_Error ''queue record verification failed'')"

definition stamped :: "queue_config \<Rightarrow> stamp \<Rightarrow> stamp" where
  "stamped cfg old = (case qc_leader cfg of None \<Rightarrow> old | Some term \<Rightarrow> Some term)"

definition put_task :: "queue_config \<Rightarrow> string \<Rightarrow> task \<Rightarrow> unit qm" where
  "put_task cfg tid t =
     commit (\<lambda>q. q\<lparr>q_tasks := AList.update tid (t\<lparr>tk_manager := stamped cfg (tk_manager t)\<rparr>) (q_tasks q)\<rparr>)"

definition put_request :: "queue_config \<Rightarrow> string \<Rightarrow> request \<Rightarrow> unit qm" where
  "put_request cfg rid r =
     commit (\<lambda>q. q\<lparr>q_requests := AList.update rid (r\<lparr>rq_manager := stamped cfg (rq_manager r)\<rparr>) (q_requests q)\<rparr>)"

definition put_result :: "queue_config \<Rightarrow> string \<Rightarrow> int \<Rightarrow> result_record \<Rightarrow> unit qm" where
  "put_result cfg tid attempt r =
     commit (\<lambda>q. q\<lparr>q_results := AList.update (tid, attempt) (r\<lparr>rr_manager := stamped cfg (rr_manager r)\<rparr>) (q_results q)\<rparr>)"

definition put_membership :: "queue_config \<Rightarrow> string \<Rightarrow> membership \<Rightarrow> unit qm" where
  "put_membership cfg gkey m =
     commit (\<lambda>q. q\<lparr>q_memberships := AList.update gkey (m\<lparr>mb_manager := stamped cfg (mb_manager m)\<rparr>) (q_memberships q)\<rparr>)"

definition put_idempotency :: "string \<Rightarrow> string \<Rightarrow> unit qm" where
  "put_idempotency k rid = commit (\<lambda>q. q\<lparr>q_idempotency := AList.update k rid (q_idempotency q)\<rparr>)"

definition commit_delete :: "(queue \<Rightarrow> bool) \<Rightarrow> (queue \<Rightarrow> queue) \<Rightarrow> bool qm" where
  "commit_delete present upd q =
     (case q_io q of
        [] \<Rightarrow> (Inr (present q), upd q)
      | Io_Refused # io \<Rightarrow> (Inl Stale_Leader_Error, q\<lparr>q_io := io\<rparr>)
      | _ # io \<Rightarrow> (Inr (present q), upd (q\<lparr>q_io := io\<rparr>)))"

definition delete_task :: "string \<Rightarrow> bool qm" where
  "delete_task tid = commit_delete (\<lambda>q. map_of (q_tasks q) tid \<noteq> None) (\<lambda>q. q\<lparr>q_tasks := AList.delete tid (q_tasks q)\<rparr>)"

definition delete_request :: "string \<Rightarrow> bool qm" where
  "delete_request rid =
     commit_delete (\<lambda>q. map_of (q_requests q) rid \<noteq> None) (\<lambda>q. q\<lparr>q_requests := AList.delete rid (q_requests q)\<rparr>)"

definition delete_result :: "string \<times> int \<Rightarrow> bool qm" where
  "delete_result k =
     commit_delete (\<lambda>q. map_of (q_results q) k \<noteq> None) (\<lambda>q. q\<lparr>q_results := AList.delete k (q_results q)\<rparr>)"

definition delete_idempotency :: "string \<Rightarrow> bool qm" where
  "delete_idempotency k =
     commit_delete (\<lambda>q. map_of (q_idempotency q) k \<noteq> None) (\<lambda>q. q\<lparr>q_idempotency := AList.delete k (q_idempotency q)\<rparr>)"

definition list_tasks :: "queue \<Rightarrow> task list" where
  "list_tasks q = sort_key tk_task_id (map snd (q_tasks q))"

definition result_keys :: "string \<Rightarrow> queue \<Rightarrow> (string \<times> int) list" where
  "result_keys tid q =
     sort_key (\<lambda>k. py_str_int (snd k) @ ''.json'') (filter (\<lambda>k. fst k = tid) (keys_of (q_results q)))"

definition list_requests :: "queue \<Rightarrow> string list" where
  "list_requests q = sort_key (\<lambda>rid. rid @ ''.json'') (keys_of (q_requests q))"

definition get_task :: "string \<Rightarrow> queue \<Rightarrow> task option" where
  "get_task tid q = map_of (q_tasks q) tid"

definition get_request :: "string \<Rightarrow> queue \<Rightarrow> request option" where
  "get_request rid q = map_of (q_requests q) rid"

definition get_membership :: "(string \<Rightarrow> string) \<Rightarrow> string \<Rightarrow> queue \<Rightarrow> membership option" where
  "get_membership sha gid q = map_of (q_memberships q) (sha gid)"

definition list_memberships :: "queue \<Rightarrow> membership list" where
  "list_memberships q =
     sort_key mb_updated_at_ms (sort_key mb_generation_id (map snd (sort_key fst (q_memberships q))))"

definition safe_error :: "(string \<Rightarrow> string) \<Rightarrow> string \<Rightarrow> string" where
  "safe_error redact v = take 500 (redact v)"

section \<open>Keys of staged outputs\<close>

definition rpartition_slash :: "string \<Rightarrow> string" where
  "rpartition_slash s = rev (drop 1 (dropWhile (\<lambda>c. c \<noteq> slash) (rev s)))"

definition STAGING_PREFIX :: string where
  "STAGING_PREFIX = ''.fsp/staging''"

definition staging_generation_prefix :: "(string \<Rightarrow> string) \<Rightarrow> string \<Rightarrow> string \<Rightarrow> string" where
  "staging_generation_prefix sha output_key generation_id =
     (let parent = rpartition_slash output_key in
      (if parent \<noteq> [] then parent @ ''/'' else []) @ STAGING_PREFIX @ ''/'' @ sha generation_id @ ''/'')"

definition staging_prefix :: "(string \<Rightarrow> string) \<Rightarrow> string \<Rightarrow> string \<Rightarrow> string \<Rightarrow> string" where
  "staging_prefix sha output_key generation_id task_id =
     staging_generation_prefix sha output_key generation_id @ task_id @ ''/''"

definition staging_key :: "(string \<Rightarrow> string) \<Rightarrow> string \<Rightarrow> string \<Rightarrow> string \<Rightarrow> int \<Rightarrow> string \<Rightarrow> string" where
  "staging_key sha output_key generation_id task_id attempt claim_token =
     staging_prefix sha output_key generation_id task_id @ py_str_int attempt @ ''-'' @ sha claim_token @ ''.parquet''"

section \<open>Requests follow their tasks\<close>

definition cancelled :: "int \<Rightarrow> string \<Rightarrow> task \<Rightarrow> task" where
  "cancelled now reason t =
     t\<lparr>tk_state := CANCELLED, tk_claim := None, tk_last_error := reason, tk_updated_at_ms := now,
       tk_revision := tk_revision t + 1\<rparr>"

definition request_tasks :: "request \<Rightarrow> queue \<Rightarrow> task list" where
  "request_tasks r q = List.map_filter (\<lambda>tid. get_task tid q) (rq_task_ids r)"

definition aggregate_state :: "task list \<Rightarrow> task_state" where
  "aggregate_state ts =
     (let states = set (map tk_state ts) in
      if ts \<noteq> [] \<and> states = {SUCCEEDED} then SUCCEEDED
      else if FAILED \<in> states then FAILED
      else if CLAIMED \<in> states then CLAIMED
      else if RETRY_WAIT \<in> states then RETRY_WAIT
      else QUEUED)"

definition cancel_if_open :: "queue_config \<Rightarrow> int \<Rightarrow> string \<Rightarrow> task \<Rightarrow> unit qm" where
  "cancel_if_open cfg now reason t =
     (if terminal (tk_state t) then qreturn () else put_task cfg (tk_task_id t) (cancelled now reason t))"

definition refresh_request :: "queue_config \<Rightarrow> int \<Rightarrow> string \<Rightarrow> unit qm" where
  "refresh_request cfg now rid =
     qbind (qget (\<lambda>q. (get_request rid q, q))) (\<lambda>(r0, q).
       case r0 of
         None \<Rightarrow> qreturn ()
       | Some r \<Rightarrow>
           if rq_published r \<or> terminal (rq_state r) then qreturn ()
           else
             let ts = request_tasks r q; st = aggregate_state ts in
             if st = FAILED then
               qbind (qfor (cancel_if_open cfg now ''request_failed'') ts) (\<lambda>_.
                 put_request cfg rid (r\<lparr>rq_state := FAILED,
                   rq_error := tk_last_error (hd (filter (\<lambda>t. tk_state t = FAILED) ts)),
                   rq_updated_at_ms := now\<rparr>))
             else put_request cfg rid (r\<lparr>rq_state := st, rq_updated_at_ms := now\<rparr>))"

definition refresh_requests :: "queue_config \<Rightarrow> int \<Rightarrow> unit qm" where
  "refresh_requests cfg now = qbind (qget list_requests) (qfor (refresh_request cfg now))"

section \<open>Expiry\<close>

definition past_deadline :: "int \<Rightarrow> task \<Rightarrow> bool" where
  "past_deadline now t \<longleftrightarrow> mt_deadline_ms (tk_task t) \<noteq> 0 \<and> mt_deadline_ms (tk_task t) \<le> now"

definition claim_expires :: "task \<Rightarrow> int" where
  "claim_expires t = (case tk_claim t of None \<Rightarrow> 0 | Some c \<Rightarrow> cl_expires_at_ms c)"

definition after_expiry :: "int \<Rightarrow> task \<Rightarrow> task_state" where
  "after_expiry now t = (if tk_attempt t \<ge> tk_max_attempts t \<or> past_deadline now t then FAILED else QUEUED)"

definition expired_task :: "int \<Rightarrow> task \<Rightarrow> task" where
  "expired_task now t =
     t\<lparr>tk_available_at_ms := now, tk_claim := None,
       tk_last_error := (if past_deadline now t then ''deadline_expired'' else ''claim_expired''),
       tk_updated_at_ms := now, tk_revision := tk_revision t + 1, tk_state := EXPIRED\<rparr>"

definition expire_task :: "queue_config \<Rightarrow> int \<Rightarrow> task \<Rightarrow> nat qm" where
  "expire_task cfg now t =
     (if tk_state t \<in> {QUEUED, RETRY_WAIT} \<and> past_deadline now t then
        qbind (put_task cfg (tk_task_id t)
                 (t\<lparr>tk_state := FAILED, tk_last_error := ''deadline_expired'', tk_updated_at_ms := now,
                    tk_revision := tk_revision t + 1\<rparr>))
          (\<lambda>_. qreturn 1)
      else if tk_state t = CLAIMED \<and> (claim_expires t \<le> now \<or> past_deadline now t) then
        qbind (put_task cfg (tk_task_id t) (expired_task now t)) (\<lambda>_.
        qbind (put_task cfg (tk_task_id t)
                 ((expired_task now t)\<lparr>tk_state := after_expiry now t, tk_revision := tk_revision t + 2\<rparr>))
          (\<lambda>_. qreturn 1))
      else qreturn 0)"

definition expire_claims :: "queue_config \<Rightarrow> int \<Rightarrow> nat qm" where
  "expire_claims cfg now =
     qbind (qget list_tasks) (\<lambda>ts.
     qbind (qsum (expire_task cfg now) ts) (\<lambda>n.
     qbind (refresh_requests cfg now) (\<lambda>_. qreturn n)))"

section \<open>Creation\<close>

definition identity_of :: "string \<Rightarrow> int \<Rightarrow> string \<Rightarrow> int \<Rightarrow> string \<Rightarrow> string \<Rightarrow> string" where
  "identity_of table epoch gid fence plan tenant =
     py_join ''|'' ([table, py_str_int epoch, gid, py_str_int fence, plan] @ (if tenant \<noteq> [] then [tenant] else []))"

definition datasets_of :: "materialize_task list \<Rightarrow> string list" where
  "datasets_of ts =
     remdups (map (\<lambda>t. mt_connection_id t @ ''::'' @ mt_source_table t)
       (filter (\<lambda>t. mt_connection_id t \<noteq> [] \<and> mt_source_table t \<noteq> []) ts))"

definition first_or_empty :: "string list \<Rightarrow> string" where
  "first_or_empty xs = (case xs of [] \<Rightarrow> [] | x # _ \<Rightarrow> x)"

record create_args =
  ca_requested_key :: string
  ca_table :: string
  ca_epoch :: int
  ca_table_format :: string
  ca_generation_id :: string
  ca_generation_fence :: int
  ca_plan_sha256 :: string
  ca_tasks :: "materialize_task list"
  ca_deadline_ms :: int

definition tenants_of :: "materialize_task list \<Rightarrow> string list" where
  "tenants_of ts = remdups (filter (\<lambda>x. x \<noteq> []) (map mt_tenant_id ts))"

definition spans_tenants :: "materialize_task list \<Rightarrow> bool" where
  "spans_tenants ts \<longleftrightarrow>
     length (tenants_of ts) > 1 \<or> tenants_of ts \<noteq> [] \<and> (\<exists>t\<in>set ts. mt_tenant_id t = [])"

definition identity_hash :: "(string \<Rightarrow> string) \<Rightarrow> create_args \<Rightarrow> string" where
  "identity_hash sha a =
     sha (identity_of (ca_table a) (ca_epoch a) (ca_generation_id a) (ca_generation_fence a) (ca_plan_sha256 a)
            (first_or_empty (tenants_of (ca_tasks a))))"

definition task_id_of :: "(string \<Rightarrow> string) \<Rightarrow> string \<Rightarrow> materialize_task \<Rightarrow> string" where
  "task_id_of sha rid t = sha (rid @ ''|'' @ py_str_int (mt_split_index t) @ ''|'' @ mt_output_key t)"

definition new_task :: "(string \<Rightarrow> string) \<Rightarrow> queue_config \<Rightarrow> int \<Rightarrow> create_args \<Rightarrow> string \<Rightarrow> materialize_task \<Rightarrow> task" where
  "new_task sha cfg now a rid t =
     \<lparr>tk_task_id = task_id_of sha rid t, tk_request_id = rid, tk_state = QUEUED, tk_attempt = 0,
      tk_max_attempts = qc_max_attempts cfg, tk_available_at_ms = now, tk_claim = None,
      tk_task = (canonical_task t)\<lparr>mt_task_id := task_id_of sha rid t, mt_request_id := rid, mt_generation_id := ca_generation_id a,
                  mt_generation_fence := ca_generation_fence a, mt_plan_sha256 := ca_plan_sha256 a,
                  mt_deadline_ms := ca_deadline_ms a\<rparr>,
      tk_result = None, tk_last_error = [], tk_created_at_ms = now, tk_updated_at_ms = now, tk_revision = 1,
      tk_dispatch_status = None, tk_reassignment_count = 0, tk_manager = None\<rparr>"

definition new_request :: "(string \<Rightarrow> string) \<Rightarrow> int \<Rightarrow> create_args \<Rightarrow> string \<Rightarrow> request" where
  "new_request sha now a rid =
     \<lparr>rq_request_id = rid, rq_idempotency_key = identity_hash sha a, rq_requested_key = ca_requested_key a,
      rq_table = ca_table a, rq_epoch = ca_epoch a, rq_table_format = ca_table_format a,
      rq_dataset_id = first_or_empty (datasets_of (ca_tasks a)),
      rq_tenant_id = first_or_empty (tenants_of (ca_tasks a)), rq_generation_id = ca_generation_id a,
      rq_generation_fence = ca_generation_fence a, rq_plan_sha256 = ca_plan_sha256 a,
      rq_deadline_ms = ca_deadline_ms a, rq_task_ids = map (task_id_of sha rid) (ca_tasks a), rq_state = QUEUED,
      rq_published = False, rq_snapshot_key = None, rq_error = [], rq_created_at_ms = now, rq_updated_at_ms = now,
      rq_ready = False, rq_manager = None\<rparr>"

definition create_request :: "(string \<Rightarrow> string) \<Rightarrow> queue_config \<Rightarrow> int \<Rightarrow> create_args \<Rightarrow> request qm" where
  "create_request sha cfg now a =
     (if spans_tenants (ca_tasks a) then qraise (Work_Queue_Conflict ''materialization request spans multiple tenants'')
      else
        let rid = identity_hash sha a; r = new_request sha now a rid in
        qbind (qget (\<lambda>q. (map_of (q_idempotency q) rid, q))) (\<lambda>(existing, q).
          case existing of
            Some old \<Rightarrow>
              (case get_request old q of
                 None \<Rightarrow> qraise (Work_Queue_Error ''idempotency record points to a missing request'')
               | Some r0 \<Rightarrow> qreturn r0)
          | None \<Rightarrow>
              if length (datasets_of (ca_tasks a)) > 1
              then qraise (Work_Queue_Conflict ''materialization request spans multiple datasets'')
              else
                qbind (put_request cfg rid r) (\<lambda>_.
                qbind (qfor (\<lambda>t. put_task cfg (tk_task_id t) t) (map (new_task sha cfg now a rid) (ca_tasks a))) (\<lambda>_.
                qbind (put_request cfg rid (r\<lparr>rq_ready := True\<rparr>)) (\<lambda>_.
                qbind (put_idempotency rid rid) (\<lambda>_.
                qreturn (r\<lparr>rq_ready := True\<rparr>)))))))"

section \<open>Dispatch\<close>

definition request_ready :: "queue \<Rightarrow> task \<Rightarrow> bool" where
  "request_ready q t = (case get_request (tk_request_id t) q of None \<Rightarrow> False | Some r \<Rightarrow> rq_ready r)"

definition runnable :: "int \<Rightarrow> queue \<Rightarrow> task \<Rightarrow> bool" where
  "runnable now q t \<longleftrightarrow> tk_state t \<in> {QUEUED, RETRY_WAIT} \<and> tk_available_at_ms t \<le> now \<and> request_ready q t"

definition runnable_tasks :: "queue_config \<Rightarrow> int \<Rightarrow> task list option \<Rightarrow> bool \<Rightarrow> task list qm" where
  "runnable_tasks cfg now tasks expire =
     qbind (if expire then expire_claims cfg now else qreturn 0) (\<lambda>_.
     qget (\<lambda>q. filter (runnable now q) (case tasks of None \<Rightarrow> list_tasks q | Some ts \<Rightarrow> ts)))"

definition set_dispatch_status :: "queue_config \<Rightarrow> int \<Rightarrow> string \<Rightarrow> string \<Rightarrow> bool qm" where
  "set_dispatch_status cfg now tid reason =
     qbind (qget (get_task tid)) (\<lambda>t0.
       case t0 of
         None \<Rightarrow> qreturn False
       | Some t \<Rightarrow>
           if tk_state t \<notin> {QUEUED, RETRY_WAIT} then qreturn False
           else if with_default (tk_dispatch_status t) [] = reason then qreturn False
           else
             qbind (put_task cfg tid
                      (t\<lparr>tk_dispatch_status := (if reason \<noteq> [] then Some reason else None),
                         tk_updated_at_ms := now, tk_revision := tk_revision t + 1\<rparr>))
               (\<lambda>_. qreturn True))"

section \<open>Recovery\<close>

record recovery =
  rc_removed_requests :: nat
  rc_removed_tasks :: nat
  rc_expired_claims :: nat

definition all_requests :: "queue \<Rightarrow> (string, request) dict" where
  "all_requests q =
     fold (\<lambda>rid d. case get_request rid q of None \<Rightarrow> d | Some r \<Rightarrow> AList.update (rq_request_id r) r d) (list_requests q) []"

definition recover_request :: "queue_config \<Rightarrow> int \<Rightarrow> string \<times> request \<Rightarrow> nat qm" where
  "recover_request cfg now = (\<lambda>(rid, r).
     if rq_ready r then
       qbind (qget (\<lambda>q. \<exists>tid\<in>set (rq_task_ids r). get_task tid q = None)) (\<lambda>missing.
       qbind (if missing
              then put_request cfg rid (r\<lparr>rq_state := FAILED, rq_error := ''missing_task_record'', rq_updated_at_ms := now\<rparr>)
              else qreturn ()) (\<lambda>_.
       qbind (put_idempotency (rq_idempotency_key r) rid) (\<lambda>_. qreturn 0)))
     else
       qbind (qsum (\<lambda>tid. qbind (delete_task tid) (\<lambda>b. qreturn (of_bool b))) (rq_task_ids r)) (\<lambda>n.
       qbind (delete_request rid) (\<lambda>_.
       qbind (delete_idempotency (rq_idempotency_key r)) (\<lambda>_. qreturn n))))"

definition delete_results :: "string \<Rightarrow> unit qm" where
  "delete_results tid =
     qbind (qget (result_keys tid)) (qfor (\<lambda>k. qbind (delete_result k) (\<lambda>_. qreturn ())))"

definition recover_task :: "queue_config \<Rightarrow> int \<Rightarrow> string set \<Rightarrow> task \<Rightarrow> nat qm" where
  "recover_task cfg now known t =
     (if tk_request_id t \<notin> known then
        qbind (delete_results (tk_task_id t)) (\<lambda>_.
        qbind (delete_task (tk_task_id t)) (\<lambda>b. qreturn (of_bool b)))
      else if tk_state t = EXPIRED then
        qbind (put_task cfg (tk_task_id t)
                 (t\<lparr>tk_state := after_expiry now t, tk_available_at_ms := now, tk_updated_at_ms := now,
                    tk_revision := tk_revision t + 1\<rparr>))
          (\<lambda>_. qreturn 0)
      else qreturn 0)"

definition recover :: "queue_config \<Rightarrow> int \<Rightarrow> recovery qm" where
  "recover cfg now =
     qbind (qget all_requests) (\<lambda>rs.
     qbind (qsum (recover_request cfg now) rs) (\<lambda>n1.
     qbind (qget list_tasks) (\<lambda>ts.
     qbind (qsum (recover_task cfg now (fst ` set (filter (\<lambda>x. rq_ready (snd x)) rs))) ts) (\<lambda>n2.
     qbind (expire_claims cfg now) (\<lambda>n3.
     qreturn \<lparr>rc_removed_requests = length (filter (\<lambda>x. \<not> rq_ready (snd x)) rs),
              rc_removed_tasks = n1 + n2, rc_expired_claims = n3\<rparr>)))))"

section \<open>Claims\<close>

record claim_args =
  ka_agent_id :: string
  ka_agent_lease_id :: string
  ka_manager_owner :: string
  ka_manager_fence :: int
  ka_membership_version :: int
  ka_worker_fence :: int
  ka_lease_seconds :: "int option"

definition claim_deadline :: "int \<Rightarrow> int \<Rightarrow> task \<Rightarrow> int" where
  "claim_deadline now duration t =
     min (now + duration * 1000)
         (if mt_deadline_ms (tk_task t) \<noteq> 0 then mt_deadline_ms (tk_task t) else now + duration * 1000)"

definition requeued :: "int \<Rightarrow> task \<Rightarrow> task" where
  "requeued now t = t\<lparr>tk_state := QUEUED, tk_updated_at_ms := now, tk_revision := tk_revision t + 1\<rparr>"

definition new_claim :: "(string \<Rightarrow> string) \<Rightarrow> int \<Rightarrow> int \<Rightarrow> string \<Rightarrow> string \<Rightarrow> claim_args \<Rightarrow> task \<Rightarrow> claim" where
  "new_claim sha now duration token tid a t =
     \<lparr>cl_agent_id = ka_agent_id a, cl_agent_lease_hash = sha (ka_agent_lease_id a), cl_claim_token = token,
      cl_claimed_at_ms = now, cl_expires_at_ms = claim_deadline now duration t,
      cl_manager_owner = ka_manager_owner a, cl_manager_fence = ka_manager_fence a,
      cl_membership_version = ka_membership_version a, cl_worker_fence = ka_worker_fence a,
      cl_staging_key = staging_key sha (mt_output_key (tk_task t)) (mt_generation_id (tk_task t)) tid
                         (tk_attempt t + 1) token,
      cl_lease_seconds = duration\<rparr>"

definition claimed :: "int \<Rightarrow> claim \<Rightarrow> task \<Rightarrow> task" where
  "claimed now c t =
     t\<lparr>tk_state := CLAIMED, tk_dispatch_status := None, tk_attempt := tk_attempt t + 1, tk_claim := Some c,
       tk_updated_at_ms := now, tk_revision := tk_revision t + 1\<rparr>"

definition delivered :: "claim \<Rightarrow> task \<Rightarrow> materialize_task" where
  "delivered c t =
     (tk_task t)\<lparr>mt_output_key := cl_staging_key c, mt_claim_token := cl_claim_token c,
                 mt_attempt := tk_attempt t + 1, mt_claim_expires_at_ms := cl_expires_at_ms c,
                 mt_membership_version := cl_membership_version c, mt_worker_fence := cl_worker_fence c\<rparr>"

definition claim_task ::
  "(string \<Rightarrow> string) \<Rightarrow> queue_config \<Rightarrow> int \<Rightarrow> string \<Rightarrow> string \<Rightarrow> claim_args \<Rightarrow> materialize_task qm" where
  "claim_task sha cfg now token tid a =
     (let duration = (case ka_lease_seconds a of None \<Rightarrow> qc_task_lease_seconds cfg | Some d \<Rightarrow> d) in
      if duration < 1 then qraise (Bad_Value ''claim lease_seconds must be a positive integer'')
      else qbind (qget (get_task tid)) (\<lambda>t0.
        case t0 of
          None \<Rightarrow> qraise (Work_Queue_Error ''unknown task'')
        | Some t \<Rightarrow>
            if tk_state t \<notin> {QUEUED, RETRY_WAIT} then qraise (Work_Queue_Conflict ''task cannot be claimed'')
            else if tk_available_at_ms t > now then qraise (Work_Queue_Conflict ''task is not available yet'')
            else
              let t1 = (if tk_state t = RETRY_WAIT then requeued now t else t);
                  c = new_claim sha now duration token tid a t1 in
              qbind (if tk_state t = RETRY_WAIT then put_task cfg tid t1 else qreturn ()) (\<lambda>_.
              qbind (put_task cfg tid (claimed now c t1)) (\<lambda>_.
              qreturn (delivered c t1)))))"

definition renews :: "(string \<Rightarrow> string) \<Rightarrow> int \<Rightarrow> string \<Rightarrow> string \<Rightarrow> task \<Rightarrow> claim \<Rightarrow> bool" where
  "renews sha now agent_id agent_lease_id t c \<longleftrightarrow>
     tk_state t = CLAIMED \<and> cl_expires_at_ms c > now \<and> cl_agent_id c = agent_id
     \<and> cl_agent_lease_hash c = sha agent_lease_id"

definition renew_claim :: "(string \<Rightarrow> string) \<Rightarrow> queue_config \<Rightarrow> int \<Rightarrow> string \<Rightarrow> string \<Rightarrow> string \<Rightarrow> nat qm" where
  "renew_claim sha cfg now agent_id agent_lease_id tid =
     qbind (qget (get_task tid)) (\<lambda>t0.
       case t0 of
         None \<Rightarrow> qreturn 0
       | Some t \<Rightarrow>
           (case tk_claim t of
              None \<Rightarrow> qreturn 0
            | Some c \<Rightarrow>
                if renews sha now agent_id agent_lease_id t c then
                  qbind (put_task cfg tid
                           (t\<lparr>tk_claim := Some (c\<lparr>cl_expires_at_ms := claim_deadline now (cl_lease_seconds c) t\<rparr>),
                              tk_updated_at_ms := now, tk_revision := tk_revision t + 1\<rparr>))
                    (\<lambda>_. qreturn 1)
                else qreturn 0))"

text \<open>\<open>task_ids\<close> is the set of reported tasks, listed in the order in which the set is iterated.\<close>

definition renew_agent_claims ::
  "(string \<Rightarrow> string) \<Rightarrow> queue_config \<Rightarrow> int \<Rightarrow> string \<Rightarrow> string \<Rightarrow> string list \<Rightarrow> nat qm" where
  "renew_agent_claims sha cfg now agent_id agent_lease_id task_ids =
     qsum (renew_claim sha cfg now agent_id agent_lease_id) (remdups task_ids)"

definition back_to_retry :: "int \<Rightarrow> string \<Rightarrow> task \<Rightarrow> task" where
  "back_to_retry now reason t =
     t\<lparr>tk_state := RETRY_WAIT, tk_claim := None, tk_available_at_ms := now, tk_last_error := reason,
       tk_updated_at_ms := now, tk_revision := tk_revision t + 1\<rparr>"

definition claim_token_of :: "task \<Rightarrow> string" where
  "claim_token_of t = (case tk_claim t of None \<Rightarrow> [] | Some c \<Rightarrow> cl_claim_token c)"

definition release_claim ::
  "(string \<Rightarrow> string) \<Rightarrow> queue_config \<Rightarrow> int \<Rightarrow> string \<Rightarrow> string \<Rightarrow> string \<Rightarrow> bool qm" where
  "release_claim redact cfg now tid token reason =
     qbind (qget (get_task tid)) (\<lambda>t0.
       case t0 of
         None \<Rightarrow> qreturn False
       | Some t \<Rightarrow>
           if tk_state t \<noteq> CLAIMED \<or> claim_token_of t \<noteq> token then qreturn False
           else
             qbind (put_task cfg tid (back_to_retry now (safe_error redact reason) t)) (\<lambda>_.
             qbind (refresh_requests cfg now) (\<lambda>_. qreturn True)))"

definition fence_claim :: "queue_config \<Rightarrow> int \<Rightarrow> string \<Rightarrow> int \<Rightarrow> task \<Rightarrow> nat qm" where
  "fence_claim cfg now owner fence t =
     (if tk_state t \<noteq> CLAIMED then qreturn 0
      else if (case tk_claim t of None \<Rightarrow> False | Some c \<Rightarrow> cl_manager_owner c = owner \<and> cl_manager_fence c = fence)
      then qreturn 0
      else qbind (put_task cfg (tk_task_id t) (back_to_retry now ''manager_fenced'' t)) (\<lambda>_. qreturn 1))"

definition fence_claims :: "queue_config \<Rightarrow> int \<Rightarrow> string \<Rightarrow> int \<Rightarrow> nat qm" where
  "fence_claims cfg now owner fence =
     qbind (qget list_tasks) (\<lambda>ts.
     qbind (qsum (fence_claim cfg now owner fence) ts) (\<lambda>n.
     qbind (if n > 0 then refresh_requests cfg now else qreturn ()) (\<lambda>_. qreturn n)))"

section \<open>Results\<close>

definition qlift :: "store_error + 'a \<Rightarrow> 'a qm" where
  "qlift r = (case r of Inl _ \<Rightarrow> qraise (Bad_Value ''invalid key'') | Inr x \<Rightarrow> qreturn x)"

definition verify_output ::
  "(string \<Rightarrow> string) \<Rightarrow> (bytes \<Rightarrow> int option) \<Rightarrow> string \<Rightarrow> task_result \<Rightarrow> string option qm" where
  "verify_output sha parquet_rows key r =
     qbind (qget q_objects) (\<lambda>objs.
     qbind (qlift (head key objs)) (\<lambda>st.
     if (case st of None \<Rightarrow> True | Some s \<Rightarrow> int (st_size s) \<noteq> tr_size_bytes r) then qreturn (Some ''size_mismatch'')
     else qbind (qlift (verify sha key (tr_size_bytes r) (tr_content_hash r) objs)) (\<lambda>ok.
     if \<not> ok then qreturn (Some ''output_verification_failed'')
     else if length (tr_s3_etag r) \<noteq> 32 \<or> (\<exists>c\<in>set (tr_s3_etag r). c \<notin> set ''0123456789abcdefABCDEF'')
     then qreturn (Some ''invalid_s3_etag'')
     else qbind (qlift (get_object key objs)) (\<lambda>data.
       qreturn (case parquet_rows data of
                  None \<Rightarrow> Some ''invalid_parquet''
                | Some n \<Rightarrow> if n \<noteq> tr_record_count r then Some ''row_count_mismatch'' else None)))))"

definition cancel_task :: "(string \<Rightarrow> string) \<Rightarrow> queue_config \<Rightarrow> int \<Rightarrow> string \<Rightarrow> string \<Rightarrow> unit qm" where
  "cancel_task redact cfg now reason tid =
     qbind (qget (get_task tid)) (\<lambda>t0.
       case t0 of
         None \<Rightarrow> qreturn ()
       | Some t \<Rightarrow>
           if terminal (tk_state t) then qreturn ()
           else put_task cfg tid (cancelled now (safe_error redact reason) t))"

definition cancel_request :: "(string \<Rightarrow> string) \<Rightarrow> queue_config \<Rightarrow> int \<Rightarrow> string \<Rightarrow> string \<Rightarrow> bool qm" where
  "cancel_request redact cfg now rid reason =
     qbind (qget (get_request rid)) (\<lambda>r0.
       case r0 of
         None \<Rightarrow> qreturn False
       | Some r \<Rightarrow>
           qbind (qfor (cancel_task redact cfg now reason) (rq_task_ids r)) (\<lambda>_.
           qbind (put_request cfg rid (r\<lparr>rq_state := CANCELLED, rq_error := safe_error redact reason,
                                         rq_updated_at_ms := now\<rparr>)) (\<lambda>_.
           qreturn True)))"

definition reply :: "bool \<Rightarrow> task_state option \<Rightarrow> bool \<Rightarrow> bool \<Rightarrow> result_code \<Rightarrow> ack" where
  "reply ok st dup term code =
     \<lparr>ack_ok = ok, ack_state = st, ack_duplicate = dup, ack_terminal = term, ack_reason_code = code\<rparr>"

text \<open>The saved results have no membership version and no worker fence: reading them gives the default 0.\<close>

definition same_as_saved :: "saved_result \<Rightarrow> task_result \<Rightarrow> bool" where
  "same_as_saved s r \<longleftrightarrow>
     sr_agent_id s = tr_agent_id r \<and> sr_attempt s = tr_attempt r
     \<and> with_default (sr_size_bytes s) 0 = tr_size_bytes r \<and> with_default (sr_record_count s) 0 = tr_record_count r
     \<and> with_default (sr_content_hash s) [] = tr_content_hash r \<and> with_default (sr_s3_etag s) [] = tr_s3_etag r
     \<and> sr_error_code s = tr_error_code r \<and> 0 = tr_membership_version r \<and> 0 = tr_worker_fence r"

definition prior_ack :: "(string \<Rightarrow> string) \<Rightarrow> string \<Rightarrow> task_result \<Rightarrow> result_record \<Rightarrow> ack" where
  "prior_ack sha lease_id r p =
     (if rr_agent_lease_hash p \<noteq> [] \<and> rr_agent_lease_hash p \<noteq> sha lease_id
      then reply False (Some (rr_state p)) False (terminal (rr_state p)) Stale_Claim
      else let same = same_as_saved (rr_result p) r in
        reply same (Some (rr_state p)) same (terminal (rr_state p)) (if same then Duplicate else Conflict))"

definition same_as_accepted :: "saved_result option \<Rightarrow> task_result \<Rightarrow> bool" where
  "same_as_accepted a r =
     (case a of
        None \<Rightarrow> False
      | Some s \<Rightarrow>
          sr_content_hash s = Some (tr_content_hash r) \<and> with_default (sr_size_bytes s) (-1) = tr_size_bytes r
          \<and> with_default (sr_record_count s) (-1) = tr_record_count r
          \<and> with_default (sr_s3_etag s) [] = tr_s3_etag r)"

definition worker_current :: "(string \<Rightarrow> string) \<Rightarrow> string \<Rightarrow> task_result \<Rightarrow> membership \<Rightarrow> bool" where
  "worker_current sha lease_id r m =
     (case map_of (mb_workers m) (tr_agent_id r) of
        None \<Rightarrow> False
      | Some w \<Rightarrow> wk_state w = Active \<and> wk_lease_hash w = sha lease_id \<and> wk_worker_fence w = tr_worker_fence r)"

text \<open>The checks of a reported result against the claim of its task: the answer when one fails.\<close>

definition claim_refusal :: "(string \<Rightarrow> string) \<Rightarrow> string \<Rightarrow> task_result \<Rightarrow> task \<Rightarrow> queue \<Rightarrow> ack option" where
  "claim_refusal sha lease_id r t q =
     (case tk_claim t of
        None \<Rightarrow>
          Some (if tk_state t \<noteq> CLAIMED \<or> tr_claim_token r \<noteq> []
                then reply False (Some (tk_state t)) False (terminal (tk_state t)) Stale_Claim
                else reply False (Some CLAIMED) False False Wrong_Owner)
      | Some c \<Rightarrow>
          if tk_state t \<noteq> CLAIMED \<or> cl_claim_token c \<noteq> tr_claim_token r
          then Some (reply False (Some (tk_state t)) False (terminal (tk_state t)) Stale_Claim)
          else if cl_agent_id c \<noteq> tr_agent_id r then Some (reply False (Some CLAIMED) False False Wrong_Owner)
          else if tr_attempt r \<noteq> tk_attempt t then Some (reply False (Some CLAIMED) False False Stale_Claim)
          else if cl_agent_lease_hash c \<noteq> sha lease_id then Some (reply False (Some CLAIMED) False False Stale_Claim)
          else if cl_membership_version c \<noteq> tr_membership_version r \<or> cl_worker_fence c \<noteq> tr_worker_fence r
          then Some (reply False (Some CLAIMED) False False Stale_Claim)
          else if tr_generation_id r \<noteq> [] \<and>
                  (case get_membership sha (tr_generation_id r) q of
                     None \<Rightarrow> False | Some m \<Rightarrow> \<not> worker_current sha lease_id r m)
          then Some (reply False (Some CLAIMED) False False Stale_Claim)
          else if tr_generation_id r \<noteq> mt_generation_id (tk_task t)
                  \<or> tr_generation_fence r \<noteq> mt_generation_fence (tk_task t)
                  \<or> tr_plan_sha256 r \<noteq> mt_plan_sha256 (tk_task t)
          then Some (reply False (Some CLAIMED) False False Stale_Generation)
          else None)"

definition superseded :: "task_result \<Rightarrow> queue \<Rightarrow> bool" where
  "superseded r q =
     (case q_generation q of
        None \<Rightarrow> False
      | Some g \<Rightarrow> tr_generation_id r \<noteq> gc_generation_id g \<or> tr_generation_fence r \<noteq> gc_fence g
                 \<or> tr_plan_sha256 r \<noteq> gc_plan_sha256 g)"

definition completed_at :: "int \<Rightarrow> task_result \<Rightarrow> int" where
  "completed_at now r = (if tr_completed_at_ms r \<noteq> 0 then tr_completed_at_ms r else now)"

definition retry_delay :: "queue_config \<Rightarrow> int \<Rightarrow> int" where
  "retry_delay cfg attempt =
     min (qc_retry_max_seconds cfg) (qc_retry_backoff_seconds cfg * 2 ^ nat (max 0 (attempt - 1)))"

definition succeeded_task :: "int \<Rightarrow> task_result \<Rightarrow> string \<Rightarrow> task \<Rightarrow> task" where
  "succeeded_task now r key t =
     t\<lparr>tk_state := SUCCEEDED,
       tk_result := Some \<lparr>sr_agent_id = tr_agent_id r, sr_attempt = tr_attempt r, sr_size_bytes = Some (tr_size_bytes r),
         sr_record_count = Some (tr_record_count r), sr_content_hash = Some (tr_content_hash r),
         sr_s3_etag = Some (tr_s3_etag r), sr_output_key = Some key, sr_completed_at_ms = completed_at now r,
         sr_error_code = []\<rparr>,
       tk_last_error := [], tk_claim := None, tk_updated_at_ms := now, tk_revision := tk_revision t + 1\<rparr>"

definition failed_task :: "(string \<Rightarrow> string) \<Rightarrow> queue_config \<Rightarrow> int \<Rightarrow> task_result \<Rightarrow> task \<Rightarrow> task" where
  "failed_task redact cfg now r t =
     (let retry = tr_retryable r \<and> tk_attempt t < tk_max_attempts t in
      t\<lparr>tk_last_error := safe_error redact (if tr_error r \<noteq> [] then tr_error r else tr_error_code r),
        tk_state := (if retry then RETRY_WAIT else FAILED),
        tk_available_at_ms := (if retry then now + retry_delay cfg (tk_attempt t) * 1000 else tk_available_at_ms t),
        tk_result := Some \<lparr>sr_agent_id = tr_agent_id r, sr_attempt = tr_attempt r, sr_size_bytes = None,
          sr_record_count = None, sr_content_hash = None, sr_s3_etag = None, sr_output_key = None,
          sr_completed_at_ms = completed_at now r,
          sr_error_code = (if tr_error_code r \<noteq> [] then tr_error_code r else ''agent_error'')\<rparr>,
        tk_claim := None, tk_updated_at_ms := now, tk_revision := tk_revision t + 1\<rparr>)"

definition settle :: "queue_config \<Rightarrow> int \<Rightarrow> task_result \<Rightarrow> claim \<Rightarrow> task \<Rightarrow> ack qm" where
  "settle cfg now r c t =
     qbind (put_task cfg (tr_task_id r) t) (\<lambda>_.
     qbind (put_result cfg (tr_task_id r) (tk_attempt t)
              \<lparr>rr_task_id = tr_task_id r, rr_attempt = tk_attempt t, rr_state = tk_state t,
               rr_result = the (tk_result t), rr_agent_lease_hash = cl_agent_lease_hash c, rr_manager = None\<rparr>) (\<lambda>_.
     qbind (refresh_requests cfg now) (\<lambda>_.
     qreturn (reply True (Some (tk_state t)) False (terminal (tk_state t)) Accepted))))"

definition accept_claimed ::
  "(string \<Rightarrow> string) \<Rightarrow> (string \<Rightarrow> string) \<Rightarrow> (bytes \<Rightarrow> int option) \<Rightarrow> queue_config \<Rightarrow> int \<Rightarrow> task_result \<Rightarrow> claim \<Rightarrow> task
    \<Rightarrow> ack qm" where
  "accept_claimed sha redact parquet_rows cfg now r c t =
     (if tr_ok r then
        if cl_staging_key c = []
           \<or> cl_staging_key c \<noteq> staging_key sha (mt_output_key (tk_task t)) (mt_generation_id (tk_task t)) (tr_task_id r)
                                 (tk_attempt t) (cl_claim_token c)
        then qreturn (reply False (Some CLAIMED) False False Invalid_Output)
        else
          qbind (verify_output sha parquet_rows (cl_staging_key c) r) (\<lambda>reason.
            if reason \<noteq> None then qreturn (reply False (Some CLAIMED) False False Invalid_Output)
            else settle cfg now r c (succeeded_task now r (cl_staging_key c) t))
      else settle cfg now r c (failed_task redact cfg now r t))"

definition accept_result ::
  "(string \<Rightarrow> string) \<Rightarrow> (string \<Rightarrow> string) \<Rightarrow> (bytes \<Rightarrow> int option) \<Rightarrow> queue_config \<Rightarrow> int \<Rightarrow> string \<Rightarrow> task_result
    \<Rightarrow> ack qm" where
  "accept_result sha redact parquet_rows cfg now lease_id r =
     qbind (qget (\<lambda>q. map_of (q_results q) (tr_task_id r, tr_attempt r))) (\<lambda>prior.
       case prior of
         Some p \<Rightarrow> qreturn (prior_ack sha lease_id r p)
       | None \<Rightarrow>
           qbind (expire_claims cfg now) (\<lambda>_.
           qbind (qget (\<lambda>q. (get_task (tr_task_id r) q, q))) (\<lambda>(t0, q).
             case t0 of
               None \<Rightarrow> qreturn (reply False None False True Rejected)
             | Some t \<Rightarrow>
                 if tk_state t = SUCCEEDED then
                   let same = same_as_accepted (tk_result t) r in
                   qreturn (reply same (Some SUCCEEDED) same True (if same then Duplicate else Conflict))
                 else
                   (case claim_refusal sha lease_id r t q of
                      Some a \<Rightarrow> qreturn a
                    | None \<Rightarrow>
                        if superseded r q then
                          qbind (cancel_request redact cfg now (tk_request_id t) ''generation_fenced'') (\<lambda>_.
                          qreturn (reply False (Some CANCELLED) False True Stale_Generation))
                        else accept_claimed sha redact parquet_rows cfg now r (the (tk_claim t)) t))))"

section \<open>Operator retry and retention\<close>

definition retried :: "int \<Rightarrow> int \<Rightarrow> task \<Rightarrow> task" where
  "retried now deadline t =
     t\<lparr>tk_state := QUEUED, tk_attempt := 0, tk_available_at_ms := now, tk_claim := None, tk_result := None,
       tk_last_error := [], tk_task := (tk_task t)\<lparr>mt_deadline_ms := deadline\<rparr>, tk_updated_at_ms := now,
       tk_revision := tk_revision t + 1\<rparr>"

definition retry_task :: "queue_config \<Rightarrow> int \<Rightarrow> string \<Rightarrow> bool qm" where
  "retry_task cfg now tid =
     qbind (qget (\<lambda>q. (get_task tid q, q))) (\<lambda>(t0, q).
       case t0 of
         None \<Rightarrow> qreturn False
       | Some t \<Rightarrow>
           if tk_state t \<noteq> FAILED then qreturn False
           else
             (case get_request (tk_request_id t) q of
                None \<Rightarrow> qreturn False
              | Some r \<Rightarrow>
                  if rq_published r then qreturn False
                  else
                    let deadline = now + max 1000 (rq_deadline_ms r - rq_created_at_ms r) in
                    qbind (delete_results tid) (\<lambda>_.
                    qbind (put_task cfg tid (retried now deadline t)) (\<lambda>_.
                    qbind (put_request cfg (rq_request_id r)
                             (r\<lparr>rq_state := QUEUED, rq_error := [], rq_deadline_ms := deadline,
                                rq_updated_at_ms := now\<rparr>)) (\<lambda>_.
                    qreturn True)))))"

definition delete_stored :: "string \<Rightarrow> unit qm" where
  "delete_stored key =
     qbind (commit_delete (\<lambda>_. True) (\<lambda>q. q\<lparr>q_objects := snd (delete_object key (q_objects q))\<rparr>)) (\<lambda>_. qreturn ())"

definition delete_completion :: "string \<Rightarrow> unit qm" where
  "delete_completion key =
     qbind (commit_delete (\<lambda>_. True) (\<lambda>q. q\<lparr>q_completions := snd (delete_object key (q_completions q))\<rparr>)) (\<lambda>_. qreturn ())"

definition prune_object :: "(string \<Rightarrow> string) \<Rightarrow> string \<Rightarrow> string list \<Rightarrow> string \<Rightarrow> nat qm" where
  "prune_object sha generation_id keep key =
     (if key \<in> set keep then qreturn 0
      else qbind (delete_stored key) (\<lambda>_.
           qbind (delete_completion (completion_key sha key generation_id)) (\<lambda>_. qreturn 1)))"

definition prune_staging :: "(string \<Rightarrow> string) \<Rightarrow> string \<Rightarrow> string list \<Rightarrow> string list \<Rightarrow> nat qm" where
  "prune_staging sha generation_id output_keys keep =
     qsum (\<lambda>prefix. qbind (qget (\<lambda>q. list_keys prefix (q_objects q))) (qsum (prune_object sha generation_id keep)))
       (remdups (map (\<lambda>k. staging_generation_prefix sha k generation_id) output_keys))"

definition prunable :: "int \<Rightarrow> request \<Rightarrow> bool" where
  "prunable cutoff r \<longleftrightarrow>
     terminal (rq_state r) \<and> rq_updated_at_ms r \<le> cutoff \<and> \<not> (rq_state r = SUCCEEDED \<and> \<not> rq_published r)"

definition prune_request_task :: "(string \<Rightarrow> string) \<Rightarrow> request \<Rightarrow> string \<Rightarrow> unit qm" where
  "prune_request_task sha r tid =
     qbind (qget (get_task tid)) (\<lambda>t0.
     qbind (case t0 of
              None \<Rightarrow> qreturn 0
            | Some t \<Rightarrow>
                if \<not> rq_published r \<and> rq_state r \<in> {FAILED, CANCELLED, EXPIRED} \<and> mt_generation_id (tk_task t) \<noteq> []
                then prune_staging sha (mt_generation_id (tk_task t)) [mt_output_key (tk_task t)] []
                else qreturn 0) (\<lambda>_.
     qbind (delete_results tid) (\<lambda>_.
     qbind (delete_task tid) (\<lambda>_. qreturn ()))))"

definition prune_request :: "(string \<Rightarrow> string) \<Rightarrow> int \<Rightarrow> string \<Rightarrow> nat qm" where
  "prune_request sha cutoff rid =
     qbind (qget (get_request rid)) (\<lambda>r0.
       case r0 of
         None \<Rightarrow> qreturn 0
       | Some r \<Rightarrow>
           if \<not> prunable cutoff r then qreturn 0
           else
             qbind (qfor (prune_request_task sha r) (rq_task_ids r)) (\<lambda>_.
             qbind (delete_idempotency (rq_idempotency_key r)) (\<lambda>_.
             qbind (delete_request rid) (\<lambda>_. qreturn 1))))"

definition prune_terminal :: "(string \<Rightarrow> string) \<Rightarrow> int \<Rightarrow> int \<Rightarrow> nat qm" where
  "prune_terminal sha now retention_seconds =
     qbind (qget list_requests) (qsum (prune_request sha (now - max 0 retention_seconds * 1000)))"

section \<open>Waiting\<close>

text \<open>The poll instants until the timeout are the list argument; \<open>None\<close> is the \<open>TimeoutError\<close>.\<close>

fun wait_request :: "queue_config \<Rightarrow> string \<Rightarrow> int list \<Rightarrow> request option qm" where
  "wait_request cfg rid [] = qreturn None"
| "wait_request cfg rid (now # polls) =
     qbind (expire_claims cfg now) (\<lambda>_.
     qbind (qget (get_request rid)) (\<lambda>r0.
       case r0 of
         None \<Rightarrow> qraise (Work_Queue_Error ''unknown request'')
       | Some r \<Rightarrow> if terminal (rq_state r) then qreturn (Some r) else wait_request cfg rid polls))"

section \<open>Publication\<close>

definition commit_batch :: "(queue \<Rightarrow> queue) \<Rightarrow> unit qm" where
  "commit_batch =
     commit_with (Work_Queue_Conflict ''guard changed before durable publication commit'')
       (Work_Queue_Error ''queue batch verification failed'')"

definition identity_matches :: "string \<Rightarrow> request \<Rightarrow> snapshot_manifest \<Rightarrow> bool" where
  "identity_matches rid r m \<longleftrightarrow>
     mf_request_id m = rid \<and> mf_table m = rq_table r \<and> mf_epoch m = rq_epoch r
     \<and> mf_generation_id m = rq_generation_id r \<and> mf_generation_fence m = rq_generation_fence r
     \<and> mf_plan_sha256 m = rq_plan_sha256 r \<and> mf_tenant_id m = rq_tenant_id r"

definition generation_inactive :: "int \<Rightarrow> snapshot_manifest \<Rightarrow> queue \<Rightarrow> bool" where
  "generation_inactive now m q =
     (case q_generation q of
        None \<Rightarrow> False
      | Some g \<Rightarrow> gc_generation_id g \<noteq> mf_generation_id m \<or> gc_fence g \<noteq> mf_generation_fence m
                 \<or> gc_plan_sha256 g \<noteq> mf_plan_sha256 m \<or> gc_expires_at_ms g \<le> now)"

text \<open>The checks of the listed objects, in order, each raising as soon as one is missing or different.\<close>

definition check_split :: "(string \<Rightarrow> string) \<Rightarrow> queue_error \<Rightarrow> bytes store \<Rightarrow> split_ref \<Rightarrow> unit qm" where
  "check_split sha err objs s =
     qbind (qlift (verify sha (sf_object_key s) (sf_size_bytes s) (sf_content_hash s) objs)) (\<lambda>ok.
       if ok then qreturn () else qraise err)"

definition check_metadata :: "queue_error \<Rightarrow> bytes store \<Rightarrow> string \<Rightarrow> unit qm" where
  "check_metadata err objs key =
     qbind (qlift (head key objs)) (\<lambda>st. if st = None then qraise err else qreturn ())"

definition check_outputs :: "(string \<Rightarrow> string) \<Rightarrow> queue_error \<Rightarrow> queue_error \<Rightarrow> snapshot_manifest \<Rightarrow> unit qm" where
  "check_outputs sha split_err meta_err m =
     qbind (qget q_objects) (\<lambda>objs.
     qbind (qfor (check_split sha split_err objs) (mf_splits m)) (\<lambda>_.
            qfor (check_metadata meta_err objs) (mf_metadata_keys m)))"

definition check_task_present :: "string \<Rightarrow> unit qm" where
  "check_task_present tid =
     qbind (qget (get_task tid)) (\<lambda>t0.
       if t0 = None then qraise (Work_Queue_Conflict ''snapshot task is missing'') else qreturn ())"

definition write_publication :: "queue_config \<Rightarrow> string \<Rightarrow> string \<times> int \<Rightarrow> snapshot_manifest \<Rightarrow> request \<Rightarrow> unit qm" where
  "write_publication cfg rid key m r =
     qbind (qget q_generation) (\<lambda>g.
       if g \<noteq> None then
         commit_batch (\<lambda>q. q\<lparr>q_snapshots := AList.update key m (q_snapshots q),
            q_requests := AList.update rid (r\<lparr>rq_manager := stamped cfg (rq_manager r)\<rparr>) (q_requests q)\<rparr>)
       else
         qbind (commit (\<lambda>q. q\<lparr>q_snapshots := AList.update key m (q_snapshots q)\<rparr>)) (\<lambda>_.
                put_request cfg rid r))"

definition published_request :: "(string \<Rightarrow> string) \<Rightarrow> int \<Rightarrow> snapshot_manifest \<Rightarrow> request \<Rightarrow> request" where
  "published_request sha now m r =
     r\<lparr>rq_published := True, rq_snapshot_key := Some (sha (mf_table m), mf_epoch m), rq_updated_at_ms := now\<rparr>"

definition publish_checks ::
  "(string \<Rightarrow> string) \<Rightarrow> int \<Rightarrow> string \<Rightarrow> snapshot_manifest \<Rightarrow> (snapshot_manifest \<times> request) qm" where
  "publish_checks sha now rid m =
     qbind (qget (\<lambda>q. (get_request rid q, q))) (\<lambda>(r0, q).
       case r0 of
         None \<Rightarrow> qraise (Work_Queue_Error ''unknown request'')
       | Some r \<Rightarrow>
           if rq_state r \<noteq> SUCCEEDED then qraise (Work_Queue_Conflict ''request is not ready for publication'')
           else if \<not> identity_matches rid r m then qraise (Work_Queue_Conflict ''snapshot identity does not match request'')
           else if generation_inactive now m q then qraise (Work_Queue_Conflict ''snapshot generation is no longer active'')
           else
             qbind (check_outputs sha (Work_Queue_Conflict ''snapshot output verification failed'')
                      (Work_Queue_Conflict ''snapshot metadata is missing'') m) (\<lambda>_.
             qbind (qfor check_task_present (rq_task_ids r)) (\<lambda>_.
               let ds = datasets_of (map tk_task (request_tasks r q));
                   dataset = first_or_empty ds in
               if length ds > 1 then qraise (Work_Queue_Conflict ''snapshot request spans multiple datasets'')
               else if mf_dataset_id m \<noteq> [] \<and> mf_dataset_id m \<noteq> dataset
               then qraise (Work_Queue_Conflict ''snapshot dataset identity does not match request'')
               else if mf_produced_at_ms m \<noteq> 0 \<and> mf_produced_at_ms m \<noteq> rq_created_at_ms r
               then qraise (Work_Queue_Conflict ''snapshot production timestamp does not match request'')
               else qreturn (m\<lparr>mf_dataset_id := dataset, mf_produced_at_ms := rq_created_at_ms r\<rparr>,
                             published_request sha now m r))))"

definition publish_snapshot ::
  "(string \<Rightarrow> string) \<Rightarrow> queue_config \<Rightarrow> int \<Rightarrow> string \<Rightarrow> snapshot_manifest \<Rightarrow> request qm" where
  "publish_snapshot sha cfg now rid m =
     qbind (publish_checks sha now rid m) (\<lambda>(m', r').
     qbind (write_publication cfg rid (sha (mf_table m), mf_epoch m) m' r') (\<lambda>_. qreturn r'))"

definition snapshot_order :: "string \<times> int \<Rightarrow> string" where
  "snapshot_order k = fst k @ ''/'' @ pad_20 (snd k) @ ''.json''"

definition list_snapshot_manifests :: "queue \<Rightarrow> snapshot_manifest list" where
  "list_snapshot_manifests q = map snd (sort_key (snapshot_order \<circ> fst) (q_snapshots q))"

definition select_snapshot :: "(string \<Rightarrow> string) \<Rightarrow> string \<Rightarrow> int \<Rightarrow> queue \<Rightarrow> snapshot_manifest option" where
  "select_snapshot sha table epoch q =
     (let rs = sort_key (snapshot_order \<circ> fst) (filter (\<lambda>(k, _). fst k = sha table) (q_snapshots q)) in
      if rs = [] then None
      else if epoch = 0 then Some (snd (last rs))
      else map_of rs (sha table, epoch))"

definition get_snapshot :: "(string \<Rightarrow> string) \<Rightarrow> string \<Rightarrow> int \<Rightarrow> snapshot_manifest option qm" where
  "get_snapshot sha table epoch =
     qbind (qget (select_snapshot sha table epoch)) (\<lambda>m0.
       case m0 of
         None \<Rightarrow> qreturn None
       | Some m \<Rightarrow>
           qbind (check_outputs sha (Work_Queue_Error ''published snapshot output is missing or invalid'')
                    (Work_Queue_Error ''published snapshot metadata is missing'') m) (\<lambda>_. qreturn (Some m)))"

section \<open>Worker membership\<close>

record observed_worker =
  ow_agent_id :: string
  ow_lease_id :: string
  ow_capacity :: int

definition new_worker :: "(string \<Rightarrow> string) \<Rightarrow> int \<Rightarrow> observed_worker \<Rightarrow> worker" where
  "new_worker sha now o1 =
     \<lparr>wk_lease_hash = sha (ow_lease_id o1), wk_capacity = max 1 (ow_capacity o1), wk_state = Active,
      wk_worker_fence = 1, wk_joined_at_ms = now, wk_last_seen_ms = now\<rparr>"

definition observed_map :: "observed_worker list \<Rightarrow> (string, observed_worker) dict" where
  "observed_map ws = fold (\<lambda>w. AList.update (ow_agent_id w) w) ws []"

definition rejoins :: "(string \<Rightarrow> string) \<Rightarrow> observed_worker \<Rightarrow> worker \<Rightarrow> bool" where
  "rejoins sha o1 p \<longleftrightarrow> wk_lease_hash p \<noteq> sha (ow_lease_id o1) \<or> wk_state p \<noteq> Active"

definition seen_worker :: "(string \<Rightarrow> string) \<Rightarrow> int \<Rightarrow> observed_worker \<Rightarrow> worker \<Rightarrow> worker" where
  "seen_worker sha now o1 p =
     (let p1 = (if rejoins sha o1 p
                then p\<lparr>wk_worker_fence := wk_worker_fence p + 1, wk_joined_at_ms := now, wk_state := Active\<rparr> else p) in
      p1\<lparr>wk_capacity := max 1 (ow_capacity o1), wk_lease_hash := sha (ow_lease_id o1), wk_last_seen_ms := now\<rparr>)"

definition reconcile_worker ::
  "(string \<Rightarrow> string) \<Rightarrow> int \<Rightarrow> (string, observed_worker) dict \<Rightarrow> string \<Rightarrow> (string, worker) dict \<times> string list
    \<Rightarrow> (string, worker) dict \<times> string list" where
  "reconcile_worker sha now cur a = (\<lambda>(ws, reasons).
     case (map_of ws a, map_of cur a) of
       (None, Some o1) \<Rightarrow> (AList.update a (new_worker sha now o1) ws, reasons @ [''worker_joined''])
     | (None, None) \<Rightarrow> (ws, reasons)
     | (Some p, None) \<Rightarrow>
         if wk_state p = Active then
           (AList.update a (p\<lparr>wk_state := Departed, wk_worker_fence := wk_worker_fence p + 1, wk_last_seen_ms := now\<rparr>) ws,
            reasons @ [''worker_departed''])
         else (ws, reasons)
     | (Some p, Some o1) \<Rightarrow>
         (AList.update a (seen_worker sha now o1 p) ws,
          reasons @ (if rejoins sha o1 p then [''worker_rejoined''] else [])
                  @ (if wk_capacity p \<noteq> max 1 (ow_capacity o1) then [''capacity_changed''] else [])))"

definition reconciled :: "(string \<Rightarrow> string) \<Rightarrow> int \<Rightarrow> (string, observed_worker) dict \<Rightarrow> membership \<Rightarrow> membership" where
  "reconciled sha now cur m =
     (let allowed = sort (remdups (keys_of (mb_workers m) @ (if mb_policy m = ''elastic'' then keys_of cur else [])));
          (ws, reasons) = fold (reconcile_worker sha now cur) allowed (mb_workers m, []);
          m1 = m\<lparr>mb_workers := ws, mb_updated_at_ms := now\<rparr> in
      if reasons = [] then m1
      else m1\<lparr>mb_version := mb_version m + 1, mb_last_change_reason := py_join '','' (sort (remdups reasons))\<rparr>)"

definition new_membership ::
  "(string \<Rightarrow> string) \<Rightarrow> int \<Rightarrow> string \<Rightarrow> int \<Rightarrow> (string, observed_worker) dict \<Rightarrow> string \<Rightarrow> membership" where
  "new_membership sha now gid fence cur pol =
     \<lparr>mb_generation_id = gid, mb_generation_fence = fence, mb_version = (if cur = [] then 0 else 1), mb_policy = pol,
      mb_workers = map (map_prod id (new_worker sha now)) cur, mb_reassignment_count = 0,
      mb_last_change_reason = (if cur = [] then ''waiting_for_workers'' else ''initialized''),
      mb_created_at_ms = now, mb_updated_at_ms = now, mb_manager = None\<rparr>"

definition reconcile_membership ::
  "(string \<Rightarrow> string) \<Rightarrow> queue_config \<Rightarrow> int \<Rightarrow> string \<Rightarrow> int \<Rightarrow> observed_worker list \<Rightarrow> string \<Rightarrow> membership qm" where
  "reconcile_membership sha cfg now gid fence workers policy =
     (let pol = py_casefold (py_strip_space policy); cur = observed_map workers in
      if pol \<notin> {''fixed'', ''elastic''} then qraise (Bad_Value ''membership policy must be fixed or elastic'')
      else qbind (qget (get_membership sha gid)) (\<lambda>m0.
        case m0 of
          None \<Rightarrow>
            let m = new_membership sha now gid fence cur pol in
            if cur = [] then qreturn m
            else qbind (put_membership cfg (sha gid) m) (\<lambda>_. qreturn m)
        | Some m \<Rightarrow>
            if mb_generation_id m \<noteq> gid \<or> mb_generation_fence m \<noteq> fence
            then qraise (Work_Queue_Conflict ''membership belongs to another generation'')
            else if mb_policy m \<noteq> pol
            then qraise (Work_Queue_Conflict ''membership policy cannot change during an active generation'')
            else
              let m' = reconciled sha now cur m in
              qbind (put_membership cfg (sha gid) m') (\<lambda>_. qreturn m')))"

definition claim_valid :: "membership \<Rightarrow> claim \<Rightarrow> bool" where
  "claim_valid m c =
     (case map_of (mb_workers m) (cl_agent_id c) of
        None \<Rightarrow> False
      | Some w \<Rightarrow> wk_state w = Active \<and> wk_lease_hash w = cl_agent_lease_hash c \<and> wk_worker_fence w = cl_worker_fence c)"

definition reassign_claim :: "queue_config \<Rightarrow> int \<Rightarrow> string \<Rightarrow> membership \<Rightarrow> task \<Rightarrow> nat qm" where
  "reassign_claim cfg now gid m t =
     (if tk_state t \<noteq> CLAIMED \<or> mt_generation_id (tk_task t) \<noteq> gid then qreturn 0
      else if (case tk_claim t of None \<Rightarrow> False | Some c \<Rightarrow> claim_valid m c) then qreturn 0
      else
        qbind (put_task cfg (tk_task_id t)
                 ((back_to_retry now ''worker_membership_fenced'' t)\<lparr>tk_reassignment_count := tk_reassignment_count t + 1\<rparr>))
          (\<lambda>_. qreturn 1))"

definition reassign_fenced_claims :: "(string \<Rightarrow> string) \<Rightarrow> queue_config \<Rightarrow> int \<Rightarrow> string \<Rightarrow> membership \<Rightarrow> nat qm" where
  "reassign_fenced_claims sha cfg now gid m =
     qbind (qget list_tasks) (\<lambda>ts.
     qbind (qsum (reassign_claim cfg now gid m) ts) (\<lambda>n.
     qbind (if n > 0
            then put_membership cfg (sha gid)
                   (m\<lparr>mb_reassignment_count := mb_reassignment_count m + int n, mb_updated_at_ms := now,
                      mb_last_change_reason := ''unfinished_work_reassigned''\<rparr>)
            else qreturn ()) (\<lambda>_. qreturn n)))"

end
