(* ===== verification/Queue_Safety.thy ===== *)
theory Queue_Safety
  imports Work_Queue
begin

text \<open>
  The life cycle of queue tasks. Every operation of the queue other than creation, operator retry, recovery and
  pruning is shown to move tasks only along the transitions of the contract, write by write, whatever
  writes are refused or fail, and to keep the well-formedness of the records. The proofs are compositional: a
  triple \<open>guarded S P m Q\<close> says that \<open>m\<close>, started in a well-formed queue with \<open>P\<close>, ends in a well-formed queue
  reached by valid task steps on the tasks of \<open>S\<close> only, also when it raises, and in \<open>Q\<close> when it returns.
\<close>

section \<open>Well-formed queues\<close>

definition task_wf :: "string \<Rightarrow> task \<Rightarrow> bool" where
  "task_wf tid t \<longleftrightarrow>
     tk_task_id t = tid \<and> (tk_claim t \<noteq> None \<longleftrightarrow> tk_state t = CLAIMED)
     \<and> (tk_state t = SUCCEEDED \<longrightarrow>
          (\<exists>s k. tk_result t = Some s \<and> sr_output_key s = Some k \<and> sr_attempt s = tk_attempt t))"

definition tasks_succeeded :: "string list \<Rightarrow> queue \<Rightarrow> bool" where
  "tasks_succeeded tids q \<longleftrightarrow> (\<forall>tid\<in>set tids. \<forall>t. get_task tid q = Some t \<longrightarrow> tk_state t = SUCCEEDED)"

definition request_wf :: "string \<Rightarrow> queue \<Rightarrow> request \<Rightarrow> bool" where
  "request_wf rid q r \<longleftrightarrow> rq_request_id r = rid \<and> (rq_state r = SUCCEEDED \<longrightarrow> tasks_succeeded (rq_task_ids r) q)"

definition queue_wf :: "queue \<Rightarrow> bool" where
  "queue_wf q \<longleftrightarrow>
     distinct (keys_of (q_tasks q)) \<and> (\<forall>tid t. get_task tid q = Some t \<longrightarrow> task_wf tid t)
     \<and> (\<forall>rid r. get_request rid q = Some r \<longrightarrow> request_wf rid q r)"

section \<open>Steps of tasks and queues\<close>

definition task_step :: "task \<Rightarrow> task \<Rightarrow> bool" where
  "task_step t t' \<longleftrightarrow>
     tk_task_id t' = tk_task_id t \<and> tk_request_id t' = tk_request_id t \<and> tk_task t' = tk_task t
     \<and> \<not> terminal (tk_state t)
     \<and> (tk_state t' = tk_state t \<or> valid_task_transition (tk_state t) (tk_state t'))
     \<and> tk_revision t < tk_revision t'
     \<and> tk_attempt t' = tk_attempt t + (if tk_state t = QUEUED \<and> tk_state t' = CLAIMED then 1 else 0)"

abbreviation task_steps :: "task \<Rightarrow> task \<Rightarrow> bool" where
  "task_steps \<equiv> task_step\<^sup>*\<^sup>*"

definition request_core :: "request \<Rightarrow> string list \<times> bool \<times> string" where
  "request_core r = (rq_task_ids r, rq_ready r, rq_idempotency_key r)"

lemma request_core_updates [simp]:
  "request_core (r\<lparr>rq_manager := x\<rparr>) = request_core r" "request_core (r\<lparr>rq_state := s\<rparr>) = request_core r"
  "request_core (r\<lparr>rq_error := e\<rparr>) = request_core r" "request_core (r\<lparr>rq_updated_at_ms := n\<rparr>) = request_core r"
  "request_core (r\<lparr>rq_published := b\<rparr>) = request_core r" "request_core (r\<lparr>rq_snapshot_key := k\<rparr>) = request_core r"
  by (simp_all add: request_core_def)

definition evolves :: "queue \<Rightarrow> queue \<Rightarrow> bool" where
  "evolves q q' \<longleftrightarrow>
     (\<forall>tid. rel_option task_steps (get_task tid q) (get_task tid q'))
     \<and> (\<forall>k r. map_of (q_results q) k = Some r \<longrightarrow> map_of (q_results q') k = Some r)
     \<and> (\<forall>rid. map_option request_core (get_request rid q') = map_option request_core (get_request rid q))
     \<and> q_idempotency q' = q_idempotency q \<and> q_objects q' = q_objects q \<and> q_generation q' = q_generation q"

lemma task_steps_terminal: "task_steps t t' \<Longrightarrow> terminal (tk_state t) \<Longrightarrow> t' = t"
  by (erule converse_rtranclpE) (auto simp: task_step_def)

lemma task_steps_same:
  "task_steps t t' \<Longrightarrow>
     tk_task_id t' = tk_task_id t \<and> tk_request_id t' = tk_request_id t \<and> tk_task t' = tk_task t
     \<and> tk_revision t \<le> tk_revision t' \<and> tk_attempt t \<le> tk_attempt t'"
  by (induction rule: rtranclp_induct) (auto simp: task_step_def)

lemma evolves_refl [simp, intro]: "evolves q q"
  by (auto simp: evolves_def option.rel_refl)

lemma evolves_trans [trans]:
  assumes "evolves q q'" and "evolves q' q''"
  shows "evolves q q''"
proof -
  have "rel_option task_steps (get_task tid q) (get_task tid q'')" for tid
  proof -
    have "rel_option task_steps (get_task tid q) (get_task tid q')"
      and "rel_option task_steps (get_task tid q') (get_task tid q'')"
      using assms by (auto simp: evolves_def)
    then show ?thesis by (auto simp: option_rel_Some1 elim!: option.rel_cases)
  qed
  then show ?thesis using assms by (simp add: evolves_def)
qed

lemma evolves_request:
  "evolves q q' \<Longrightarrow> get_request rid q = Some r \<Longrightarrow> \<exists>r'. get_request rid q' = Some r' \<and> request_core r' = request_core r"
  "evolves q q' \<Longrightarrow> get_request rid q' = Some r' \<Longrightarrow> \<exists>r. get_request rid q = Some r \<and> request_core r' = request_core r"
  "evolves q q' \<Longrightarrow> get_request rid q = None \<Longrightarrow> get_request rid q' = None"
  unfolding evolves_def by (metis map_option_eq_Some, metis map_option_eq_Some, metis map_option_is_None)

lemma evolves_task:
  "evolves q q' \<Longrightarrow> get_task tid q = Some t \<Longrightarrow> \<exists>t'. get_task tid q' = Some t' \<and> task_steps t t'"
  by (auto simp: evolves_def option_rel_Some1 dest: spec [of _ tid])

lemma evolves_task_back:
  "evolves q q' \<Longrightarrow> get_task tid q' = Some t' \<Longrightarrow> \<exists>t. get_task tid q = Some t \<and> task_steps t t'"
  by (auto simp: evolves_def option_rel_Some2 dest: spec [of _ tid])

lemma tasks_succeeded_stable: "tasks_succeeded tids q \<Longrightarrow> evolves q q' \<Longrightarrow> tasks_succeeded tids q'"
  unfolding tasks_succeeded_def by (metis evolves_task_back task_steps_terminal terminal_def insertI1)

lemma request_wf_stable: "request_wf rid q r \<Longrightarrow> evolves q q' \<Longrightarrow> request_wf rid q' r"
  by (auto simp: request_wf_def intro: tasks_succeeded_stable)

section \<open>Successful runs\<close>

lemma qbind_Inr: "qbind m f q = (Inr y, q'') \<longleftrightarrow> (\<exists>x q'. m q = (Inr x, q') \<and> f x q' = (Inr y, q''))"
  by (auto simp: qbind_def split: prod.split sum.split)

lemma qget_Inr [simp]: "qget f q = (Inr x, q') \<longleftrightarrow> x = f q \<and> q' = q"
  by (auto simp: qget_def)

lemma qreturn_Inr [simp]: "qreturn y q = (Inr x, q') \<longleftrightarrow> x = y \<and> q' = q"
  by (auto simp: qreturn_def)

lemma qraise_Inr [simp]: "qraise e q \<noteq> (Inr x, q')"
  by (simp add: qraise_def)

section \<open>Guarded programs\<close>

definition guarded :: "string set \<Rightarrow> (queue \<Rightarrow> bool) \<Rightarrow> 'a qm \<Rightarrow> ('a \<Rightarrow> queue \<Rightarrow> bool) \<Rightarrow> bool" where
  "guarded S P m Q \<longleftrightarrow>
     (\<forall>q. queue_wf q \<and> P q \<longrightarrow>
        queue_wf (snd (m q)) \<and> evolves q (snd (m q))
        \<and> (\<forall>tid. tid \<notin> S \<longrightarrow> get_task tid (snd (m q)) = get_task tid q)
        \<and> (\<forall>x. fst (m q) = Inr x \<longrightarrow> Q x (snd (m q))))"

named_theorems guarded_intros \<open>one rule per combinator and primitive\<close>

lemma guarded_weaken:
  "guarded S P' m Q' \<Longrightarrow> (\<And>q. P q \<Longrightarrow> P' q) \<Longrightarrow> (\<And>x q. Q' x q \<Longrightarrow> Q x q) \<Longrightarrow> S \<subseteq> S' \<Longrightarrow> guarded S' P m Q"
  unfolding guarded_def by blast

lemma guarded_wf_pre: "guarded S (\<lambda>q. queue_wf q \<and> P q) m Q \<Longrightarrow> guarded S P m Q"
  unfolding guarded_def by blast

lemma guarded_return [guarded_intros]: "(\<And>q. P q \<Longrightarrow> Q x q) \<Longrightarrow> guarded S P (qreturn x) Q"
  by (auto simp: guarded_def qreturn_def)

lemma guarded_raise [guarded_intros]: "guarded S P (qraise e) Q"
  by (auto simp: guarded_def qraise_def)

lemma guarded_get [guarded_intros]: "(\<And>q. P q \<Longrightarrow> Q (f q) q) \<Longrightarrow> guarded S P (qget f) Q"
  by (auto simp: guarded_def qget_def)

lemma guarded_bind:
  assumes m: "guarded S P m R" and f: "\<And>x. guarded S (R x) (f x) Q"
  shows "guarded S P (qbind m f) Q"
  unfolding guarded_def
proof (intro allI impI)
  fix q
  assume pre: "queue_wf q \<and> P q"
  obtain r q1 where eq: "m q = (r, q1)" by (cases "m q")
  have s1: "queue_wf q1" "evolves q q1" "\<forall>tid. tid \<notin> S \<longrightarrow> get_task tid q1 = get_task tid q"
    and post: "\<And>x. r = Inr x \<Longrightarrow> R x q1"
    using m pre eq unfolding guarded_def by (metis fst_conv snd_conv)+
  show "queue_wf (snd (qbind m f q)) \<and> evolves q (snd (qbind m f q))
      \<and> (\<forall>tid. tid \<notin> S \<longrightarrow> get_task tid (snd (qbind m f q)) = get_task tid q)
      \<and> (\<forall>x. fst (qbind m f q) = Inr x \<longrightarrow> Q x (snd (qbind m f q)))"
  proof (cases r)
    case (Inl e)
    then show ?thesis using s1 by (simp add: qbind_def eq)
  next
    case (Inr x)
    then have "queue_wf (snd (f x q1)) \<and> evolves q1 (snd (f x q1))
        \<and> (\<forall>tid. tid \<notin> S \<longrightarrow> get_task tid (snd (f x q1)) = get_task tid q1)
        \<and> (\<forall>y. fst (f x q1) = Inr y \<longrightarrow> Q y (snd (f x q1)))"
      using f [of x] post s1(1) by (simp add: guarded_def)
    then show ?thesis using s1 Inr by (auto simp: qbind_def eq intro: evolves_trans)
  qed
qed

lemma guarded_bind_get:
  assumes "\<And>q. guarded S (\<lambda>q'. P q' \<and> q' = q) (f (g q)) Q"
  shows "guarded S P (qbind (qget g) f) Q"
  using assms unfolding guarded_def by (simp add: qbind_def qget_def)

lemma guarded_seq [guarded_intros]:
  "guarded S P m (\<lambda>_ _. True) \<Longrightarrow> (\<And>x. guarded S (\<lambda>_. True) (f x) Q) \<Longrightarrow> guarded S P (qbind m f) Q"
  by (rule guarded_bind)

lemma guarded_qfor [guarded_intros]:
  "(\<And>x. x \<in> set xs \<Longrightarrow> guarded S (\<lambda>_. True) (f x) (\<lambda>_ _. True)) \<Longrightarrow> guarded S (\<lambda>_. True) (qfor f xs) (\<lambda>_ _. True)"
  by (induction xs) (auto intro!: guarded_intros)

lemma guarded_qsum [guarded_intros]:
  "(\<And>x. x \<in> set xs \<Longrightarrow> guarded S (\<lambda>_. True) (f x) (\<lambda>_ _. True)) \<Longrightarrow> guarded S (\<lambda>_. True) (qsum f xs) (\<lambda>_ _. True)"
  by (induction xs) (auto intro!: guarded_intros)

lemma guarded_frame:
  assumes "guarded S P m Q" and "\<And>q q'. F q \<Longrightarrow> (\<forall>tid. tid \<notin> S \<longrightarrow> get_task tid q' = get_task tid q) \<Longrightarrow> F q'"
  shows "guarded S (\<lambda>q. P q \<and> F q) m (\<lambda>x q. Q x q \<and> F q)"
  using assms unfolding guarded_def by meson

abbreviation current :: "task \<Rightarrow> queue \<Rightarrow> bool" where
  "current t q \<equiv> get_task (tk_task_id t) q = Some t"

text \<open>Loops over a listing: the listed copies of other tasks stay current while one task is processed.\<close>

lemma guarded_qsum_tasks:
  assumes "distinct (map tk_task_id ts)"
    and "\<And>t. t \<in> set ts \<Longrightarrow> guarded {tk_task_id t} (current t) (f t) (\<lambda>_ _. True)"
  shows "guarded UNIV (\<lambda>q. \<forall>t\<in>set ts. current t q) (qsum f ts) (\<lambda>_ _. True)"
  using assms
proof (induction ts)
  case Nil
  show ?case by (auto intro: guarded_intros)
next
  case (Cons t ts)
  have "guarded {tk_task_id t} (\<lambda>q. current t q \<and> (\<forall>u\<in>set ts. current u q)) (f t)
      (\<lambda>_ q. True \<and> (\<forall>u\<in>set ts. current u q))"
  proof (rule guarded_frame)
    show "guarded {tk_task_id t} (current t) (f t) (\<lambda>_ _. True)" using Cons.prems(2) by simp
    have "tk_task_id u \<noteq> tk_task_id t" if "u \<in> set ts" for u
      using Cons.prems(1) imageI [OF that, of tk_task_id] by auto
    then show "\<forall>u\<in>set ts. current u q'"
      if "\<forall>u\<in>set ts. current u q" and "\<forall>tid. tid \<notin> {tk_task_id t} \<longrightarrow> get_task tid q' = get_task tid q" for q q'
      using that by simp
  qed
  then have "guarded UNIV (\<lambda>q. \<forall>u\<in>set (t # ts). current u q) (f t) (\<lambda>_ q. \<forall>u\<in>set ts. current u q)"
    by (rule guarded_weaken) auto
  moreover have "guarded UNIV (\<lambda>q. \<forall>u\<in>set ts. current u q) (qsum f ts) (\<lambda>_ _. True)"
    using Cons by auto
  ultimately show ?case
    unfolding qsum.simps by (rule guarded_bind [OF _ guarded_seq]) (rule guarded_return, simp)
qed

lemma distinct_map_sort: "distinct (map f (sort_key g xs)) = distinct (map f xs)"
  by (simp add: distinct_map)

lemma list_tasks_current:
  assumes "queue_wf q"
  shows "distinct (map tk_task_id (list_tasks q))" and "t \<in> set (list_tasks q) \<Longrightarrow> current t q"
proof -
  have mem: "get_task k q = Some t \<longleftrightarrow> (k, t) \<in> set (q_tasks q)" for k t
    using assms by (simp add: get_task_def queue_wf_def)
  have ids: "tk_task_id (snd x) = fst x" if "x \<in> set (q_tasks q)" for x
    using assms that mem [of "fst x" "snd x"] by (auto simp: queue_wf_def task_wf_def)
  then have "map tk_task_id (map snd (q_tasks q)) = keys_of (q_tasks q)" by simp
  then have "distinct (map tk_task_id (map snd (q_tasks q)))" using assms by (simp only: queue_wf_def)
  then show "distinct (map tk_task_id (list_tasks q))" by (simp only: list_tasks_def distinct_map_sort)
  show "current t q" if "t \<in> set (list_tasks q)" using that ids mem by (force simp: list_tasks_def)
qed

lemma guarded_listing:
  assumes "\<And>t. guarded {tk_task_id t} (current t) (f t) (\<lambda>_ _. True)"
    and "\<And>n. guarded UNIV (\<lambda>_. True) (g n) Q"
  shows "guarded UNIV P (qbind (qget list_tasks) (\<lambda>ts. qbind (qsum f ts) g)) Q"
proof (rule guarded_wf_pre, rule guarded_bind_get)
  fix q
  show "guarded UNIV (\<lambda>q'. (queue_wf q' \<and> P q') \<and> q' = q) (qbind (qsum f (list_tasks q)) g) Q"
  proof (cases "queue_wf q")
    case True
    then have "guarded UNIV (\<lambda>q'. \<forall>t\<in>set (list_tasks q). current t q') (qsum f (list_tasks q)) (\<lambda>_ _. True)"
      using list_tasks_current(1) assms(1) by (intro guarded_qsum_tasks)
    then have "guarded UNIV (\<lambda>q'. (queue_wf q' \<and> P q') \<and> q' = q) (qsum f (list_tasks q)) (\<lambda>_ _. True)"
      by (rule guarded_weaken) (auto intro: list_tasks_current(2))
    then show ?thesis using assms(2) by (rule guarded_seq)
  next
    case False
    then show ?thesis by (auto simp: guarded_def)
  qed
qed

section \<open>Writes\<close>

definition stamp_task :: "queue_config \<Rightarrow> task \<Rightarrow> task" where
  "stamp_task cfg t = t\<lparr>tk_manager := stamped cfg (tk_manager t)\<rparr>"

lemma stamp_task_simps [simp]:
  "tk_task_id (stamp_task cfg t) = tk_task_id t" "tk_request_id (stamp_task cfg t) = tk_request_id t"
  "tk_state (stamp_task cfg t) = tk_state t" "tk_attempt (stamp_task cfg t) = tk_attempt t"
  "tk_max_attempts (stamp_task cfg t) = tk_max_attempts t" "tk_claim (stamp_task cfg t) = tk_claim t"
  "tk_task (stamp_task cfg t) = tk_task t" "tk_result (stamp_task cfg t) = tk_result t"
  "tk_revision (stamp_task cfg t) = tk_revision t" "tk_last_error (stamp_task cfg t) = tk_last_error t"
  "tk_available_at_ms (stamp_task cfg t) = tk_available_at_ms t"
  "task_step u (stamp_task cfg t) = task_step u t" "task_step (stamp_task cfg t) u = task_step t u"
  "task_wf tid (stamp_task cfg t) = task_wf tid t"
  by (simp_all add: stamp_task_def task_step_def task_wf_def)

lemma commit_with_cases:
  obtains io where "commit_with e1 e2 upd q = (Inr (), upd (q\<lparr>q_io := io\<rparr>))"
  | io e where "commit_with e1 e2 upd q = (Inl e, q\<lparr>q_io := io\<rparr>)"
  | io e where "commit_with e1 e2 upd q = (Inl e, upd (q\<lparr>q_io := io\<rparr>))"
proof (cases "q_io q")
  case Nil
  then have "q\<lparr>q_io := []\<rparr> = q" by (cases q) simp
  moreover have "commit_with e1 e2 upd q = (Inr (), upd q)" using Nil by (simp add: commit_with_def)
  ultimately show ?thesis using that(1) [of "[]"] by (simp only:)
next
  case (Cons a io)
  show ?thesis
  proof (cases a)
    case Io_Ok
    with Cons have "commit_with e1 e2 upd q = (Inr (), upd (q\<lparr>q_io := io\<rparr>))" by (simp add: commit_with_def)
    then show ?thesis by (rule that(1))
  next
    case Io_Refused
    with Cons have "commit_with e1 e2 upd q = (Inl e1, q\<lparr>q_io := io\<rparr>)" by (simp add: commit_with_def)
    then show ?thesis by (rule that(2))
  next
    case Io_Unverified
    with Cons have "commit_with e1 e2 upd q = (Inl e2, upd (q\<lparr>q_io := io\<rparr>))" by (simp add: commit_with_def)
    then show ?thesis by (rule that(3))
  qed
qed

lemma queue_io_simps [simp]:
  "get_task tid (q\<lparr>q_io := io\<rparr>) = get_task tid q" "get_request rid (q\<lparr>q_io := io\<rparr>) = get_request rid q"
  "queue_wf (q\<lparr>q_io := io\<rparr>) = queue_wf q" "evolves p (q\<lparr>q_io := io\<rparr>) = evolves p q"
  by (simp_all add: get_task_def get_request_def queue_wf_def evolves_def request_wf_def tasks_succeeded_def)

lemma guarded_commit_with:
  assumes "\<And>q. queue_wf q \<Longrightarrow> P q \<Longrightarrow> queue_wf (upd q) \<and> evolves q (upd q)
      \<and> (\<forall>tid. tid \<notin> S \<longrightarrow> get_task tid (upd q) = get_task tid q) \<and> Q () (upd q)"
    and "\<And>q io. P (q\<lparr>q_io := io\<rparr>) = P q"
  shows "guarded S P (commit_with e1 e2 upd) Q"
  unfolding guarded_def
proof (intro allI impI)
  fix q
  assume pre: "queue_wf q \<and> P q"
  have upd: "queue_wf (upd (q\<lparr>q_io := io\<rparr>)) \<and> evolves q (upd (q\<lparr>q_io := io\<rparr>))
      \<and> (\<forall>tid. tid \<notin> S \<longrightarrow> get_task tid (upd (q\<lparr>q_io := io\<rparr>)) = get_task tid q) \<and> Q () (upd (q\<lparr>q_io := io\<rparr>))" for io
    using assms(1) [of "q\<lparr>q_io := io\<rparr>"] assms(2) [of io q] pre
    by (auto intro: evolves_trans [where q' = "q\<lparr>q_io := io\<rparr>"])
  show "queue_wf (snd (commit_with e1 e2 upd q)) \<and> evolves q (snd (commit_with e1 e2 upd q))
      \<and> (\<forall>tid. tid \<notin> S \<longrightarrow> get_task tid (snd (commit_with e1 e2 upd q)) = get_task tid q)
      \<and> (\<forall>x. fst (commit_with e1 e2 upd q) = Inr x \<longrightarrow> Q x (snd (commit_with e1 e2 upd q)))"
    using upd pre by (cases rule: commit_with_cases [of e1 e2 upd q]) auto
qed

lemma guarded_commit:
  assumes "\<And>q. queue_wf q \<Longrightarrow> P q \<Longrightarrow> queue_wf (upd q) \<and> evolves q (upd q)
      \<and> (\<forall>tid. tid \<notin> S \<longrightarrow> get_task tid (upd q) = get_task tid q) \<and> Q () (upd q)"
    and "\<And>q io. P (q\<lparr>q_io := io\<rparr>) = P q"
  shows "guarded S P (commit upd) Q" and "guarded S P (commit_batch upd) Q"
  using assms unfolding commit_def commit_batch_def by (blast intro: guarded_commit_with)+

lemma get_task_update [simp]:
  "get_task tid (q\<lparr>q_tasks := AList.update k t (q_tasks q)\<rparr>) = (if tid = k then Some t else get_task tid q)"
  by (simp add: get_task_def)

lemma get_request_update [simp]:
  "get_request rid (q\<lparr>q_requests := AList.update k r (q_requests q)\<rparr>) = (if rid = k then Some r else get_request rid q)"
  by (simp add: get_request_def)

lemma get_other [simp]:
  "get_request rid (q\<lparr>q_tasks := x\<rparr>) = get_request rid q" "get_task tid (q\<lparr>q_requests := y\<rparr>) = get_task tid q"
  by (simp_all add: get_task_def get_request_def)

lemma guarded_put_task:
  "guarded {tid} (\<lambda>q. \<exists>t. get_task tid q = Some t \<and> (task_step t t' \<or> t = stamp_task cfg t') \<and> task_wf tid t')
     (put_task cfg tid t') (\<lambda>_ q. get_task tid q = Some (stamp_task cfg t'))"
  unfolding put_task_def stamp_task_def [symmetric]
proof (rule guarded_commit(1))
  fix q
  assume wf: "queue_wf q"
    and "\<exists>t. get_task tid q = Some t \<and> (task_step t t' \<or> t = stamp_task cfg t') \<and> task_wf tid t'"
  then obtain t where t: "get_task tid q = Some t" "task_wf tid t'"
    and "task_step t (stamp_task cfg t') \<or> t = stamp_task cfg t'" by auto
  then have steps: "task_steps t (stamp_task cfg t')" by blast
  let ?q = "q\<lparr>q_tasks := AList.update tid (stamp_task cfg t') (q_tasks q)\<rparr>"
  have ev: "evolves q ?q" using t(1) steps by (auto simp: evolves_def option.rel_refl)
  moreover have "queue_wf ?q" using wf t(2) request_wf_stable [OF _ ev] by (auto simp: queue_wf_def distinct_update)
  ultimately show "queue_wf ?q \<and> evolves q ?q \<and> (\<forall>k. k \<notin> {tid} \<longrightarrow> get_task k ?q = get_task k q)
      \<and> get_task tid ?q = Some (stamp_task cfg t')" by auto
qed simp

lemma guarded_step:
  assumes "\<And>q. queue_wf q \<Longrightarrow> P q \<Longrightarrow> \<exists>t. get_task tid q = Some t \<and> (task_step t t' \<or> t = stamp_task cfg t')"
    and "\<And>q t. queue_wf q \<Longrightarrow> P q \<Longrightarrow> get_task tid q = Some t \<Longrightarrow> task_wf tid t \<Longrightarrow> task_wf tid t'"
    and "tid \<in> S"
  shows "guarded S P (put_task cfg tid t') (\<lambda>_ q. get_task tid q = Some (stamp_task cfg t'))"
proof (rule guarded_wf_pre, rule guarded_weaken [OF guarded_put_task])
  fix q
  assume pre: "queue_wf q \<and> P q"
  then obtain t where t: "get_task tid q = Some t" "task_step t t' \<or> t = stamp_task cfg t'" using assms(1) by blast
  moreover have "task_wf tid t" using pre t(1) by (auto simp: queue_wf_def)
  ultimately show "\<exists>t. get_task tid q = Some t \<and> (task_step t t' \<or> t = stamp_task cfg t') \<and> task_wf tid t'"
    using assms(2) pre by blast
qed (use assms(3) in auto)

definition writable :: "string \<Rightarrow> request \<Rightarrow> queue \<Rightarrow> bool" where
  "writable rid r q \<longleftrightarrow>
     request_wf rid q r \<and> (\<exists>r0. get_request rid q = Some r0 \<and> request_core r0 = request_core r)"

lemma writable_stable: "writable rid r q \<Longrightarrow> evolves q q' \<Longrightarrow> writable rid r q'"
  unfolding writable_def using request_wf_stable evolves_request(1) by metis

lemma writable_io [simp]: "writable rid r (q\<lparr>q_io := io\<rparr>) = writable rid r q"
  by (simp add: writable_def request_wf_def tasks_succeeded_def)

lemma request_update_ok:
  assumes "queue_wf q" and "writable rid r q"
    and "\<And>tid. get_task tid q' = get_task tid q" and "\<And>k. get_request k q' = (if k = rid then Some (r\<lparr>rq_manager := x\<rparr>) else get_request k q)"
    and "q_tasks q' = q_tasks q" "q_results q' = q_results q" "q_idempotency q' = q_idempotency q" "q_objects q' = q_objects q"
      "q_generation q' = q_generation q"
  shows "queue_wf q' \<and> evolves q q'"
proof -
  have ev: "evolves q q'" using assms by (auto simp: evolves_def option.rel_refl writable_def)
  moreover have "request_wf rid q' (r\<lparr>rq_manager := x\<rparr>)"
    using writable_stable [OF assms(2) ev] by (simp add: writable_def request_wf_def)
  ultimately show ?thesis using assms request_wf_stable [OF _ ev] by (auto simp: queue_wf_def)
qed

lemma guarded_put_request: "guarded S (writable rid r) (put_request cfg rid r) (\<lambda>_ _. True)"
  unfolding put_request_def
proof (rule guarded_commit(1))
  fix q :: queue
  let ?q = "q\<lparr>q_requests := AList.update rid (r\<lparr>rq_manager := stamped cfg (rq_manager r)\<rparr>) (q_requests q)\<rparr>"
  assume "queue_wf q" and "writable rid r q"
  then have "queue_wf ?q \<and> evolves q ?q" by (rule request_update_ok) (simp_all split: if_split)
  then show "queue_wf ?q \<and> evolves q ?q \<and> (\<forall>tid. tid \<notin> S \<longrightarrow> get_task tid ?q = get_task tid q) \<and> True" by simp
qed simp

lemma guarded_stable:
  assumes "guarded S P m Q" and "\<And>q q'. F q \<Longrightarrow> evolves q q' \<Longrightarrow> F q'"
  shows "guarded S (\<lambda>q. P q \<and> F q) m (\<lambda>x q. Q x q \<and> F q)"
  using assms unfolding guarded_def by meson

lemma guarded_if:
  "(b \<Longrightarrow> guarded S P m Q) \<Longrightarrow> (\<not> b \<Longrightarrow> guarded S P n Q) \<Longrightarrow> guarded S P (if b then m else n) Q"
  by simp

lemma guarded_case_option:
  "(x = None \<Longrightarrow> guarded S P m Q) \<Longrightarrow> (\<And>y. x = Some y \<Longrightarrow> guarded S P (n y) Q)
    \<Longrightarrow> guarded S P (case x of None \<Rightarrow> m | Some y \<Rightarrow> n y) Q"
  by (cases x) auto

abbreviation safely :: "'a qm \<Rightarrow> bool" where
  "safely m \<equiv> guarded UNIV (\<lambda>_. True) m (\<lambda>_ _. True)"

lemmas state_defs = terminal_def valid_task_transition_def

section \<open>Requests\<close>

lemma step_cancelled: "\<not> terminal (tk_state t) \<Longrightarrow> task_step t (cancelled now reason t)"
  by (cases "tk_state t") (auto simp: task_step_def cancelled_def state_defs)

lemma wf_cancelled [simp]: "task_wf tid t \<Longrightarrow> task_wf tid (cancelled now reason t)"
  by (simp add: task_wf_def cancelled_def)

lemma cancelled_id [simp]: "tk_task_id (cancelled now reason t) = tk_task_id t"
  by (simp add: cancelled_def)

definition open_or_cancelled :: "queue_config \<Rightarrow> int \<Rightarrow> string \<Rightarrow> task \<Rightarrow> queue \<Rightarrow> bool" where
  "open_or_cancelled cfg now reason t q \<longleftrightarrow>
     current t q \<or> get_task (tk_task_id t) q = Some (stamp_task cfg (cancelled now reason t))"

lemma guarded_cancel_if_open:
  "guarded {tk_task_id t} (open_or_cancelled cfg now reason t) (cancel_if_open cfg now reason t)
     (\<lambda>_. open_or_cancelled cfg now reason t)"
proof (cases "terminal (tk_state t)")
  case True
  then show ?thesis by (auto simp: cancel_if_open_def intro: guarded_return)
next
  case False
  have "guarded {tk_task_id t} (open_or_cancelled cfg now reason t)
      (put_task cfg (tk_task_id t) (cancelled now reason t))
      (\<lambda>_ q. get_task (tk_task_id t) q = Some (stamp_task cfg (cancelled now reason t)))"
  proof (rule guarded_step)
    fix q u
    assume wf: "queue_wf q" and opc: "open_or_cancelled cfg now reason t q"
    show "\<exists>u. get_task (tk_task_id t) q = Some u
        \<and> (task_step u (cancelled now reason t) \<or> u = stamp_task cfg (cancelled now reason t))"
      using opc step_cancelled [OF False] unfolding open_or_cancelled_def by blast
    assume "get_task (tk_task_id t) q = Some u" and u: "task_wf (tk_task_id t) u"
    then have "u = t \<or> u = stamp_task cfg (cancelled now reason t)" using opc by (auto simp: open_or_cancelled_def)
    then show "task_wf (tk_task_id t) (cancelled now reason t)" using u by (elim disjE) simp_all
  qed simp
  then have "guarded {tk_task_id t} (open_or_cancelled cfg now reason t)
      (put_task cfg (tk_task_id t) (cancelled now reason t)) (\<lambda>_. open_or_cancelled cfg now reason t)"
    by (rule guarded_weaken) (simp_all add: open_or_cancelled_def)
  then show ?thesis using False by (simp add: cancel_if_open_def)
qed

lemma guarded_cancel_all:
  assumes "\<And>t u. t \<in> set ts \<Longrightarrow> u \<in> set ts \<Longrightarrow> tk_task_id t = tk_task_id u \<Longrightarrow> t = u"
  shows "guarded UNIV (\<lambda>q. \<forall>t\<in>set ts. open_or_cancelled cfg now reason t q)
           (qfor (cancel_if_open cfg now reason) ts) (\<lambda>_ _. True)"
  using assms
proof (induction ts)
  case Nil
  show ?case by (auto intro: guarded_return)
next
  case (Cons t ts)
  let ?F = "\<lambda>q. \<forall>u\<in>set ts. u \<noteq> t \<longrightarrow> open_or_cancelled cfg now reason u q"
  have "guarded {tk_task_id t} (\<lambda>q. open_or_cancelled cfg now reason t q \<and> ?F q) (cancel_if_open cfg now reason t)
      (\<lambda>_ q. open_or_cancelled cfg now reason t q \<and> ?F q)"
  proof (rule guarded_frame [OF guarded_cancel_if_open])
    have "tk_task_id u \<noteq> tk_task_id t" if "u \<in> set ts" "u \<noteq> t" for u using Cons.prems [of u t] that by auto
    then show "?F q'" if "?F q" and "\<forall>tid. tid \<notin> {tk_task_id t} \<longrightarrow> get_task tid q' = get_task tid q" for q q'
      using that by (simp add: open_or_cancelled_def)
  qed
  then have "guarded UNIV (\<lambda>q. \<forall>u\<in>set (t # ts). open_or_cancelled cfg now reason u q) (cancel_if_open cfg now reason t)
      (\<lambda>_ q. \<forall>u\<in>set ts. open_or_cancelled cfg now reason u q)"
    by (rule guarded_weaken) auto
  moreover have "guarded UNIV (\<lambda>q. \<forall>u\<in>set ts. open_or_cancelled cfg now reason u q)
      (qfor (cancel_if_open cfg now reason) ts) (\<lambda>_ _. True)"
    using Cons by simp
  ultimately show ?case unfolding qfor.simps by (rule guarded_bind)
qed

lemma request_tasks_current:
  assumes "queue_wf q" and "t \<in> set (request_tasks r q)"
  shows "current t q"
  using assms by (fastforce simp: request_tasks_def map_filter_def queue_wf_def task_wf_def)

lemma aggregate_succeeded:
  assumes "aggregate_state (request_tasks r q) = SUCCEEDED"
  shows "tasks_succeeded (rq_task_ids r) q"
proof -
  have "set (map tk_state (request_tasks r q)) = {SUCCEEDED}"
    using assms by (auto simp: aggregate_state_def Let_def split: if_splits)
  then show ?thesis by (force simp: tasks_succeeded_def request_tasks_def map_filter_def)
qed

lemma safely_refresh_request: "safely (refresh_request cfg now rid)"
  unfolding refresh_request_def
proof (rule guarded_wf_pre, rule guarded_bind_get, simp only: prod.case, intro guarded_case_option guarded_if)
  fix q r
  assume r: "get_request rid q = Some r"
  let ?ts = "request_tasks r q" and ?P = "\<lambda>q'. (queue_wf q' \<and> True) \<and> q' = q"
  let ?f = "r\<lparr>rq_state := FAILED, rq_error := tk_last_error (hd (filter (\<lambda>t. tk_state t = FAILED) ?ts)), rq_updated_at_ms := now\<rparr>"
  let ?n = "r\<lparr>rq_state := aggregate_state ?ts, rq_updated_at_ms := now\<rparr>"
  let ?O = "\<lambda>q'. \<forall>t\<in>set ?ts. open_or_cancelled cfg now ''request_failed'' t q'"
  show "guarded UNIV ?P
     (let ts = ?ts; st = aggregate_state ts
      in if st = FAILED
         then qbind (qfor (cancel_if_open cfg now ''request_failed'') ts)
               (\<lambda>_. put_request cfg rid (r\<lparr>rq_state := FAILED,
                   rq_error := tk_last_error (hd (filter (\<lambda>t. tk_state t = FAILED) ts)), rq_updated_at_ms := now\<rparr>))
         else put_request cfg rid (r\<lparr>rq_state := st, rq_updated_at_ms := now\<rparr>))
     (\<lambda>_ _. True)"
  proof (cases "queue_wf q")
    case True
    have f: "writable rid ?f q" and n: "writable rid ?n q"
      using True r aggregate_succeeded [of r q] by (auto simp: queue_wf_def writable_def request_wf_def)
    have "guarded UNIV (\<lambda>q'. ?O q' \<and> writable rid ?f q') (qfor (cancel_if_open cfg now ''request_failed'') ?ts)
        (\<lambda>_ q'. True \<and> writable rid ?f q')"
    proof (rule guarded_stable [OF guarded_cancel_all])
      show "t = u" if "t \<in> set ?ts" "u \<in> set ?ts" "tk_task_id t = tk_task_id u" for t u
        using request_tasks_current [OF True] that by (metis option.inject)
    qed (rule writable_stable)
    then have loop: "guarded UNIV ?P (qfor (cancel_if_open cfg now ''request_failed'') ?ts) (\<lambda>_. writable rid ?f)"
      by (rule guarded_weaken) (use request_tasks_current [OF True] f in \<open>auto simp: open_or_cancelled_def\<close>)
    have "guarded UNIV ?P (put_request cfg rid ?n) (\<lambda>_ _. True)"
      by (rule guarded_weaken [OF guarded_put_request]) (use n in auto)
    then show ?thesis
      unfolding Let_def by (intro guarded_if guarded_bind [OF loop guarded_put_request]) simp
  qed (simp add: guarded_def)
qed (auto intro: guarded_return)

lemma safely_refresh_requests [guarded_intros]: "safely (refresh_requests cfg now)"
  unfolding refresh_requests_def
  by (rule guarded_bind_get, rule guarded_weaken [OF guarded_qfor]) (auto intro: safely_refresh_request)

section \<open>Parts of the queue that a program keeps\<close>

definition keeps :: "(queue \<Rightarrow> 'b) \<Rightarrow> 'a qm \<Rightarrow> bool" where
  "keeps f m \<longleftrightarrow> (\<forall>q. f (snd (m q)) = f q)"

named_theorems keeps_intros \<open>one rule per combinator\<close>

lemma keepsD: "keeps f m \<Longrightarrow> f (snd (m q)) = f q"
  by (simp add: keeps_def)

lemma keeps_basic [keeps_intros]: "keeps f (qreturn x)" "keeps f (qraise e)" "keeps f (qget g)"
  by (simp_all add: keeps_def qreturn_def qraise_def qget_def)

lemma keeps_bind [keeps_intros]: "keeps f m \<Longrightarrow> (\<And>x. keeps f (n x)) \<Longrightarrow> keeps f (qbind m n)"
  by (simp add: keeps_def qbind_def split: prod.split sum.split) (metis snd_conv)

lemma keeps_if [keeps_intros]: "(b \<Longrightarrow> keeps f m) \<Longrightarrow> (\<not> b \<Longrightarrow> keeps f n) \<Longrightarrow> keeps f (if b then m else n)"
  by simp

lemma keeps_option [keeps_intros]:
  "(x = None \<Longrightarrow> keeps f m) \<Longrightarrow> (\<And>y. x = Some y \<Longrightarrow> keeps f (n y)) \<Longrightarrow> keeps f (case x of None \<Rightarrow> m | Some y \<Rightarrow> n y)"
  by (cases x) auto

lemma keeps_prod [keeps_intros]: "(\<And>a b. keeps f (g a b)) \<Longrightarrow> keeps f (case x of (a, b) \<Rightarrow> g a b)"
  by (cases x) auto

lemma keeps_loops [keeps_intros]:
  "(\<And>x. keeps f (g x)) \<Longrightarrow> keeps f (qfor g xs)" "(\<And>x. keeps f (h x)) \<Longrightarrow> keeps f (qsum h xs)"
  by (induction xs) (auto intro!: keeps_intros)

lemma keeps_commit:
  assumes "\<And>q. f (upd q) = f q" and "\<And>q io. f (q\<lparr>q_io := io\<rparr>) = f q"
  shows "keeps f (commit upd)" and "keeps f (commit_batch upd)"
proof -
  have "f (snd (commit_with e1 e2 upd q)) = f q" for e1 e2 q
    using assms by (cases rule: commit_with_cases [of e1 e2 upd q]) simp_all
  then show "keeps f (commit upd)" and "keeps f (commit_batch upd)"
    by (simp_all add: keeps_def commit_def commit_batch_def)
qed

lemma keeps_puts [keeps_intros]:
  "keeps q_results (put_task cfg tid t)" "keeps q_results (put_request cfg rid r)"
  "keeps q_snapshots (put_task cfg tid t)" "keeps q_snapshots (put_request cfg rid r)"
  "keeps q_memberships (put_task cfg tid t)" "keeps q_memberships (put_request cfg rid r)"
  by (simp_all add: put_task_def put_request_def keeps_commit)

lemma keeps_refresh [keeps_intros]:
  "keeps q_results (refresh_requests cfg now)" "keeps q_snapshots (refresh_requests cfg now)"
  "keeps q_memberships (refresh_requests cfg now)"
  unfolding refresh_requests_def refresh_request_def cancel_if_open_def Let_def
  by (auto intro!: keeps_intros split: prod.split)

lemma keeps_expire_claims [keeps_intros]:
  "keeps q_results (expire_claims cfg now)" "keeps q_snapshots (expire_claims cfg now)"
  "keeps q_memberships (expire_claims cfg now)"
  unfolding expire_claims_def expire_task_def by (auto intro!: keeps_intros)

lemma guarded_keeps:
  assumes "keeps f m" and "guarded S P m Q"
  shows "guarded S (\<lambda>q. P q \<and> F (f q)) m (\<lambda>x q. Q x q \<and> F (f q))"
  using assms unfolding guarded_def keeps_def by simp

section \<open>Expiry\<close>

lemma guarded_expire_task:
  "guarded {tk_task_id t} (current t) (expire_task cfg now t) (\<lambda>_ _. True)"
proof -
  let ?f = "t\<lparr>tk_state := FAILED, tk_last_error := ''deadline_expired'', tk_updated_at_ms := now, tk_revision := tk_revision t + 1\<rparr>"
  let ?e = "expired_task now t"
  let ?a = "?e\<lparr>tk_state := after_expiry now t, tk_revision := tk_revision t + 2\<rparr>"
  have "guarded {tk_task_id t} (current t) (put_task cfg (tk_task_id t) ?f)
      (\<lambda>_ q. get_task (tk_task_id t) q = Some (stamp_task cfg ?f))"
    if "tk_state t \<in> {QUEUED, RETRY_WAIT}"
    using that by (intro guarded_step) (auto simp: task_step_def state_defs task_wf_def)
  moreover have "guarded {tk_task_id t} (current t) (put_task cfg (tk_task_id t) ?e)
      (\<lambda>_ q. get_task (tk_task_id t) q = Some (stamp_task cfg ?e))"
    if "tk_state t = CLAIMED"
    using that by (intro guarded_step) (auto simp: task_step_def state_defs task_wf_def expired_task_def)
  moreover have "guarded {tk_task_id t} (\<lambda>q. get_task (tk_task_id t) q = Some (stamp_task cfg ?e))
      (put_task cfg (tk_task_id t) ?a) (\<lambda>_ q. get_task (tk_task_id t) q = Some (stamp_task cfg ?a))"
    by (intro guarded_step) (auto simp: task_step_def state_defs task_wf_def expired_task_def after_expiry_def)
  ultimately show ?thesis
    unfolding expire_task_def
    by (intro guarded_if) (auto intro!: guarded_return intro: guarded_bind)
qed

lemma safely_expire_claims [guarded_intros]: "safely (expire_claims cfg now)"
  unfolding expire_claims_def by (intro guarded_listing guarded_expire_task guarded_intros) simp

section \<open>Claims\<close>

lemma guarded_lookup:
  assumes "guarded S P (f None) Q"
    and "\<And>t. task_wf tid t \<Longrightarrow> guarded S (\<lambda>q. get_task tid q = Some t) (f (Some t)) Q"
  shows "guarded S P (qbind (qget (get_task tid)) f) Q"
proof (rule guarded_wf_pre, rule guarded_bind_get)
  fix q
  show "guarded S (\<lambda>q'. (queue_wf q' \<and> P q') \<and> q' = q) (f (get_task tid q)) Q"
  proof (cases "get_task tid q")
    case None
    show ?thesis unfolding None by (rule guarded_weaken [OF assms(1)]) auto
  next
    case (Some t)
    show ?thesis
    proof (cases "queue_wf q")
      case True
      then have "task_wf tid t" using Some by (simp add: queue_wf_def)
      then show ?thesis unfolding Some by (rule guarded_weaken [OF assms(2)]) (use Some in auto)
    qed (simp add: guarded_def)
  qed
qed

lemma guarded_write_then:
  assumes "task_step t t'" and "task_wf tid t \<Longrightarrow> task_wf tid t'" and "tid \<in> S"
    and "guarded S (\<lambda>q. get_task tid q = Some (stamp_task cfg t')) (g ()) Q"
  shows "guarded S (\<lambda>q. get_task tid q = Some t) (qbind (put_task cfg tid t') g) Q"
proof (rule guarded_bind)
  show "guarded S (\<lambda>q. get_task tid q = Some t) (put_task cfg tid t') (\<lambda>_ q. get_task tid q = Some (stamp_task cfg t'))"
    using assms(1-3) by (intro guarded_step) auto
  show "guarded S (\<lambda>q. get_task tid q = Some (stamp_task cfg t')) (g x) Q" for x using assms(4) by (cases x) simp
qed

lemmas lifecycle_defs = task_step_def task_wf_def state_defs

lemma guarded_set_dispatch_status: "safely (set_dispatch_status cfg now tid reason)"
  unfolding set_dispatch_status_def
  by (intro guarded_lookup) (auto intro!: guarded_write_then guarded_return simp: lifecycle_defs)

lemma step_requeued: "tk_state t = RETRY_WAIT \<Longrightarrow> task_step t (requeued now t)"
  and wf_requeued: "tk_state t = RETRY_WAIT \<Longrightarrow> task_wf tid t \<Longrightarrow> task_wf tid (requeued now t)"
  by (auto simp: requeued_def lifecycle_defs)

lemma step_claimed: "tk_state t = QUEUED \<Longrightarrow> task_step t (claimed now c t)"
  and wf_claimed: "task_wf tid t \<Longrightarrow> task_wf tid (claimed now c t)"
  by (auto simp: claimed_def lifecycle_defs)

lemma step_retry: "tk_state t = CLAIMED \<Longrightarrow> task_step t (back_to_retry now reason t)"
  and wf_retry: "task_wf tid t \<Longrightarrow> task_wf tid (back_to_retry now reason t)"
  by (auto simp: back_to_retry_def lifecycle_defs)

lemma guarded_claim_task: "safely (claim_task sha cfg now token tid a)"
proof -
  have fresh: "guarded UNIV (\<lambda>q. get_task tid q = Some u) (qbind (put_task cfg tid (claimed now c t)) (\<lambda>_. qreturn x)) (\<lambda>_ _. True)"
    if "tk_state t = QUEUED" and "u = t \<or> u = stamp_task cfg t" for u t c x
    using that step_claimed [OF that(1), of now c] wf_claimed [of tid t now c]
    by (intro guarded_write_then guarded_return) auto
  have retry: "guarded UNIV (\<lambda>q. get_task tid q = Some t)
      (qbind (put_task cfg tid (requeued now t)) (\<lambda>_. qbind (put_task cfg tid (claimed now c (requeued now t))) (\<lambda>_. qreturn x)))
      (\<lambda>_ _. True)"
    if "tk_state t = RETRY_WAIT" for t c x
    using that step_requeued [OF that] wf_requeued [OF that] by (intro guarded_write_then fresh) (auto simp: requeued_def)
  have skip: "qbind (qreturn ()) f = f ()" for f :: "unit \<Rightarrow> materialize_task qm"
    by (rule ext) (simp add: qbind_def qreturn_def)
  show ?thesis
    unfolding claim_task_def Let_def
    by (auto intro!: guarded_lookup guarded_raise fresh retry simp: skip)
qed

lemma guarded_renew_claim: "safely (renew_claim sha cfg now agent lease tid)"
  unfolding renew_claim_def
  by (intro guarded_lookup)
     (auto intro!: guarded_write_then guarded_return guarded_case_option simp: lifecycle_defs renews_def)

lemma guarded_renew_agent_claims: "safely (renew_agent_claims sha cfg now agent lease tids)"
  unfolding renew_agent_claims_def by (intro guarded_qsum guarded_renew_claim)

lemma guarded_release_claim: "safely (release_claim redact cfg now tid token reason)"
  unfolding release_claim_def
  by (intro guarded_lookup)
     (auto intro!: guarded_write_then guarded_return wf_retry step_retry guarded_weaken [OF guarded_seq [OF safely_refresh_requests]])

lemma guarded_fence_claim: "guarded {tk_task_id t} (current t) (fence_claim cfg now owner fence t) (\<lambda>_ _. True)"
  unfolding fence_claim_def
  by (auto intro!: guarded_write_then guarded_return wf_retry step_retry)

lemma guarded_fence_claims: "safely (fence_claims cfg now owner fence)"
  unfolding fence_claims_def
  by (intro guarded_listing guarded_fence_claim guarded_seq guarded_if guarded_return safely_refresh_requests) simp_all

lemma guarded_reassign_claim:
  "guarded {tk_task_id t} (current t) (reassign_claim cfg now gid m t) (\<lambda>_ _. True)"
  unfolding reassign_claim_def
  by (auto intro!: guarded_write_then guarded_return simp: back_to_retry_def lifecycle_defs)

lemma guarded_put_membership [guarded_intros]: "guarded S P (put_membership cfg gkey m) (\<lambda>_ _. True)"
proof -
  have "guarded S (\<lambda>_. True) (put_membership cfg gkey m) (\<lambda>_ _. True)"
    unfolding put_membership_def
    by (rule guarded_commit(1)) (auto simp: queue_wf_def evolves_def get_task_def get_request_def option.rel_refl request_wf_def tasks_succeeded_def)
  then show ?thesis by (rule guarded_weaken) auto
qed

lemma guarded_reassign_fenced_claims: "safely (reassign_fenced_claims sha cfg now gid m)"
  unfolding reassign_fenced_claims_def
  by (intro guarded_listing guarded_reassign_claim guarded_seq guarded_if guarded_return guarded_put_membership) simp_all

section \<open>Programs that only read\<close>

abbreviation readonly :: "'a qm \<Rightarrow> bool" where
  "readonly m \<equiv> keeps (\<lambda>q. q) m"

lemma guarded_readonly: "readonly m \<Longrightarrow> guarded S P m (\<lambda>_. P)"
  by (simp add: guarded_def keeps_def)

lemma guarded_read_then: "readonly m \<Longrightarrow> (\<And>x. guarded S P (f x) Q) \<Longrightarrow> guarded S P (qbind m f) Q"
  by (rule guarded_bind [OF guarded_readonly])

lemma readonly_qlift [keeps_intros]: "readonly (qlift r)"
  by (cases r) (auto simp: qlift_def intro: keeps_intros)

lemma readonly_checks:
  "readonly (verify_output sha parquet_rows key r)" "readonly (check_outputs sha e e' m)" "readonly (check_task_present tid)"
  unfolding verify_output_def check_outputs_def check_split_def check_metadata_def check_task_present_def
  by (auto intro!: keeps_intros)

lemma readonly_get_snapshot: "readonly (get_snapshot sha table epoch)"
  unfolding get_snapshot_def by (intro keeps_intros readonly_checks)

section \<open>Results\<close>

lemma guarded_cancel_task: "safely (cancel_task redact cfg now reason tid)"
proof -
  have "guarded UNIV (\<lambda>q. get_task tid q = Some t) (put_task cfg tid (cancelled now e t)) (\<lambda>_ _. True)"
    if "\<not> terminal (tk_state t)" for t e
    by (rule guarded_weaken [OF guarded_step [where S = UNIV and P = "\<lambda>q. get_task tid q = Some t"]])
       (use step_cancelled [OF that] in auto)
  then show ?thesis
    unfolding cancel_task_def by (intro guarded_lookup) (auto intro!: guarded_return)
qed

lemma guarded_cancel_request: "safely (cancel_request redact cfg now rid reason)"
  unfolding cancel_request_def
proof (rule guarded_wf_pre, rule guarded_bind_get, intro guarded_case_option)
  fix q r
  assume r: "get_request rid q = Some r"
  let ?r = "r\<lparr>rq_state := CANCELLED, rq_error := safe_error redact reason, rq_updated_at_ms := now\<rparr>"
  show "guarded UNIV (\<lambda>q'. (queue_wf q' \<and> True) \<and> q' = q)
     (qbind (qfor (cancel_task redact cfg now reason) (rq_task_ids r)) (\<lambda>_. qbind (put_request cfg rid ?r) (\<lambda>_. qreturn True)))
     (\<lambda>_ _. True)"
  proof (cases "queue_wf q")
    case True
    then have w: "writable rid ?r q" using r by (auto simp: queue_wf_def writable_def request_wf_def)
    have "guarded UNIV (\<lambda>q. True \<and> writable rid ?r q) (qfor (cancel_task redact cfg now reason) (rq_task_ids r))
        (\<lambda>_ q. True \<and> writable rid ?r q)"
      by (intro guarded_stable guarded_qfor guarded_cancel_task) (rule writable_stable)
    then have loop: "guarded UNIV (\<lambda>q'. (queue_wf q' \<and> True) \<and> q' = q)
        (qfor (cancel_task redact cfg now reason) (rq_task_ids r)) (\<lambda>_. writable rid ?r)"
      by (rule guarded_weaken) (use w in auto)
    show ?thesis by (intro guarded_bind [OF loop] guarded_seq guarded_put_request guarded_return) simp
  qed (simp add: guarded_def)
qed (auto intro: guarded_return)

lemma claim_refusal_None:
  assumes "claim_refusal sha lease_id r t q = None"
  obtains c where "tk_claim t = Some c" "tk_state t = CLAIMED" "cl_claim_token c = tr_claim_token r"
    "cl_agent_id c = tr_agent_id r" "tr_attempt r = tk_attempt t" "cl_agent_lease_hash c = sha lease_id"
    "cl_membership_version c = tr_membership_version r" "cl_worker_fence c = tr_worker_fence r"
    "\<And>m. tr_generation_id r \<noteq> [] \<Longrightarrow> get_membership sha (tr_generation_id r) q = Some m \<Longrightarrow> worker_current sha lease_id r m"
    "tr_generation_id r = mt_generation_id (tk_task t)" "tr_generation_fence r = mt_generation_fence (tk_task t)"
    "tr_plan_sha256 r = mt_plan_sha256 (tk_task t)"
  using assms by (auto simp: claim_refusal_def split: option.splits if_splits)

lemma guarded_put_result:
  "guarded S (\<lambda>q. map_of (q_results q) (tid, n) = None) (put_result cfg tid n x) (\<lambda>_ _. True)"
  unfolding put_result_def
  by (rule guarded_commit(1)) (auto simp: queue_wf_def evolves_def get_task_def get_request_def option.rel_refl request_wf_def tasks_succeeded_def)

lemma guarded_settle:
  assumes "task_step t t'" and "task_wf (tr_task_id r) t \<Longrightarrow> task_wf (tr_task_id r) t'"
    and "map_of res (tr_task_id r, tk_attempt t') = None"
  shows "guarded UNIV (\<lambda>q. get_task (tr_task_id r) q = Some t \<and> q_results q = res) (settle cfg now r c t') (\<lambda>_ _. True)"
proof -
  have "guarded UNIV (\<lambda>q. get_task (tr_task_id r) q = Some t) (put_task cfg (tr_task_id r) t') (\<lambda>_ _. True)"
    by (rule guarded_weaken [OF guarded_step [where S = UNIV and P = "\<lambda>q. get_task (tr_task_id r) q = Some t"]])
       (use assms(1,2) in auto)
  then have put: "guarded UNIV (\<lambda>q. get_task (tr_task_id r) q = Some t \<and> q_results q = res) (put_task cfg (tr_task_id r) t')
      (\<lambda>_ q. True \<and> q_results q = res)"
    by (rule guarded_keeps [OF keeps_puts(1)])
  have res: "guarded UNIV (\<lambda>q. True \<and> q_results q = res) (put_result cfg (tr_task_id r) (tk_attempt t') x) (\<lambda>_ _. True)" for x
    by (rule guarded_weaken [OF guarded_put_result]) (use assms(3) in auto)
  show ?thesis
    unfolding settle_def
    by (intro guarded_bind [OF put] guarded_bind [OF res] guarded_seq guarded_return safely_refresh_requests) simp
qed

lemma step_succeeded:
  assumes "tk_state t = CLAIMED" and "tr_attempt r = tk_attempt t"
  shows "task_step t (succeeded_task now r key t)" and "task_wf tid t \<Longrightarrow> task_wf tid (succeeded_task now r key t)"
  using assms by (auto simp: succeeded_task_def lifecycle_defs)

lemma step_failed:
  assumes "tk_state t = CLAIMED"
  shows "task_step t (failed_task redact cfg now r t)" and "task_wf tid t \<Longrightarrow> task_wf tid (failed_task redact cfg now r t)"
  using assms by (auto simp: failed_task_def lifecycle_defs Let_def)

lemma settled_attempt [simp]:
  "tk_attempt (succeeded_task now r key t) = tk_attempt t" "tk_attempt (failed_task redact cfg now r t) = tk_attempt t"
  by (simp_all add: succeeded_task_def failed_task_def Let_def)

lemma guarded_accept_claimed:
  assumes "tk_state t = CLAIMED" "tr_attempt r = tk_attempt t" "map_of res (tr_task_id r, tk_attempt t) = None"
  shows "guarded UNIV (\<lambda>q. get_task (tr_task_id r) q = Some t \<and> q_results q = res)
           (accept_claimed sha redact parquet_rows cfg now r c t) (\<lambda>_ _. True)"
  unfolding accept_claimed_def
  by (intro guarded_if guarded_return guarded_read_then readonly_checks guarded_settle
        step_succeeded [OF assms(1,2)] step_failed [OF assms(1)])
     (simp_all add: assms)

lemma guarded_accept_result: "safely (accept_result sha redact parquet_rows cfg now lease_id r)"
  unfolding accept_result_def
proof (rule guarded_bind_get, intro guarded_case_option guarded_return)
  fix q0 :: queue
  let ?none = "\<lambda>res. map_of res (tr_task_id r, tr_attempt r) = None"
  let ?body = "\<lambda>(t0, q). case t0 of
      None \<Rightarrow> qreturn (reply False None False True Rejected)
    | Some t \<Rightarrow>
        if tk_state t = SUCCEEDED then
          let same = same_as_accepted (tk_result t) r in
          qreturn (reply same (Some SUCCEEDED) same True (if same then Duplicate else Conflict))
        else
          (case claim_refusal sha lease_id r t q of
             Some a \<Rightarrow> qreturn a
           | None \<Rightarrow>
               if superseded r q then
                 qbind (cancel_request redact cfg now (tk_request_id t) ''generation_fenced'') (\<lambda>_.
                 qreturn (reply False (Some CANCELLED) False True Stale_Generation))
               else accept_claimed sha redact parquet_rows cfg now r (the (tk_claim t)) t)"
  assume "map_of (q_results q0) (tr_task_id r, tr_attempt r) = None"
  moreover have exp: "guarded UNIV (\<lambda>q. ?none (q_results q)) (expire_claims cfg now) (\<lambda>_ q. ?none (q_results q))"
    using guarded_keeps [OF keeps_expire_claims(1) safely_expire_claims, of ?none] by simp
  moreover have rest: "guarded UNIV (\<lambda>q. ?none (q_results q))
      (qbind (qget (\<lambda>q. (get_task (tr_task_id r) q, q))) ?body) (\<lambda>_ _. True)"
  proof (rule guarded_bind_get)
    fix q :: queue
    let ?P = "\<lambda>q'. ?none (q_results q') \<and> q' = q"
    have accept: "guarded UNIV ?P (accept_claimed sha redact parquet_rows cfg now r (the (tk_claim t)) t) (\<lambda>_ _. True)"
      if "get_task (tr_task_id r) q = Some t" "claim_refusal sha lease_id r t q = None" for t
    proof (cases "?none (q_results q)")
      case True
      from that(2) obtain c where "tk_state t = CLAIMED" "tr_attempt r = tk_attempt t" by (rule claim_refusal_None)
      then show ?thesis using True that(1)
        by (intro guarded_weaken [OF guarded_accept_claimed [where res = "q_results q"]]) auto
    qed (auto simp: guarded_def)
    have cancel: "guarded UNIV ?P (qbind (cancel_request redact cfg now rid e) (\<lambda>_. qreturn a)) (\<lambda>_ _. True)" for rid e a
      by (rule guarded_weaken [OF guarded_seq [OF guarded_cancel_request]]) (auto intro: guarded_return)
    show "guarded UNIV ?P (?body (get_task (tr_task_id r) q, q)) (\<lambda>_ _. True)"
      by (auto intro!: guarded_case_option guarded_return cancel accept simp: Let_def)
  qed
  ultimately show "guarded UNIV (\<lambda>q'. True \<and> q' = q0)
      (qbind (expire_claims cfg now) (\<lambda>_. qbind (qget (\<lambda>q. (get_task (tr_task_id r) q, q))) ?body)) (\<lambda>_ _. True)"
    by (intro guarded_bind [OF guarded_weaken [OF exp] rest]) auto
qed simp

section \<open>Publication, membership and waiting\<close>

lemma guarded_write_publication: "guarded UNIV (writable rid r) (write_publication cfg rid key m r) (\<lambda>_ _. True)"
proof -
  let ?upd = "\<lambda>q. q\<lparr>q_snapshots := AList.update key m (q_snapshots q),
      q_requests := AList.update rid (r\<lparr>rq_manager := stamped cfg (rq_manager r)\<rparr>) (q_requests q)\<rparr>"
  have "queue_wf (?upd q) \<and> evolves q (?upd q)" if "queue_wf q" "writable rid r q" for q :: queue
    using that by (rule request_update_ok [where x = "stamped cfg (rq_manager r)"])
      (simp_all add: get_task_def get_request_def)
  then have "guarded UNIV (writable rid r) (commit_batch ?upd) (\<lambda>_ _. True)"
    by (intro guarded_commit(2)) auto
  moreover have "guarded UNIV (writable rid r)
      (commit (\<lambda>q. q\<lparr>q_snapshots := AList.update key m (q_snapshots q)\<rparr>)) (\<lambda>_. writable rid r)"
    by (intro guarded_commit(1))
      (auto simp: queue_wf_def evolves_def get_task_def get_request_def option.rel_refl request_wf_def tasks_succeeded_def writable_def)
  ultimately show ?thesis
    unfolding write_publication_def
    by (intro guarded_read_then [OF keeps_basic(3)] guarded_if)
       (assumption, erule guarded_bind, rule guarded_put_request)
qed

lemma readonly_publish_checks: "readonly (publish_checks sha now rid m)"
  unfolding publish_checks_def Let_def by (intro keeps_intros readonly_checks)

lemma publish_checks_request:
  assumes "publish_checks sha now rid m q = (Inr (m', r'), q')"
  obtains r where "get_request rid q = Some r" "rq_state r = SUCCEEDED" "r' = published_request sha now m r"
  using assms by (auto simp: publish_checks_def qbind_Inr Let_def split: option.splits if_splits)

lemma guarded_publish_snapshot: "safely (publish_snapshot sha cfg now rid m)"
proof -
  have "writable rid r' q" if wf: "queue_wf q" and run: "publish_checks sha now rid m q = (Inr (m', r'), q)" for q m' r'
  proof -
    from run obtain r where "get_request rid q = Some r" "r' = published_request sha now m r"
      by (rule publish_checks_request)
    then show ?thesis using wf by (auto simp: queue_wf_def writable_def request_wf_def published_request_def)
  qed
  then have "guarded UNIV (\<lambda>_. True) (publish_checks sha now rid m) (\<lambda>(m', r') q. writable rid r' q)"
    using keepsD [OF readonly_publish_checks, of sha now rid m] by (auto simp: guarded_def) (metis prod.collapse)
  then show ?thesis
    unfolding publish_snapshot_def
    by (rule guarded_bind) (auto intro!: guarded_seq guarded_write_publication guarded_return)
qed

lemma guarded_reconcile_membership: "safely (reconcile_membership sha cfg now gid fence workers policy)"
  unfolding reconcile_membership_def Let_def
  by (intro guarded_if guarded_raise guarded_read_then keeps_basic guarded_case_option guarded_return guarded_seq
        guarded_put_membership) simp_all

lemma guarded_runnable_tasks: "safely (runnable_tasks cfg now ts expire)"
  unfolding runnable_tasks_def
  by (intro guarded_seq guarded_if safely_expire_claims guarded_return guarded_get) simp_all

lemma guarded_wait_request: "safely (wait_request cfg rid polls)"
proof (induction polls)
  case Nil
  show ?case by (simp add: guarded_return)
next
  case (Cons now polls)
  then show ?case
    unfolding wait_request.simps
    by (intro guarded_seq safely_expire_claims guarded_read_then keeps_basic guarded_case_option guarded_raise
          guarded_if guarded_return) simp_all
qed

section \<open>Runs of operations\<close>

record queue_env =
  qe_sha :: "string \<Rightarrow> string"
  qe_redact :: "string \<Rightarrow> string"
  qe_parquet_rows :: "bytes \<Rightarrow> int option"
  qe_config :: queue_config

datatype queue_op =
    Expire int
  | Runnable int "task list option" bool
  | Set_Dispatch int string string
  | Claim int string string claim_args
  | Renew int string string "string list"
  | Release int string string string
  | Accept int string task_result
  | Cancel int string string
  | Fence int string int
  | Publish int string snapshot_manifest
  | Reconcile int string int "observed_worker list" string
  | Reassign int string membership
  | Wait string "int list"
  | Snapshot string int

fun run_op :: "queue_env \<Rightarrow> queue_op \<Rightarrow> queue \<Rightarrow> queue" where
  "run_op e (Expire now) q = snd (expire_claims (qe_config e) now q)"
| "run_op e (Runnable now ts expire) q = snd (runnable_tasks (qe_config e) now ts expire q)"
| "run_op e (Set_Dispatch now tid reason) q = snd (set_dispatch_status (qe_config e) now tid reason q)"
| "run_op e (Claim now token tid a) q = snd (claim_task (qe_sha e) (qe_config e) now token tid a q)"
| "run_op e (Renew now agent lease tids) q = snd (renew_agent_claims (qe_sha e) (qe_config e) now agent lease tids q)"
| "run_op e (Release now tid token reason) q = snd (release_claim (qe_redact e) (qe_config e) now tid token reason q)"
| "run_op e (Accept now lease r) q =
     snd (accept_result (qe_sha e) (qe_redact e) (qe_parquet_rows e) (qe_config e) now lease r q)"
| "run_op e (Cancel now rid reason) q = snd (cancel_request (qe_redact e) (qe_config e) now rid reason q)"
| "run_op e (Fence now owner fence) q = snd (fence_claims (qe_config e) now owner fence q)"
| "run_op e (Publish now rid m) q = snd (publish_snapshot (qe_sha e) (qe_config e) now rid m q)"
| "run_op e (Reconcile now gid fence ws policy) q =
     snd (reconcile_membership (qe_sha e) (qe_config e) now gid fence ws policy q)"
| "run_op e (Reassign now gid m) q = snd (reassign_fenced_claims (qe_sha e) (qe_config e) now gid m q)"
| "run_op e (Wait rid polls) q = snd (wait_request (qe_config e) rid polls q)"
| "run_op e (Snapshot table epoch) q = snd (get_snapshot (qe_sha e) table epoch q)"

lemma safelyD: "safely m \<Longrightarrow> queue_wf q \<Longrightarrow> queue_wf (snd (m q)) \<and> evolves q (snd (m q))"
  by (simp add: guarded_def)

lemma run_op_safe: "queue_wf q \<Longrightarrow> queue_wf (run_op e oper q) \<and> evolves q (run_op e oper q)"
  by (cases oper)
     (simp_all add: safelyD safely_expire_claims guarded_runnable_tasks guarded_set_dispatch_status guarded_claim_task
        guarded_renew_agent_claims guarded_release_claim guarded_accept_result guarded_cancel_request
        guarded_fence_claims guarded_publish_snapshot guarded_reconcile_membership guarded_reassign_fenced_claims
        guarded_wait_request keepsD [OF readonly_get_snapshot])

lemma run_ops_safe: "queue_wf q \<Longrightarrow> queue_wf (fold (run_op e) ops q) \<and> evolves q (fold (run_op e) ops q)"
proof (induction ops arbitrary: q)
  case (Cons oper ops)
  then show ?case using run_op_safe [of q e oper] by (auto intro: evolves_trans)
qed simp


definition demo_materialize :: materialize_task where
  "demo_materialize =
     \<lparr>mt_table = ''t'', mt_epoch = 7, mt_split_index = 0, mt_source_table = ''s'', mt_output_key = ''w/t/data/0.parquet'', mt_schema = [], mt_range = None, mt_task_id = ''T'',
      mt_request_id = ''R'', mt_claim_token = [], mt_attempt = 0, mt_claim_expires_at_ms = 0, mt_connection_id = ''c'',
      mt_connection_fingerprint = [], mt_generation_id = ''g'', mt_generation_fence = 1, mt_plan_sha256 = ''p'', mt_table_format = [],
      mt_deadline_ms = 0, mt_num_splits = 1, mt_key_column = [], mt_split_strategy = [],
      mt_membership_version = 0, mt_worker_fence = 0, mt_tenant_id = []\<rparr>"

definition demo_task :: task where
  "demo_task =
     \<lparr>tk_task_id = ''T'', tk_request_id = ''R'', tk_state = QUEUED, tk_attempt = 0, tk_max_attempts = 3,
      tk_available_at_ms = 0, tk_claim = None, tk_task = demo_materialize, tk_result = None, tk_last_error = [],
      tk_created_at_ms = 0, tk_updated_at_ms = 0, tk_revision = 1, tk_dispatch_status = None,
      tk_reassignment_count = 0, tk_manager = None\<rparr>"

definition empty_queue :: queue where
  "empty_queue =
     \<lparr>q_requests = [], q_tasks = [], q_results = [], q_snapshots = [], q_idempotency = [], q_memberships = [],
      q_objects = [], q_completions = [], q_generation = None, q_io = []\<rparr>"

definition demo_env :: queue_env where
  "demo_env = \<lparr>qe_sha = id, qe_redact = id, qe_parquet_rows = (\<lambda>_. None), qe_config = new_config 120 3 5 60 None\<rparr>"

definition demo_args :: claim_args where
  "demo_args =
     \<lparr>ka_agent_id = ''a'', ka_agent_lease_id = ''l'', ka_manager_owner = ''m'', ka_manager_fence = 1,
      ka_membership_version = 0, ka_worker_fence = 0, ka_lease_seconds = None\<rparr>"

lemma demo_queue_wf: "queue_wf (empty_queue\<lparr>q_tasks := [(''T'', demo_task)]\<rparr>)"
  by (simp add: queue_wf_def empty_queue_def get_task_def get_request_def task_wf_def demo_task_def)


end
