(* ===== verification/Queue_Results.thy ===== *)
theory Queue_Results
  imports Queue_Safety
begin

text \<open>
  Expiry and results: no overdue claim survives \<open>expire_claims\<close>; a result is accepted only from the holder of the
  live claim with verified output, and at most once per attempt; a refused result changes nothing but expired
  claims; and what redelivered results are answered.
\<close>

section \<open>Preserved predicates\<close>

definition preserves :: "(queue \<Rightarrow> bool) \<Rightarrow> 'a qm \<Rightarrow> bool" where
  "preserves I m \<longleftrightarrow> (\<forall>q. I q \<longrightarrow> I (snd (m q)))"

named_theorems preserves_intros \<open>one rule per combinator\<close>

lemma preservesD: "preserves I m \<Longrightarrow> I q \<Longrightarrow> I (snd (m q))"
  by (simp add: preserves_def)

lemma preserves_basic [preserves_intros]: "preserves I (qreturn x)" "preserves I (qraise e)" "preserves I (qget g)"
  by (simp_all add: preserves_def qreturn_def qraise_def qget_def)

lemma preserves_bind [preserves_intros]:
  "preserves I m \<Longrightarrow> (\<And>x. preserves I (n x)) \<Longrightarrow> preserves I (qbind m n)"
  by (simp add: preserves_def qbind_def split: prod.split sum.split) (metis snd_conv)

lemma preserves_if [preserves_intros]:
  "(b \<Longrightarrow> preserves I m) \<Longrightarrow> (\<not> b \<Longrightarrow> preserves I n) \<Longrightarrow> preserves I (if b then m else n)"
  by simp

lemma preserves_option [preserves_intros]:
  "(x = None \<Longrightarrow> preserves I m) \<Longrightarrow> (\<And>y. x = Some y \<Longrightarrow> preserves I (n y))
    \<Longrightarrow> preserves I (case x of None \<Rightarrow> m | Some y \<Rightarrow> n y)"
  by (cases x) auto

lemma preserves_prod [preserves_intros]: "(\<And>a b. preserves I (g a b)) \<Longrightarrow> preserves I (case x of (a, b) \<Rightarrow> g a b)"
  by (cases x) auto

lemma preserves_loops [preserves_intros]:
  "(\<And>x. x \<in> set xs \<Longrightarrow> preserves I (g x)) \<Longrightarrow> preserves I (qfor g xs)"
  "(\<And>x. x \<in> set xs \<Longrightarrow> preserves I (h x)) \<Longrightarrow> preserves I (qsum h xs)"
  by (induction xs) (auto intro!: preserves_intros)

text \<open>Predicates on each task alone: a write keeps them when the written task satisfies them.\<close>

abbreviation each_task :: "(string \<Rightarrow> task \<Rightarrow> bool) \<Rightarrow> queue \<Rightarrow> bool" where
  "each_task T q \<equiv> \<forall>tid t. get_task tid q = Some t \<longrightarrow> T tid t"

lemma preserves_put_task:
  "T tid (stamp_task cfg t) \<Longrightarrow> preserves (each_task T) (put_task cfg tid t)"
proof -
  assume T: "T tid (stamp_task cfg t)"
  have "each_task T (snd (commit_with e1 e2 (\<lambda>q. q\<lparr>q_tasks := AList.update tid (stamp_task cfg t) (q_tasks q)\<rparr>) q))"
    if "each_task T q" for e1 e2 q
    using that T
    by (cases rule: commit_with_cases [of e1 e2 "\<lambda>q. q\<lparr>q_tasks := AList.update tid (stamp_task cfg t) (q_tasks q)\<rparr>" q])
       (auto simp: get_task_def)
  then show ?thesis
    unfolding preserves_def put_task_def stamp_task_def [symmetric] commit_def by blast
qed

lemma preserves_keeps: "keeps f m \<Longrightarrow> preserves (\<lambda>q. I (f q)) m"
  by (simp add: preserves_def keeps_def)

lemma keeps_tasks_put_request: "keeps q_tasks (put_request cfg rid r)"
  unfolding put_request_def by (rule keeps_commit) simp_all

lemma preserves_put_request: "preserves (each_task T) (put_request cfg rid r)"
  using preserves_keeps [OF keeps_tasks_put_request, of "\<lambda>d. \<forall>tid t. map_of d tid = Some t \<longrightarrow> T tid t"]
  by (simp add: get_task_def)

lemma preserves_refresh:
  assumes "\<And>tid t. tk_state t = CANCELLED \<Longrightarrow> T tid t"
  shows "preserves (each_task T) (refresh_requests cfg now)"
proof -
  have "preserves (each_task T) (cancel_if_open cfg now reason t)" for reason t
    unfolding cancel_if_open_def
    by (intro preserves_intros preserves_put_task assms) (simp add: cancelled_def)
  then show ?thesis
    unfolding refresh_requests_def refresh_request_def Let_def
    by (intro preserves_intros preserves_put_request)
qed

section \<open>Expiry\<close>

definition overdue :: "int \<Rightarrow> task \<Rightarrow> bool" where
  "overdue now t \<longleftrightarrow>
     tk_state t \<in> {QUEUED, RETRY_WAIT} \<and> past_deadline now t
     \<or> tk_state t = CLAIMED \<and> (claim_expires t \<le> now \<or> past_deadline now t)"

lemma expire_task_post:
  assumes "current t q" and "expire_task cfg now t q = (Inr n, q')"
  shows "\<exists>u. get_task (tk_task_id t) q' = Some u \<and> \<not> overdue now u"
proof -
  have put: "get_task tid q2 = Some (stamp_task cfg u)" if "put_task cfg tid u q1 = (Inr x, q2)" for tid u q1 q2 x
    using that unfolding put_task_def stamp_task_def [symmetric] commit_def
    by (cases rule: commit_with_cases [of Stale_Leader_Error "Work_Queue_Error ''queue record verification failed''"
          "\<lambda>q. q\<lparr>q_tasks := AList.update tid (stamp_task cfg u) (q_tasks q)\<rparr>" q1])
       (auto simp: get_task_def)
  have stamp: "overdue now (stamp_task cfg u) = overdue now u" for u
    by (simp add: overdue_def past_deadline_def claim_expires_def)
  show ?thesis
    using assms unfolding expire_task_def
    by (auto simp: qbind_Inr stamp overdue_def after_expiry_def expired_task_def past_deadline_def split: if_splits
        dest!: put)
qed

lemma expire_task_frame:
  assumes "queue_wf q" and "current t q" and "expire_task cfg now t q = (Inr n, q')"
  shows "queue_wf q'" and "tid \<noteq> tk_task_id t \<Longrightarrow> get_task tid q' = get_task tid q"
proof -
  have "queue_wf (snd (expire_task cfg now t q)) \<and> (\<forall>tid. tid \<notin> {tk_task_id t} \<longrightarrow> get_task tid (snd (expire_task cfg now t q)) = get_task tid q)"
    using guarded_expire_task [of t cfg now] assms(1,2) unfolding guarded_def by blast
  then show "queue_wf q'" and "tid \<noteq> tk_task_id t \<Longrightarrow> get_task tid q' = get_task tid q" using assms(3) by simp_all
qed

lemma expire_loop:
  assumes "queue_wf q" and "distinct (map tk_task_id ts)" and "\<And>t. t \<in> set ts \<Longrightarrow> current t q"
    and "qsum (expire_task cfg now) ts q = (Inr n, q')"
  shows "(\<forall>t\<in>set ts. \<exists>u. get_task (tk_task_id t) q' = Some u \<and> \<not> overdue now u)
    \<and> (\<forall>tid. tid \<notin> tk_task_id ` set ts \<longrightarrow> get_task tid q' = get_task tid q)"
  using assms
proof (induction ts arbitrary: q n)
  case (Cons t ts)
  from Cons.prems(4) obtain k q1 j where run: "expire_task cfg now t q = (Inr k, q1)" "qsum (expire_task cfg now) ts q1 = (Inr j, q')"
    by (auto simp: qbind_Inr)
  have cur: "current t q" using Cons.prems(3) by simp
  note frame = expire_task_frame [OF Cons.prems(1) cur run(1)]
  have other: "tk_task_id u \<noteq> tk_task_id t" if "u \<in> set ts" for u
    using Cons.prems(2) imageI [OF that, of tk_task_id] by auto
  have "current u q1" if "u \<in> set ts" for u using frame(2) [OF other [OF that]] Cons.prems(3) [of u] that by simp
  then have IH: "(\<forall>t\<in>set ts. \<exists>u. get_task (tk_task_id t) q' = Some u \<and> \<not> overdue now u)
      \<and> (\<forall>tid. tid \<notin> tk_task_id ` set ts \<longrightarrow> get_task tid q' = get_task tid q1)"
    using Cons.prems(2) by (intro Cons.IH [OF frame(1) _ _ run(2)]) auto
  moreover have "get_task (tk_task_id t) q' = get_task (tk_task_id t) q1" using IH Cons.prems(2) by auto
  ultimately show ?case using expire_task_post [OF cur run(1)] frame(2) by auto
qed simp

lemma expire_claims_post:
  assumes "queue_wf q" and "expire_claims cfg now q = (Inr n, q')"
  shows "each_task (\<lambda>_ t. \<not> overdue now t) q'"
proof -
  obtain k q1 where loop: "qsum (expire_task cfg now) (list_tasks q) q = (Inr k, q1)" and ref: "snd (refresh_requests cfg now q1) = q'"
    using assms(2) by (auto simp: expire_claims_def qbind_Inr)
  have facts: "(\<forall>t\<in>set (list_tasks q). \<exists>u. get_task (tk_task_id t) q1 = Some u \<and> \<not> overdue now u)
      \<and> (\<forall>tid. tid \<notin> tk_task_id ` set (list_tasks q) \<longrightarrow> get_task tid q1 = get_task tid q)"
    using list_tasks_current [OF assms(1)] by (intro expire_loop [OF assms(1) _ _ loop]) auto
  have all: "tid \<in> tk_task_id ` set (list_tasks q)" if "get_task tid q = Some t" for tid t
  proof -
    have "t \<in> set (list_tasks q)" using that by (force simp: list_tasks_def get_task_def dest: map_of_SomeD)
    moreover have "tk_task_id t = tid" using that assms(1) by (simp add: queue_wf_def task_wf_def)
    ultimately show ?thesis by blast
  qed
  have "each_task (\<lambda>_ t. \<not> overdue now t) q1"
  proof (intro allI impI)
    fix tid t
    assume t: "get_task tid q1 = Some t"
    show "\<not> overdue now t"
    proof (cases "tid \<in> tk_task_id ` set (list_tasks q)")
      case True
      then show ?thesis using facts t by fastforce
    next
      case False
      then show ?thesis using facts t all [of tid t] by auto
    qed
  qed
  moreover have "preserves (each_task (\<lambda>_ t. \<not> overdue now t)) (refresh_requests cfg now)"
    by (rule preserves_refresh) (simp add: overdue_def)
  ultimately show ?thesis using preservesD ref by blast
qed

text \<open>Expiry creates no claims: what is claimed afterwards was claimed before, by the same claim.\<close>

lemma expire_claims_no_new_claims:
  "preserves (each_task (\<lambda>tid t. tk_state t = CLAIMED \<longrightarrow> get_task tid q0 = Some t)) (expire_claims cfg now)"
proof -
  let ?T = "\<lambda>tid t. tk_state t = CLAIMED \<longrightarrow> get_task tid q0 = Some t"
  have "preserves (each_task ?T) (expire_task cfg now t)" for t
    unfolding expire_task_def
    by (intro preserves_intros preserves_put_task) (simp_all add: expired_task_def after_expiry_def)
  moreover have "preserves (each_task ?T) (refresh_requests cfg now)" by (rule preserves_refresh) simp
  ultimately show ?thesis unfolding expire_claims_def by (intro preserves_intros)
qed

lemma claimed_after_expiry:
  assumes "queue_wf q" and "expire_claims cfg now q = (Inr n, q')" and "get_task tid q' = Some t" and "tk_state t = CLAIMED"
  shows "get_task tid q = Some t" and "\<not> overdue now t"
proof -
  show "\<not> overdue now t" using expire_claims_post [OF assms(1,2)] assms(3) by blast
  have "each_task (\<lambda>tid t. tk_state t = CLAIMED \<longrightarrow> get_task tid q = Some t) q'"
    using preservesD [OF expire_claims_no_new_claims, of q q cfg now] assms(2) by auto
  then show "get_task tid q = Some t" using assms(3,4) by blast
qed

section \<open>Accepting results\<close>

definition verified :: "(string \<Rightarrow> string) \<Rightarrow> (bytes \<Rightarrow> int option) \<Rightarrow> string \<Rightarrow> task_result \<Rightarrow> bytes store \<Rightarrow> bool" where
  "verified sha parquet_rows key r objs \<longleftrightarrow>
     (\<exists>k data. normalize_key key = Inr k \<and> map_of objs k = Some data \<and> int (length data) = tr_size_bytes r
        \<and> sha data = tr_content_hash r \<and> parquet_rows data = Some (tr_record_count r))"

lemma verify_output_None:
  assumes "verify_output sha parquet_rows key r q = (Inr None, q')"
  shows "q' = q" and "verified sha parquet_rows key r (q_objects q)"
proof -
  show "q' = q" using keepsD [OF readonly_checks(1), of sha parquet_rows key r q] assms by simp
  show "verified sha parquet_rows key r (q_objects q)"
    using assms
    by (auto simp: verify_output_def verified_def qbind_Inr qlift_def verify_def get_object_def
        split: sum.splits if_splits option.splits)
qed

lemma put_task_Inr:
  assumes "put_task cfg tid t q = (Inr x, q')"
  shows "get_task tid q' = Some (stamp_task cfg t)" and "k \<noteq> tid \<Longrightarrow> get_task k q' = get_task k q"
  using assms unfolding put_task_def stamp_task_def [symmetric] commit_def
  by (cases rule: commit_with_cases [of Stale_Leader_Error "Work_Queue_Error ''queue record verification failed''"
        "\<lambda>q. q\<lparr>q_tasks := AList.update tid (stamp_task cfg t) (q_tasks q)\<rparr>" q]; auto simp: get_task_def)+

lemma put_result_Inr:
  assumes "put_result cfg tid n x q = (Inr y, q')"
  shows "map_of (q_results q') (tid, n) = Some (x\<lparr>rr_manager := stamped cfg (rr_manager x)\<rparr>)"
  using assms unfolding put_result_def commit_def
  by (cases rule: commit_with_cases [of Stale_Leader_Error "Work_Queue_Error ''queue record verification failed''"
        "\<lambda>q. q\<lparr>q_results := AList.update (tid, n) (x\<lparr>rr_manager := stamped cfg (rr_manager x)\<rparr>) (q_results q)\<rparr>" q])
     auto

lemma settle_Inr:
  assumes "settle cfg now r c t q = (Inr a, q')"
  shows "a = reply True (Some (tk_state t)) False (terminal (tk_state t)) Accepted"
    and "\<exists>x. map_of (q_results q') (tr_task_id r, tk_attempt t) = Some x \<and> rr_state x = tk_state t
           \<and> rr_result x = the (tk_result t) \<and> rr_agent_lease_hash x = cl_agent_lease_hash c"
proof -
  obtain q1 q2 x y z where run: "put_task cfg (tr_task_id r) t q = (Inr x, q1)"
    "put_result cfg (tr_task_id r) (tk_attempt t)
       \<lparr>rr_task_id = tr_task_id r, rr_attempt = tk_attempt t, rr_state = tk_state t, rr_result = the (tk_result t),
        rr_agent_lease_hash = cl_agent_lease_hash c, rr_manager = None\<rparr> q1 = (Inr y, q2)"
    "refresh_requests cfg now q2 = (Inr z, q')"
    and a: "a = reply True (Some (tk_state t)) False (terminal (tk_state t)) Accepted"
    using assms by (auto simp: settle_def qbind_Inr)
  show "a = reply True (Some (tk_state t)) False (terminal (tk_state t)) Accepted" by (fact a)
  have "q_results q' = q_results q2" using keepsD [OF keeps_refresh(1), of cfg now q2] run(3) by simp
  then show "\<exists>x. map_of (q_results q') (tr_task_id r, tk_attempt t) = Some x \<and> rr_state x = tk_state t
       \<and> rr_result x = the (tk_result t) \<and> rr_agent_lease_hash x = cl_agent_lease_hash c"
    using put_result_Inr [OF run(2)] by simp
qed

lemma verify_output_state: "verify_output sha parquet_rows key r q = (x, q') \<Longrightarrow> q' = q"
  using keepsD [OF readonly_checks(1), of sha parquet_rows key r q] by simp

definition settled_as ::
  "(string \<Rightarrow> string) \<Rightarrow> (string \<Rightarrow> string) \<Rightarrow> (bytes \<Rightarrow> int option) \<Rightarrow> queue_config \<Rightarrow> int \<Rightarrow> task_result \<Rightarrow> claim \<Rightarrow> task
    \<Rightarrow> bytes store \<Rightarrow> task \<Rightarrow> bool" where
  "settled_as sha redact parquet_rows cfg now r c t objs t' \<longleftrightarrow>
     (if tr_ok r
      then t' = succeeded_task now r (cl_staging_key c) t \<and> verified sha parquet_rows (cl_staging_key c) r objs
         \<and> cl_staging_key c = staging_key sha (mt_output_key (tk_task t)) (mt_generation_id (tk_task t)) (tr_task_id r)
             (tk_attempt t) (cl_claim_token c)
      else t' = failed_task redact cfg now r t)"

lemma accept_claimed_Inr:
  assumes "accept_claimed sha redact parquet_rows cfg now r c t q = (Inr a, q')"
  shows "ack_reason_code a = Invalid_Output \<and> q' = q
    \<or> (\<exists>t'. settled_as sha redact parquet_rows cfg now r c t (q_objects q) t' \<and> settle cfg now r c t' q = (Inr a, q'))"
proof (cases "tr_ok r")
  case False
  then show ?thesis using assms by (simp add: accept_claimed_def settled_as_def)
next
  case True
  show ?thesis
  proof (cases "ack_reason_code a = Invalid_Output \<and> q' = q")
    case False
    have "cl_staging_key c = staging_key sha (mt_output_key (tk_task t)) (mt_generation_id (tk_task t)) (tr_task_id r)
             (tk_attempt t) (cl_claim_token c)"
      using assms True False by (auto simp: accept_claimed_def reply_def split: if_splits)
    moreover obtain x q1 where v: "verify_output sha parquet_rows (cl_staging_key c) r q = (Inr x, q1)"
      and rest: "(if x \<noteq> None then qreturn (reply False (Some CLAIMED) False False Invalid_Output)
           else settle cfg now r c (succeeded_task now r (cl_staging_key c) t)) q1 = (Inr a, q')"
      using assms True False by (auto simp: accept_claimed_def reply_def qbind_Inr split: if_splits)
    have q1: "q1 = q" using verify_output_state [OF v] .
    have "x = None"
    proof (rule ccontr)
      assume "x \<noteq> None"
      then show False using rest q1 False by (simp add: reply_def)
    qed
    ultimately show ?thesis using v rest q1 True verify_output_None(2) by (simp add: settled_as_def)
  qed simp
qed

text \<open>The ways a delivery can end without an error.\<close>

lemma accept_result_cases [consumes 1, case_names prior refused fenced unverified settled]:
  assumes "accept_result sha redact parquet_rows cfg now lease_id r q = (Inr a, q')"
  obtains (prior) p where "map_of (q_results q) (tr_task_id r, tr_attempt r) = Some p" "a = prior_ack sha lease_id r p" "q' = q"
  | (refused) n where "map_of (q_results q) (tr_task_id r, tr_attempt r) = None" "expire_claims cfg now q = (Inr n, q')"
      "ack_reason_code a \<noteq> Accepted"
  | (fenced) n q1 where "expire_claims cfg now q = (Inr n, q1)" "superseded r q1" "ack_reason_code a = Stale_Generation"
  | (unverified) n where "map_of (q_results q) (tr_task_id r, tr_attempt r) = None" "expire_claims cfg now q = (Inr n, q')"
      "ack_reason_code a = Invalid_Output"
  | (settled) n q1 t c t' where "map_of (q_results q) (tr_task_id r, tr_attempt r) = None" "expire_claims cfg now q = (Inr n, q1)"
      "get_task (tr_task_id r) q1 = Some t" "claim_refusal sha lease_id r t q1 = None" "\<not> superseded r q1" "tk_claim t = Some c"
      "settled_as sha redact parquet_rows cfg now r c t (q_objects q1) t'"
      "settle cfg now r c t' q1 = (Inr a, q')"
proof (cases "map_of (q_results q) (tr_task_id r, tr_attempt r)")
  case (Some p)
  then show ?thesis using assms that(1) by (simp add: accept_result_def qbind_Inr)
next
  case None
  then obtain n q1 where exp: "expire_claims cfg now q = (Inr n, q1)"
    and rest: "(case get_task (tr_task_id r) q1 of
        None \<Rightarrow> qreturn (reply False None False True Rejected)
      | Some t \<Rightarrow>
          if tk_state t = SUCCEEDED then
            let same = same_as_accepted (tk_result t) r in
            qreturn (reply same (Some SUCCEEDED) same True (if same then Duplicate else Conflict))
          else
            (case claim_refusal sha lease_id r t q1 of
               Some a \<Rightarrow> qreturn a
             | None \<Rightarrow>
                 if superseded r q1 then
                   qbind (cancel_request redact cfg now (tk_request_id t) ''generation_fenced'') (\<lambda>_.
                   qreturn (reply False (Some CANCELLED) False True Stale_Generation))
                 else accept_claimed sha redact parquet_rows cfg now r (the (tk_claim t)) t)) q1 = (Inr a, q')"
    using assms by (auto simp: accept_result_def qbind_Inr)
  consider (early) "q' = q1" "ack_reason_code a \<noteq> Accepted"
    | (super) "superseded r q1" "ack_reason_code a = Stale_Generation"
    | (go) t where "get_task (tr_task_id r) q1 = Some t" "claim_refusal sha lease_id r t q1 = None" "\<not> superseded r q1"
        "accept_claimed sha redact parquet_rows cfg now r (the (tk_claim t)) t q1 = (Inr a, q')"
    using rest
    by (auto simp: reply_def Let_def qbind_Inr claim_refusal_def split: option.splits if_splits)
  then show ?thesis
  proof cases
    case early
    then show ?thesis using None exp that(2) by blast
  next
    case super
    then show ?thesis using exp that(3) by blast
  next
    case go
    from go(2) obtain c where c: "tk_claim t = Some c" by (rule claim_refusal_None)
    from accept_claimed_Inr [OF go(4)] show ?thesis
      using None exp go(1-3) c that(4,5) by auto
  qed
qed

lemma accepted_settled:
  assumes "accept_result sha redact parquet_rows cfg now lease_id r q = (Inr a, q')" and "ack_reason_code a = Accepted"
  obtains n q1 t c t' where "map_of (q_results q) (tr_task_id r, tr_attempt r) = None" "expire_claims cfg now q = (Inr n, q1)"
      "get_task (tr_task_id r) q1 = Some t" "claim_refusal sha lease_id r t q1 = None" "\<not> superseded r q1" "tk_claim t = Some c"
      "settled_as sha redact parquet_rows cfg now r c t (q_objects q1) t'" "settle cfg now r c t' q1 = (Inr a, q')"
  using assms(1)
proof (cases rule: accept_result_cases)
  case (prior p)
  then have "ack_reason_code a \<noteq> Accepted" by (auto simp: prior_ack_def reply_def Let_def)
  then show ?thesis using assms(2) by contradiction
qed (use assms(2) that in auto)

lemma expire_keeps_store:
  assumes "queue_wf q" and "expire_claims cfg now q = (x, q')"
  shows "q_objects q' = q_objects q" and "q_generation q' = q_generation q"
  using safelyD [OF safely_expire_claims assms(1), of cfg now] assms(2) by (simp_all add: evolves_def)

text \<open>
  C5: Only the holder of a live claim settles a task. If a delivered result is accepted, then the task was
  claimed, at the time of delivery the claim had not expired, and the delivery carries the claim's token,
  agent, agent lease, attempt, membership version and worker fence and the generation and plan of the task, which is
  also the current generation if one is recorded. A successful result in addition has a stored object at the
  claim's staging key with the reported size and content hash that reads as a Parquet file of the reported
  number of rows.
\<close>

theorem accepted_result_is_current:
  assumes "queue_wf q" and "accept_result sha redact parquet_rows cfg now lease_id r q = (Inr a, q')"
    and "ack_reason_code a = Accepted"
  shows "\<exists>t c. get_task (tr_task_id r) q = Some t \<and> tk_state t = CLAIMED \<and> tk_claim t = Some c
    \<and> now < cl_expires_at_ms c \<and> cl_claim_token c = tr_claim_token r \<and> cl_agent_id c = tr_agent_id r
    \<and> cl_agent_lease_hash c = sha lease_id \<and> tk_attempt t = tr_attempt r
    \<and> cl_membership_version c = tr_membership_version r \<and> cl_worker_fence c = tr_worker_fence r
    \<and> mt_generation_id (tk_task t) = tr_generation_id r \<and> mt_plan_sha256 (tk_task t) = tr_plan_sha256 r
    \<and> (\<forall>g. q_generation q = Some g \<longrightarrow> gc_generation_id g = tr_generation_id r \<and> gc_fence g = tr_generation_fence r)
    \<and> (tr_ok r \<longrightarrow> (\<exists>k data. normalize_key (cl_staging_key c) = Inr k \<and> map_of (q_objects q) k = Some data
         \<and> int (length data) = tr_size_bytes r \<and> sha data = tr_content_hash r
         \<and> parquet_rows data = Some (tr_record_count r)))"
proof -
  from assms(2,3) obtain n q1 t c t' where s: "expire_claims cfg now q = (Inr n, q1)" "get_task (tr_task_id r) q1 = Some t"
      "claim_refusal sha lease_id r t q1 = None" "\<not> superseded r q1" "tk_claim t = Some c"
      "settled_as sha redact parquet_rows cfg now r c t (q_objects q1) t'"
    by (rule accepted_settled)
  note keep = expire_keeps_store [OF assms(1) s(1)]
  from s(3) have match: "tk_state t = CLAIMED \<and> cl_claim_token c = tr_claim_token r \<and> cl_agent_id c = tr_agent_id r
      \<and> tr_attempt r = tk_attempt t \<and> cl_agent_lease_hash c = sha lease_id
      \<and> cl_membership_version c = tr_membership_version r \<and> cl_worker_fence c = tr_worker_fence r
      \<and> tr_generation_id r = mt_generation_id (tk_task t) \<and> tr_plan_sha256 r = mt_plan_sha256 (tk_task t)"
    using s(5) by (elim claim_refusal_None) simp
  then have "get_task (tr_task_id r) q = Some t" and "\<not> overdue now t"
    using claimed_after_expiry [OF assms(1) s(1,2)] by simp_all
  moreover have "now < cl_expires_at_ms c" using \<open>\<not> overdue now t\<close> match s(5) by (simp add: overdue_def claim_expires_def)
  moreover have "\<forall>g. q_generation q = Some g \<longrightarrow> gc_generation_id g = tr_generation_id r \<and> gc_fence g = tr_generation_fence r"
    using s(4) keep(2) by (auto simp: superseded_def)
  moreover have "tr_ok r \<longrightarrow> verified sha parquet_rows (cl_staging_key c) r (q_objects q)"
    using s(6) unfolding keep(1) settled_as_def by (auto split: if_splits)
  ultimately show ?thesis using match s(5) unfolding verified_def by auto
qed


text \<open>
  C12: A refused result changes no task beyond what the passing of time does. When a delivery is answered with
  anything but acceptance or a superseded generation, the queue afterwards is the queue before, or the queue
  after expiring overdue claims.
\<close>

theorem refused_result_changes_nothing:
  assumes "accept_result sha redact parquet_rows cfg now lease_id r q = (Inr a, q')"
    and "ack_reason_code a \<notin> {Accepted, Stale_Generation}"
  shows "q' = q \<or> (\<exists>n. expire_claims cfg now q = (Inr n, q'))"
  using assms(1)
proof (cases rule: accept_result_cases)
  case (settled n q1 t c t')
  then have "ack_reason_code a = Accepted" using settle_Inr(1) by (fastforce simp: reply_def)
  then show ?thesis using assms(2) by simp
qed (use assms(2) in auto)

text \<open>
  Redelivery. When an accepted result is delivered again under the same lease, the queue stays as it is and the
  answer is a positive duplicate exactly when the result carries no membership version and no worker fence and,
  for a success, no error code, or for a failure, an error code and no output values. Every other
  redelivery, such as any result of a worker in a membership, is answered as a conflict.
\<close>

theorem redelivery_answer:
  assumes "accept_result sha redact parquet_rows cfg now lease_id r q = (Inr a, q')" and "ack_reason_code a = Accepted"
  shows "\<exists>a2. accept_result sha redact parquet_rows cfg now2 lease_id r q' = (Inr a2, q')
    \<and> (ack_ok a2 \<longleftrightarrow> tr_membership_version r = 0 \<and> tr_worker_fence r = 0
         \<and> (if tr_ok r then tr_error_code r = []
            else tr_error_code r \<noteq> [] \<and> tr_size_bytes r = 0 \<and> tr_record_count r = 0 \<and> tr_content_hash r = []
              \<and> tr_s3_etag r = []))
    \<and> ack_reason_code a2 = (if ack_ok a2 then Duplicate else Conflict)"
proof -
  from assms obtain n q1 t c t' where s: "claim_refusal sha lease_id r t q1 = None" "tk_claim t = Some c"
      "settled_as sha redact parquet_rows cfg now r c t (q_objects q1) t'" "settle cfg now r c t' q1 = (Inr a, q')"
    by (rule accepted_settled)
  have hash: "cl_agent_lease_hash c = sha lease_id" and att: "tk_attempt t' = tr_attempt r"
    using s(1-3) by (auto elim!: claim_refusal_None simp: settled_as_def split: if_splits)
  obtain x where x: "map_of (q_results q') (tr_task_id r, tr_attempt r) = Some x" "rr_result x = the (tk_result t')"
      "rr_agent_lease_hash x = sha lease_id"
    using settle_Inr(2) [OF s(4)] att hash by auto
  have "same_as_saved (the (tk_result t')) r \<longleftrightarrow> tr_membership_version r = 0 \<and> tr_worker_fence r = 0
      \<and> (if tr_ok r then tr_error_code r = []
         else tr_error_code r \<noteq> [] \<and> tr_size_bytes r = 0 \<and> tr_record_count r = 0 \<and> tr_content_hash r = []
           \<and> tr_s3_etag r = [])"
    using s(3) by (auto simp: settled_as_def succeeded_task_def failed_task_def same_as_saved_def Let_def split: if_splits)
  then show ?thesis
    using x by (auto simp: accept_result_def qbind_def qget_def qreturn_def prior_ack_def reply_def Let_def)
qed

section \<open>An example delivery\<close>

definition demo_claim :: claim where
  "demo_claim = new_claim id 5 120 ''tok'' ''T'' demo_args demo_task"

definition claimed_queue :: queue where
  "claimed_queue = empty_queue\<lparr>q_tasks := [(''T'', claimed 5 demo_claim demo_task)]\<rparr>"

definition demo_result :: task_result where
  "demo_result =
     \<lparr>tr_agent_id = ''a'', tr_table = ''t'', tr_epoch = 7, tr_split_index = 0, tr_ok = False, tr_size_bytes = 0, tr_record_count = 0, tr_content_hash = [], tr_error = ''e'',
      tr_task_id = ''T'', tr_request_id = ''R'', tr_claim_token = ''tok'', tr_attempt = 1, tr_generation_id = ''g'', tr_generation_fence = 1,
      tr_plan_sha256 = ''p'', tr_retryable = True, tr_completed_at_ms = 9, tr_error_code = ''x'',
      tr_membership_version = 0, tr_worker_fence = 0, tr_s3_etag = []\<rparr>"

lemma claimed_queue_wf: "queue_wf claimed_queue"
  by (simp add: claimed_queue_def queue_wf_def empty_queue_def get_task_def get_request_def task_wf_def claimed_def demo_task_def)

definition demo_accept :: "ack qm" where
  "demo_accept = accept_result (qe_sha demo_env) (qe_redact demo_env) (qe_parquet_rows demo_env) (qe_config demo_env) 10 ''l'' demo_result"

lemma demo_refresh: "q_requests q = [] \<Longrightarrow> refresh_requests cfg now q = (Inr (), q)"
  by (simp add: refresh_requests_def list_requests_def qbind_def qget_def qreturn_def)

lemma demo_expire: "expire_claims cfg 10 claimed_queue = (Inr 0, claimed_queue)"
  by (simp add: expire_claims_def claimed_queue_def empty_queue_def list_tasks_def qbind_def qget_def qreturn_def
      expire_task_def claimed_def demo_task_def demo_claim_def new_claim_def claim_deadline_def claim_expires_def
      past_deadline_def demo_materialize_def demo_refresh)

lemma demo_accepted: "\<exists>a q'. demo_accept claimed_queue = (Inr a, q') \<and> ack_reason_code a = Accepted"
proof -
  have "get_task ''T'' claimed_queue = Some (claimed 5 demo_claim demo_task)"
    by (simp add: claimed_queue_def get_task_def)
  moreover have "claim_refusal id ''l'' demo_result (claimed 5 demo_claim demo_task) claimed_queue = None"
    by (simp add: claim_refusal_def claimed_def demo_task_def demo_claim_def new_claim_def demo_result_def demo_args_def
        demo_materialize_def get_membership_def claimed_queue_def empty_queue_def)
  moreover have "tk_state (claimed 5 demo_claim demo_task) = CLAIMED" by (simp add: claimed_def)
  moreover have "\<not> superseded demo_result claimed_queue" by (simp add: superseded_def claimed_queue_def empty_queue_def)
  moreover have "map_of (q_results claimed_queue) k = None" for k by (simp add: claimed_queue_def empty_queue_def)
  moreover have "tr_task_id demo_result = ''T''" by (simp add: demo_result_def)
  moreover have "tk_claim (claimed 5 demo_claim demo_task) = Some demo_claim" by (simp add: claimed_def)
  ultimately have "demo_accept claimed_queue =
      accept_claimed id id (\<lambda>_. None) (new_config 120 3 5 60 None) 10 demo_result demo_claim
        (claimed 5 demo_claim demo_task) claimed_queue"
    by (simp add: demo_accept_def demo_env_def accept_result_def qbind_def qget_def demo_expire)
  moreover have "q_io claimed_queue = []" "q_requests claimed_queue = []" by (simp_all add: claimed_queue_def empty_queue_def)
  ultimately show ?thesis
    by (simp add: accept_claimed_def demo_result_def settle_def qbind_def put_task_def put_result_def commit_def
        commit_with_def demo_refresh qreturn_def reply_def)
qed

theorem accepted_result_is_current_witness:
  "\<exists>t c. get_task ''T'' claimed_queue = Some t \<and> tk_state t = CLAIMED \<and> tk_claim t = Some c \<and> 10 < cl_expires_at_ms c"
proof -
  obtain a q' where "demo_accept claimed_queue = (Inr a, q')" "ack_reason_code a = Accepted" using demo_accepted by blast
  from accepted_result_is_current [OF claimed_queue_wf this [unfolded demo_accept_def]]
  show ?thesis by (auto simp: demo_result_def)
qed


theorem redelivery_answer_witness:
  "\<exists>a q' a2. demo_accept claimed_queue = (Inr a, q') \<and> demo_accept q' = (Inr a2, q') \<and> ack_reason_code a2 = Duplicate"
proof -
  obtain a q' where run: "demo_accept claimed_queue = (Inr a, q')" "ack_reason_code a = Accepted" using demo_accepted by blast
  from redelivery_answer [OF run [unfolded demo_accept_def], of 10]
  obtain a2 where "demo_accept q' = (Inr a2, q')" "ack_ok a2" "ack_reason_code a2 = (if ack_ok a2 then Duplicate else Conflict)"
    unfolding demo_accept_def by (auto simp: demo_result_def)
  then show ?thesis using run(1) by auto
qed

theorem refused_result_changes_nothing_witness:
  "\<exists>a q'. accept_result id id (\<lambda>_. None) (new_config 120 3 5 60 None) 10 ''l'' demo_result empty_queue = (Inr a, q')
     \<and> (q' = empty_queue \<or> (\<exists>n. expire_claims (new_config 120 3 5 60 None) 10 empty_queue = (Inr n, q')))"
proof -
  obtain a q' where run: "accept_result id id (\<lambda>_. None) (new_config 120 3 5 60 None) 10 ''l'' demo_result empty_queue = (Inr a, q')"
    and "ack_reason_code a = Rejected"
    by (simp add: accept_result_def qbind_def qget_def expire_claims_def list_tasks_def empty_queue_def qreturn_def
        demo_refresh get_task_def reply_def)
  then show ?thesis using refused_result_changes_nothing [OF run] by auto
qed

end
