(* ===== verification/Queue_Publication.thy ===== *)
theory Queue_Publication
  imports Queue_Results
begin

text \<open>
  Publication of snapshots by the work queue: what a published snapshot guarantees, atomicity of the publication
  under faults, selection of the latest epoch, and retention.
\<close>

section \<open>Publication\<close>

lemma qfor_check:
  assumes "\<And>x q y q'. f x q = (Inr y, q') \<Longrightarrow> q' = q \<and> C x q" and "qfor f xs q = (Inr y, q')"
  shows "q' = q \<and> (\<forall>x\<in>set xs. C x q)"
  using assms(2)
proof (induction xs)
  case (Cons x xs)
  then obtain z q1 where "f x q = (Inr z, q1)" "qfor f xs q1 = (Inr y, q')" by (auto simp: qbind_Inr)
  then show ?case using assms(1) Cons.IH by fastforce
qed simp

definition outputs_present :: "(string \<Rightarrow> string) \<Rightarrow> snapshot_manifest \<Rightarrow> bytes store \<Rightarrow> bool" where
  "outputs_present sha m objs \<longleftrightarrow>
     (\<forall>s\<in>set (mf_splits m). verify sha (sf_object_key s) (sf_size_bytes s) (sf_content_hash s) objs = Inr True)
     \<and> (\<forall>k\<in>set (mf_metadata_keys m). \<exists>st. head k objs = Inr (Some st))"

lemma check_outputs_iff:
  "check_outputs sha e e' m q = (Inr (), q') \<longleftrightarrow> q' = q \<and> outputs_present sha m (q_objects q)"
proof -
  let ?v = "\<lambda>s. verify sha (sf_object_key s) (sf_size_bytes s) (sf_content_hash s) (q_objects q) = Inr True"
  let ?h = "\<lambda>k. \<exists>st. head k (q_objects q) = Inr (Some st)"
  have split: "check_split sha e (q_objects q) s q1 = (Inr y, q2) \<longleftrightarrow> q2 = q1 \<and> ?v s" for s q1 y q2
    by (auto simp: check_split_def qbind_Inr qlift_def split: sum.splits if_splits)
  have meta: "check_metadata e' (q_objects q) k q1 = (Inr y, q2) \<longleftrightarrow> q2 = q1 \<and> ?h k" for k q1 y q2
    by (auto simp: check_metadata_def qbind_Inr qlift_def split: sum.splits if_splits)
  have loop1: "qfor (check_split sha e (q_objects q)) xs q1 = (Inr y, q2) \<longleftrightarrow> q2 = q1 \<and> (\<forall>s\<in>set xs. ?v s)" for xs q1 y q2
    by (induction xs) (auto simp: qbind_Inr split)
  have loop2: "qfor (check_metadata e' (q_objects q)) xs q1 = (Inr y, q2) \<longleftrightarrow> q2 = q1 \<and> (\<forall>k\<in>set xs. ?h k)" for xs q1 y q2
    by (induction xs) (auto simp: qbind_Inr meta)
  show ?thesis by (auto simp: check_outputs_def qbind_Inr loop1 loop2 outputs_present_def)
qed

lemma check_tasks_present:
  assumes "qfor check_task_present tids q = (Inr y, q')"
  shows "q' = q \<and> (\<forall>tid\<in>set tids. \<exists>t. get_task tid q = Some t)"
  using assms by (intro qfor_check) (auto simp: check_task_present_def qbind_Inr split: if_splits)

definition published_manifest :: "request \<Rightarrow> queue \<Rightarrow> snapshot_manifest \<Rightarrow> snapshot_manifest" where
  "published_manifest r q m =
     m\<lparr>mf_dataset_id := first_or_empty (datasets_of (map tk_task (request_tasks r q))),
       mf_produced_at_ms := rq_created_at_ms r\<rparr>"

lemma publish_checks_Inr:
  assumes "publish_checks sha now rid m q = (Inr (m', r'), q')"
  obtains r where "q' = q" "get_request rid q = Some r" "rq_state r = SUCCEEDED" "identity_matches rid r m"
    "\<not> generation_inactive now m q" "outputs_present sha m (q_objects q)"
    "\<forall>tid\<in>set (rq_task_ids r). \<exists>t. get_task tid q = Some t"
    "m' = published_manifest r q m" "r' = published_request sha now m r"
proof -
  let ?chk = "check_outputs sha (Work_Queue_Conflict ''snapshot output verification failed'')
      (Work_Queue_Conflict ''snapshot metadata is missing'') m"
  from assms obtain r where r: "get_request rid q = Some r" by (auto simp: publish_checks_def qbind_Inr split: option.splits)
  then obtain q1 q2 u where g: "rq_state r = SUCCEEDED" "identity_matches rid r m" "\<not> generation_inactive now m q"
    and chk: "?chk q = (Inr (), q1)" "qfor check_task_present (rq_task_ids r) q1 = (Inr u, q2)"
    and fin: "m' = published_manifest r q m" "r' = published_request sha now m r" "q' = q2"
    using assms by (auto simp: publish_checks_def qbind_Inr Let_def published_manifest_def split: if_splits)
  from chk(1) have "q1 = q" "outputs_present sha m (q_objects q)" unfolding check_outputs_iff by simp_all
  moreover from chk(2) have "q2 = q1 \<and> (\<forall>tid\<in>set (rq_task_ids r). \<exists>t. get_task tid q1 = Some t)" by (rule check_tasks_present)
  ultimately show ?thesis using that r g fin by simp
qed

text \<open>What the writes of a publication leave behind: both records, or none, when a generation guards them.\<close>

lemma write_publication_guarded:
  assumes "write_publication cfg rid key m r q = (x, q')" and "q_generation q \<noteq> None"
  shows "q_snapshots q' = q_snapshots q \<and> q_requests q' = q_requests q \<and> x \<noteq> Inr ()
    \<or> q_snapshots q' = AList.update key m (q_snapshots q)
      \<and> q_requests q' = AList.update rid (r\<lparr>rq_manager := stamped cfg (rq_manager r)\<rparr>) (q_requests q)"
proof -
  let ?upd = "\<lambda>q. q\<lparr>q_snapshots := AList.update key m (q_snapshots q),
      q_requests := AList.update rid (r\<lparr>rq_manager := stamped cfg (rq_manager r)\<rparr>) (q_requests q)\<rparr>"
  have "commit_batch ?upd q = (x, q')" using assms by (simp add: write_publication_def qbind_def qget_def)
  then show ?thesis
    unfolding commit_batch_def
    by (cases rule: commit_with_cases [of "Work_Queue_Conflict ''guard changed before durable publication commit''"
          "Work_Queue_Error ''queue batch verification failed''" ?upd q]) auto
qed

lemma commit_with_Inr:
  assumes "commit_with e1 e2 upd q = (Inr x, q')"
  obtains io where "q' = upd (q\<lparr>q_io := io\<rparr>)"
  using assms by (cases rule: commit_with_cases [of e1 e2 upd q]) auto

lemma write_publication_Inr:
  assumes "write_publication cfg rid key m r q = (Inr x, q')"
  shows "q_snapshots q' = AList.update key m (q_snapshots q) \<and> q_objects q' = q_objects q
    \<and> get_request rid q' = Some (r\<lparr>rq_manager := stamped cfg (rq_manager r)\<rparr>)"
proof (cases "q_generation q = None")
  case False
  then have "commit_batch (\<lambda>q. q\<lparr>q_snapshots := AList.update key m (q_snapshots q),
      q_requests := AList.update rid (r\<lparr>rq_manager := stamped cfg (rq_manager r)\<rparr>) (q_requests q)\<rparr>) q = (Inr x, q')"
    using assms by (simp add: write_publication_def qbind_def qget_def)
  then show ?thesis unfolding commit_batch_def by (elim commit_with_Inr) (simp add: get_request_def)
next
  case True
  then obtain q1 y where "commit (\<lambda>q. q\<lparr>q_snapshots := AList.update key m (q_snapshots q)\<rparr>) q = (Inr y, q1)"
    and "put_request cfg rid r q1 = (Inr x, q')"
    using assms by (auto simp: write_publication_def qbind_Inr)
  then show ?thesis unfolding put_request_def commit_def by (elim commit_with_Inr) (simp add: get_request_def)
qed

section \<open>Selection of snapshots\<close>

lemma map_of_sorted:
  assumes "distinct (map fst xs)"
  shows "map_of (sort_key f xs) k = map_of xs k"
proof -
  have "distinct (map fst (sort_key f xs))" using assms by (simp only: distinct_map_sort)
  then have "map_of (sort_key f xs) k = Some v \<longleftrightarrow> map_of xs k = Some v" for v using assms by simp
  then show ?thesis by (metis not_Some_eq)
qed

lemma map_of_filter_key: "P k \<Longrightarrow> map_of (filter (\<lambda>(k, v). P k) xs) k = map_of xs k"
  by (induction xs) auto

lemma select_epoch:
  assumes "distinct (keys_of (q_snapshots q))" and "epoch \<noteq> 0"
  shows "select_snapshot sha table epoch q = map_of (q_snapshots q) (sha table, epoch)"
proof -
  let ?rs = "filter (\<lambda>(k, _). fst k = sha table) (q_snapshots q)"
  have "distinct (map fst ?rs)" using assms(1) by (rule distinct_map_filter)
  then have "map_of (sort_key (snapshot_order \<circ> fst) ?rs) (sha table, epoch) = map_of (q_snapshots q) (sha table, epoch)"
    by (simp add: map_of_sorted map_of_filter_key [of "\<lambda>k. fst k = sha table"])
  moreover have "map_of (q_snapshots q) (sha table, epoch) = None" if "?rs = []"
    using that map_of_filter_key [of "\<lambda>k. fst k = sha table" "(sha table, epoch)" "q_snapshots q"] by simp
  ultimately show ?thesis
    using assms(2) by (auto simp: select_snapshot_def Let_def)
qed

section \<open>Zero-padded numbers\<close>

lemma less_snoc:
  fixes xs ys :: "'a::linorder list"
  assumes "length xs = length ys"
  shows "xs @ [a] < ys @ [b] \<longleftrightarrow> xs < ys \<or> xs = ys \<and> a < b"
  using assms by (induction xs ys rule: list_induct2) auto

lemma less_append_same:
  fixes xs ys zs :: "'a::linorder list"
  shows "zs @ xs < zs @ ys \<longleftrightarrow> xs < ys"
  by (induction zs) auto

lemma less_append_right:
  fixes xs ys zs :: "'a::linorder list"
  assumes "length xs = length ys"
  shows "xs @ zs < ys @ zs \<longleftrightarrow> xs < ys"
  using assms by (induction xs ys rule: list_induct2) auto

definition padded :: "nat \<Rightarrow> nat \<Rightarrow> string" where
  "padded w n = replicate (w - length (nat_digits n)) (CHR ''0'') @ nat_digits n"

lemma single_digit: "n < 10 \<Longrightarrow> nat_digits n = [char_of (48 + n)]"
  by (subst nat_digits.simps) simp

lemma nat_digits_len: "1 \<le> w \<Longrightarrow> n < 10 ^ w \<Longrightarrow> length (nat_digits n) \<le> w"
proof (induction w arbitrary: n)
  case (Suc w)
  show ?case
  proof (cases "n < 10")
    case False
    then have "1 \<le> w" using Suc.prems by (cases w) auto
    moreover have "n div 10 < 10 ^ w" using Suc.prems(2) by (simp add: less_mult_imp_div_less mult.commute)
    ultimately have "length (nat_digits (n div 10)) \<le> w" using Suc.IH by simp
    then show ?thesis using False by (subst nat_digits.simps) simp
  qed (subst nat_digits.simps, simp)
qed simp

lemma padded_length: "1 \<le> w \<Longrightarrow> n < 10 ^ w \<Longrightarrow> length (padded w n) = w"
  using nat_digits_len by (simp add: padded_def)

lemma padded_Suc:
  assumes "1 \<le> w"
  shows "padded (Suc w) n = padded w (n div 10) @ nat_digits (n mod 10)"
proof (cases "n < 10")
  case True
  have "replicate (w - Suc 0) c @ [c] = replicate w c" for c :: char
    using assms by (metis One_nat_def Suc_diff_le diff_Suc_Suc minus_nat.diff_0 replicate_Suc replicate_append_same)
  moreover have "nat_digits 0 = ''0''" by code_simp
  moreover have "length (nat_digits n) = 1" using True by (subst nat_digits.simps) simp
  ultimately show ?thesis using True by (simp add: padded_def)
next
  case False
  have "nat_digits n = nat_digits (n div 10) @ nat_digits (n mod 10)" using False by (subst nat_digits.simps) (simp add: single_digit)
  moreover have "length (nat_digits (n mod 10)) = 1" by (simp add: single_digit)
  ultimately show ?thesis by (simp add: padded_def)
qed

lemma digit_less: "m < 10 \<Longrightarrow> n < 10 \<Longrightarrow> nat_digits m < nat_digits n \<longleftrightarrow> m < n"
  by (subst (1 2) nat_digits.simps) (simp add: less_char_def)

lemma div_mod_less: "m div 10 < n div 10 \<or> m div 10 = n div 10 \<and> m mod 10 < n mod 10 \<longleftrightarrow> m < n" for m n :: nat
proof -
  have "m = 10 * (m div 10) + m mod 10" "n = 10 * (n div 10) + n mod 10" "m mod 10 < 10" "n mod 10 < 10" by simp_all
  then show ?thesis by linarith
qed

lemma padded_less:
  assumes "1 \<le> w" and "m < 10 ^ w" and "n < 10 ^ w"
  shows "padded w m < padded w n \<longleftrightarrow> m < n"
  using assms
proof (induction w arbitrary: m n rule: nat_induct_at_least)
  case base
  have "length (nat_digits k) = 1" if "k < 10" for k using that by (subst nat_digits.simps) simp
  then show ?case using base digit_less by (simp add: padded_def)
next
  case (Suc w)
  have div: "k div 10 < 10 ^ w" if "k < 10 ^ Suc w" for k :: nat
    using that by (simp add: less_mult_imp_div_less mult.commute)
  have len: "length (padded w (m div 10)) = length (padded w (n div 10))"
    using Suc.hyps div Suc.prems padded_length by metis
  obtain a b where ab: "nat_digits (m mod 10) = [a]" "nat_digits (n mod 10) = [b]" by (simp add: single_digit)
  have "padded w (m div 10) = padded w (n div 10) \<longleftrightarrow> m div 10 = n div 10"
    using Suc.IH [OF div div, OF Suc.prems] Suc.IH [OF div div, OF Suc.prems(2,1)] by (metis less_irrefl nat_neq_iff)
  moreover have "[a] < [b] \<longleftrightarrow> m mod 10 < n mod 10" using digit_less [of "m mod 10" "n mod 10"] ab by simp
  ultimately have "padded (Suc w) m < padded (Suc w) n
      \<longleftrightarrow> m div 10 < n div 10 \<or> m div 10 = n div 10 \<and> m mod 10 < n mod 10"
    using Suc.IH [OF div div, OF Suc.prems] by (simp add: padded_Suc [OF Suc.hyps] ab less_snoc [OF len])
  moreover have "m div 10 < n div 10 \<or> m div 10 = n div 10 \<and> m mod 10 < n mod 10 \<longleftrightarrow> m < n"
    by (rule div_mod_less)
  ultimately show ?case by blast
qed

lemma pad_20_less:
  assumes "0 \<le> i" "i < 10 ^ 20" "0 \<le> j" "j < 10 ^ 20"
  shows "pad_20 i < pad_20 j \<longleftrightarrow> i < j" and "length (pad_20 i) = 20"
proof -
  have p: "pad_20 k = padded 20 (nat k)" if "0 \<le> k" for k
    using that by (simp add: pad_20_def padded_def py_str_int_def Let_def)
  have b: "nat k < 10 ^ 20" if "0 \<le> k" "k < 10 ^ 20" for k :: int using that by (simp add: nat_less_iff)
  show "pad_20 i < pad_20 j \<longleftrightarrow> i < j" using padded_less [OF _ b b, of i j] assms by (auto simp: p)
  show "length (pad_20 i) = 20" using padded_length [OF _ b, of i] assms by (simp add: p)
qed

section \<open>Properties of publication\<close>

lemma last_sort_key:
  assumes "x \<in> set xs"
  shows "f x \<le> f (last (sort_key f xs))"
proof -
  let ?ys = "sort_key f xs"
  have ne: "?ys \<noteq> []" using assms by (metis empty_iff set_empty set_sort)
  then have "sorted (map f (butlast ?ys @ [last ?ys]))" by simp
  moreover have "x \<in> set (butlast ?ys @ [last ?ys])" using assms ne by simp
  ultimately show ?thesis by (auto simp: sorted_append)
qed

lemma snapshot_order_le:
  assumes "0 \<le> e" "e < 10 ^ 20" "0 \<le> e'" "e' < 10 ^ 20" and "snapshot_order (h, e') \<le> snapshot_order (h, e)"
  shows "e' \<le> e"
proof (rule ccontr)
  assume "\<not> e' \<le> e"
  then have "pad_20 e < pad_20 e'" using pad_20_less(1) assms by simp
  then have "pad_20 e @ ''.json'' < pad_20 e' @ ''.json''" using pad_20_less(2) assms by (simp only: less_append_right)
  then have "snapshot_order (h, e) < snapshot_order (h, e')" by (simp only: snapshot_order_def fst_conv snd_conv less_append_same)
  then show False using assms(5) by simp
qed

text \<open>
  C7: A published snapshot is complete and readable. If publication succeeds, then every task of the request is present
  and has succeeded, every data file of the manifest is stored with the manifest's size and content hash, every
  metadata object is stored, and the generation is the current one and has not expired; and then
  the snapshot read back for that epoch is the published manifest, completed by the data set identity and the
  production time.
\<close>

theorem published_snapshot_is_complete:
  assumes "queue_wf q" and "publish_snapshot sha cfg now rid m q = (Inr r', q')"
    and "distinct (keys_of (q_snapshots q))" and "mf_epoch m \<noteq> 0"
  shows "\<exists>r. get_request rid q = Some r
    \<and> (\<forall>tid\<in>set (rq_task_ids r). \<exists>t. get_task tid q = Some t \<and> tk_state t = SUCCEEDED)
    \<and> (\<forall>s\<in>set (mf_splits m). verify sha (sf_object_key s) (sf_size_bytes s) (sf_content_hash s) (q_objects q) = Inr True)
    \<and> (\<forall>k\<in>set (mf_metadata_keys m). \<exists>st. head k (q_objects q) = Inr (Some st))
    \<and> (\<forall>g. q_generation q = Some g \<longrightarrow> gc_generation_id g = rq_generation_id r \<and> gc_fence g = rq_generation_fence r
         \<and> now < gc_expires_at_ms g)
    \<and> get_snapshot sha (rq_table r) (rq_epoch r) q'
        = (Inr (Some (m\<lparr>mf_dataset_id := first_or_empty (datasets_of (map tk_task (request_tasks r q))),
                        mf_produced_at_ms := rq_created_at_ms r\<rparr>)), q')"
proof -
  obtain m' r1 q1 where c: "publish_checks sha now rid m q = (Inr (m', r1), q1)"
    and w: "write_publication cfg rid (sha (mf_table m), mf_epoch m) m' r1 q1 = (Inr (), q')"
    using assms(2) by (auto simp: publish_snapshot_def qbind_Inr)
  from c obtain r where r: "q1 = q" "get_request rid q = Some r" "rq_state r = SUCCEEDED" "identity_matches rid r m"
    "\<not> generation_inactive now m q" "outputs_present sha m (q_objects q)"
    "\<forall>tid\<in>set (rq_task_ids r). \<exists>t. get_task tid q = Some t" "m' = published_manifest r q m"
    by (rule publish_checks_Inr)
  have "tasks_succeeded (rq_task_ids r) q" using assms(1) r(2,3) by (auto simp: queue_wf_def request_wf_def)
  then have tasks: "\<forall>tid\<in>set (rq_task_ids r). \<exists>t. get_task tid q = Some t \<and> tk_state t = SUCCEEDED"
    using r(7) by (fastforce simp: tasks_succeeded_def)
  have id: "mf_table m = rq_table r" "mf_epoch m = rq_epoch r" "mf_generation_id m = rq_generation_id r"
    "mf_generation_fence m = rq_generation_fence r" using r(4) by (auto simp: identity_matches_def)
  have gen: "\<forall>g. q_generation q = Some g \<longrightarrow> gc_generation_id g = rq_generation_id r \<and> gc_fence g = rq_generation_fence r
         \<and> now < gc_expires_at_ms g"
    using r(5) id by (auto simp: generation_inactive_def)
  have snap: "q_snapshots q' = AList.update (sha (mf_table m), mf_epoch m) m' (q_snapshots q)" "q_objects q' = q_objects q"
    using write_publication_Inr [OF w] r(1) by simp_all
  then have sel: "select_snapshot sha (rq_table r) (rq_epoch r) q' = Some m'"
    using select_epoch [of q' "rq_epoch r" sha "rq_table r"] assms(3,4) id by (simp add: distinct_update)
  have "outputs_present sha m' (q_objects q')" using r(6,8) snap(2) by (simp add: outputs_present_def published_manifest_def)
  then have "check_outputs sha e e' m' q' = (Inr (), q')" for e e' by (simp add: check_outputs_iff)
  then have "get_snapshot sha (rq_table r) (rq_epoch r) q' = (Inr (Some m'), q')"
    using sel by (simp add: get_snapshot_def qbind_def qget_def qreturn_def)
  then show ?thesis using r(2,6,8) tasks gen unfolding outputs_present_def published_manifest_def by blast
qed


text \<open>
  The latest snapshot. When the stored epochs are between 0 and below \<open>10^20\<close>, asking for epoch 0 selects the
  greatest stored epoch of the table, and it selects one as soon as any is stored.
\<close>

theorem latest_snapshot_selected:
  assumes "distinct (keys_of (q_snapshots q))"
    and "\<And>h e m. map_of (q_snapshots q) (h, e) = Some m \<Longrightarrow> 0 \<le> e \<and> e < 10 ^ 20"
    and "map_of (q_snapshots q) (sha table, e0) = Some m0"
  shows "\<exists>e m. select_snapshot sha table 0 q = Some m \<and> map_of (q_snapshots q) (sha table, e) = Some m
    \<and> (\<forall>e' m'. map_of (q_snapshots q) (sha table, e') = Some m' \<longrightarrow> e' \<le> e)"
proof -
  let ?rs = "filter (\<lambda>(k, _). fst k = sha table) (q_snapshots q)"
  let ?ys = "sort_key (snapshot_order \<circ> fst) ?rs"
  have mem: "((sha table, e), m) \<in> set ?rs" if "map_of (q_snapshots q) (sha table, e) = Some m" for e m
    using map_of_SomeD [OF that] by simp
  then have ne: "?ys \<noteq> []" using assms(3) by (metis empty_iff set_empty set_sort)
  obtain h e m where l: "last ?ys = ((h, e), m)" by (metis prod.exhaust)
  have "last ?ys \<in> set ?rs" using last_in_set [OF ne] by simp
  then have h: "h = sha table" and in_q: "((h, e), m) \<in> set (q_snapshots q)" unfolding l by auto
  have look: "map_of (q_snapshots q) (h, e) = Some m" using in_q assms(1) by simp
  have "e' \<le> e" if "map_of (q_snapshots q) (sha table, e') = Some m'" for e' m'
  proof -
    have "snapshot_order (h, e') \<le> snapshot_order (h, e)"
      using last_sort_key [OF mem [OF that], of "snapshot_order \<circ> fst"] l h by simp
    then show ?thesis using snapshot_order_le assms(2) [OF look] assms(2) [OF that] by blast
  qed
  moreover have "select_snapshot sha table 0 q = Some m" using ne l by (auto simp: select_snapshot_def Let_def)
  ultimately show ?thesis using look h by blast
qed

section \<open>An example publication\<close>

definition demo_request :: request where
  "demo_request =
     \<lparr>rq_request_id = ''R'', rq_idempotency_key = ''R'', rq_requested_key = ''k'', rq_table = ''t'', rq_epoch = 7,
      rq_table_format = ''iceberg'', rq_dataset_id = ''c::s'', rq_tenant_id = [], rq_generation_id = ''g'',
      rq_generation_fence = 1, rq_plan_sha256 = ''p'', rq_deadline_ms = 0, rq_task_ids = [''T''], rq_state = SUCCEEDED,
      rq_published = False, rq_snapshot_key = None, rq_error = [], rq_created_at_ms = 3, rq_updated_at_ms = 4,
      rq_ready = True, rq_manager = None\<rparr>"

definition done_task :: task where
  "done_task = (succeeded_task 9 (demo_result\<lparr>tr_attempt := 0\<rparr>) ''d'' demo_task)"

definition demo_generation :: "unit generation_context" where
  "demo_generation =
     \<lparr>gc_generation_id = ''g'', gc_fence = 1, gc_lease_token = ''x'', gc_shard_count = 1, gc_expires_at_ms = 1000,
      gc_source_consistency = ''none'', gc_version = 2, gc_plan_state = ''READY'', gc_table_plans = [],
      gc_plan_sha256 = ''p''\<rparr>"

definition ready_queue :: queue where
  "ready_queue = empty_queue\<lparr>q_requests := [(''R'', demo_request)], q_tasks := [(''T'', done_task)],
     q_objects := [(''d'', ''xy'')], q_generation := Some demo_generation\<rparr>"

definition demo_manifest :: snapshot_manifest where
  "demo_manifest =
     \<lparr>mf_table = ''t'', mf_epoch = 7, mf_table_format = ''iceberg'',
      mf_splits = [\<lparr>sf_object_key = ''d'', sf_size_bytes = 2, sf_record_count = 1, sf_content_hash = ''xy'', sf_range = None\<rparr>],
      mf_metadata_keys = [''d''], mf_generation_id = ''g'', mf_generation_fence = 1, mf_plan_sha256 = ''p'',
      mf_published_at_ms = 5, mf_request_id = ''R'', mf_dataset_id = [], mf_produced_at_ms = 0, mf_tenant_id = []\<rparr>"

lemma ready_queue_wf: "queue_wf ready_queue"
  by (auto simp: ready_queue_def queue_wf_def empty_queue_def get_task_def get_request_def task_wf_def request_wf_def
      tasks_succeeded_def done_task_def succeeded_task_def demo_task_def demo_request_def demo_result_def)

lemma demo_key: "normalize_key ''d'' = Inr ''d''"
  by code_simp

lemma demo_publication: "\<exists>r' q'. publish_snapshot id (new_config 120 3 5 60 None) 20 ''R'' demo_manifest ready_queue = (Inr r', q')"
proof -
  have "outputs_present id demo_manifest (q_objects ready_queue)"
    by (simp add: outputs_present_def demo_manifest_def ready_queue_def verify_def head_def demo_key)
  then have "check_outputs id e e' demo_manifest ready_queue = (Inr (), ready_queue)" for e e'
    by (simp add: check_outputs_iff)
  moreover have "get_request ''R'' ready_queue = Some demo_request" by (simp add: ready_queue_def get_request_def)
  moreover have "get_task ''T'' ready_queue = Some done_task" by (simp add: ready_queue_def get_task_def)
  moreover have "identity_matches ''R'' demo_request demo_manifest" "\<not> generation_inactive 20 demo_manifest ready_queue"
    by (simp_all add: identity_matches_def demo_request_def demo_manifest_def generation_inactive_def ready_queue_def demo_generation_def)
  moreover have "rq_state demo_request = SUCCEEDED" "rq_task_ids demo_request = [''T'']" "mf_dataset_id demo_manifest = []"
    "mf_produced_at_ms demo_manifest = 0" by (simp_all add: demo_request_def demo_manifest_def)
  ultimately have "\<exists>mr. publish_checks id 20 ''R'' demo_manifest ready_queue = (Inr mr, ready_queue)"
    by (simp add: publish_checks_def qbind_def qget_def qreturn_def check_task_present_def request_tasks_def map_filter_def
        datasets_of_def Let_def)
  moreover have "q_io ready_queue = []" "q_generation ready_queue = Some demo_generation" by (simp_all add: ready_queue_def empty_queue_def)
  ultimately show ?thesis
    by (auto simp: publish_snapshot_def qbind_def write_publication_def qget_def qreturn_def commit_batch_def commit_with_def split: prod.split)
qed

theorem published_snapshot_is_complete_witness:
  "\<exists>r' q' m'. publish_snapshot id (new_config 120 3 5 60 None) 20 ''R'' demo_manifest ready_queue = (Inr r', q')
     \<and> get_snapshot id ''t'' 7 q' = (Inr (Some m'), q')"
proof -
  obtain r' q' where run: "publish_snapshot id (new_config 120 3 5 60 None) 20 ''R'' demo_manifest ready_queue = (Inr r', q')"
    using demo_publication by blast
  have "distinct (keys_of (q_snapshots ready_queue))" "mf_epoch demo_manifest \<noteq> 0"
    by (simp_all add: ready_queue_def empty_queue_def demo_manifest_def)
  from published_snapshot_is_complete [OF ready_queue_wf run this] obtain r m'
    where r: "get_request ''R'' ready_queue = Some r" and g: "get_snapshot id (rq_table r) (rq_epoch r) q' = (Inr (Some m'), q')"
    by blast
  have "r = demo_request" using r by (simp add: ready_queue_def get_request_def)
  then have "rq_table r = ''t''" "rq_epoch r = 7" by (simp_all add: demo_request_def)
  then show ?thesis using run g by auto
qed


theorem latest_snapshot_selected_witness:
  "\<exists>m. select_snapshot id ''t'' 0 (empty_queue\<lparr>q_snapshots := [((''t'', 10), demo_manifest), ((''t'', 9), demo_manifest)]\<rparr>) = Some m"
  using latest_snapshot_selected
    [of "empty_queue\<lparr>q_snapshots := [((''t'', 10), demo_manifest), ((''t'', 9), demo_manifest)]\<rparr>" id "''t''" 9 demo_manifest]
  by (force split: if_splits)

end
