(* ===== verification/Queue_Retention.thy ===== *)
theory Queue_Retention
  imports Queue_Publication
begin

text \<open>
  Retention of queue records, and what it does to the staged outputs of a generation: pruning a failed request
  removes every staged output of its generation beside the request's own, also those of published snapshots.
\<close>

section \<open>Loops that establish a predicate\<close>

lemma preserves_run: "preserves I m \<Longrightarrow> I q \<Longrightarrow> m q = (x, q') \<Longrightarrow> I q'"
  using preservesD [of I m q] by simp

lemma qfor_keeps:
  assumes "I q" and "qfor f xs q = (Inr u, q')"
    and "\<And>y q v q'. y \<in> set xs \<Longrightarrow> I q \<Longrightarrow> f y q = (Inr v, q') \<Longrightarrow> I q'"
  shows "I q'"
  using assms
proof (induction xs arbitrary: q)
  case (Cons y ys)
  from Cons.prems(2) obtain v q1 where run: "f y q = (Inr v, q1)" "qfor f ys q1 = (Inr u, q')" by (auto simp: qbind_Inr)
  have "I q1" using Cons.prems(3) [OF _ Cons.prems(1) run(1)] by simp
  then show ?case
  proof (rule Cons.IH [OF _ run(2)])
    show "I q'" if "y \<in> set ys" "I q" "f y q = (Inr v, q')" for y q v q'
      using Cons.prems(3) [OF _ that(2,3)] that(1) by simp
  qed
qed simp

lemma qsum_keeps:
  assumes "I q" and "qsum f xs q = (Inr n, q')"
    and "\<And>y q v q'. y \<in> set xs \<Longrightarrow> I q \<Longrightarrow> f y q = (Inr v, q') \<Longrightarrow> I q'"
  shows "I q'"
  using assms
proof (induction xs arbitrary: q n)
  case (Cons y ys)
  from Cons.prems(2) obtain v w q1 where run: "f y q = (Inr v, q1)" "qsum f ys q1 = (Inr w, q')" by (auto simp: qbind_Inr)
  have "I q1" using Cons.prems(3) [OF _ Cons.prems(1) run(1)] by simp
  then show ?case
  proof (rule Cons.IH [OF _ run(2)])
    show "I q'" if "y \<in> set ys" "I q" "f y q = (Inr v, q')" for y q v q'
      using Cons.prems(3) [OF _ that(2,3)] that(1) by simp
  qed
qed simp

lemma qfor_establish:
  assumes "x \<in> set xs" and "J q" and "qfor f xs q = (Inr u, q')"
    and "\<And>q v q'. J q \<Longrightarrow> f x q = (Inr v, q') \<Longrightarrow> I q'"
    and "\<And>y q v q'. y \<in> set xs \<Longrightarrow> y \<noteq> x \<Longrightarrow> J q \<Longrightarrow> f y q = (Inr v, q') \<Longrightarrow> J q'"
    and "\<And>y q v q'. y \<in> set xs \<Longrightarrow> I q \<Longrightarrow> f y q = (Inr v, q') \<Longrightarrow> I q'"
  shows "I q'"
  using assms
proof (induction xs arbitrary: q)
  case (Cons y ys)
  from Cons.prems(3) obtain v q1 where run: "f y q = (Inr v, q1)" "qfor f ys q1 = (Inr u, q')" by (auto simp: qbind_Inr)
  show ?case
  proof (cases "y = x")
    case True
    then have "I q1" using Cons.prems(4) Cons.prems(2) run(1) by blast
    then show ?thesis by (rule qfor_keeps [OF _ run(2)]) (rule Cons.prems(6), simp_all)
  next
    case False
    have "x \<in> set ys" and "J q1" using False Cons.prems(1,2) Cons.prems(5) [OF _ _ _ run(1)] by auto
    then show ?thesis
    proof (rule Cons.IH [OF _ _ run(2)])
      show "I q'" if "J q" "f x q = (Inr v, q')" for q v q' using Cons.prems(4) that .
      show "J q'" if "y \<in> set ys" "y \<noteq> x" "J q" "f y q = (Inr v, q')" for y q v q'
        using Cons.prems(5) [OF _ that(2-4)] that(1) by simp
      show "I q'" if "y \<in> set ys" "I q" "f y q = (Inr v, q')" for y q v q'
        using Cons.prems(6) [OF _ that(2,3)] that(1) by simp
    qed
  qed
qed simp

lemma qsum_establish:
  assumes "x \<in> set xs" and "J q" and "qsum f xs q = (Inr u, q')"
    and "\<And>q v q'. J q \<Longrightarrow> f x q = (Inr v, q') \<Longrightarrow> I q'"
    and "\<And>y q v q'. y \<in> set xs \<Longrightarrow> y \<noteq> x \<Longrightarrow> J q \<Longrightarrow> f y q = (Inr v, q') \<Longrightarrow> J q'"
    and "\<And>y q v q'. y \<in> set xs \<Longrightarrow> I q \<Longrightarrow> f y q = (Inr v, q') \<Longrightarrow> I q'"
  shows "I q'"
  using assms
proof (induction xs arbitrary: q u)
  case (Cons y ys)
  from Cons.prems(3) obtain v w q1 where run: "f y q = (Inr v, q1)" "qsum f ys q1 = (Inr w, q')" by (auto simp: qbind_Inr)
  show ?case
  proof (cases "y = x")
    case True
    then have "I q1" using Cons.prems(4) Cons.prems(2) run(1) by blast
    then show ?thesis by (rule qsum_keeps [OF _ run(2)]) (rule Cons.prems(6), simp_all)
  next
    case False
    have "x \<in> set ys" and "J q1" using False Cons.prems(1,2) Cons.prems(5) [OF _ _ _ run(1)] by auto
    then show ?thesis
    proof (rule Cons.IH [OF _ _ run(2)])
      show "I q'" if "J q" "f x q = (Inr v, q')" for q v q' using Cons.prems(4) that .
      show "J q'" if "y \<in> set ys" "y \<noteq> x" "J q" "f y q = (Inr v, q')" for y q v q'
        using Cons.prems(5) [OF _ that(2-4)] that(1) by simp
      show "I q'" if "y \<in> set ys" "I q" "f y q = (Inr v, q')" for y q v q'
        using Cons.prems(6) [OF _ that(2,3)] that(1) by simp
    qed
  qed
qed simp

section \<open>Deletions\<close>

lemma commit_delete_cases:
  obtains io where "commit_delete p upd q = (Inr (p q), upd (q\<lparr>q_io := io\<rparr>))"
  | io where "commit_delete p upd q = (Inl Stale_Leader_Error, q\<lparr>q_io := io\<rparr>)"
proof (cases "q_io q")
  case Nil
  then have "q\<lparr>q_io := []\<rparr> = q" by (cases q) simp
  moreover have "commit_delete p upd q = (Inr (p q), upd q)" using Nil by (simp add: commit_delete_def)
  ultimately show ?thesis using that(1) [of "[]"] by (simp only:)
next
  case (Cons a io)
  show ?thesis
  proof (cases "a = Io_Refused")
    case True
    with Cons have "commit_delete p upd q = (Inl Stale_Leader_Error, q\<lparr>q_io := io\<rparr>)" by (simp add: commit_delete_def)
    then show ?thesis by (rule that(2))
  next
    case False
    with Cons have "commit_delete p upd q = (Inr (p q), upd (q\<lparr>q_io := io\<rparr>))" by (cases a) (simp_all add: commit_delete_def)
    then show ?thesis by (rule that(1))
  qed
qed

lemma preserves_commit_delete:
  assumes "\<And>q. I q \<Longrightarrow> I (upd q)" and "\<And>q io. I (q\<lparr>q_io := io\<rparr>) = I q"
  shows "preserves I (commit_delete p upd)"
  unfolding preserves_def
proof (intro allI impI)
  fix q
  assume "I q"
  then show "I (snd (commit_delete p upd q))"
    using assms by (cases rule: commit_delete_cases [of p upd q]) simp_all
qed

lemma commit_delete_Inr:
  assumes "commit_delete p upd q = (Inr b, q')"
  obtains io where "q' = upd (q\<lparr>q_io := io\<rparr>)"
  using assms by (cases rule: commit_delete_cases [of p upd q]) auto

abbreviation gone :: "string \<Rightarrow> queue \<Rightarrow> bool" where
  "gone k q \<equiv> map_of (q_objects q) k = None"

abbreviation holds_task :: "string \<Rightarrow> task \<Rightarrow> queue \<Rightarrow> bool" where
  "holds_task tid t q \<equiv> get_task tid q = Some t"

lemma delete_object_gone: "map_of s k = None \<Longrightarrow> map_of (snd (delete_object key s)) k = None"
  by (auto simp: delete_object_def split: sum.split)

lemma gone_deletes:
  "preserves (gone k) (delete_stored key)" "preserves (gone k) (delete_completion key)" "preserves (gone k) (delete_task tid)"
  "preserves (gone k) (delete_results tid)" "preserves (gone k) (delete_request rid)" "preserves (gone k) (delete_idempotency h)"
  unfolding delete_stored_def delete_completion_def delete_task_def delete_results_def delete_result_def delete_request_def
    delete_idempotency_def
  by (intro preserves_intros preserves_commit_delete; simp add: delete_object_gone)+

lemma task_deletes:
  "preserves (holds_task tid t) (delete_stored key)" "preserves (holds_task tid t) (delete_completion key)"
  "tid' \<noteq> tid \<Longrightarrow> preserves (holds_task tid t) (delete_task tid')" "preserves (holds_task tid t) (delete_results tid')"
  unfolding delete_stored_def delete_completion_def delete_task_def delete_results_def delete_result_def
  by (intro preserves_intros preserves_commit_delete; simp add: get_task_def)+

lemma prune_staging_keeps:
  "preserves (gone k) (prune_staging sha gid keys keep)" "preserves (holds_task tid t) (prune_staging sha gid keys keep)"
  unfolding prune_staging_def prune_object_def by (intro preserves_intros gone_deletes task_deletes)+

lemma prune_request_task_keeps:
  "preserves (gone k) (prune_request_task sha r tid')"
  "tid' \<noteq> tid \<Longrightarrow> preserves (holds_task tid t) (prune_request_task sha r tid')"
  unfolding prune_request_task_def by (intro preserves_intros prune_staging_keeps gone_deletes task_deletes; assumption)+

lemma prune_request_keeps: "preserves (gone k) (prune_request sha cutoff rid)"
  unfolding prune_request_def by (intro preserves_intros prune_request_task_keeps gone_deletes)

section \<open>Pruning removes the staged outputs of the whole generation\<close>

lemma prune_object_removes:
  assumes "prune_object sha gid [] k q = (Inr n, q')" and "normalize_key k = Inr k"
  shows "gone k q'"
proof -
  obtain u1 q1 u2 where run: "delete_stored k q = (Inr u1, q1)" "delete_completion (completion_key sha k gid) q1 = (Inr u2, q')"
    using assms(1) by (auto simp: prune_object_def qbind_Inr)
  have "gone k q1"
    using run(1) assms(2) unfolding delete_stored_def
    by (auto simp: qbind_Inr delete_object_def elim!: commit_delete_Inr)
  then show ?thesis by (rule preserves_run [OF gone_deletes(2) _ run(2)])
qed

lemma prune_staging_removes:
  assumes "prune_staging sha gid [out] [] q = (Inr n, q')" and "normalize_key k = Inr k"
    and "py_startswith k (list_prefix (staging_generation_prefix sha out gid))"
  shows "gone k q'"
proof (cases "gone k q")
  case True
  then show ?thesis by (rule preserves_run [OF prune_staging_keeps(1) _ assms(1)])
next
  case False
  let ?ks = "list_keys (staging_generation_prefix sha out gid) (q_objects q)"
  have mem: "k \<in> set ?ks" using False assms(3) by (auto simp: list_keys_def dest: map_of_SomeD_key)
  obtain m where run: "qsum (prune_object sha gid []) ?ks q = (Inr m, q')"
    using assms(1) by (auto simp: prune_staging_def qbind_Inr)
  show ?thesis
  proof (rule qsum_establish [where J = "\<lambda>_. True", OF mem TrueI run])
    have "preserves (gone k) (prune_object sha gid [] y)" for y
      unfolding prune_object_def by (intro preserves_intros gone_deletes)
    then show "gone k q2" if "gone k q1" "prune_object sha gid [] y q1 = (Inr v, q2)" for y q1 v q2
      using that by (rule preserves_run)
    show "gone k q2" if "prune_object sha gid [] k q1 = (Inr v, q2)" for q1 v q2
      using that assms(2) by (rule prune_object_removes)
  qed
qed

lemma prune_request_task_removes:
  assumes "prune_request_task sha r tid q = (Inr u, q')" and "holds_task tid t q"
    and "\<not> rq_published r" "rq_state r \<in> {FAILED, CANCELLED}" and "mt_generation_id (tk_task t) \<noteq> []"
    and "normalize_key k = Inr k"
    and "py_startswith k (list_prefix (staging_generation_prefix sha (mt_output_key (tk_task t)) (mt_generation_id (tk_task t))))"
  shows "gone k q'"
proof -
  have "rq_state r \<in> {FAILED, CANCELLED, EXPIRED}" using assms(4) by blast
  then obtain n q1 u2 q2 b where run: "prune_staging sha (mt_generation_id (tk_task t)) [mt_output_key (tk_task t)] [] q = (Inr n, q1)"
    "delete_results tid q1 = (Inr u2, q2)" "delete_task tid q2 = (Inr b, q')"
    using assms(1-3,5) by (auto simp: prune_request_task_def qbind_Inr)
  have "gone k q1" using prune_staging_removes [OF run(1) assms(6,7)] .
  then have "gone k q2" by (rule preserves_run [OF gone_deletes(4) _ run(2)])
  then show ?thesis by (rule preserves_run [OF gone_deletes(3) _ run(3)])
qed

lemma prune_request_removes:
  assumes "prune_request sha cutoff rid q = (Inr n, q')" and "get_request rid q = Some r" "prunable cutoff r"
    and "tid \<in> set (rq_task_ids r)" "holds_task tid t q"
    and "\<not> rq_published r" "rq_state r \<in> {FAILED, CANCELLED}" and "mt_generation_id (tk_task t) \<noteq> []"
    and "normalize_key k = Inr k"
    and "py_startswith k (list_prefix (staging_generation_prefix sha (mt_output_key (tk_task t)) (mt_generation_id (tk_task t))))"
  shows "gone k q'"
proof -
  obtain u q1 b1 q2 b2 where run: "qfor (prune_request_task sha r) (rq_task_ids r) q = (Inr u, q1)"
    "delete_idempotency (rq_idempotency_key r) q1 = (Inr b1, q2)" "delete_request rid q2 = (Inr b2, q')"
    using assms(1-3) by (auto simp: prune_request_def qbind_Inr)
  from assms(4,5) run(1) have "gone k q1"
  proof (rule qfor_establish)
    show "gone k q'" if "holds_task tid t q" "prune_request_task sha r tid q = (Inr v, q')" for q v q'
      using prune_request_task_removes [OF that(2,1) assms(6-10)] .
    show "holds_task tid t q'" if "y \<noteq> tid" "holds_task tid t q" "prune_request_task sha r y q = (Inr v, q')" for y q v q'
      using preservesD [OF prune_request_task_keeps(2) [OF that(1)] that(2)] that(3) by (metis snd_conv)
    show "gone k q'" if "gone k q" "prune_request_task sha r y q = (Inr v, q')" for y q v q'
      using prune_request_task_keeps(1) that by (rule preserves_run)
  qed
  then have "gone k q2" by (rule preserves_run [OF gone_deletes(6) _ run(2)])
  then show ?thesis by (rule preserves_run [OF gone_deletes(5) _ run(3)])
qed

text \<open>
  C11: Pruning a failed request can remove the files of a published snapshot. Let a failed or cancelled unpublished
  request be old enough to be pruned, and let no other request be. Then after pruning, no object below the staging
  prefix of its table directory and generation is left, whichever request it belongs to; and if a stored
  snapshot lists such an object, reading this snapshot raises an error from then on.
\<close>

theorem prune_removes_published_outputs:
  assumes "get_request rid q = Some r" "prunable (now - max 0 retention * 1000) r"
    and "\<And>rid' r'. rid' \<noteq> rid \<Longrightarrow> get_request rid' q = Some r' \<Longrightarrow> \<not> prunable (now - max 0 retention * 1000) r'"
    and "\<not> rq_published r" "rq_state r \<in> {FAILED, CANCELLED}"
    and "tid \<in> set (rq_task_ids r)" "get_task tid q = Some t" "mt_generation_id (tk_task t) \<noteq> []"
    and "normalize_key k = Inr k"
    and "py_startswith k (list_prefix (staging_generation_prefix sha (mt_output_key (tk_task t)) (mt_generation_id (tk_task t))))"
    and "prune_terminal sha now retention q = (Inr n, q')"
  shows "map_of (q_objects q') k = None
    \<and> (\<forall>table epoch m s. select_snapshot sha table epoch q' = Some m \<and> s \<in> set (mf_splits m) \<and> sf_object_key s = k
         \<longrightarrow> (\<exists>e. fst (get_snapshot sha table epoch q') = Inl e))"
proof -
  let ?c = "now - max 0 retention * 1000"
  have mem: "rid \<in> set (list_requests q)" using assms(1) by (auto simp: list_requests_def get_request_def dest: map_of_SomeD_key)
  have run: "qsum (prune_request sha ?c) (list_requests q) q = (Inr n, q')"
    using assms(11) by (auto simp: prune_terminal_def qbind_Inr)
  have "gone k q'"
  proof (rule qsum_establish [where J = "\<lambda>q1. q1 = q", OF mem refl run])
    show "gone k q2" if "q1 = q" "prune_request sha ?c rid q1 = (Inr v, q2)" for q1 v q2
      using prune_request_removes [OF _ assms(1,2,6,7,4,5,8-10)] that by blast
    show "q2 = q" if "y \<noteq> rid" "q1 = q" "prune_request sha ?c y q1 = (Inr v, q2)" for y q1 v q2
      using that assms(3) [OF that(1)] by (auto simp: prune_request_def qbind_Inr split: option.splits)
    show "gone k q2" if "gone k q1" "prune_request sha ?c y q1 = (Inr v, q2)" for y q1 v q2
      using prune_request_keeps that by (rule preserves_run)
  qed
  moreover have "\<exists>e. fst (get_snapshot sha table epoch q') = Inl e"
    if sel: "select_snapshot sha table epoch q' = Some m" and s: "s \<in> set (mf_splits m)" "sf_object_key s = k" for table epoch m s
  proof -
    have "\<not> outputs_present sha m (q_objects q')"
      using s \<open>gone k q'\<close> assms(9) by (auto simp: outputs_present_def verify_def intro!: bexI [of _ s])
    then have bad: "check_outputs sha e1 e2 m q' \<noteq> (Inr (), q2)" for e1 e2 q2 by (simp add: check_outputs_iff)
    show ?thesis
    proof (cases "fst (get_snapshot sha table epoch q')")
      case (Inr x)
      then obtain q2 where "get_snapshot sha table epoch q' = (Inr x, q2)" by (metis prod.collapse)
      then show ?thesis using sel bad by (auto simp: get_snapshot_def qbind_Inr)
    qed blast
  qed
  ultimately show ?thesis by blast
qed

section \<open>Programs that return when no write fails\<close>

definition returns :: "'a qm \<Rightarrow> bool" where
  "returns m \<longleftrightarrow> (\<forall>q. q_io q = [] \<longrightarrow> (\<exists>x. fst (m q) = Inr x) \<and> q_io (snd (m q)) = [])"

named_theorems returns_intros \<open>one rule per combinator\<close>

lemma returnsD:
  assumes "returns m" and "q_io q = []"
  obtains x q' where "m q = (Inr x, q')" "q_io q' = []"
  using assms unfolding returns_def by (metis prod.collapse)

lemma returns_basic [returns_intros]: "returns (qreturn x)" "returns (qget f)"
  by (simp_all add: returns_def qreturn_def qget_def)

lemma returns_bind [returns_intros]: "returns m \<Longrightarrow> (\<And>x. returns (f x)) \<Longrightarrow> returns (qbind m f)"
  unfolding returns_def
proof (intro allI impI)
  fix q :: queue
  assume m: "\<forall>q. q_io q = [] \<longrightarrow> (\<exists>x. fst (m q) = Inr x) \<and> q_io (snd (m q)) = []"
    and f: "\<And>x. \<forall>q. q_io q = [] \<longrightarrow> (\<exists>y. fst (f x q) = Inr y) \<and> q_io (snd (f x q)) = []" and "q_io q = []"
  then obtain x q1 where "m q = (Inr x, q1)" "q_io q1 = []" by (metis prod.collapse)
  then show "(\<exists>y. fst (qbind m f q) = Inr y) \<and> q_io (snd (qbind m f q)) = []" using f [of x] by (simp add: qbind_def)
qed

lemma returns_if [returns_intros]: "(b \<Longrightarrow> returns m) \<Longrightarrow> (\<not> b \<Longrightarrow> returns n) \<Longrightarrow> returns (if b then m else n)"
  by simp

lemma returns_option [returns_intros]:
  "(x = None \<Longrightarrow> returns m) \<Longrightarrow> (\<And>y. x = Some y \<Longrightarrow> returns (n y)) \<Longrightarrow> returns (case x of None \<Rightarrow> m | Some y \<Rightarrow> n y)"
  by (cases x) auto

lemma returns_prod [returns_intros]: "(\<And>a b. returns (f a b)) \<Longrightarrow> returns (case x of (a, b) \<Rightarrow> f a b)"
  by (cases x) auto

lemma returns_loops [returns_intros]:
  "(\<And>x. returns (f x)) \<Longrightarrow> returns (qfor f xs)" "(\<And>x. returns (g x)) \<Longrightarrow> returns (qsum g xs)"
  by (induction xs) (auto intro!: returns_intros)

lemma returns_commit:
  "(\<And>q. q_io (upd q) = q_io q) \<Longrightarrow> returns (commit upd)"
  "(\<And>q. q_io (upd q) = q_io q) \<Longrightarrow> returns (commit_delete p upd)"
  by (simp_all add: returns_def commit_def commit_with_def commit_delete_def)

lemma returns_writes [returns_intros]:
  "returns (put_task cfg tid t)" "returns (put_request cfg rid r)" "returns (put_result cfg tid n x)"
  "returns (put_membership cfg g m)" "returns (put_idempotency h rid)"
  "returns (delete_task tid)" "returns (delete_request rid)" "returns (delete_result k)" "returns (delete_idempotency h)"
  "returns (delete_stored key)" "returns (delete_completion key)"
  unfolding put_task_def put_request_def put_result_def put_membership_def put_idempotency_def delete_task_def
    delete_request_def delete_result_def delete_idempotency_def delete_stored_def delete_completion_def
  by (intro returns_intros returns_commit; simp)+

lemma returns_prune_terminal: "returns (prune_terminal sha now retention)"
  unfolding prune_terminal_def prune_request_def prune_request_task_def prune_staging_def prune_object_def delete_results_def
  by (intro returns_intros)

definition staged_key :: string where
  "staged_key = ''w/t/data/.fsp/staging/g/T/1-x.parquet''"

definition old_queue :: queue where
  "old_queue = empty_queue\<lparr>q_requests := [(''R'', demo_request\<lparr>rq_state := FAILED\<rparr>)], q_tasks := [(''T'', demo_task)],
     q_objects := [(staged_key, ''data'')]\<rparr>"

lemma staged_key_facts:
  "normalize_key staged_key = Inr staged_key"
  "py_startswith staged_key (list_prefix (staging_generation_prefix id ''w/t/data/0.parquet'' ''g''))"
  by code_simp+

theorem prune_removes_published_outputs_witness:
  "map_of (q_objects old_queue) staged_key = Some ''data''
   \<and> (\<exists>n q'. prune_terminal id 100000 1 old_queue = (Inr n, q') \<and> map_of (q_objects q') staged_key = None)"
proof -
  have io: "q_io old_queue = []" by (simp add: old_queue_def empty_queue_def)
  obtain n q' where run: "prune_terminal id 100000 1 old_queue = (Inr n, q')"
    by (rule returnsD [OF returns_prune_terminal io])
  have r: "get_request ''R'' old_queue = Some (demo_request\<lparr>rq_state := FAILED\<rparr>)"
    and t: "get_task ''T'' old_queue = Some demo_task" by (simp_all add: old_queue_def get_request_def get_task_def)
  have "map_of (q_objects q') staged_key = None"
    using prune_removes_published_outputs [OF r _ _ _ _ _ t _ staged_key_facts(1) _ run] staged_key_facts(2)
    by (auto simp: prunable_def terminal_def demo_request_def demo_task_def demo_materialize_def old_queue_def get_request_def
        split: if_splits)
  then show ?thesis using run by (simp add: old_queue_def)
qed

end
