(* ===== verification/Queue_Recovery.thy ===== *)
theory Queue_Recovery
  imports Queue_Retention
begin

text \<open>
  Creation and recovery of requests. \<open>create_request\<close> may be cut off at any of its writes; after the next
  \<open>recover\<close> without faults the request is either complete or has left no trace. A completed creation is
  idempotent across all later operations.
\<close>

section \<open>Programs with a postcondition for errors\<close>

definition triple :: "(queue \<Rightarrow> bool) \<Rightarrow> 'a qm \<Rightarrow> ('a \<Rightarrow> queue \<Rightarrow> bool) \<Rightarrow> (queue \<Rightarrow> bool) \<Rightarrow> bool" where
  "triple P m Q E \<longleftrightarrow> (\<forall>q. P q \<longrightarrow> (case m q of (Inl e, q') \<Rightarrow> E q' | (Inr x, q') \<Rightarrow> Q x q'))"

lemma tripleD: "triple P m Q E \<Longrightarrow> P q \<Longrightarrow> m q = (x, q') \<Longrightarrow> (case x of Inl e \<Rightarrow> E q' | Inr y \<Rightarrow> Q y q')"
  by (auto simp: triple_def)

lemma triple_return: "(\<And>q. P q \<Longrightarrow> Q x q) \<Longrightarrow> triple P (qreturn x) Q E"
  by (simp add: triple_def qreturn_def)

lemma triple_bind:
  assumes "triple P m R E" and "\<And>x. triple (R x) (f x) Q E"
  shows "triple P (qbind m f) Q E"
  unfolding triple_def
proof (intro allI impI)
  fix q
  assume "P q"
  then show "case qbind m f q of (Inl e, q') \<Rightarrow> E q' | (Inr x, q') \<Rightarrow> Q x q'"
    using assms by (cases "fst (m q)") (fastforce simp: triple_def qbind_def split: prod.splits sum.splits)+
qed

lemma triple_commit:
  assumes "\<And>q. P q \<Longrightarrow> Q () (upd q)" and "\<And>q. P q \<Longrightarrow> E q" and "\<And>q. P q \<Longrightarrow> E (upd q)"
    and "\<And>q io. P (q\<lparr>q_io := io\<rparr>) = P q"
  shows "triple P (commit upd) Q E"
  unfolding triple_def commit_def
proof (intro allI impI)
  fix q
  assume "P q"
  then show "case commit_with Stale_Leader_Error (Work_Queue_Error ''queue record verification failed'') upd q of
      (Inl e, q') \<Rightarrow> E q' | (Inr x, q') \<Rightarrow> Q x q'"
    using assms
    by (cases rule: commit_with_cases [of Stale_Leader_Error "Work_Queue_Error ''queue record verification failed''" upd q])
       simp_all
qed

lemma triple_qfor:
  assumes "\<And>x rest. triple (I (x # rest)) (f x) (\<lambda>_. I rest) E"
  shows "triple (I xs) (qfor f xs) (\<lambda>_. I []) E"
proof (induction xs)
  case (Cons x xs)
  show ?case unfolding qfor.simps by (rule triple_bind [OF assms Cons.IH])
qed (simp add: triple_return)

section \<open>Creation\<close>

abbreviation task_ids :: "(string \<Rightarrow> string) \<Rightarrow> create_args \<Rightarrow> string list" where
  "task_ids sha a \<equiv> map (task_id_of sha (identity_hash sha a)) (ca_tasks a)"

definition own_ids :: "(string \<Rightarrow> string) \<Rightarrow> create_args \<Rightarrow> queue \<Rightarrow> bool" where
  "own_ids sha a q \<longleftrightarrow>
     (\<forall>rid r. get_request rid q = Some r \<and> rid \<noteq> identity_hash sha a \<longrightarrow>
        set (rq_task_ids r) \<inter> set (task_ids sha a) = {} \<and> rq_idempotency_key r \<noteq> identity_hash sha a)"

definition has_request :: "(string \<Rightarrow> string) \<Rightarrow> create_args \<Rightarrow> bool \<Rightarrow> queue \<Rightarrow> bool" where
  "has_request sha a ready q \<longleftrightarrow>
     (\<exists>r. get_request (identity_hash sha a) q = Some r \<and> rq_request_id r = identity_hash sha a \<and> rq_state r = QUEUED
        \<and> request_core r = (task_ids sha a, ready, identity_hash sha a))"

definition has_tasks :: "(string \<Rightarrow> string) \<Rightarrow> create_args \<Rightarrow> string list \<Rightarrow> queue \<Rightarrow> bool" where
  "has_tasks sha a tids q \<longleftrightarrow>
     (\<forall>tid\<in>set tids. \<exists>t. get_task tid q = Some t \<and> tk_request_id t = identity_hash sha a)"

text \<open>What creation leaves of the queue \<open>q0\<close> it started in.\<close>

definition beside :: "(string \<Rightarrow> string) \<Rightarrow> create_args \<Rightarrow> queue \<Rightarrow> queue \<Rightarrow> bool" where
  "beside sha a q0 q \<longleftrightarrow>
     (\<forall>rid. rid \<noteq> identity_hash sha a \<longrightarrow> get_request rid q = get_request rid q0)
     \<and> distinct (keys_of (q_tasks q)) \<and> (\<forall>tid t. get_task tid q = Some t \<longrightarrow> task_wf tid t)
     \<and> (\<forall>tid. tid \<notin> set (task_ids sha a) \<longrightarrow> get_task tid q = get_task tid q0)"

abbreviation recorded :: "(string \<Rightarrow> string) \<Rightarrow> create_args \<Rightarrow> queue \<Rightarrow> string option" where
  "recorded sha a q \<equiv> map_of (q_idempotency q) (identity_hash sha a)"

definition untouched :: "(string \<Rightarrow> string) \<Rightarrow> create_args \<Rightarrow> queue \<Rightarrow> bool" where
  "untouched sha a q \<longleftrightarrow> get_request (identity_hash sha a) q = None \<and> recorded sha a q = None"

definition half_created :: "(string \<Rightarrow> string) \<Rightarrow> create_args \<Rightarrow> queue \<Rightarrow> bool" where
  "half_created sha a q \<longleftrightarrow> has_request sha a False q \<and> recorded sha a q = None"

definition created :: "(string \<Rightarrow> string) \<Rightarrow> create_args \<Rightarrow> queue \<Rightarrow> bool" where
  "created sha a q \<longleftrightarrow> has_request sha a True q \<and> has_tasks sha a (task_ids sha a) q"

definition created_somehow :: "(string \<Rightarrow> string) \<Rightarrow> create_args \<Rightarrow> queue \<Rightarrow> queue \<Rightarrow> bool" where
  "created_somehow sha a q0 q \<longleftrightarrow>
     beside sha a q0 q \<and> (untouched sha a q \<or> half_created sha a q \<or> created sha a q)"

lemmas creation_defs = created_somehow_def untouched_def half_created_def created_def has_request_def has_tasks_def beside_def

lemma new_request_core:
  "rq_request_id (new_request sha now a rid) = rid" "rq_state (new_request sha now a rid) = QUEUED"
  "request_core (new_request sha now a rid) = (map (task_id_of sha rid) (ca_tasks a), False, identity_hash sha a)"
  by (simp_all add: new_request_def request_core_def)

lemma new_task_core:
  "tk_task_id (new_task sha cfg now a rid m) = task_id_of sha rid m" "tk_request_id (new_task sha cfg now a rid m) = rid"
  "task_wf (task_id_of sha rid m) (new_task sha cfg now a rid m)"
  by (simp_all add: new_task_def task_wf_def)

lemma request_core_ready: "request_core (r\<lparr>rq_ready := b\<rparr>) = (fst (request_core r), b, snd (snd (request_core r)))"
  by (simp add: request_core_def)

lemma queue_other_simps [simp]:
  "get_task tid (q\<lparr>q_idempotency := x\<rparr>) = get_task tid q" "get_request rid (q\<lparr>q_idempotency := x\<rparr>) = get_request rid q"
  by (simp_all add: get_task_def get_request_def)


abbreviation new_tasks :: "(string \<Rightarrow> string) \<Rightarrow> queue_config \<Rightarrow> int \<Rightarrow> create_args \<Rightarrow> task list" where
  "new_tasks sha cfg now a \<equiv> map (new_task sha cfg now a (identity_hash sha a)) (ca_tasks a)"

definition storing :: "(string \<Rightarrow> string) \<Rightarrow> queue_config \<Rightarrow> int \<Rightarrow> create_args \<Rightarrow> queue \<Rightarrow> task list \<Rightarrow> queue \<Rightarrow> bool" where
  "storing sha cfg now a q0 rest q \<longleftrightarrow>
     beside sha a q0 q \<and> half_created sha a q \<and> set rest \<subseteq> set (new_tasks sha cfg now a)
     \<and> (\<forall>t\<in>set (new_tasks sha cfg now a). t \<in> set rest
          \<or> (\<exists>u. get_task (tk_task_id t) q = Some u \<and> tk_request_id u = identity_hash sha a))"

lemma storing_step:
  "triple (storing sha cfg now a q0 (t # rest)) (put_task cfg (tk_task_id t) t) (\<lambda>_. storing sha cfg now a q0 rest)
     (created_somehow sha a q0)"
  unfolding put_task_def stamp_task_def [symmetric]
proof (rule triple_commit)
  fix q
  assume st: "storing sha cfg now a q0 (t # rest) q"
  let ?q = "q\<lparr>q_tasks := AList.update (tk_task_id t) (stamp_task cfg t) (q_tasks q)\<rparr>"
  obtain m where m: "m \<in> set (ca_tasks a)" "t = new_task sha cfg now a (identity_hash sha a) m"
    using st by (auto simp: storing_def)
  have "beside sha a q0 ?q"
    using st m new_task_core by (auto simp: storing_def beside_def distinct_update)
  moreover have "half_created sha a ?q" using st by (simp add: storing_def half_created_def has_request_def)
  ultimately show "storing sha cfg now a q0 rest ?q" and "created_somehow sha a q0 ?q"
    using st m new_task_core(2) by (auto simp: storing_def created_somehow_def)
  show "created_somehow sha a q0 q" using st by (simp add: storing_def created_somehow_def)
qed (simp add: storing_def creation_defs)

lemma storing_done: "storing sha cfg now a q0 [] q \<Longrightarrow> has_tasks sha a (task_ids sha a) q"
  by (auto simp: storing_def has_tasks_def new_task_core)

lemma put_request_created:
  assumes "rq_request_id r = identity_hash sha a" "rq_state r = QUEUED"
    "request_core r = (task_ids sha a, ready, identity_hash sha a)"
    and "\<And>q. P q \<Longrightarrow> beside sha a q0 q \<and> recorded sha a q = None \<and> created_somehow sha a q0 q"
    and "\<And>q. P q \<Longrightarrow> ready \<Longrightarrow> has_tasks sha a (task_ids sha a) q"
    and "\<And>q io. P (q\<lparr>q_io := io\<rparr>) = P q"
  shows "triple P (put_request cfg (identity_hash sha a) r)
    (\<lambda>_ q. beside sha a q0 q \<and> (if ready then created sha a q else half_created sha a q) \<and> recorded sha a q = None)
    (created_somehow sha a q0)"
  unfolding put_request_def
proof (rule triple_commit)
  fix q :: queue
  let ?r = "r\<lparr>rq_manager := stamped cfg (rq_manager r)\<rparr>"
  let ?q = "q\<lparr>q_requests := AList.update (identity_hash sha a) ?r (q_requests q)\<rparr>"
  assume P: "P q"
  have "has_request sha a ready ?q" using assms(1-3) by (simp add: has_request_def)
  moreover have "beside sha a q0 ?q" using assms(4) [OF P] by (simp add: beside_def)
  moreover have "ready \<Longrightarrow> has_tasks sha a (task_ids sha a) ?q" using assms(5) [OF P] by (simp add: has_tasks_def)
  ultimately show "beside sha a q0 ?q \<and> (if ready then created sha a ?q else half_created sha a ?q) \<and> recorded sha a ?q = None"
    and "created_somehow sha a q0 ?q"
    using assms(4) [OF P] by (cases ready; simp add: created_def half_created_def created_somehow_def)+
qed (use assms(4,6) in simp_all)

lemma create_writes:
  "triple (\<lambda>q. beside sha a q0 q \<and> untouched sha a q)
     (qbind (put_request cfg (identity_hash sha a) (new_request sha now a (identity_hash sha a))) (\<lambda>_.
      qbind (qfor (\<lambda>t. put_task cfg (tk_task_id t) t) (new_tasks sha cfg now a)) (\<lambda>_.
      qbind (put_request cfg (identity_hash sha a) (new_request sha now a (identity_hash sha a)\<lparr>rq_ready := True\<rparr>)) (\<lambda>_.
      qbind (put_idempotency (identity_hash sha a) (identity_hash sha a)) (\<lambda>_.
      qreturn (new_request sha now a (identity_hash sha a)\<lparr>rq_ready := True\<rparr>))))))
     (\<lambda>r q. created_somehow sha a q0 q \<and> created sha a q \<and> recorded sha a q = Some (identity_hash sha a)
        \<and> request_core r = (task_ids sha a, True, identity_hash sha a)) (created_somehow sha a q0)"
  (is "triple ?A (qbind ?w1 (\<lambda>_. qbind ?w2 (\<lambda>_. qbind ?w3 (\<lambda>_. qbind ?w4 ?ret)))) ?Q ?E")
proof (intro triple_bind)
  note ready = new_request_core [of sha now a "identity_hash sha a"]
  let ?r = "new_request sha now a (identity_hash sha a)\<lparr>rq_ready := True\<rparr>"
  have r: "rq_request_id ?r = identity_hash sha a" "rq_state ?r = QUEUED"
    "request_core ?r = (task_ids sha a, True, identity_hash sha a)"
    using ready by (simp_all add: request_core_ready)
  have first: "triple ?A ?w1 (\<lambda>_ q. beside sha a q0 q \<and> (if False then created sha a q else half_created sha a q)
      \<and> recorded sha a q = None) ?E"
    by (rule put_request_created) (use ready in \<open>simp_all add: creation_defs\<close>)
  show "triple ?A ?w1 (\<lambda>_. storing sha cfg now a q0 (new_tasks sha cfg now a)) ?E"
    using first by (simp add: triple_def storing_def split: prod.splits sum.splits) blast
  show "triple (storing sha cfg now a q0 (new_tasks sha cfg now a)) ?w2 (\<lambda>_. storing sha cfg now a q0 []) ?E"
    by (rule triple_qfor) (rule storing_step)
  show "triple (storing sha cfg now a q0 []) ?w3 (\<lambda>_ q. beside sha a q0 q
      \<and> (if True then created sha a q else half_created sha a q) \<and> recorded sha a q = None) ?E"
    by (rule put_request_created [OF r])
      (erule storing_done | simp add: storing_def half_created_def created_somehow_def beside_def has_request_def)+
  show "triple (\<lambda>q. beside sha a q0 q \<and> (if True then created sha a q else half_created sha a q) \<and> recorded sha a q = None)
      ?w4 (\<lambda>_ q. created_somehow sha a q0 q \<and> created sha a q \<and> recorded sha a q = Some (identity_hash sha a)) ?E"
    unfolding put_idempotency_def by (rule triple_commit) (simp_all add: creation_defs)
  show "triple (\<lambda>q. created_somehow sha a q0 q \<and> created sha a q \<and> recorded sha a q = Some (identity_hash sha a))
      (qreturn ?r) ?Q ?E"
    by (rule triple_return) (use r(3) in simp)
qed


lemma create_request_unfold:
  assumes "\<not> spans_tenants (ca_tasks a)" "untouched sha a q" "length (datasets_of (ca_tasks a)) \<le> 1"
  shows "create_request sha cfg now a q =
    qbind (put_request cfg (identity_hash sha a) (new_request sha now a (identity_hash sha a))) (\<lambda>_.
    qbind (qfor (\<lambda>t. put_task cfg (tk_task_id t) t) (new_tasks sha cfg now a)) (\<lambda>_.
    qbind (put_request cfg (identity_hash sha a) (new_request sha now a (identity_hash sha a)\<lparr>rq_ready := True\<rparr>)) (\<lambda>_.
    qbind (put_idempotency (identity_hash sha a) (identity_hash sha a)) (\<lambda>_.
    qreturn (new_request sha now a (identity_hash sha a)\<lparr>rq_ready := True\<rparr>))))) q"
  using assms by (simp add: create_request_def Let_def qbind_def [of "qget _"] qget_def untouched_def)

lemma create_request_outcome:
  assumes "queue_wf q" and "untouched sha a q" and run: "create_request sha cfg now a q = (x, q')"
  shows "created_somehow sha a q q'"
    and "x = Inr r \<Longrightarrow> created sha a q' \<and> recorded sha a q' = Some (identity_hash sha a)
      \<and> request_core r = (task_ids sha a, True, identity_hash sha a)"
proof -
  have pre: "beside sha a q q \<and> untouched sha a q" using assms(1,2) by (simp add: beside_def queue_wf_def)
  have "created_somehow sha a q q' \<and> (x = Inr r \<longrightarrow> created sha a q' \<and> recorded sha a q' = Some (identity_hash sha a)
      \<and> request_core r = (task_ids sha a, True, identity_hash sha a))"
  proof (cases "spans_tenants (ca_tasks a) \<or> length (datasets_of (ca_tasks a)) > 1")
    case True
    then have "\<exists>e. create_request sha cfg now a q = (Inl e, q)"
      using assms(2) by (auto simp: create_request_def Let_def qbind_def qget_def qraise_def untouched_def)
    then show ?thesis using pre run by (auto simp: created_somehow_def)
  next
    case False
    then show ?thesis
      using tripleD [OF create_writes [of sha a q cfg now] pre] run create_request_unfold [of a sha q cfg now] assms(2)
      by (cases x) (simp_all, blast)
  qed
  then show "created_somehow sha a q q'"
    and "x = Inr r \<Longrightarrow> created sha a q' \<and> recorded sha a q' = Some (identity_hash sha a)
      \<and> request_core r = (task_ids sha a, True, identity_hash sha a)" by blast+
qed

lemma created_wf:
  assumes "queue_wf q0" and "own_ids sha a q0" and "created_somehow sha a q0 q"
  shows "queue_wf q"
  unfolding queue_wf_def
proof (intro conjI allI impI)
  show "distinct (keys_of (q_tasks q))" using assms(3) by (simp add: created_somehow_def beside_def)
  show "task_wf tid t" if "get_task tid q = Some t" for tid t
    using that assms(3) by (simp add: created_somehow_def beside_def)
  show "request_wf rid q r" if r: "get_request rid q = Some r" for rid r
  proof (cases "rid = identity_hash sha a")
    case True
    then show ?thesis using assms(3) r by (auto simp: creation_defs request_wf_def)
  next
    case False
    then have r0: "get_request rid q0 = Some r" using assms(3) r by (simp add: created_somehow_def beside_def)
    then have "request_wf rid q0 r" using assms(1) by (simp add: queue_wf_def)
    moreover have "get_task tid q = get_task tid q0" if "tid \<in> set (rq_task_ids r)" for tid
    proof -
      have "tid \<notin> set (task_ids sha a)" using assms(2) r0 False that unfolding own_ids_def by blast
      then show ?thesis using assms(3) unfolding created_somehow_def beside_def by blast
    qed
    ultimately show ?thesis by (simp add: request_wf_def tasks_succeeded_def)
  qed
qed

section \<open>Recovery of requests\<close>

lemma preserves_commit:
  assumes "\<And>q. I q \<Longrightarrow> I (upd q)" and "\<And>q io. I (q\<lparr>q_io := io\<rparr>) = I q"
  shows "preserves I (commit upd)"
  unfolding preserves_def commit_def
proof (intro allI impI)
  fix q
  assume "I q"
  then show "I (snd (commit_with Stale_Leader_Error (Work_Queue_Error ''queue record verification failed'') upd q))"
    using assms
    by (cases rule: commit_with_cases [of Stale_Leader_Error "Work_Queue_Error ''queue record verification failed''" upd q])
       simp_all
qed

lemma all_requests_lookup:
  assumes "queue_wf q"
  shows "(k, r) \<in> set (all_requests q) \<longleftrightarrow> get_request k q = Some r"
proof -
  define step where "step = (\<lambda>rid d. case get_request rid q of None \<Rightarrow> d | Some r \<Rightarrow> AList.update (rq_request_id r) r d)"
  have one: "map_of (step rid d) k = (if k = rid \<and> get_request k q \<noteq> None then get_request k q else map_of d k)" for rid d
    using assms by (cases "get_request rid q") (auto simp: step_def queue_wf_def request_wf_def)
  have "map_of (fold step ks d) k = (if k \<in> set ks \<and> get_request k q \<noteq> None then get_request k q else map_of d k)" for ks d
    by (induction ks arbitrary: d) (auto simp: one)
  then have lookup: "map_of (all_requests q) k = (if k \<in> set (list_requests q) then get_request k q else None)"
    by (simp add: all_requests_def step_def [symmetric])
  have listed: "k \<in> set (list_requests q)" if "get_request k q = Some r"
    using that by (auto simp: list_requests_def get_request_def dest: map_of_SomeD_key)
  have "distinct (keys_of (step rid d))" if "distinct (keys_of d)" for rid d
    using that by (cases "get_request rid q") (simp_all add: step_def distinct_update)
  then have "distinct (keys_of (fold step ks d))" if "distinct (keys_of d)" for ks d
    using that by (induction ks arbitrary: d) simp_all
  then have "distinct (keys_of (all_requests q))" by (simp add: all_requests_def step_def [symmetric])
  then have "(k, r) \<in> set (all_requests q) \<longleftrightarrow> map_of (all_requests q) k = Some r" by simp
  then show ?thesis using lookup listed by (simp split: if_split) blast
qed


lemma all_requests_mem: "queue_wf q \<Longrightarrow> y \<in> set (all_requests q) \<Longrightarrow> get_request (fst y) q = Some (snd y)"
  using all_requests_lookup [of q "fst y" "snd y"] by simp

lemma wf_fewer_tasks:
  assumes "queue_wf q" and "q_requests q' = q_requests q" and "distinct (keys_of (q_tasks q'))"
    and "\<And>tid t. get_task tid q' = Some t \<Longrightarrow> get_task tid q = Some t"
  shows "queue_wf q'"
proof -
  have "get_request rid q' = get_request rid q" for rid using assms(2) by (simp add: get_request_def)
  then show ?thesis
    using assms unfolding queue_wf_def request_wf_def tasks_succeeded_def by simp
qed

lemma wf_same_tasks:
  assumes "queue_wf q" and "q_tasks q' = q_tasks q"
    and "\<And>rid r. get_request rid q' = Some r \<Longrightarrow> get_request rid q = Some r \<or> rq_request_id r = rid \<and> rq_state r \<noteq> SUCCEEDED"
  shows "queue_wf q'"
proof -
  have same: "get_task tid q' = get_task tid q" for tid using assms(2) by (simp add: get_task_def)
  have "request_wf rid q' r" if "get_request rid q' = Some r" for rid r
    using assms(1) assms(3) [OF that] by (auto simp: queue_wf_def request_wf_def tasks_succeeded_def same)
  then show ?thesis using assms(1,2) by (simp add: queue_wf_def same)
qed

lemma get_deleted:
  "get_task tid (q\<lparr>q_tasks := AList.delete k (q_tasks q)\<rparr>) = (if tid = k then None else get_task tid q)"
  "get_request rid (q\<lparr>q_requests := AList.delete k (q_requests q)\<rparr>) = (if rid = k then None else get_request rid q)"
  by (simp_all add: get_task_def get_request_def delete_conv' restrict_map_def)

lemma wf_other [simp]:
  "queue_wf (q\<lparr>q_idempotency := x\<rparr>) = queue_wf q" "queue_wf (q\<lparr>q_results := y\<rparr>) = queue_wf q"
  "queue_wf (q\<lparr>q_objects := z\<rparr>) = queue_wf q" "queue_wf (q\<lparr>q_completions := w\<rparr>) = queue_wf q"
  by (simp_all add: queue_wf_def request_wf_def tasks_succeeded_def get_task_def get_request_def)

lemma wf_delete:
  assumes "queue_wf q"
  shows "queue_wf (q\<lparr>q_tasks := AList.delete tid (q_tasks q)\<rparr>)"
    and "queue_wf (q\<lparr>q_requests := AList.delete rid (q_requests q)\<rparr>)"
proof -
  have "distinct (keys_of (q_tasks q))" using assms by (simp add: queue_wf_def)
  then have "distinct (keys_of (AList.delete tid (q_tasks q)))" by (rule distinct_delete)
  then show "queue_wf (q\<lparr>q_tasks := AList.delete tid (q_tasks q)\<rparr>)"
    by (intro wf_fewer_tasks [OF assms]) (simp_all add: get_deleted split: if_splits)
  show "queue_wf (q\<lparr>q_requests := AList.delete rid (q_requests q)\<rparr>)"
    by (rule wf_same_tasks [OF assms]) (simp_all add: get_deleted split: if_splits)
qed

lemma preserves_wf [preserves_intros]:
  "preserves queue_wf (delete_task tid)" "preserves queue_wf (delete_request rid)" "preserves queue_wf (delete_results tid)"
  "preserves queue_wf (delete_idempotency h)" "preserves queue_wf (put_idempotency h rid)"
  "preserves queue_wf (delete_stored key)" "preserves queue_wf (delete_completion key)"
  unfolding delete_task_def delete_request_def delete_results_def delete_result_def delete_idempotency_def put_idempotency_def
    delete_stored_def delete_completion_def
  by (intro preserves_intros preserves_commit_delete preserves_commit; simp add: wf_delete)+


lemma wf_put_request:
  assumes "rq_request_id r = rid" "rq_state r \<noteq> SUCCEEDED"
  shows "preserves queue_wf (put_request cfg rid r)"
  unfolding put_request_def
  by (rule preserves_commit, erule wf_same_tasks) (use assms in \<open>auto split: if_splits\<close>)

lemma wf_recover_request: "rq_request_id r = rid \<Longrightarrow> preserves queue_wf (recover_request cfg now (rid, r))"
  unfolding recover_request_def prod.case by (intro preserves_intros wf_put_request) simp_all

lemma created_elsewhere:
  assumes "rid \<noteq> identity_hash sha a"
  shows "preserves (created sha a) (put_request cfg rid r)" "preserves (created sha a) (delete_request rid)"
    "preserves (untouched sha a) (put_request cfg rid r)"
  unfolding put_request_def delete_request_def
  by (intro preserves_commit preserves_commit_delete;
      use assms in \<open>simp add: created_def untouched_def has_request_def has_tasks_def get_deleted\<close>)+

lemma created_deletes:
  "tid \<notin> set (task_ids sha a) \<Longrightarrow> preserves (created sha a) (delete_task tid)"
  "preserves (created sha a) (delete_idempotency h)" "preserves (created sha a) (put_idempotency h x)"
  "preserves (untouched sha a) (delete_task tid)" "preserves (untouched sha a) (delete_request rid)"
  "preserves (untouched sha a) (delete_idempotency h)"
  "h \<noteq> identity_hash sha a \<Longrightarrow> preserves (untouched sha a) (put_idempotency h x)"
  unfolding delete_task_def delete_idempotency_def put_idempotency_def delete_request_def
  by (intro preserves_commit preserves_commit_delete;
      auto simp: created_def untouched_def has_request_def has_tasks_def get_deleted delete_conv' restrict_map_def)+

lemma recorded_kept:
  "preserves (\<lambda>q. recorded sha a q = x) (put_request cfg rid r)" "preserves (\<lambda>q. recorded sha a q = x) (delete_task tid)"
  "preserves (\<lambda>q. recorded sha a q = x) (delete_request rid)"
  "h \<noteq> identity_hash sha a \<Longrightarrow> preserves (\<lambda>q. recorded sha a q = x) (put_idempotency h v)"
  "h \<noteq> identity_hash sha a \<Longrightarrow> preserves (\<lambda>q. recorded sha a q = x) (delete_idempotency h)"
  unfolding put_request_def delete_task_def delete_request_def put_idempotency_def delete_idempotency_def
  by (intro preserves_commit preserves_commit_delete; simp add: delete_conv' restrict_map_def)+

lemma preserves_conj: "preserves I m \<Longrightarrow> preserves J m \<Longrightarrow> preserves (\<lambda>q. I q \<and> J q) m"
  by (simp add: preserves_def)

lemma recover_other:
  assumes "rid \<noteq> identity_hash sha a" "rq_idempotency_key r \<noteq> identity_hash sha a"
    and "set (rq_task_ids r) \<inter> set (task_ids sha a) = {}"
  shows "preserves (created sha a) (recover_request cfg now (rid, r))"
    and "preserves (untouched sha a) (recover_request cfg now (rid, r))"
    and "preserves (\<lambda>q. recorded sha a q = x) (recover_request cfg now (rid, r))"
proof -
  have ids: "tid \<in> set (rq_task_ids r) \<Longrightarrow> tid \<notin> set (task_ids sha a)" for tid using assms(3) by blast
  show "preserves (created sha a) (recover_request cfg now (rid, r))"
    unfolding recover_request_def prod.case
    by (intro preserves_intros created_elsewhere [OF assms(1)] created_deletes ids)
  show "preserves (untouched sha a) (recover_request cfg now (rid, r))"
    unfolding recover_request_def prod.case
    by (intro preserves_intros created_elsewhere [OF assms(1)] created_deletes assms(2))
  show "preserves (\<lambda>q. recorded sha a q = x) (recover_request cfg now (rid, r))"
    unfolding recover_request_def prod.case
    by (intro preserves_intros recorded_kept assms(2))
qed

lemma recover_own_half:
  assumes "recover_request cfg now (identity_hash sha a, r) q = (Inr n, q')"
    and "request_core r = (tids, False, identity_hash sha a)"
  shows "untouched sha a q'"
proof -
  have r: "\<not> rq_ready r" "rq_idempotency_key r = identity_hash sha a" using assms(2) by (simp_all add: request_core_def)
  then obtain q1 b1 q2 b2 where "delete_request (identity_hash sha a) q1 = (Inr b1, q2)"
    "delete_idempotency (identity_hash sha a) q2 = (Inr b2, q')"
    using assms(1) by (auto simp: recover_request_def qbind_Inr)
  then show ?thesis
    unfolding delete_request_def delete_idempotency_def
    by (elim commit_delete_Inr) (simp add: untouched_def get_deleted)
qed

lemma recover_own_created:
  assumes "recover_request cfg now (identity_hash sha a, r) q = (Inr n, q')"
    and "request_core r = (task_ids sha a, True, identity_hash sha a)" and "created sha a q"
  shows "created sha a q' \<and> recorded sha a q' = Some (identity_hash sha a)"
proof -
  have r: "rq_ready r" "rq_idempotency_key r = identity_hash sha a" "rq_task_ids r = task_ids sha a"
    using assms(2) by (simp_all add: request_core_def)
  have "\<not> (\<exists>tid\<in>set (rq_task_ids r). get_task tid q = None)"
    using assms(3) r(3) by (force simp: created_def has_tasks_def)
  then have "put_idempotency (identity_hash sha a) (identity_hash sha a) q = (Inr (), q')"
    using assms(1) r(1,2) by (fastforce simp: recover_request_def qbind_Inr split: if_splits)
  then show ?thesis
    using assms(3) unfolding put_idempotency_def commit_def
    by (elim commit_with_Inr) (simp add: created_def has_request_def has_tasks_def)
qed


section \<open>Recovery of tasks\<close>

lemma qsum_listing:
  assumes "qsum f ts q = (Inr n, q')" and "distinct (map tk_task_id ts)" and "\<forall>t\<in>set ts. current t q" and "I ts q"
    and "\<And>t rest q m q1. I (t # rest) q \<Longrightarrow> current t q \<Longrightarrow> f t q = (Inr m, q1) \<Longrightarrow>
      I rest q1 \<and> (\<forall>tid. tid \<noteq> tk_task_id t \<longrightarrow> get_task tid q1 = get_task tid q)"
  shows "I [] q'"
  using assms(1-4)
proof (induction ts arbitrary: q n)
  case (Cons t ts)
  from Cons.prems(1) obtain v w q1 where run: "f t q = (Inr v, q1)" "qsum f ts q1 = (Inr w, q')" by (auto simp: qbind_Inr)
  have step: "I ts q1" "\<And>tid. tid \<noteq> tk_task_id t \<Longrightarrow> get_task tid q1 = get_task tid q"
    using assms(5) [OF Cons.prems(4) _ run(1)] Cons.prems(3) by auto
  have other: "tk_task_id u \<noteq> tk_task_id t" if "u \<in> set ts" for u
    using Cons.prems(2) imageI [OF that, of tk_task_id] by auto
  have "\<forall>u\<in>set ts. current u q1" using step(2) [OF other] Cons.prems(3) by simp
  then show ?case using Cons.IH [OF run(2)] Cons.prems(2) step(1) by simp
qed simp

lemma keeps_of_preserves: "(\<And>c. preserves (\<lambda>q. f q = c) m) \<Longrightarrow> keeps f m"
  by (simp add: preserves_def keeps_def)

abbreviation records :: "queue \<Rightarrow> (string, request) dict \<times> (string, string) dict" where
  "records q \<equiv> (q_requests q, q_idempotency q)"

lemma keeps_records:
  "keeps records (put_task cfg tid t)" "keeps records (delete_task tid)" "keeps records (delete_results tid)"
  "keeps q_tasks (delete_results tid)"
  unfolding put_task_def delete_task_def delete_results_def delete_result_def
  by (intro keeps_of_preserves preserves_intros preserves_commit preserves_commit_delete; simp)+

lemma keeps_run: "keeps f m \<Longrightarrow> m q = (x, q') \<Longrightarrow> f q' = f q"
  using keepsD [of f m q] by simp

lemma recover_task_records: "keeps records (recover_task cfg now known t)"
  unfolding recover_task_def by (intro keeps_intros keeps_records)

lemma recover_task_step:
  assumes "queue_wf q" and "current t q" and run: "recover_task cfg now known t q = (Inr n, q')"
  shows "queue_wf q'" and "tid \<noteq> tk_task_id t \<Longrightarrow> get_task tid q' = get_task tid q"
    and "tk_request_id t \<in> known \<Longrightarrow> \<exists>u. get_task (tk_task_id t) q' = Some u \<and> tk_request_id u = tk_request_id t"
    and "tk_request_id t \<notin> known \<Longrightarrow> get_task (tk_task_id t) q' = None"
proof -
  let ?t = "t\<lparr>tk_state := after_expiry now t, tk_available_at_ms := now, tk_updated_at_ms := now, tk_revision := tk_revision t + 1\<rparr>"
  consider (gone) "tk_request_id t \<notin> known" | (expired) "tk_request_id t \<in> known" "tk_state t = EXPIRED"
    | (same) "tk_request_id t \<in> known" "q' = q"
    using run by (auto simp: recover_task_def split: if_splits)
  then have "queue_wf q' \<and> (\<forall>tid. tid \<noteq> tk_task_id t \<longrightarrow> get_task tid q' = get_task tid q)
    \<and> (if tk_request_id t \<in> known then \<exists>u. get_task (tk_task_id t) q' = Some u \<and> tk_request_id u = tk_request_id t
        else get_task (tk_task_id t) q' = None)"
  proof cases
    case gone
    then obtain u q1 b where del: "delete_results (tk_task_id t) q = (Inr u, q1)" "delete_task (tk_task_id t) q1 = (Inr b, q')"
      using run by (auto simp: recover_task_def qbind_Inr)
    have "queue_wf q'" using preserves_run [OF preserves_wf(1) _ del(2)] preserves_run [OF preserves_wf(3) assms(1) del(1)] .
    moreover have "get_task tid q1 = get_task tid q" for tid
      using keeps_run [OF keeps_records(4) del(1)] by (simp add: get_task_def)
    moreover have "get_task tid q' = (if tid = tk_task_id t then None else get_task tid q1)" for tid
      using del(2) unfolding delete_task_def by (elim commit_delete_Inr) (simp add: get_deleted get_task_def)
    ultimately show ?thesis using gone by simp
  next
    case expired
    have put: "put_task cfg (tk_task_id t) ?t q = (Inr (), q')"
      using run expired by (auto simp: recover_task_def qbind_Inr)
    have "task_step t ?t" using expired(2) by (simp add: task_step_def after_expiry_def state_defs)
    then have "guarded {tk_task_id t} (current t) (put_task cfg (tk_task_id t) ?t)
        (\<lambda>_ q. get_task (tk_task_id t) q = Some (stamp_task cfg ?t))"
      using expired(2) by (intro guarded_step) (auto simp: task_wf_def after_expiry_def)
    then have "queue_wf q' \<and> (\<forall>tid. tid \<notin> {tk_task_id t} \<longrightarrow> get_task tid q' = get_task tid q)
      \<and> get_task (tk_task_id t) q' = Some (stamp_task cfg ?t)"
      unfolding guarded_def using assms(1,2) put by fastforce
    then show ?thesis using expired(1) by simp
  next
    case same
    then show ?thesis using assms by simp
  qed
  then show "queue_wf q'" and "tid \<noteq> tk_task_id t \<Longrightarrow> get_task tid q' = get_task tid q"
    and "tk_request_id t \<in> known \<Longrightarrow> \<exists>u. get_task (tk_task_id t) q' = Some u \<and> tk_request_id u = tk_request_id t"
    and "tk_request_id t \<notin> known \<Longrightarrow> get_task (tk_task_id t) q' = None" by simp_all
qed


section \<open>Recovery after an interrupted creation\<close>

lemma recover_tasks_created:
  assumes "qsum (recover_task cfg now known) (list_tasks q) q = (Inr n, q')" and "queue_wf q"
    and "created sha a q" and "identity_hash sha a \<in> known"
  shows "queue_wf q' \<and> created sha a q'"
proof (rule qsum_listing [where I = "\<lambda>_ q. queue_wf q \<and> created sha a q", OF assms(1)])
  fix t rest q1 m q2
  assume pre: "queue_wf q1 \<and> created sha a q1" and cur: "current t q1" and run: "recover_task cfg now known t q1 = (Inr m, q2)"
  note step = recover_task_step [OF conjunct1 [OF pre] cur run]
  have "has_request sha a True q2"
    using pre keeps_run [OF recover_task_records run] by (simp add: created_def has_request_def get_request_def)
  moreover have "\<exists>u. get_task tid q2 = Some u \<and> tk_request_id u = identity_hash sha a" if tid: "tid \<in> set (task_ids sha a)" for tid
  proof -
    obtain u where u: "get_task tid q1 = Some u" "tk_request_id u = identity_hash sha a"
      using pre tid unfolding created_def has_tasks_def by blast
    show ?thesis
    proof (cases "tid = tk_task_id t")
      case True
      then have "u = t" using u(1) cur by simp
      then show ?thesis using True step(3) u(2) assms(4) by simp
    next
      case False
      then show ?thesis using u step(2) by simp
    qed
  qed
  ultimately show "(queue_wf q2 \<and> created sha a q2) \<and> (\<forall>tid. tid \<noteq> tk_task_id t \<longrightarrow> get_task tid q2 = get_task tid q1)"
    using step(1,2) unfolding created_def has_tasks_def by blast
qed (use assms list_tasks_current in blast)+

definition tasks_left :: "(string \<Rightarrow> string) \<Rightarrow> create_args \<Rightarrow> task list \<Rightarrow> queue \<Rightarrow> bool" where
  "tasks_left sha a rest q \<longleftrightarrow> (\<forall>tid t. get_task tid q = Some t \<and> tk_request_id t = identity_hash sha a \<longrightarrow> t \<in> set rest)"

lemma recover_tasks_removed:
  assumes "qsum (recover_task cfg now known) (list_tasks q) q = (Inr n, q')" and "queue_wf q"
    and "identity_hash sha a \<notin> known"
  shows "queue_wf q' \<and> tasks_left sha a [] q'"
proof (rule qsum_listing [where I = "\<lambda>rest q. queue_wf q \<and> tasks_left sha a rest q", OF assms(1)])
  fix t rest q1 m q2
  assume pre: "queue_wf q1 \<and> tasks_left sha a (t # rest) q1" and cur: "current t q1"
    and run: "recover_task cfg now known t q1 = (Inr m, q2)"
  note step = recover_task_step [OF conjunct1 [OF pre] cur run]
  have "u \<in> set rest" if u: "get_task tid q2 = Some u" "tk_request_id u = identity_hash sha a" for tid u
  proof (cases "tid = tk_task_id t")
    case True
    then show ?thesis
    proof (cases "tk_request_id t \<in> known")
      assume "tk_request_id t \<in> known"
      then have "tk_request_id u \<in> known" using step(3) True u(1) by auto
      then show ?thesis using u(2) assms(3) by simp
    qed (use True u(1) step(4) in simp)
  next
    case False
    then have "get_task tid q1 = Some u" using u(1) step(2) by simp
    moreover from this have "tk_task_id u = tid" using pre by (auto simp: queue_wf_def task_wf_def)
    ultimately show ?thesis using pre u(2) False unfolding tasks_left_def by (metis set_ConsD)
  qed
  then show "(queue_wf q2 \<and> tasks_left sha a rest q2) \<and> (\<forall>tid. tid \<noteq> tk_task_id t \<longrightarrow> get_task tid q2 = get_task tid q1)"
    using step(1,2) unfolding tasks_left_def by blast
next
  have "t \<in> set (list_tasks q)" if "get_task tid q = Some t" for tid t
    using that by (force simp: list_tasks_def get_task_def dest: map_of_SomeD)
  then show "queue_wf q \<and> tasks_left sha a (list_tasks q) q" using assms(2) unfolding tasks_left_def by blast
qed (use assms list_tasks_current in blast)+

lemma recover_runs:
  assumes "recover cfg now q = (Inr c, q')"
  obtains n1 q1 n2 q2 n3 where "qsum (recover_request cfg now) (all_requests q) q = (Inr n1, q1)"
    "qsum (recover_task cfg now (fst ` set (filter (\<lambda>x. rq_ready (snd x)) (all_requests q)))) (list_tasks q1) q1 = (Inr n2, q2)"
    "expire_claims cfg now q2 = (Inr n3, q')"
  using assms unfolding recover_def by (auto simp: qbind_Inr)

lemma known_iff:
  assumes "queue_wf q"
  shows "rid \<in> fst ` set (filter (\<lambda>x. rq_ready (snd x)) (all_requests q)) \<longleftrightarrow> (\<exists>r. get_request rid q = Some r \<and> rq_ready r)"
  using all_requests_lookup [OF assms] by force

lemma recover_requests_wf:
  assumes "qsum (recover_request cfg now) (all_requests q) q = (Inr n, q')" and "queue_wf q"
  shows "queue_wf q'"
proof (rule qsum_keeps [where I = queue_wf, OF assms(2,1)])
  show "queue_wf q2" if "y \<in> set (all_requests q)" "queue_wf q1" "recover_request cfg now y q1 = (Inr v, q2)" for y q1 v q2
  proof -
    obtain rid r where y: "y = (rid, r)" by (cases y)
    then have "rq_request_id r = rid" using that(1) all_requests_lookup [OF assms(2)] assms(2) by (auto simp: queue_wf_def request_wf_def)
    then show ?thesis using preserves_run [OF wf_recover_request that(2)] that(3) y by blast
  qed
qed


lemma recover_requests_created:
  assumes "qsum (recover_request cfg now) (all_requests q) q = (Inr n, q')" and "queue_wf q" "own_ids sha a q" "created sha a q"
  shows "created sha a q' \<and> recorded sha a q' = Some (identity_hash sha a)"
proof -
  obtain r where r: "get_request (identity_hash sha a) q = Some r" "request_core r = (task_ids sha a, True, identity_hash sha a)"
    using assms(4) by (auto simp: created_def has_request_def)
  have mem: "(identity_hash sha a, r) \<in> set (all_requests q)" using all_requests_lookup [OF assms(2)] r(1) by simp
  have own: "y = (identity_hash sha a, r)" if "y \<in> set (all_requests q)" "fst y = identity_hash sha a" for y
    using that(2) all_requests_mem [OF assms(2) that(1)] r(1) by (cases y) simp
  have other: "preserves (created sha a) (recover_request cfg now y)" "preserves (\<lambda>q. recorded sha a q = x) (recover_request cfg now y)"
    if "y \<in> set (all_requests q)" "fst y \<noteq> identity_hash sha a" for y x
    using that(2) all_requests_mem [OF assms(2) that(1)] assms(3)
      recover_other(1,3) [of "fst y" sha a "snd y"] by (auto simp: own_ids_def)
  show ?thesis
  proof (rule qsum_establish [where J = "created sha a", OF mem assms(4,1)])
    show "created sha a q2 \<and> recorded sha a q2 = Some (identity_hash sha a)"
      if "created sha a q1" "recover_request cfg now (identity_hash sha a, r) q1 = (Inr v, q2)" for q1 v q2
      using recover_own_created [OF that(2) r(2) that(1)] .
    show "created sha a q2" if "y \<in> set (all_requests q)" "y \<noteq> (identity_hash sha a, r)" "created sha a q1"
      "recover_request cfg now y q1 = (Inr v, q2)" for y q1 v q2
      using preserves_run [OF other(1) [OF that(1)] that(3,4)] own [OF that(1)] that(2) by blast
    show "created sha a q2 \<and> recorded sha a q2 = Some (identity_hash sha a)"
      if y: "y \<in> set (all_requests q)" and q1: "created sha a q1 \<and> recorded sha a q1 = Some (identity_hash sha a)"
      and run: "recover_request cfg now y q1 = (Inr v, q2)" for y q1 v q2
    proof (cases "fst y = identity_hash sha a")
      case True
      then show ?thesis using recover_own_created [OF _ r(2)] own [OF y] run q1 by blast
    next
      case False
      then show ?thesis using preserves_run [OF preserves_conj [OF other [OF y False]] q1 run] by blast
    qed
  qed
qed

lemma recover_requests_removed:
  assumes "qsum (recover_request cfg now) (all_requests q) q = (Inr n, q')" and "queue_wf q" "own_ids sha a q"
    and "untouched sha a q \<or> half_created sha a q"
  shows "untouched sha a q'"
proof -
  have step: "untouched sha a q2"
    if y: "y \<in> set (all_requests q)" and "fst y \<noteq> identity_hash sha a \<longrightarrow> untouched sha a q1"
      and run: "recover_request cfg now y q1 = (Inr v, q2)" for y q1 v q2
  proof (cases "fst y = identity_hash sha a")
    case True
    then have "get_request (identity_hash sha a) q = Some (snd y)"
      using all_requests_mem [OF assms(2) y] by simp
    then have "request_core (snd y) = (task_ids sha a, False, identity_hash sha a)"
      using assms(4) by (auto simp: untouched_def half_created_def has_request_def)
    then show ?thesis using recover_own_half True run by (metis prod.collapse)
  next
    case False
    then have "untouched sha a q1" using that by blast
    moreover have "preserves (untouched sha a) (recover_request cfg now y)"
      using recover_other(2) [of "fst y" sha a "snd y"] all_requests_mem [OF assms(2) y] False assms(3)
      by (auto simp: own_ids_def)
    ultimately show ?thesis using preserves_run run by blast
  qed
  have keep: "untouched sha a q2" if "y \<in> set (all_requests q)" "untouched sha a q1" "recover_request cfg now y q1 = (Inr v, q2)" for y q1 v q2
    using step [OF that(1) _ that(3)] that(2) by blast
  from assms(4) show ?thesis
  proof
    assume "untouched sha a q"
    then show ?thesis using assms(1) by (rule qsum_keeps) (rule keep)
  next
    assume "half_created sha a q"
    then obtain r where "get_request (identity_hash sha a) q = Some r" by (auto simp: half_created_def has_request_def)
    then have mem: "(identity_hash sha a, r) \<in> set (all_requests q)" using all_requests_lookup [OF assms(2)] by simp
    show ?thesis
    proof (rule qsum_establish [where J = "\<lambda>_. True", OF mem TrueI assms(1)])
      show "untouched sha a q2" if "recover_request cfg now (identity_hash sha a, r) q1 = (Inr v, q2)" for q1 v q2
        using step [OF mem _ that] by simp
      show "untouched sha a q2" if "y \<in> set (all_requests q)" "untouched sha a q1" "recover_request cfg now y q1 = (Inr v, q2)" for y q1 v q2
        using that by (rule keep)
    qed
  qed
qed

definition established :: "(string \<Rightarrow> string) \<Rightarrow> create_args \<Rightarrow> queue \<Rightarrow> bool" where
  "established sha a q \<longleftrightarrow>
     (\<exists>r. get_request (identity_hash sha a) q = Some r \<and> request_core r = (task_ids sha a, True, identity_hash sha a))
     \<and> has_tasks sha a (task_ids sha a) q \<and> recorded sha a q = Some (identity_hash sha a)"

definition no_trace :: "(string \<Rightarrow> string) \<Rightarrow> create_args \<Rightarrow> queue \<Rightarrow> bool" where
  "no_trace sha a q \<longleftrightarrow> untouched sha a q \<and> (\<forall>tid t. get_task tid q = Some t \<longrightarrow> tk_request_id t \<noteq> identity_hash sha a)"

lemma evolves_established:
  assumes "evolves q q'" and "created sha a q" "recorded sha a q = Some (identity_hash sha a)"
  shows "established sha a q'"
proof -
  obtain r where "get_request (identity_hash sha a) q = Some r" "request_core r = (task_ids sha a, True, identity_hash sha a)"
    using assms(2) by (auto simp: created_def has_request_def)
  then have "\<exists>r. get_request (identity_hash sha a) q' = Some r \<and> request_core r = (task_ids sha a, True, identity_hash sha a)"
    using evolves_request(1) [OF assms(1)] by fastforce
  moreover have "has_tasks sha a (task_ids sha a) q'"
    unfolding has_tasks_def
  proof
    fix tid
    assume "tid \<in> set (task_ids sha a)"
    then obtain t where t: "get_task tid q = Some t" "tk_request_id t = identity_hash sha a"
      using assms(2) unfolding created_def has_tasks_def by blast
    then show "\<exists>t. get_task tid q' = Some t \<and> tk_request_id t = identity_hash sha a"
      using evolves_task [OF assms(1) t(1)] task_steps_same by fastforce
  qed
  ultimately show ?thesis using assms(1,3) by (simp add: established_def evolves_def)
qed

lemma returns_recover: "returns (recover cfg now)"
  unfolding recover_def recover_request_def recover_task_def delete_results_def expire_claims_def expire_task_def
    refresh_requests_def refresh_request_def cancel_if_open_def Let_def
  by (intro returns_intros)

lemma creation_io [simp]:
  "untouched sha a (q\<lparr>q_io := io\<rparr>) = untouched sha a q" "half_created sha a (q\<lparr>q_io := io\<rparr>) = half_created sha a q"
  "created sha a (q\<lparr>q_io := io\<rparr>) = created sha a q" "own_ids sha a (q\<lparr>q_io := io\<rparr>) = own_ids sha a q"
  by (simp_all add: creation_defs own_ids_def)

lemma recover_created:
  assumes "recover cfg now q = (Inr c, q')" and "queue_wf q" "own_ids sha a q" "created sha a q"
  shows "established sha a q'"
proof (rule recover_runs [OF assms(1)])
  fix n1 q1 n2 q2 n3
  let ?known = "fst ` set (filter (\<lambda>x. rq_ready (snd x)) (all_requests q))"
  assume loops: "qsum (recover_request cfg now) (all_requests q) q = (Inr n1, q1)"
    "qsum (recover_task cfg now ?known) (list_tasks q1) q1 = (Inr n2, q2)" and expire: "expire_claims cfg now q2 = (Inr n3, q')"
  have "identity_hash sha a \<in> ?known"
    using assms(4) unfolding known_iff [OF assms(2)] by (auto simp: created_def has_request_def request_core_def)
  moreover have q1: "queue_wf q1" "created sha a q1" "recorded sha a q1 = Some (identity_hash sha a)"
    using recover_requests_wf [OF loops(1) assms(2)] recover_requests_created [OF loops(1) assms(2-4)] by blast+
  ultimately have "queue_wf q2 \<and> created sha a q2" using recover_tasks_created [OF loops(2)] by blast
  moreover have "records q2 = records q1" using keeps_run [OF keeps_loops(2) loops(2), of records] recover_task_records by blast
  then have "recorded sha a q2 = Some (identity_hash sha a)" using q1(3) by simp
  ultimately show ?thesis
    using evolves_established safelyD [OF safely_expire_claims, of q2 cfg now] expire by auto
qed

lemma recover_removed:
  assumes "recover cfg now q = (Inr c, q')" and "queue_wf q" "own_ids sha a q" "untouched sha a q \<or> half_created sha a q"
  shows "no_trace sha a q'"
proof (rule recover_runs [OF assms(1)])
  fix n1 q1 n2 q2 n3
  let ?known = "fst ` set (filter (\<lambda>x. rq_ready (snd x)) (all_requests q))"
  assume loops: "qsum (recover_request cfg now) (all_requests q) q = (Inr n1, q1)"
    "qsum (recover_task cfg now ?known) (list_tasks q1) q1 = (Inr n2, q2)" and expire: "expire_claims cfg now q2 = (Inr n3, q')"
  have "identity_hash sha a \<notin> ?known"
    using assms(4) unfolding known_iff [OF assms(2)] by (auto simp: untouched_def half_created_def has_request_def request_core_def)
  then have q2: "queue_wf q2" "tasks_left sha a [] q2"
    using recover_tasks_removed [OF loops(2) recover_requests_wf [OF loops(1) assms(2)]] by blast+
  have "records q2 = records q1" using keeps_run [OF keeps_loops(2) loops(2), of records] recover_task_records by blast
  then have "untouched sha a q2"
    using recover_requests_removed [OF loops(1) assms(2-4)] by (simp add: untouched_def get_request_def)
  moreover have ev: "evolves q2 q'" using safelyD [OF safely_expire_claims q2(1), of cfg now] expire by simp
  ultimately have "untouched sha a q'" using evolves_request(3) [OF ev] by (simp add: untouched_def evolves_def)
  moreover have "tk_request_id t \<noteq> identity_hash sha a" if "get_task tid q' = Some t" for tid t
    using evolves_task_back [OF ev that] q2(2) task_steps_same unfolding tasks_left_def by fastforce
  ultimately show ?thesis by (simp add: no_trace_def)
qed


text \<open>
  C10: Recovery after an interrupted creation. Let a request be created in a well-formed queue that has no record of it,
  with any of the writes refused or failing, also such that the creation raises an error half way. Then the next recovery
  without faults returns, and the request is then either complete (stored, ready, with all its tasks and its idempotency
  record) or has left no trace (no request, no idempotency record, none of its tasks); it is complete if the creation returned.
\<close>

theorem interrupted_creation_recovers:
  assumes "queue_wf q" "own_ids sha a q" and "untouched sha a q" and "create_request sha cfg now a q = (x, q1)"
  shows "\<exists>c q2. recover cfg' now' (q1\<lparr>q_io := []\<rparr>) = (Inr c, q2)
    \<and> (established sha a q2 \<or> no_trace sha a q2) \<and> ((\<exists>r. x = Inr r) \<longrightarrow> established sha a q2)"
proof -
  have made: "created_somehow sha a q q1" using create_request_outcome(1) [OF assms(1,3,4)] .
  let ?q = "q1\<lparr>q_io := []\<rparr>"
  have "get_request rid q1 = get_request rid q" if "rid \<noteq> identity_hash sha a" for rid
    using made that by (simp add: created_somehow_def beside_def)
  then have own: "own_ids sha a ?q" using assms(2) unfolding own_ids_def queue_io_simps by metis
  have wf: "queue_wf ?q" using created_wf [OF assms(1,2) made] by simp
  have "q_io ?q = []" by simp
  from returnsD [OF returns_recover this] obtain c q2 where run: "recover cfg' now' ?q = (Inr c, q2)" by blast
  have "established sha a q2" if "created sha a q1" using recover_created [OF run wf own] that by simp
  moreover have "no_trace sha a q2" if "untouched sha a q1 \<or> half_created sha a q1" using recover_removed [OF run wf own] that by simp
  moreover have "created sha a q1" if "x = Inr r" for r using create_request_outcome(2) [OF assms(1,3,4) that] by blast
  ultimately show ?thesis using run made unfolding created_somehow_def by blast
qed

text \<open>
  Creation is idempotent. After a creation has returned a request, and after any later operations of the queue (claims,
  results, expiry, cancellation, publication and so on, with any faults), a creation for the same table, epoch, generation, fence,
  plan and tenant returns the stored request with the same tasks and changes nothing.
\<close>

theorem create_request_idempotent:
  assumes "queue_wf q" "own_ids sha a q" "untouched sha a q" and "create_request sha cfg now a q = (Inr r, q1)"
    and "q2 = fold (run_op e) ops q1"
    and "identity_hash sha b = identity_hash sha a" "\<not> spans_tenants (ca_tasks b)"
  shows "\<exists>r'. create_request sha cfg' now' b q2 = (Inr r', q2) \<and> get_request (identity_hash sha a) q2 = Some r'
    \<and> request_core r' = request_core r"
proof -
  note made = create_request_outcome [OF assms(1,3,4)]
  have wf: "queue_wf q1" using created_wf [OF assms(1,2) made(1)] .
  then have ev: "evolves q1 q2" using run_ops_safe assms(5) by blast
  obtain r1 where r1: "get_request (identity_hash sha a) q1 = Some r1" "request_core r1 = request_core r"
    using made(2) by (auto simp: created_def has_request_def)
  obtain r' where r': "get_request (identity_hash sha a) q2 = Some r'" "request_core r' = request_core r1"
    using evolves_request(1) [OF ev r1(1)] by blast
  have "recorded sha a q2 = Some (identity_hash sha a)" using made(2) ev by (simp add: evolves_def)
  then have "create_request sha cfg' now' b q2 = (Inr r', q2)"
    using assms(6,7) r'(1) by (simp add: create_request_def Let_def qbind_def qget_def qreturn_def)
  then show ?thesis using r' r1(2) by simp
qed

definition demo_create :: create_args where
  "demo_create = \<lparr>ca_requested_key = ''k'', ca_table = ''t'', ca_epoch = 1, ca_table_format = ''iceberg'', ca_generation_id = ''g'',
     ca_generation_fence = 1, ca_plan_sha256 = ''p'', ca_tasks = [demo_materialize], ca_deadline_ms = 100\<rparr>"

lemma demo_create_facts:
  "queue_wf (empty_queue\<lparr>q_io := io\<rparr>)" "own_ids id demo_create (empty_queue\<lparr>q_io := io\<rparr>)"
  "untouched id demo_create (empty_queue\<lparr>q_io := io\<rparr>)"
  by (simp_all add: empty_queue_def queue_wf_def own_ids_def untouched_def get_task_def get_request_def)

theorem interrupted_creation_recovers_witness:
  "\<exists>x q1 c q2. create_request id (new_config 120 3 5 60 None) 10 demo_create (empty_queue\<lparr>q_io := [Io_Ok, Io_Refused]\<rparr>) = (x, q1)
     \<and> recover (new_config 120 3 5 60 None) 20 (q1\<lparr>q_io := []\<rparr>) = (Inr c, q2)
     \<and> (established id demo_create q2 \<or> no_trace id demo_create q2)"
proof -
  let ?c = "new_config 120 3 5 60 None"
  obtain x q1 where run: "create_request id ?c 10 demo_create (empty_queue\<lparr>q_io := [Io_Ok, Io_Refused]\<rparr>) = (x, q1)"
    by (rule prod.exhaust)
  show ?thesis using interrupted_creation_recovers [OF demo_create_facts run, of ?c 20] run by blast
qed

lemma returns_create:
  assumes "\<not> spans_tenants (ca_tasks a)" "untouched sha a q" "length (datasets_of (ca_tasks a)) \<le> 1" "q_io q = []"
  shows "\<exists>r q'. create_request sha cfg now a q = (Inr r, q')"
proof -
  have "returns (qbind (put_request cfg (identity_hash sha a) (new_request sha now a (identity_hash sha a))) (\<lambda>_.
    qbind (qfor (\<lambda>t. put_task cfg (tk_task_id t) t) (new_tasks sha cfg now a)) (\<lambda>_.
    qbind (put_request cfg (identity_hash sha a) (new_request sha now a (identity_hash sha a)\<lparr>rq_ready := True\<rparr>)) (\<lambda>_.
    qbind (put_idempotency (identity_hash sha a) (identity_hash sha a)) (\<lambda>_.
    qreturn (new_request sha now a (identity_hash sha a)\<lparr>rq_ready := True\<rparr>))))))"
    by (intro returns_intros)
  from returnsD [OF this assms(4)] show ?thesis unfolding create_request_unfold [OF assms(1-3)] by blast
qed

theorem create_request_idempotent_witness:
  "\<exists>r q1 r'. create_request id (new_config 120 3 5 60 None) 10 demo_create (empty_queue\<lparr>q_io := []\<rparr>) = (Inr r, q1)
     \<and> create_request id (new_config 120 3 5 60 None) 20 demo_create (fold (run_op demo_env) [Expire 15] q1)
       = (Inr r', fold (run_op demo_env) [Expire 15] q1) \<and> request_core r' = request_core r"
proof -
  let ?c = "new_config 120 3 5 60 None"
  have sp: "\<not> spans_tenants (ca_tasks demo_create)" "length (datasets_of (ca_tasks demo_create)) \<le> 1"
    by (simp_all add: demo_create_def demo_materialize_def spans_tenants_def tenants_of_def datasets_of_def)
  then obtain r q1 where run: "create_request id ?c 10 demo_create (empty_queue\<lparr>q_io := []\<rparr>) = (Inr r, q1)"
    using returns_create [OF _ demo_create_facts(3), of "[]" ?c 10] by auto
  show ?thesis using create_request_idempotent [OF demo_create_facts run refl refl sp(1), of ?c 20] run by blast
qed

end
