(* ===== verification/Queue_Invariant.thy ===== *)
theory Queue_Invariant
  imports Queue_Recovery
begin

text \<open>
  The invariant of the whole queue: the records stay well formed and the identifiers of requests and tasks stay
  apart under every operation, creation, operator retry, recovery and pruning included.
\<close>

section \<open>Identifiers\<close>

definition request_ids_wf :: "(string \<Rightarrow> string) \<Rightarrow> string \<Rightarrow> string list \<times> bool \<times> string \<Rightarrow> bool" where
  "request_ids_wf sha rid = (\<lambda>(tids, ready, key).
     key = rid \<and> (\<exists>s. rid = sha s) \<and> (\<forall>tid\<in>set tids. \<exists>s. tid = sha (rid @ ''|'' @ s)))"

definition ids_wf :: "(string \<Rightarrow> string) \<Rightarrow> queue \<Rightarrow> bool" where
  "ids_wf sha q \<longleftrightarrow> (\<forall>rid r. get_request rid q = Some r \<longrightarrow> request_ids_wf sha rid (request_core r))"

definition hex_digest :: "(string \<Rightarrow> string) \<Rightarrow> bool" where
  "hex_digest sha \<longleftrightarrow> inj sha \<and> (\<forall>s. CHR ''|'' \<notin> set (sha s))"

lemma take_to_bar: "CHR ''|'' \<notin> set xs \<Longrightarrow> takeWhile (\<lambda>c. c \<noteq> CHR ''|'') (xs @ ''|'' @ s) = xs"
  by (induction xs) auto

lemma own_ids_of_wf:
  assumes "hex_digest sha" and "ids_wf sha q"
  shows "own_ids sha a q"
  unfolding own_ids_def
proof (intro allI impI conjI)
  fix rid r
  assume r: "get_request rid q = Some r \<and> rid \<noteq> identity_hash sha a"
  then have ids: "request_ids_wf sha rid (request_core r)" using assms(2) by (simp add: ids_wf_def)
  then show "rq_idempotency_key r \<noteq> identity_hash sha a" using r by (simp add: request_ids_wf_def request_core_def)
  have bar: "CHR ''|'' \<notin> set rid" "CHR ''|'' \<notin> set (identity_hash sha a)"
    using ids assms(1) by (auto simp: request_ids_wf_def request_core_def hex_digest_def identity_hash_def)
  show "set (rq_task_ids r) \<inter> set (task_ids sha a) = {}"
  proof (rule ccontr)
    assume "set (rq_task_ids r) \<inter> set (task_ids sha a) \<noteq> {}"
    then obtain m where m: "task_id_of sha (identity_hash sha a) m \<in> set (rq_task_ids r)" by auto
    have "\<forall>tid\<in>set (rq_task_ids r). \<exists>s. tid = sha (rid @ ''|'' @ s)"
      using ids by (simp add: request_ids_wf_def request_core_def)
    then obtain s where "task_id_of sha (identity_hash sha a) m = sha (rid @ ''|'' @ s)" using m by blast
    then obtain t where eq: "sha (rid @ ''|'' @ s) = sha (identity_hash sha a @ ''|'' @ t)"
      unfolding task_id_of_def by (rule that [OF sym])
    then have "rid @ ''|'' @ s = identity_hash sha a @ ''|'' @ t"
      using assms(1) by (auto simp: hex_digest_def dest: injD)
    then have "takeWhile (\<lambda>c. c \<noteq> CHR ''|'') (rid @ ''|'' @ s)
        = takeWhile (\<lambda>c. c \<noteq> CHR ''|'') (identity_hash sha a @ ''|'' @ t)" by (simp only:)
    then have "rid = identity_hash sha a" by (simp only: take_to_bar [OF bar(1)] take_to_bar [OF bar(2)])
    then show False using r by simp
  qed
qed


section \<open>The invariant\<close>

definition queue_ok :: "(string \<Rightarrow> string) \<Rightarrow> queue \<Rightarrow> bool" where
  "queue_ok sha q \<longleftrightarrow> queue_wf q \<and> ids_wf sha q"

lemma ids_wf_io [simp]: "ids_wf sha (q\<lparr>q_io := io\<rparr>) = ids_wf sha q"
  by (simp add: ids_wf_def)

lemma preserves_queue_ok:
  "preserves queue_wf m \<Longrightarrow> preserves (ids_wf sha) m \<Longrightarrow> preserves (queue_ok sha) m"
  by (simp add: preserves_def queue_ok_def)

lemma ids_wf_requests: "q_requests q' = q_requests q \<Longrightarrow> ids_wf sha q' = ids_wf sha q"
  by (simp add: ids_wf_def get_request_def)

lemma ids_wf_kept [preserves_intros]:
  "preserves (ids_wf sha) (put_task cfg tid t)" "preserves (ids_wf sha) (delete_task tid)"
  "preserves (ids_wf sha) (delete_results tid)" "preserves (ids_wf sha) (delete_request rid)"
  "preserves (ids_wf sha) (delete_idempotency h)" "preserves (ids_wf sha) (put_idempotency h v)"
  "preserves (ids_wf sha) (delete_stored key)" "preserves (ids_wf sha) (delete_completion key)"
  unfolding put_task_def delete_task_def delete_results_def delete_result_def delete_request_def delete_idempotency_def
    put_idempotency_def delete_stored_def delete_completion_def
  by (intro preserves_intros preserves_commit preserves_commit_delete;
      simp add: ids_wf_def get_deleted get_request_def split: if_splits)+

lemma ids_wf_put_request:
  "request_ids_wf sha rid (request_core r) \<Longrightarrow> preserves (ids_wf sha) (put_request cfg rid r)"
  unfolding put_request_def by (rule preserves_commit) (simp_all add: ids_wf_def)

lemma queue_ok_put_request:
  assumes "rq_request_id r = rid" "rq_state r \<noteq> SUCCEEDED" "request_ids_wf sha rid (request_core r)"
  shows "preserves (queue_ok sha) (put_request cfg rid r)"
  using assms by (intro preserves_queue_ok wf_put_request ids_wf_put_request)

lemma queue_ok_request:
  "queue_ok sha q \<Longrightarrow> get_request rid q = Some r \<Longrightarrow> rq_request_id r = rid \<and> request_ids_wf sha rid (request_core r)"
  by (simp add: queue_ok_def queue_wf_def ids_wf_def request_wf_def)

lemma queue_ok_evolves: "queue_ok sha q \<Longrightarrow> queue_wf q' \<Longrightarrow> evolves q q' \<Longrightarrow> queue_ok sha q'"
  unfolding queue_ok_def ids_wf_def by (metis evolves_request(2))

section \<open>Pruning and creation\<close>

lemma queue_ok_prune_terminal: "preserves (queue_ok sha) (prune_terminal sha' now retention)"
  unfolding prune_terminal_def prune_request_def prune_request_task_def prune_staging_def prune_object_def
  by (intro preserves_intros preserves_queue_ok)

lemma queue_ok_prune_staging: "preserves (queue_ok sha) (prune_staging sha' gid outs keep)"
  unfolding prune_staging_def prune_object_def by (intro preserves_intros preserves_queue_ok)

definition creating :: "(string \<Rightarrow> string) \<Rightarrow> create_args \<Rightarrow> queue \<Rightarrow> bool" where
  "creating sha a q \<longleftrightarrow>
     queue_ok sha q \<and> (\<exists>r. get_request (identity_hash sha a) q = Some r \<and> rq_state r \<noteq> SUCCEEDED)"

lemma triple_preserves: "triple I m (\<lambda>_. I) I \<longleftrightarrow> preserves I m"
proof -
  have "(case m q of (Inl e, q') \<Rightarrow> I q' | (Inr x, q') \<Rightarrow> I q') \<longleftrightarrow> I (snd (m q))" for q
    by (simp split: prod.split sum.split)
  then show ?thesis by (simp add: triple_def preserves_def)
qed

lemma triple_errors: "triple P m Q E \<Longrightarrow> (\<And>q. E q \<Longrightarrow> E' q) \<Longrightarrow> triple P m Q E'"
  by (fastforce simp: triple_def split: prod.splits sum.splits)


lemma wf_put_free_task:
  assumes "queue_wf q" and "task_wf tid t"
    and "\<And>rid r. get_request rid q = Some r \<Longrightarrow> rq_state r = SUCCEEDED \<Longrightarrow> tid \<notin> set (rq_task_ids r)"
  shows "queue_wf (q\<lparr>q_tasks := AList.update tid t (q_tasks q)\<rparr>)"
proof -
  let ?q = "q\<lparr>q_tasks := AList.update tid t (q_tasks q)\<rparr>"
  have "request_wf rid ?q r" if r: "get_request rid q = Some r" for rid r
  proof -
    have "request_wf rid q r" using assms(1) r by (simp add: queue_wf_def)
    then show ?thesis using assms(3) [OF r] by (auto simp: request_wf_def tasks_succeeded_def)
  qed
  then show ?thesis using assms(1,2) by (simp add: queue_wf_def distinct_update)
qed

lemma creating_put_task:
  assumes "hex_digest sha" and m: "m \<in> set (ca_tasks a)" and t: "t = new_task sha cfg now a (identity_hash sha a) m"
  shows "preserves (creating sha a) (put_task cfg (tk_task_id t) t)"
  unfolding put_task_def stamp_task_def [symmetric]
proof (rule preserves_commit)
  fix q
  assume pre: "creating sha a q"
  let ?q = "q\<lparr>q_tasks := AList.update (tk_task_id t) (stamp_task cfg t) (q_tasks q)\<rparr>"
  have "tk_task_id t \<notin> set (rq_task_ids r)" if r: "get_request rid q = Some r" "rq_state r = SUCCEEDED" for rid r
  proof -
    have "rid \<noteq> identity_hash sha a" using pre r by (auto simp: creating_def)
    moreover have "own_ids sha a q" using own_ids_of_wf [OF assms(1)] pre by (simp add: creating_def queue_ok_def)
    ultimately have "set (rq_task_ids r) \<inter> set (task_ids sha a) = {}" using r(1) unfolding own_ids_def by blast
    moreover have "tk_task_id t \<in> set (task_ids sha a)" using m t by (simp add: new_task_core)
    ultimately show ?thesis by blast
  qed
  moreover have "task_wf (tk_task_id t) (stamp_task cfg t)" using t by (simp add: new_task_core)
  ultimately have "queue_wf ?q" using pre wf_put_free_task unfolding creating_def queue_ok_def by blast
  then show "creating sha a ?q" using pre by (simp add: creating_def queue_ok_def ids_wf_def)
qed (simp add: creating_def queue_ok_def)

lemma creating_put_request:
  assumes "rq_request_id r = identity_hash sha a" "rq_state r \<noteq> SUCCEEDED"
    "request_ids_wf sha (identity_hash sha a) (request_core r)"
  shows "triple (queue_ok sha) (put_request cfg (identity_hash sha a) r) (\<lambda>_. creating sha a) (queue_ok sha)"
  unfolding put_request_def
proof (rule triple_commit)
  fix q
  assume ok: "queue_ok sha q"
  let ?q = "q\<lparr>q_requests := AList.update (identity_hash sha a) (r\<lparr>rq_manager := stamped cfg (rq_manager r)\<rparr>) (q_requests q)\<rparr>"
  have "queue_wf ?q" by (rule wf_same_tasks [of q]) (use ok assms in \<open>auto simp: queue_ok_def split: if_splits\<close>)
  then show "queue_ok sha ?q" using ok assms(3) by (simp add: queue_ok_def ids_wf_def)
  then show "creating sha a ?q" using assms(2) by (simp add: creating_def)
qed (simp_all add: queue_ok_def)

lemma new_request_ids: "request_ids_wf sha (identity_hash sha a) (task_ids sha a, ready, identity_hash sha a)"
  by (auto simp: request_ids_wf_def task_id_of_def identity_hash_def)

lemma queue_ok_create:
  assumes "hex_digest sha"
  shows "preserves (queue_ok sha) (create_request sha cfg now a)"
proof -
  let ?rid = "identity_hash sha a"
  let ?r = "new_request sha now a ?rid"
  have weak: "creating sha a q \<Longrightarrow> queue_ok sha q" for q by (simp add: creating_def)
  have first: "triple (queue_ok sha) (put_request cfg ?rid r) (\<lambda>_. creating sha a) (queue_ok sha)"
    if "r = ?r \<or> r = ?r\<lparr>rq_ready := True\<rparr>" for r
    using that new_request_core [of sha now a ?rid] new_request_ids
    by (intro creating_put_request) (auto simp: request_core_ready)
  have pres: "triple (creating sha a) m (\<lambda>_. creating sha a) (queue_ok sha)" if "preserves (creating sha a) m" for m
    by (rule triple_errors [OF triple_preserves [THEN iffD2, OF that] weak])
  have tasks: "preserves (creating sha a) (qfor (\<lambda>t. put_task cfg (tk_task_id t) t) (new_tasks sha cfg now a))"
    by (rule preserves_loops(1)) (auto intro!: creating_put_task [OF assms])
  have idem: "preserves (creating sha a) (put_idempotency ?rid ?rid)"
    unfolding put_idempotency_def by (rule preserves_commit) (simp_all add: creating_def queue_ok_def ids_wf_def)
  have again: "triple (creating sha a) (put_request cfg ?rid (?r\<lparr>rq_ready := True\<rparr>)) (\<lambda>_. creating sha a) (queue_ok sha)"
    using first [of "?r\<lparr>rq_ready := True\<rparr>"] weak by (simp add: triple_def)
  have writes: "triple (queue_ok sha)
     (qbind (put_request cfg ?rid ?r) (\<lambda>_. qbind (qfor (\<lambda>t. put_task cfg (tk_task_id t) t) (new_tasks sha cfg now a)) (\<lambda>_.
      qbind (put_request cfg ?rid (?r\<lparr>rq_ready := True\<rparr>)) (\<lambda>_. qbind (put_idempotency ?rid ?rid) (\<lambda>_.
      qreturn (?r\<lparr>rq_ready := True\<rparr>)))))) (\<lambda>_. queue_ok sha) (queue_ok sha)"
    by (intro triple_bind [OF first] triple_bind [OF pres [OF tasks]] triple_bind [OF again] triple_bind [OF pres [OF idem]]
        triple_return) (simp_all add: weak)
  show ?thesis
    unfolding create_request_def Let_def
    by (intro preserves_if preserves_basic preserves_prod preserves_option preserves_bind [OF preserves_basic(3)]
        writes [unfolded triple_preserves])
qed


section \<open>Recovery and operator retry\<close>

lemma queue_ok_recover_request:
  "rq_request_id r = rid \<Longrightarrow> request_ids_wf sha rid (request_core r)
    \<Longrightarrow> preserves (queue_ok sha) (recover_request cfg now (rid, r))"
  unfolding recover_request_def prod.case
  by (intro preserves_if preserves_basic preserves_bind preserves_loops preserves_queue_ok preserves_wf ids_wf_kept
      wf_put_request ids_wf_put_request) simp_all

lemma qsum_listing_any:
  assumes "distinct (map tk_task_id ts)" and "\<forall>t\<in>set ts. current t q" and "I q"
    and "\<And>t q. I q \<Longrightarrow> current t q \<Longrightarrow> I (snd (f t q))"
    and "\<And>t q tid. tid \<noteq> tk_task_id t \<Longrightarrow> get_task tid (snd (f t q)) = get_task tid q"
  shows "I (snd (qsum f ts q))"
  using assms(1-3)
proof (induction ts arbitrary: q)
  case (Cons t ts)
  let ?q = "snd (f t q)"
  have ok: "I ?q" using Cons.prems assms(4) by simp
  have "\<forall>u\<in>set ts. current u ?q"
  proof
    fix u
    assume u: "u \<in> set ts"
    have "tk_task_id u \<noteq> tk_task_id t" using Cons.prems(1) imageI [OF u, of tk_task_id] by auto
    then show "current u ?q" using assms(5) Cons.prems(2) u by simp
  qed
  then have "I (snd (qsum f ts ?q))" using Cons ok by simp
  then show ?case using ok by (cases "f t q") (auto simp: qbind_def qreturn_def split: sum.split prod.split)
qed (simp add: qreturn_def)

lemma recover_task_others:
  assumes "tid \<noteq> tk_task_id t"
  shows "get_task tid (snd (recover_task cfg now known t q)) = get_task tid q"
proof -
  have put: "keeps (get_task tid) (put_task cfg (tk_task_id t) u)" for u
    unfolding put_task_def by (rule keeps_commit(1)) (use assms in simp_all)
  have del: "keeps (get_task tid) (delete_task (tk_task_id t))"
    unfolding delete_task_def
    by (intro keeps_of_preserves preserves_commit_delete) (use assms in \<open>simp_all add: get_deleted\<close>)
  have res: "keeps (get_task tid) (delete_results (tk_task_id t))"
    using keeps_records(4) [of "tk_task_id t"] by (simp add: keeps_def get_task_def)
  have "keeps (get_task tid) (recover_task cfg now known t)"
    unfolding recover_task_def by (intro keeps_intros put del res)
  then show ?thesis by (rule keepsD)
qed

lemma guarded_wf: "guarded S P m Q \<Longrightarrow> queue_wf q \<Longrightarrow> P q \<Longrightarrow> queue_wf (snd (m q))"
  by (simp add: guarded_def)

lemma guarded_recover_task:
  assumes "tk_request_id t \<in> known"
  shows "guarded UNIV (current t) (recover_task cfg now known t) (\<lambda>_ _. True)"
proof (cases "tk_state t = EXPIRED")
  case True
  let ?t = "t\<lparr>tk_state := after_expiry now t, tk_available_at_ms := now, tk_updated_at_ms := now, tk_revision := tk_revision t + 1\<rparr>"
  have step: "task_step t ?t" using True by (simp add: task_step_def after_expiry_def state_defs)
  have wf: "task_wf (tk_task_id t) t \<Longrightarrow> task_wf (tk_task_id t) ?t" using True by (auto simp: task_wf_def after_expiry_def)
  have "guarded UNIV (current t) (qbind (put_task cfg (tk_task_id t) ?t) (\<lambda>_. qreturn 0)) (\<lambda>_ _. True)"
    by (rule guarded_write_then [OF step wf UNIV_I guarded_return]) simp_all
  then show ?thesis using assms True by (simp add: recover_task_def)
next
  case False
  then show ?thesis using assms by (simp add: recover_task_def guarded_return)
qed

lemma queue_ok_recover_task:
  assumes "queue_ok sha q" and "current t q"
  shows "queue_ok sha (snd (recover_task cfg now known t q))"
proof -
  have wf: "queue_wf q" using assms(1) by (simp add: queue_ok_def)
  have "queue_wf (snd (recover_task cfg now known t q))"
  proof (cases "tk_request_id t \<in> known")
    case True
    show ?thesis using guarded_wf [OF guarded_recover_task [OF True] wf assms(2)] .
  next
    case False
    then have "preserves queue_wf (recover_task cfg now known t)" by (simp add: recover_task_def) (intro preserves_intros)
    then show ?thesis using wf by (rule preservesD)
  qed
  moreover have "records (snd (recover_task cfg now known t q)) = records q" by (rule keepsD [OF recover_task_records])
  then have "ids_wf sha (snd (recover_task cfg now known t q)) = ids_wf sha q" by (intro ids_wf_requests) simp
  ultimately show ?thesis using assms(1) by (simp only: queue_ok_def)
qed

lemma preserves_listing:
  assumes "\<And>q. I q \<Longrightarrow> queue_wf q" and "\<And>t q. I q \<Longrightarrow> current t q \<Longrightarrow> I (snd (f t q))"
    and "\<And>t q tid. tid \<noteq> tk_task_id t \<Longrightarrow> get_task tid (snd (f t q)) = get_task tid q" and "\<And>n. preserves I (g n)"
  shows "preserves I (qbind (qget list_tasks) (\<lambda>ts. qbind (qsum f ts) g))"
  unfolding preserves_def
proof (intro allI impI)
  fix q
  assume "I q"
  then have "I (snd (qsum f (list_tasks q) q))"
    using qsum_listing_any [of "list_tasks q" q I f] list_tasks_current assms(1-3) by blast
  then show "I (snd (qbind (qget list_tasks) (\<lambda>ts. qbind (qsum f ts) g) q))"
    using assms(4) by (auto simp: qbind_def qget_def preserves_def split: sum.split prod.split)
qed

lemma queue_ok_recover: "preserves (queue_ok sha) (recover cfg now)"
  unfolding preserves_def
proof (intro allI impI)
  fix q
  assume ok: "queue_ok sha q"
  then have "preserves (queue_ok sha) (recover_request cfg now y)" if "y \<in> set (all_requests q)" for y
    using all_requests_mem [OF _ that] queue_ok_request [OF ok] queue_ok_recover_request [of "snd y" "fst y"]
    by (simp add: queue_ok_def)
  note requests = this
  have "preserves (queue_ok sha) (qbind (qsum (recover_request cfg now) (all_requests q)) (\<lambda>n1.
     qbind (qget list_tasks) (\<lambda>ts.
     qbind (qsum (recover_task cfg now (fst ` set (filter (\<lambda>x. rq_ready (snd x)) (all_requests q)))) ts) (\<lambda>n2.
     qbind (expire_claims cfg now) (\<lambda>n3.
     qreturn \<lparr>rc_removed_requests = length (filter (\<lambda>x. \<not> rq_ready (snd x)) (all_requests q)),
              rc_removed_tasks = n1 + n2, rc_expired_claims = n3\<rparr>)))))"
    (is "preserves _ ?m")
  proof (intro preserves_bind [OF preserves_loops(2)] preserves_listing)
    fix n1 n2
    have "preserves (queue_ok sha) (expire_claims cfg now)"
      unfolding preserves_def using safelyD [OF safely_expire_claims] queue_ok_evolves by (metis queue_ok_def)
    then show "preserves (queue_ok sha) (qbind (expire_claims cfg now) (\<lambda>n3.
     qreturn \<lparr>rc_removed_requests = length (filter (\<lambda>x. \<not> rq_ready (snd x)) (all_requests q)),
              rc_removed_tasks = n1 + n2, rc_expired_claims = n3\<rparr>))" by (intro preserves_intros)
  qed (fact requests | erule (1) queue_ok_recover_task | erule recover_task_others | simp add: queue_ok_def)+
  then have "queue_ok sha (snd (?m q))" using ok by (simp add: preserves_def)
  then show "queue_ok sha (snd (recover cfg now q))" by (simp add: recover_def qbind_def [of "qget _"] qget_def)
qed


lemma failed_task_free:
  assumes "queue_wf q" "get_task tid q = Some t" "tk_state t = FAILED"
    and "get_request rid q = Some r" "rq_state r = SUCCEEDED"
  shows "tid \<notin> set (rq_task_ids r)"
  using assms by (auto simp: queue_wf_def request_wf_def tasks_succeeded_def)

definition not_in_succeeded :: "(string \<Rightarrow> string) \<Rightarrow> string \<Rightarrow> queue \<Rightarrow> bool" where
  "not_in_succeeded sha tid q \<longleftrightarrow>
     queue_ok sha q \<and> (\<forall>rid r. get_request rid q = Some r \<and> rq_state r = SUCCEEDED \<longrightarrow> tid \<notin> set (rq_task_ids r))"

lemma not_in_succeeded_io: "not_in_succeeded sha tid (q\<lparr>q_io := io\<rparr>) = not_in_succeeded sha tid q"
  by (simp add: not_in_succeeded_def queue_ok_def)

lemma retry_results: "preserves (not_in_succeeded sha tid) (delete_results tid')"
  unfolding delete_results_def delete_result_def
proof (intro preserves_intros preserves_commit_delete not_in_succeeded_io)
  show "not_in_succeeded sha tid (q\<lparr>q_results := x\<rparr>)" if "not_in_succeeded sha tid q" for q x
    using that by (auto simp: not_in_succeeded_def queue_ok_def ids_wf_def get_request_def)
qed

lemma retry_put_task:
  assumes "task_wf tid t"
  shows "preserves (not_in_succeeded sha tid) (put_task cfg tid t)"
  unfolding put_task_def stamp_task_def [symmetric]
proof (rule preserves_commit [OF _ not_in_succeeded_io])
  fix q
  assume ok: "not_in_succeeded sha tid q"
  then have "queue_wf (q\<lparr>q_tasks := AList.update tid (stamp_task cfg t) (q_tasks q)\<rparr>)"
    using assms by (intro wf_put_free_task) (auto simp: not_in_succeeded_def queue_ok_def)
  then show "not_in_succeeded sha tid (q\<lparr>q_tasks := AList.update tid (stamp_task cfg t) (q_tasks q)\<rparr>)"
    using ok by (auto simp: not_in_succeeded_def queue_ok_def ids_wf_def)
qed

lemma retry_put_request:
  assumes "rq_state r \<noteq> SUCCEEDED" "request_ids_wf sha (rq_request_id r) (request_core r)"
  shows "preserves (not_in_succeeded sha tid) (put_request cfg (rq_request_id r) r)"
  unfolding put_request_def
proof (rule preserves_commit [OF _ not_in_succeeded_io])
  fix q :: queue
  let ?q = "q\<lparr>q_requests := AList.update (rq_request_id r) (r\<lparr>rq_manager := stamped cfg (rq_manager r)\<rparr>) (q_requests q)\<rparr>"
  assume ok: "not_in_succeeded sha tid q"
  have "queue_wf ?q"
    by (rule wf_same_tasks [of q]) (use ok assms(1) in \<open>auto simp: not_in_succeeded_def queue_ok_def split: if_splits\<close>)
  moreover have "ids_wf sha ?q" using ok assms(2) by (simp add: not_in_succeeded_def queue_ok_def ids_wf_def)
  ultimately show "not_in_succeeded sha tid ?q"
    using ok assms(1) by (auto simp: not_in_succeeded_def queue_ok_def split: if_splits)
qed

lemma queue_ok_retry_task: "preserves (queue_ok sha) (retry_task cfg now tid)"
  unfolding preserves_def
proof (intro allI impI)
  fix q
  assume ok: "queue_ok sha q"
  show "queue_ok sha (snd (retry_task cfg now tid q))"
  proof (cases "\<exists>t r. get_task tid q = Some t \<and> tk_state t = FAILED \<and> get_request (tk_request_id t) q = Some r \<and> \<not> rq_published r")
    case False
    then have "snd (retry_task cfg now tid q) = q"
      by (auto simp: retry_task_def qbind_def qget_def qreturn_def split: option.split)
    then show ?thesis using ok by simp
  next
    case True
    then obtain t r where t: "get_task tid q = Some t" "tk_state t = FAILED"
      and r: "get_request (tk_request_id t) q = Some r" "\<not> rq_published r" by blast
    define d where "d = now + max 1000 (rq_deadline_ms r - rq_created_at_ms r)"
    define r' where "r' = r\<lparr>rq_state := QUEUED, rq_error := [], rq_deadline_ms := d, rq_updated_at_ms := now\<rparr>"
    have r': "rq_state r' \<noteq> SUCCEEDED" "request_ids_wf sha (rq_request_id r') (request_core r')"
      using queue_ok_request [OF ok r(1)] by (simp_all add: r'_def request_core_def)
    have wf: "task_wf tid (retried now d t)"
      using t ok by (auto simp: queue_ok_def queue_wf_def task_wf_def retried_def)
    have run: "retry_task cfg now tid q = qbind (delete_results tid) (\<lambda>_. qbind (put_task cfg tid (retried now d t)) (\<lambda>_.
        qbind (put_request cfg (rq_request_id r') r') (\<lambda>_. qreturn True))) q" (is "_ = ?m q")
      using t r by (simp add: retry_task_def qbind_def [of "qget _"] qget_def Let_def d_def r'_def)
    have "preserves (not_in_succeeded sha tid) ?m"
      by (intro preserves_bind retry_results retry_put_task [OF wf] retry_put_request [OF r'] preserves_basic)
    moreover have "not_in_succeeded sha tid q" using ok failed_task_free t by (auto simp: not_in_succeeded_def queue_ok_def)
    ultimately have "not_in_succeeded sha tid (snd (?m q))" by (rule preservesD)
    then show ?thesis unfolding run not_in_succeeded_def by blast
  qed
qed

section \<open>All operations\<close>

datatype any_op = Queue_Op queue_op | Create int create_args | Recover int | Retry int string | Prune int int

fun run_any :: "queue_env \<Rightarrow> any_op \<Rightarrow> queue \<Rightarrow> queue" where
  "run_any e (Queue_Op oper) q = run_op e oper q"
| "run_any e (Create now a) q = snd (create_request (qe_sha e) (qe_config e) now a q)"
| "run_any e (Recover now) q = snd (recover (qe_config e) now q)"
| "run_any e (Retry now tid) q = snd (retry_task (qe_config e) now tid q)"
| "run_any e (Prune now retention) q = snd (prune_terminal (qe_sha e) now retention q)"

lemma run_any_ok: "hex_digest (qe_sha e) \<Longrightarrow> queue_ok (qe_sha e) q \<Longrightarrow> queue_ok (qe_sha e) (run_any e oper q)"
proof (cases oper)
  case (Queue_Op o')
  then show "queue_ok (qe_sha e) q \<Longrightarrow> ?thesis" using run_op_safe [of q e o'] queue_ok_evolves by (simp add: queue_ok_def)
qed (simp_all add: preservesD queue_ok_create queue_ok_recover queue_ok_retry_task queue_ok_prune_terminal)

lemma requests_disjoint:
  assumes "hex_digest sha" "queue_ok sha q" "get_request rid q = Some r" "get_request rid' q = Some r'" "rid \<noteq> rid'"
  shows "set (rq_task_ids r) \<inter> set (rq_task_ids r') = {}"
proof (rule ccontr)
  assume "set (rq_task_ids r) \<inter> set (rq_task_ids r') \<noteq> {}"
  moreover have ids: "request_ids_wf sha rid (request_core r)" "request_ids_wf sha rid' (request_core r')"
    using queue_ok_request assms by blast+
  ultimately obtain s t where "sha (rid @ ''|'' @ s) = sha (rid' @ ''|'' @ t)"
    by (fastforce simp: request_ids_wf_def request_core_def)
  then have "rid @ ''|'' @ s = rid' @ ''|'' @ t" using assms(1) by (auto simp: hex_digest_def dest: injD)
  then have "takeWhile (\<lambda>c. c \<noteq> CHR ''|'') (rid @ ''|'' @ s) = takeWhile (\<lambda>c. c \<noteq> CHR ''|'') (rid' @ ''|'' @ t)"
    by (simp only:)
  moreover have "CHR ''|'' \<notin> set rid" "CHR ''|'' \<notin> set rid'"
    using ids assms(1) by (auto simp: request_ids_wf_def request_core_def hex_digest_def)
  ultimately have "rid = rid'" by (simp only: take_to_bar not_False_eq_True)
  then show False using assms(5) by simp
qed


text \<open>
  C9: The type invariant of the queue. With a collision-free hexadecimal digest, every sequence of queue operations, with creation,
  recovery, operator retry and pruning among them and any writes refused or failing, keeps the queue well formed: every record is
  stored under its own identifier, a claim is held exactly by claimed tasks, a succeeded task has a result with an output of its
  current attempt, a succeeded request has only succeeded tasks, and no task belongs to two requests.
\<close>

theorem queue_invariant:
  assumes "hex_digest (qe_sha e)" and "queue_ok (qe_sha e) q"
  shows "queue_ok (qe_sha e) (fold (run_any e) ops q)
    \<and> (\<forall>rid rid' r r'. get_request rid (fold (run_any e) ops q) = Some r \<longrightarrow> get_request rid' (fold (run_any e) ops q) = Some r'
         \<longrightarrow> rid \<noteq> rid' \<longrightarrow> set (rq_task_ids r) \<inter> set (rq_task_ids r') = {})"
proof -
  have "queue_ok (qe_sha e) (fold (run_any e) ops q)"
    using assms(2) by (induction ops arbitrary: q) (simp_all add: run_any_ok [OF assms(1)])
  then show ?thesis using requests_disjoint [OF assms(1)] by blast
qed

fun escape :: "string \<Rightarrow> string" where
  "escape [] = []"
| "escape (c # cs) = (if c = CHR ''|'' then ''ab'' else if c = CHR ''a'' then ''aa'' else [c]) @ escape cs"

fun unescape :: "string \<Rightarrow> string" where
  "unescape [] = []"
| "unescape [c] = [c]"
| "unescape (c # d # cs) =
     (if c = CHR ''a'' then (if d = CHR ''b'' then CHR ''|'' else CHR ''a'') # unescape cs else c # unescape (d # cs))"

lemma unescape_other: "c \<noteq> CHR ''a'' \<Longrightarrow> unescape (c # cs) = c # unescape cs"
  by (cases cs) simp_all

lemma escape_digest: "hex_digest escape"
proof -
  have "unescape (escape s) = s" for s by (induction s) (simp_all add: unescape_other)
  then have "inj escape" by (metis injI)
  moreover have "CHR ''|'' \<notin> set (escape s)" for s by (induction s) auto
  ultimately show ?thesis by (simp add: hex_digest_def)
qed

theorem queue_invariant_witness:
  "hex_digest escape \<and> queue_ok escape (empty_queue\<lparr>q_io := [Io_Ok, Io_Ok, Io_Unverified]\<rparr>)
   \<and> queue_ok escape (fold (run_any (demo_env\<lparr>qe_sha := escape\<rparr>)) [Create 10 demo_create, Recover 20, Prune 30 0]
       (empty_queue\<lparr>q_io := [Io_Ok, Io_Ok, Io_Unverified]\<rparr>))"
proof -
  have "queue_ok escape (empty_queue\<lparr>q_io := [Io_Ok, Io_Ok, Io_Unverified]\<rparr>)"
    using demo_create_facts(1) by (simp add: queue_ok_def) (simp add: ids_wf_def empty_queue_def get_request_def)
  then show ?thesis
    using queue_invariant [of "demo_env\<lparr>qe_sha := escape\<rparr>" "empty_queue\<lparr>q_io := [Io_Ok, Io_Ok, Io_Unverified]\<rparr>"
        "[Create 10 demo_create, Recover 20, Prune 30 0]"] escape_digest by simp
qed

end
