(* ===== verification/Task_Scheduler.thy ===== *)
theory Task_Scheduler
  imports Registry Queue_Invariant
begin

text \<open>
  The dispatcher of the active Manager (\<open>enterprise/control/task_scheduler.py\<close>): one pass \<open>dispatch_once\<close> over the durable work
  queue that assigns runnable tasks to Agents of the registry under the placement policies.

  A pass works on the queue and on the registry with its durable store; it stops with the first exception other than
  the ones it catches, keeping what was written so far. The clocks, the random claim tokens (one for each task) and the
  fixed arguments of the calls are in the environment \<open>env\<close>; ratios are rational numbers. Metrics, log and audit records and the
  periodic loop are left out.
\<close>

section \<open>State\<close>

record scheduler =
  sc_manager_owner :: string
  sc_manager_fence :: int
  sc_max_inflight_per_agent :: int
  sc_membership_policy :: string

definition new_scheduler :: "string \<Rightarrow> int \<Rightarrow> int \<Rightarrow> string \<Rightarrow> scheduler option" where
  "new_scheduler owner fence max_inflight membership_policy =
     (let policy = py_casefold (py_strip_space membership_policy) in
      if policy \<notin> {''fixed'', ''elastic''} then None
      else Some \<lparr>sc_manager_owner = owner, sc_manager_fence = fence, sc_max_inflight_per_agent = max 1 max_inflight,
                 sc_membership_policy = policy\<rparr>)"

record 'x sched =
  sd_queue :: queue
  sd_control :: "'x control"

record 'x env =
  en_scheduler :: scheduler
  en_sha :: "string \<Rightarrow> string"
  en_redact :: "string \<Rightarrow> string"
  en_config :: queue_config
  en_now :: int
  en_call :: "'x call"
  en_text :: py_text
  en_token :: "string \<Rightarrow> string"

datatype sched_error = Queue_Failed queue_error | Registry_Failed registry_error

type_synonym ('a, 'x) sm = "'x sched \<Rightarrow> (sched_error + 'a) \<times> 'x sched"

definition smreturn :: "'a \<Rightarrow> ('a, 'x) sm" where
  "smreturn x s = (Inr x, s)"

definition smbind :: "('a, 'x) sm \<Rightarrow> ('a \<Rightarrow> ('b, 'x) sm) \<Rightarrow> ('b, 'x) sm" where
  "smbind m f s = (case m s of (Inl e, s') \<Rightarrow> (Inl e, s') | (Inr x, s') \<Rightarrow> f x s')"

definition smget :: "('x sched \<Rightarrow> 'a) \<Rightarrow> ('a, 'x) sm" where
  "smget f s = (Inr (f s), s)"

definition on_queue :: "'a qm \<Rightarrow> ('a, 'x) sm" where
  "on_queue m s =
     (case m (sd_queue s) of
        (Inl e, q) \<Rightarrow> (Inl (Queue_Failed e), s\<lparr>sd_queue := q\<rparr>)
      | (Inr x, q) \<Rightarrow> (Inr x, s\<lparr>sd_queue := q\<rparr>))"

definition on_registry :: "('x control \<Rightarrow> (registry_error + 'a) \<times> 'x control) \<Rightarrow> ('a, 'x) sm" where
  "on_registry m s =
     (case m (sd_control s) of
        (Inl e, c) \<Rightarrow> (Inl (Registry_Failed e), s\<lparr>sd_control := c\<rparr>)
      | (Inr x, c) \<Rightarrow> (Inr x, s\<lparr>sd_control := c\<rparr>))"

text \<open>\<open>try ... except WorkQueueConflict\<close>.\<close>

definition or_conflict :: "'a qm \<Rightarrow> 'a option qm" where
  "or_conflict m q =
     (case m q of
        (Inl (Work_Queue_Conflict _), q') \<Rightarrow> (Inr None, q')
      | (Inl e, q') \<Rightarrow> (Inl e, q')
      | (Inr x, q') \<Rightarrow> (Inr (Some x), q'))"

fun smfold :: "('a \<Rightarrow> 's \<Rightarrow> ('s, 'x) sm) \<Rightarrow> 'a list \<Rightarrow> 's \<Rightarrow> ('s, 'x) sm" where
  "smfold f [] a = smreturn a"
| "smfold f (x # xs) a = smbind (f x a) (smfold f xs)"

section \<open>Eligible agents\<close>

record load =
  lo_agents :: "string \<Rightarrow> int"
  lo_datasets :: "string \<times> string \<Rightarrow> int"
  lo_sources :: "string \<Rightarrow> int"
  lo_pools :: "string \<Rightarrow> int"

definition no_load :: load where
  "no_load = \<lparr>lo_agents = (\<lambda>_. 0), lo_datasets = (\<lambda>_. 0), lo_sources = (\<lambda>_. 0), lo_pools = (\<lambda>_. 0)\<rparr>"

definition agents_of :: "registry \<Rightarrow> agent_record list" where
  "agents_of rg = map snd (re_agents rg)"

definition capacity_of :: "agent_record \<Rightarrow> int" where
  "capacity_of r = max 1 (if ar_capacity_hint r = 0 then 1 else ar_capacity_hint r)"

definition works :: "registry \<Rightarrow> rat \<Rightarrow> agent_record \<Rightarrow> bool" where
  "works rg now r \<longleftrightarrow> is_alive rg now (ar_agent_id r) \<and> ''materializer'' \<in> set (ar_capabilities r) \<and> \<not> ar_draining r"

definition inflight_limit :: "scheduler \<Rightarrow> int option \<Rightarrow> agent_record \<Rightarrow> int" where
  "inflight_limit sc shard r =
     (case shard of None \<Rightarrow> sc_max_inflight_per_agent sc * capacity_of r | Some _ \<Rightarrow> 1)"

definition eligible ::
  "scheduler \<Rightarrow> registry \<Rightarrow> rat \<Rightarrow> load \<Rightarrow> int option \<Rightarrow> string list option \<Rightarrow> agent_record \<Rightarrow> bool" where
  "eligible sc rg now lo shard members r \<longleftrightarrow>
     works rg now r
     \<and> (case members of None \<Rightarrow> True | Some ms \<Rightarrow> ar_agent_id r \<in> set ms)
     \<and> (case shard of None \<Rightarrow> True | Some i \<Rightarrow> ar_shard_index r = i)
     \<and> lo_agents lo (ar_agent_id r) < inflight_limit sc shard r"

definition score :: "load \<Rightarrow> agent_record \<Rightarrow> rat" where
  "score lo r = of_int (ah_inflight (ar_health r) + lo_agents lo (ar_agent_id r)) / of_int (capacity_of r)"

definition eligible_agents ::
  "scheduler \<Rightarrow> registry \<Rightarrow> rat \<Rightarrow> load \<Rightarrow> int option \<Rightarrow> string list option \<Rightarrow> (rat \<times> string) list" where
  "eligible_agents sc rg now lo shard members =
     map (\<lambda>r. (score lo r, ar_agent_id r)) (filter (eligible sc rg now lo shard members) (agents_of rg))"

definition tie_break :: "(string \<Rightarrow> string) \<Rightarrow> string \<Rightarrow> string \<Rightarrow> string" where
  "tie_break sha task_id agent_id = sha (task_id @ ''|'' @ agent_id)"

definition contract_version :: "agent_record \<Rightarrow> int \<times> int" where
  "contract_version r = (case version_tuple (ar_contract_version r) of None \<Rightarrow> (0, 0) | Some v \<Rightarrow> v)"

definition dataset_scope :: "placement \<Rightarrow> string \<Rightarrow> string \<Rightarrow> string \<times> string" where
  "dataset_scope pc connection_id source_table =
     (if (connection_id, source_table) \<in> set (keys_of (pc_tables pc)) then (connection_id, source_table)
      else (connection_id, []))"

definition policy_targets :: "policy \<Rightarrow> string list" where
  "policy_targets po = (if po_required_pool po \<noteq> [] then [po_required_pool po] else []) @ po_fallback_pools po"

definition policy_location :: "placement \<Rightarrow> policy \<Rightarrow> string" where
  "policy_location pc po =
     (if po_required_location po \<noteq> [] then po_required_location po
      else case filter (\<lambda>l. l \<noteq> []) (map pl_location (List.map_filter (map_of (pc_pools pc)) (policy_targets po))) of
             [] \<Rightarrow> ''unassigned''
           | l # _ \<Rightarrow> l)"

definition pinning :: "policy \<Rightarrow> bool" where
  "pinning po \<longleftrightarrow>
     po_required_pool po \<noteq> [] \<or> po_required_location po \<noteq> [] \<or> po_required_storage_profile po \<noteq> []
     \<or> po_fallback_pools po \<noteq> []"

definition limit_reached :: "int option \<Rightarrow> int \<Rightarrow> bool" where
  "limit_reached limit n = (case limit of None \<Rightarrow> False | Some m \<Rightarrow> n \<ge> m)"

definition matching :: "registry \<Rightarrow> materialize_task \<Rightarrow> policy \<Rightarrow> load \<Rightarrow> string \<Rightarrow> string \<Rightarrow> bool" where
  "matching rg p po lo target agent_id =
     (case map_of (re_agents rg) agent_id of
        None \<Rightarrow> False
      | Some r \<Rightarrow>
          (pinning po \<longrightarrow> tuple_le (1, 1) (contract_version r))
          \<and> (case map_of (pc_pools (re_placement rg)) (ar_pool_id r) of
               None \<Rightarrow> False
             | Some pl \<Rightarrow>
                 (target = [] \<or> ar_pool_id r = target)
                 \<and> allows pl (mt_connection_id p) (mt_source_table p)
                 \<and> (po_required_location po = [] \<or> pl_location pl = po_required_location po)
                 \<and> (po_required_storage_profile po = [] \<or> pl_storage_profile pl = po_required_storage_profile po)
                 \<and> \<not> limit_reached (pl_max_concurrency pl) (lo_pools lo (ar_pool_id r))))"

fun first_nonempty :: "'a list list \<Rightarrow> 'a list" where
  "first_nonempty [] = []"
| "first_nonempty (xs # xss) = (if xs \<noteq> [] then xs else first_nonempty xss)"

definition tenant_of_agent :: "registry \<Rightarrow> string \<Rightarrow> string" where
  "tenant_of_agent rg agent_id = (case map_of (re_agents rg) agent_id of None \<Rightarrow> [] | Some r \<Rightarrow> ar_tenant_id r)"

definition placement_eligible ::
  "registry \<Rightarrow> (rat \<times> string) list \<Rightarrow> materialize_task \<Rightarrow> policy \<Rightarrow> load \<Rightarrow> (rat \<times> string) list" where
  "placement_eligible rg candidates p po lo =
     (let pc = re_placement rg;
          kept = (if pc_tenants pc = [] then candidates
                  else filter (\<lambda>(_, a). tenant_of_agent rg a = mt_tenant_id p) candidates) in
      case validate_task_tenant pc (mt_tenant_id p) po of
        Inl _ \<Rightarrow> []
      | Inr _ \<Rightarrow>
          if kept = [] \<and> pc_tenants pc \<noteq> [] then []
          else
            (case validate_dispatch pc po (mt_connection_id p) of
               Inl _ \<Rightarrow> []
             | Inr _ \<Rightarrow>
                 if \<not> placement_enabled pc then kept
                 else if limit_reached (po_source_max_concurrency po) (lo_sources lo (mt_connection_id p)) then []
                 else if limit_reached (po_max_concurrency po)
                           (lo_datasets lo (dataset_scope pc (mt_connection_id p) (mt_source_table p))) then []
                 else if policy_targets po \<noteq> []
                 then first_nonempty (map (\<lambda>t. filter (\<lambda>(_, a). matching rg p po lo t a) kept) (policy_targets po))
                 else filter (\<lambda>(_, a). matching rg p po lo [] a) kept))"

definition better :: "(string \<Rightarrow> string) \<Rightarrow> string \<Rightarrow> rat \<times> string \<Rightarrow> rat \<times> string \<Rightarrow> bool" where
  "better sha tid x y \<longleftrightarrow>
     fst x < fst y \<or> fst x = fst y \<and> tie_break sha tid (snd x) < tie_break sha tid (snd y)"

definition best_agent :: "(string \<Rightarrow> string) \<Rightarrow> string \<Rightarrow> (rat \<times> string) list \<Rightarrow> string" where
  "best_agent sha tid agents =
     snd (foldl (\<lambda>b x. if better sha tid x b then x else b) (hd agents) (tl agents))"

section \<open>Memberships and current claims\<close>

definition workers_of :: "registry \<Rightarrow> rat \<Rightarrow> observed_worker list" where
  "workers_of rg now =
     map (\<lambda>r. \<lparr>ow_agent_id = ar_agent_id r, ow_lease_id = ar_lease_id r, ow_capacity = capacity_of r\<rparr>)
       (filter (works rg now) (agents_of rg))"

definition policy_of :: "registry \<Rightarrow> materialize_task \<Rightarrow> policy" where
  "policy_of rg p = policy_for (re_placement rg) (mt_connection_id p) (mt_source_table p)"

definition generation_payloads :: "task list \<Rightarrow> string \<Rightarrow> materialize_task list" where
  "generation_payloads ts gid =
     map tk_task (filter (\<lambda>u. \<not> terminal (tk_state u) \<and> mt_generation_id (tk_task u) = gid) ts)"

definition eligible_workers :: "registry \<Rightarrow> materialize_task list \<Rightarrow> observed_worker list \<Rightarrow> observed_worker list" where
  "eligible_workers rg ps ws =
     filter (\<lambda>w. \<exists>p\<in>set ps. placement_eligible rg [(0, ow_agent_id w)] p (policy_of rg p) no_load \<noteq> []) ws"

definition reconcile_generation ::
  "'x env \<Rightarrow> task list \<Rightarrow> observed_worker list \<Rightarrow> task \<Rightarrow> (string, membership) dict \<Rightarrow> ((string, membership) dict, 'x) sm" where
  "reconcile_generation en ts ws t ms =
     (let gid = mt_generation_id (tk_task t) in
      if terminal (tk_state t) \<or> gid = [] \<or> gid \<in> set (keys_of ms) then smreturn ms
      else
        smbind (smget (\<lambda>s. ct_registry (sd_control s))) (\<lambda>rg.
        smbind (on_queue (reconcile_membership (en_sha en) (en_config en) (en_now en) gid
                  (mt_generation_fence (tk_task t)) (eligible_workers rg (generation_payloads ts gid) ws)
                  (sc_membership_policy (en_scheduler en)))) (\<lambda>m.
        smbind (on_queue (reassign_fenced_claims (en_sha en) (en_config en) (en_now en) gid m)) (\<lambda>_.
        smbind (smget (\<lambda>s. get_membership (en_sha en) gid (sd_queue s))) (\<lambda>stored.
        smreturn (AList.update gid (case stored of None \<Rightarrow> m | Some m' \<Rightarrow> m') ms))))))"

definition pool_id_of :: "registry \<Rightarrow> string \<Rightarrow> string" where
  "pool_id_of rg agent_id = (case map_of (re_agents rg) agent_id of None \<Rightarrow> [] | Some r \<Rightarrow> ar_pool_id r)"

definition add_claim :: "registry \<Rightarrow> string \<Rightarrow> materialize_task \<Rightarrow> load \<Rightarrow> load" where
  "add_claim rg agent_id p lo =
     (let scope = dataset_scope (re_placement rg) (mt_connection_id p) (mt_source_table p); pool_id = pool_id_of rg agent_id in
      \<lparr>lo_agents = (lo_agents lo)(agent_id := lo_agents lo agent_id + 1),
       lo_datasets = (lo_datasets lo)(scope := lo_datasets lo scope + 1),
       lo_sources = (lo_sources lo)(mt_connection_id p := lo_sources lo (mt_connection_id p) + 1),
       lo_pools = (if pool_id = [] then lo_pools lo else (lo_pools lo)(pool_id := lo_pools lo pool_id + 1))\<rparr>)"

definition count_claim :: "registry \<Rightarrow> task \<Rightarrow> load \<Rightarrow> load" where
  "count_claim rg t lo =
     (case tk_claim t of
        None \<Rightarrow> lo
      | Some c \<Rightarrow> if tk_state t = CLAIMED \<and> cl_agent_id c \<noteq> [] then add_claim rg (cl_agent_id c) (tk_task t) lo else lo)"

definition current_load :: "registry \<Rightarrow> task list \<Rightarrow> load" where
  "current_load rg ts = fold (count_claim rg) ts no_load"

section \<open>Dispatch\<close>

definition foreign_generation :: "unit generation_context option \<Rightarrow> materialize_task \<Rightarrow> bool" where
  "foreign_generation g p =
     (case g of
        None \<Rightarrow> False
      | Some g \<Rightarrow>
          mt_generation_id p \<noteq> gc_generation_id g \<or> mt_generation_fence p \<noteq> gc_fence g \<or> mt_plan_sha256 p \<noteq> gc_plan_sha256 g)"

definition violation_code :: "placement_error \<Rightarrow> string" where
  "violation_code e =
     (case e of
        Tenant_Violation _ \<Rightarrow> ''tenant_isolation_violation''
      | Residency_Violation _ \<Rightarrow> ''residency_policy_violation''
      | _ \<Rightarrow> ''placement_policy_violation'')"

definition active_members :: "membership \<Rightarrow> string list" where
  "active_members m = map fst (filter (\<lambda>(_, w). wk_state w = Active) (mb_workers m))"

definition required_shard :: "unit generation_context option \<Rightarrow> materialize_task \<Rightarrow> int option" where
  "required_shard g p =
     (case g of
        None \<Rightarrow> None
      | Some g \<Rightarrow>
          (case filter (\<lambda>t. tp_table_id t = mt_connection_id p @ ''::'' @ mt_source_table p) (gc_table_plans g) of
             [] \<Rightarrow> None
           | t # _ \<Rightarrow> if tp_provider t = ''mssql_transaction'' then Some (tp_owner_shard t) else None))"

definition claim_for :: "'x env \<Rightarrow> membership option \<Rightarrow> registry \<Rightarrow> agent_record \<Rightarrow> claim_args" where
  "claim_for en m rg r =
     \<lparr>ka_agent_id = ar_agent_id r, ka_agent_lease_id = ar_lease_id r,
      ka_manager_owner = sc_manager_owner (en_scheduler en), ka_manager_fence = sc_manager_fence (en_scheduler en),
      ka_membership_version = (case m of None \<Rightarrow> 0 | Some m \<Rightarrow> mb_version m),
      ka_worker_fence = (case m of
                           None \<Rightarrow> 0
                         | Some m \<Rightarrow> (case map_of (mb_workers m) (ar_agent_id r) of None \<Rightarrow> 0 | Some w \<Rightarrow> wk_worker_fence w)),
      ka_lease_seconds = (case pool_for_identity (re_placement rg) (ar_agent_id r) of
                            None \<Rightarrow> None | Some pl \<Rightarrow> pl_claim_lease_seconds pl)\<rparr>"

definition materialize_command :: "materialize_task \<Rightarrow> control_command" where
  "materialize_command p =
     \<lparr>cc_kind = ''materialize'', cc_drain = None, cc_reload = None, cc_materialize = Some p, cc_publish = None\<rparr>"

type_synonym assigned = "task \<times> string"

definition deliver ::
  "'x env \<Rightarrow> task \<Rightarrow> agent_record \<Rightarrow> materialize_task \<Rightarrow> load \<times> assigned list \<Rightarrow> (load \<times> assigned list, 'x) sm" where
  "deliver en t r p = (\<lambda>(lo, done_list).
     smbind (on_registry (queue_command (en_text en) (en_call en) (ar_agent_id r) (materialize_command p))) (\<lambda>queued.
     if \<not> queued then
       smbind (on_queue (release_claim (en_redact en) (en_config en) (en_now en) (mt_task_id p) (mt_claim_token p)
                 ''agent_unregistered_before_delivery'')) (\<lambda>_. smreturn (lo, done_list))
     else
       smbind (smget (\<lambda>s. ct_registry (sd_control s))) (\<lambda>rg.
       smreturn (add_claim rg (ar_agent_id r) (tk_task t) lo, done_list @ [(t, ar_agent_id r)]))))"

definition assign ::
  "'x env \<Rightarrow> membership option \<Rightarrow> registry \<Rightarrow> task \<Rightarrow> agent_record \<Rightarrow> load \<times> assigned list \<Rightarrow> (load \<times> assigned list, 'x) sm" where
  "assign en m rg t r acc =
     smbind (on_queue (or_conflict (claim_task (en_sha en) (en_config en) (en_now en) (en_token en (tk_task_id t)) (tk_task_id t)
               (claim_for en m rg r)))) (\<lambda>claim.
     case claim of None \<Rightarrow> smreturn acc | Some p \<Rightarrow> deliver en t r p acc)"

definition dispatch_task ::
  "'x env \<Rightarrow> (string, membership) dict \<Rightarrow> task \<Rightarrow> load \<times> assigned list \<Rightarrow> (load \<times> assigned list, 'x) sm" where
  "dispatch_task en ms t acc =
     smbind (smget (\<lambda>s. (q_generation (sd_queue s), ct_registry (sd_control s)))) (\<lambda>(g, rg).
     let p = tk_task t; po = policy_of rg p; m = map_of ms (mt_generation_id p);
         skip = (\<lambda>reason. smbind (on_queue (set_dispatch_status (en_config en) (en_now en) (tk_task_id t) reason)) (\<lambda>_. smreturn acc)) in
     if foreign_generation g p then
       smbind (on_queue (cancel_request (en_redact en) (en_config en) (en_now en) (mt_request_id p) ''generation_fenced''))
         (\<lambda>_. smreturn acc)
     else
       (case sbind (validate_task_tenant (re_placement rg) (mt_tenant_id p) po)
               (\<lambda>_. validate_dispatch (re_placement rg) po (mt_connection_id p)) of
          Inl e \<Rightarrow> skip (violation_code e)
        | Inr _ \<Rightarrow>
            let agents = placement_eligible rg
                  (eligible_agents (en_scheduler en) rg (ca_now (en_call en)) (fst acc) (required_shard g p)
                     (map_option active_members m)) p po (fst acc) in
            if agents = [] then skip ''no_eligible_materializer''
            else
              (case map_of (re_agents rg) (best_agent (en_sha en) (tk_task_id t) agents) of
                 None \<Rightarrow> smreturn acc
               | Some r \<Rightarrow> assign en m rg t r acc)))"

text \<open>The tasks assigned by one pass, with their agents; \<open>dispatch_once\<close> returns their number.\<close>

definition dispatch_pass :: "'x env \<Rightarrow> (load \<times> assigned list, 'x) sm" where
  "dispatch_pass en =
     smbind (on_queue (expire_claims (en_config en) (en_now en))) (\<lambda>_.
     smbind (smget (\<lambda>s. (list_tasks (sd_queue s), workers_of (ct_registry (sd_control s)) (ca_now (en_call en))))) (\<lambda>(ts, ws).
     smbind (smfold (reconcile_generation en ts ws) ts []) (\<lambda>ms.
     smbind (smget (\<lambda>s. (list_tasks (sd_queue s), ct_registry (sd_control s)))) (\<lambda>(ts, rg).
     smbind (on_queue (runnable_tasks (en_config en) (en_now en) (Some ts) False)) (\<lambda>runnable.
     smfold (dispatch_task en ms) runnable (current_load rg ts, []))))))"

definition dispatch_once :: "'x env \<Rightarrow> (nat, 'x) sm" where
  "dispatch_once en = smbind (dispatch_pass en) (\<lambda>(_, assigned). smreturn (length assigned))"

end
