(* ===== verification/Dispatch_Safety.thy ===== *)
theory Dispatch_Safety
  imports Task_Scheduler
begin

text \<open>
  What one dispatch pass does to the claims of the queue: which claims a pass may add, and how many. A pass runs on the queue and the
  registry and may stop at any write; the statements hold at every such point.
\<close>

section \<open>Operations that add no claim\<close>

definition claims_within :: "(string \<Rightarrow> claim option \<Rightarrow> materialize_task \<Rightarrow> bool) \<Rightarrow> string \<Rightarrow> task \<Rightarrow> bool" where
  "claims_within K tid t \<longleftrightarrow> (tk_state t = CLAIMED \<longrightarrow> K tid (tk_claim t) (tk_task t))"

definition unclaiming :: "'a qm \<Rightarrow> bool" where
  "unclaiming m \<longleftrightarrow> (\<forall>K. preserves (each_task (claims_within K)) m)"

lemma unclaimed_write: "tk_state t \<noteq> CLAIMED \<Longrightarrow> preserves (each_task (claims_within K)) (put_task cfg tid t)"
  by (rule preserves_put_task) (simp add: claims_within_def stamp_task_def)

lemma unclaimed_refresh: "preserves (each_task (claims_within K)) (refresh_requests cfg now)"
  by (rule preserves_refresh) (simp add: claims_within_def)

lemma unclaimed_membership: "preserves (each_task (claims_within K)) (put_membership cfg gkey m)"
proof -
  have "keeps q_tasks (put_membership cfg gkey m)" unfolding put_membership_def by (rule keeps_commit) simp_all
  from preserves_keeps [OF this, of "\<lambda>d. \<forall>tid t. map_of d tid = Some t \<longrightarrow> claims_within K tid t"]
  show ?thesis by (simp add: get_task_def)
qed

lemmas unclaimed_intros = preserves_intros unclaimed_write unclaimed_refresh unclaimed_membership preserves_put_request

lemma unclaiming_expire: "unclaiming (expire_claims cfg now)"
  unfolding unclaiming_def expire_claims_def expire_task_def
  by (intro allI unclaimed_intros) (simp_all add: expired_task_def after_expiry_def)

lemma unclaiming_reconcile: "unclaiming (reconcile_membership sha cfg now gid fence ws pol)"
  unfolding unclaiming_def reconcile_membership_def Let_def by (intro allI unclaimed_intros)

lemma unclaiming_reassign: "unclaiming (reassign_fenced_claims sha cfg now gid m)"
  unfolding unclaiming_def reassign_fenced_claims_def reassign_claim_def
  by (intro allI unclaimed_intros) (simp_all add: back_to_retry_def)

lemma unclaiming_runnable: "unclaiming (runnable_tasks cfg now ts False)"
  unfolding unclaiming_def runnable_tasks_def if_False by (intro allI unclaimed_intros)

lemma unclaiming_cancel: "unclaiming (cancel_request redact cfg now rid reason)"
  unfolding unclaiming_def cancel_request_def cancel_task_def
  by (intro allI unclaimed_intros) (simp_all add: cancelled_def)

lemma unclaiming_status: "unclaiming (set_dispatch_status cfg now tid reason)"
  unfolding unclaiming_def set_dispatch_status_def by (intro allI unclaimed_intros) auto

lemma unclaiming_return: "unclaiming (qreturn x)" "safely (qreturn x)"
  by (auto simp: unclaiming_def intro: preserves_intros guarded_intros)

lemma unclaimingD:
  assumes "unclaiming m" and "m q = (x, q')" and "get_task tid q' = Some t'" and "tk_state t' = CLAIMED"
  shows "\<exists>t. get_task tid q = Some t \<and> tk_state t = CLAIMED \<and> tk_claim t = tk_claim t' \<and> tk_task t = tk_task t'"
proof -
  let ?K = "\<lambda>tid c p. \<exists>t. get_task tid q = Some t \<and> tk_state t = CLAIMED \<and> tk_claim t = c \<and> tk_task t = p"
  have "each_task (claims_within ?K) q" by (auto simp: claims_within_def)
  then have "each_task (claims_within ?K) (snd (m q))"
    using assms(1) preservesD unfolding unclaiming_def by blast
  then show ?thesis using assms(2-4) by (simp add: claims_within_def)
qed

section \<open>Claiming\<close>

lemma put_task_run:
  assumes "put_task cfg tid u q = (x, q')"
  shows "k \<noteq> tid \<longrightarrow> get_task k q' = get_task k q"
    and "get_task tid q' = get_task tid q \<or> get_task tid q' = Some (stamp_task cfg u)"
    and "x \<noteq> Inl (Work_Queue_Conflict w)"
proof -
  have "commit (\<lambda>q. q\<lparr>q_tasks := AList.update tid (stamp_task cfg u) (q_tasks q)\<rparr>) q = (x, q')"
    using assms by (simp add: put_task_def stamp_task_def)
  then have "(q_tasks q' = q_tasks q \<or> q_tasks q' = AList.update tid (stamp_task cfg u) (q_tasks q))
      \<and> x \<noteq> Inl (Work_Queue_Conflict w)"
    unfolding commit_def commit_with_def by (auto split: list.splits write_io.splits)
  then show "k \<noteq> tid \<longrightarrow> get_task k q' = get_task k q"
    and "get_task tid q' = get_task tid q \<or> get_task tid q' = Some (stamp_task cfg u)"
    and "x \<noteq> Inl (Work_Queue_Conflict w)"
    by (auto simp: get_task_def)
qed

definition claims_only :: "string \<Rightarrow> string \<Rightarrow> queue \<Rightarrow> queue \<Rightarrow> bool" where
  "claims_only tid agent q q' \<longleftrightarrow>
     (\<forall>k t'. get_task k q' = Some t' \<and> tk_state t' = CLAIMED \<longrightarrow>
        (\<exists>t. get_task k q = Some t \<and> tk_task t = tk_task t'
           \<and> (tk_state t = CLAIMED \<and> tk_claim t = tk_claim t'
              \<or> k = tid \<and> (\<exists>c. tk_claim t' = Some c \<and> cl_agent_id c = agent))))"

lemma claims_onlyI:
  assumes "\<And>k. k \<noteq> tid \<Longrightarrow> get_task k q' = get_task k q" and "get_task tid q = Some t" and "get_task tid q' = Some t'"
    and "tk_task t' = tk_task t" and "tk_state t' = CLAIMED \<Longrightarrow> \<exists>c. tk_claim t' = Some c \<and> cl_agent_id c = agent"
  shows "claims_only tid agent q q'"
  unfolding claims_only_def
proof (intro allI impI)
  fix k u
  assume u: "get_task k q' = Some u \<and> tk_state u = CLAIMED"
  show "\<exists>t. get_task k q = Some t \<and> tk_task t = tk_task u
      \<and> (tk_state t = CLAIMED \<and> tk_claim t = tk_claim u \<or> k = tid \<and> (\<exists>c. tk_claim u = Some c \<and> cl_agent_id c = agent))"
  proof (cases "k = tid")
    case True
    then show ?thesis using u assms(2-5) by simp
  next
    case False
    then show ?thesis using u assms(1) by simp
  qed
qed

lemma claim_task_run:
  assumes "claim_task sha cfg now token tid a q = (x, q')"
  shows "claims_only tid (ka_agent_id a) q q'" and "x = Inl (Work_Queue_Conflict w) \<Longrightarrow> q' = q"
proof -
  have "claims_only tid (ka_agent_id a) q q' \<and> (x = Inl (Work_Queue_Conflict w) \<longrightarrow> q' = q)"
  proof (cases "q' = q")
    case True
    then show ?thesis by (auto simp: claims_only_def)
  next
    case False
    then obtain t where t: "get_task tid q = Some t" "tk_state t \<in> {QUEUED, RETRY_WAIT}"
      using assms by (auto simp: claim_task_def Let_def qbind_def qget_def qraise_def split: if_splits option.splits)
    define t1 where "t1 = (if tk_state t = RETRY_WAIT then requeued now t else t)"
    define c where "c = new_claim sha now (case ka_lease_seconds a of None \<Rightarrow> qc_task_lease_seconds cfg | Some d \<Rightarrow> d) token tid a t1"
    have t1: "tk_task t1 = tk_task t" "tk_state t1 \<noteq> CLAIMED" using t(2) by (auto simp: t1_def requeued_def)
    have c: "cl_agent_id c = ka_agent_id a" by (simp add: c_def new_claim_def)
    have run: "qbind (if tk_state t = RETRY_WAIT then put_task cfg tid t1 else qreturn ()) (\<lambda>_.
        qbind (put_task cfg tid (claimed now c t1)) (\<lambda>_. qreturn (delivered c t1))) q = (x, q')"
      using assms False t
      by (auto simp: claim_task_def Let_def qbind_def qget_def qraise_def t1_def c_def split: if_splits option.splits)
    obtain y q1 where first: "(if tk_state t = RETRY_WAIT then put_task cfg tid t1 else qreturn ()) q = (y, q1)"
      by (cases "(if tk_state t = RETRY_WAIT then put_task cfg tid t1 else qreturn ()) q")
    have q1: "\<And>k. k \<noteq> tid \<Longrightarrow> get_task k q1 = get_task k q"
      "get_task tid q1 = Some t \<or> get_task tid q1 = Some (stamp_task cfg t1)" "y \<noteq> Inl (Work_Queue_Conflict w)"
      using put_task_run [of cfg tid t1 q y q1] first t(1) by (auto simp: qreturn_def split: if_splits)
    show ?thesis
    proof (cases y)
      case (Inl e)
      then have q': "q' = q1" "x \<noteq> Inl (Work_Queue_Conflict w)" using run first q1(3) by (auto simp: qbind_def)
      have "\<exists>t'. get_task tid q1 = Some t' \<and> tk_task t' = tk_task t
          \<and> (tk_state t' = CLAIMED \<longrightarrow> (\<exists>c. tk_claim t' = Some c \<and> cl_agent_id c = ka_agent_id a))"
        using q1(2) t(2) t1 by auto
      then have "claims_only tid (ka_agent_id a) q q1" using claims_onlyI [OF q1(1) t(1)] by blast
      then show ?thesis using q' by simp
    next
      case (Inr u)
      obtain z q2 where second: "put_task cfg tid (claimed now c t1) q1 = (z, q2)" by (cases "put_task cfg tid (claimed now c t1) q1")
      note q2 = put_task_run [OF second]
      have q': "q' = q2" "x \<noteq> Inl (Work_Queue_Conflict w)" using run first second Inr q2(3) by (auto simp: qbind_def qreturn_def split: sum.splits)
      have "\<And>k. k \<noteq> tid \<Longrightarrow> get_task k q2 = get_task k q" using q2(1) q1(1) by simp
      moreover have "\<exists>t'. get_task tid q2 = Some t' \<and> tk_task t' = tk_task t
          \<and> (tk_state t' = CLAIMED \<longrightarrow> (\<exists>c. tk_claim t' = Some c \<and> cl_agent_id c = ka_agent_id a))"
        using q2(2) q1(2) t t1 c by (auto simp: claimed_def)
      ultimately have "claims_only tid (ka_agent_id a) q q2" using claims_onlyI [OF _ t(1)] by blast
      then show ?thesis using q' by simp
    qed
  qed
  then show "claims_only tid (ka_agent_id a) q q'" and "x = Inl (Work_Queue_Conflict w) \<Longrightarrow> q' = q" by blast+
qed

section \<open>The choice of an agent\<close>

text \<open>Apart from the commands that wait for delivery, a pass leaves the registry as it is.\<close>

definition sans_commands :: "registry \<Rightarrow> registry" where
  "sans_commands rg = rg\<lparr>re_agents := map (\<lambda>(i, r). (i, r\<lparr>ar_commands := []\<rparr>)) (re_agents rg)\<rparr>"

definition same_fleet :: "registry \<Rightarrow> registry \<Rightarrow> bool" where
  "same_fleet rg rg' \<longleftrightarrow> sans_commands rg = sans_commands rg'"

lemma same_fleet_refl [simp]: "same_fleet rg rg"
  by (simp add: same_fleet_def)

lemma same_fleet_trans: "same_fleet rg rg' \<Longrightarrow> same_fleet rg' rg'' \<Longrightarrow> same_fleet rg rg''"
  by (simp add: same_fleet_def)

lemma sans_commands_fields:
  "re_placement (sans_commands rg) = re_placement rg" "re_heartbeat_ms (sans_commands rg) = re_heartbeat_ms rg"
  "re_miss_limit (sans_commands rg) = re_miss_limit rg"
  "map_of (re_agents (sans_commands rg)) i = map_option (\<lambda>r. r\<lparr>ar_commands := []\<rparr>) (map_of (re_agents rg) i)"
  by (simp_all add: sans_commands_def map_of_map_values)

lemma update_values:
  "map_of d i = Some r \<Longrightarrow> f u = f r \<Longrightarrow> map (\<lambda>(i, r). (i, f r)) (AList.update i u d) = map (\<lambda>(i, r). (i, f r)) d"
  by (induction d) auto

lemma queue_command_run:
  assumes "queue_command pt k i (materialize_command p) c = (x, c')" and "registry_ok (ct_registry c)"
    and "map_of (re_agents (ct_registry c)) i = Some r"
  shows "x = Inr True \<and> registry_ok (ct_registry c') \<and> same_fleet (ct_registry c) (ct_registry c') \<or> (\<exists>e. x = Inl e)"
proof -
  let ?agents = "AList.update i (with_command (materialize_command p) r) (re_agents (ct_registry c))"
  have "commit_agents pt k ?agents True c = (x, c')" using assms(1,3) by (simp add: queue_command_def)
  then show ?thesis using assms(2)
  proof (cases rule: commit_agents_cases)
    case committed
    have "registry_ok (ct_registry c')"
      using carries_out_ok [OF Queues [OF assms(3)] assms(2)] committed(2) by simp
    moreover have "map (\<lambda>(i, r). (i, r\<lparr>ar_commands := []\<rparr>)) ?agents = map (\<lambda>(i, r). (i, r\<lparr>ar_commands := []\<rparr>)) (re_agents (ct_registry c))"
      by (rule update_values [OF assms(3)]) (simp add: with_command_def materialize_command_def)
    then have "same_fleet (ct_registry c) (ct_registry c')" by (simp add: same_fleet_def sans_commands_def committed(2))
    ultimately show ?thesis using committed(1) by simp
  qed simp
qed

text \<open>What an agent must be to run a task, and which limits must leave room for it.\<close>

definition pool_fits :: "placement \<Rightarrow> policy \<Rightarrow> materialize_task \<Rightarrow> string \<Rightarrow> bool" where
  "pool_fits pc po p k \<longleftrightarrow>
     (\<exists>pl. map_of (pc_pools pc) k = Some pl \<and> allows pl (mt_connection_id p) (mt_source_table p)
        \<and> (policy_targets po \<noteq> [] \<and> [] \<notin> set (policy_targets po) \<longrightarrow> k \<in> set (policy_targets po))
        \<and> (po_required_location po \<noteq> [] \<longrightarrow> pl_location pl = po_required_location po)
        \<and> (po_required_storage_profile po \<noteq> [] \<longrightarrow> pl_storage_profile pl = po_required_storage_profile po))"

definition may_run :: "registry \<Rightarrow> rat \<Rightarrow> materialize_task \<Rightarrow> string \<Rightarrow> bool" where
  "may_run rg now p a \<longleftrightarrow>
     (\<exists>r. map_of (re_agents rg) a = Some r \<and> record_alive rg now r \<and> ''materializer'' \<in> set (ar_capabilities r) \<and> \<not> ar_draining r
        \<and> validate_task_tenant (re_placement rg) (mt_tenant_id p) (policy_of rg p) = Inr ()
        \<and> validate_dispatch (re_placement rg) (policy_of rg p) (mt_connection_id p) = Inr ()
        \<and> (pc_tenants (re_placement rg) \<noteq> [] \<longrightarrow> ar_tenant_id r = mt_tenant_id p)
        \<and> (placement_enabled (re_placement rg) \<longrightarrow> pool_fits (re_placement rg) (policy_of rg p) p (ar_pool_id r)))"

definition has_room :: "scheduler \<Rightarrow> registry \<Rightarrow> load \<Rightarrow> materialize_task \<Rightarrow> string \<Rightarrow> bool" where
  "has_room sc rg lo p a \<longleftrightarrow>
     (\<forall>r. map_of (re_agents rg) a = Some r \<longrightarrow> lo_agents lo a < sc_max_inflight_per_agent sc * capacity_of r)
     \<and> (placement_enabled (re_placement rg) \<longrightarrow>
          \<not> limit_reached (po_source_max_concurrency (policy_of rg p)) (lo_sources lo (mt_connection_id p))
          \<and> \<not> limit_reached (po_max_concurrency (policy_of rg p))
                (lo_datasets lo (dataset_scope (re_placement rg) (mt_connection_id p) (mt_source_table p)))
          \<and> (\<forall>pl. map_of (pc_pools (re_placement rg)) (pool_id_of rg a) = Some pl \<longrightarrow>
               \<not> limit_reached (pl_max_concurrency pl) (lo_pools lo (pool_id_of rg a))))"

lemma first_nonempty_filter:
  "x \<in> set (first_nonempty (map (\<lambda>t. filter (f t) xs) ts)) \<Longrightarrow> x \<in> set xs \<and> (\<exists>t\<in>set ts. f t x)"
proof (induction ts)
  case (Cons t ts)
  show ?case
  proof (cases "filter (f t) xs = []")
    case True
    then show ?thesis using Cons by simp
  next
    case False
    then have "x \<in> set (filter (f t) xs)" using Cons.prems by simp
    then show ?thesis by simp
  qed
qed simp

lemma best_agent_mem: "agents \<noteq> [] \<Longrightarrow> best_agent sha tid agents \<in> snd ` set agents"
proof -
  have "foldl (\<lambda>b x. if better sha tid x b then x else b) a xs \<in> set (a # xs)" for a xs
    by (induction xs arbitrary: a) (auto split: if_splits)
  then have "snd (foldl (\<lambda>b x. if better sha tid x b then x else b) a xs) \<in> snd ` set (a # xs)" for a xs by blast
  then show "agents \<noteq> [] \<Longrightarrow> ?thesis" unfolding best_agent_def by (cases agents) simp_all
qed

lemma matching_pool:
  assumes "matching rg p po lo target a" and "policy_targets po = [] \<or> target \<in> set (policy_targets po)"
  shows "pool_fits (re_placement rg) po p (pool_id_of rg a)"
    and "map_of (pc_pools (re_placement rg)) (pool_id_of rg a) = Some pl \<Longrightarrow>
      \<not> limit_reached (pl_max_concurrency pl) (lo_pools lo (pool_id_of rg a))"
  using assms by (auto simp: matching_def pool_fits_def pool_id_of_def split: option.splits)

lemma placement_eligible_mem:
  assumes "x \<in> set (placement_eligible rg cs p po lo)"
  defines "kept \<equiv> if pc_tenants (re_placement rg) = [] then cs else filter (\<lambda>(_, a). tenant_of_agent rg a = mt_tenant_id p) cs"
  shows "x \<in> set kept \<and> (placement_enabled (re_placement rg) \<longrightarrow>
      \<not> limit_reached (po_source_max_concurrency po) (lo_sources lo (mt_connection_id p))
      \<and> \<not> limit_reached (po_max_concurrency po) (lo_datasets lo (dataset_scope (re_placement rg) (mt_connection_id p) (mt_source_table p)))
      \<and> (\<exists>target. matching rg p po lo target (snd x) \<and> (policy_targets po = [] \<or> target \<in> set (policy_targets po))))"
proof -
  let ?by_target = "first_nonempty (map (\<lambda>t. filter (\<lambda>(_, a). matching rg p po lo t a) kept) (policy_targets po))"
  have target: "x \<in> set ?by_target \<Longrightarrow> x \<in> set kept \<and> (\<exists>target\<in>set (policy_targets po). matching rg p po lo target (snd x))"
    using first_nonempty_filter [of x "\<lambda>t (_, a). matching rg p po lo t a" kept "policy_targets po"] by (simp add: split_beta)
  show ?thesis
    using assms(1) target unfolding placement_eligible_def Let_def kept_def [symmetric]
    by (simp split: sum.splits if_splits) (blast | simp add: split_beta)+
qed

lemma placement_eligible_sound:
  assumes "x \<in> set (placement_eligible rg cs p (policy_of rg p) lo)"
  shows "x \<in> set cs" and "pc_tenants (re_placement rg) \<noteq> [] \<Longrightarrow> tenant_of_agent rg (snd x) = mt_tenant_id p"
    and "placement_enabled (re_placement rg) \<Longrightarrow> pool_fits (re_placement rg) (policy_of rg p) p (pool_id_of rg (snd x))"
    and "\<forall>r. map_of (re_agents rg) (snd x) = Some r \<longrightarrow> lo_agents lo (snd x) < sc_max_inflight_per_agent sc * capacity_of r
      \<Longrightarrow> has_room sc rg lo p (snd x)"
proof -
  note mem = placement_eligible_mem [OF assms]
  show "x \<in> set cs" and "pc_tenants (re_placement rg) \<noteq> [] \<Longrightarrow> tenant_of_agent rg (snd x) = mt_tenant_id p"
    using mem by (simp_all add: split_beta split: if_splits)
  show "placement_enabled (re_placement rg) \<Longrightarrow> pool_fits (re_placement rg) (policy_of rg p) p (pool_id_of rg (snd x))"
    using mem matching_pool(1) by blast
  assume "\<forall>r. map_of (re_agents rg) (snd x) = Some r \<longrightarrow> lo_agents lo (snd x) < sc_max_inflight_per_agent sc * capacity_of r"
  then show "has_room sc rg lo p (snd x)" unfolding has_room_def using mem matching_pool(2) by blast
qed

lemma eligible_agent:
  assumes "registry_ok rg" and "x \<in> set (eligible_agents sc rg now lo shard ms)"
  shows "\<exists>r. map_of (re_agents rg) (snd x) = Some r \<and> eligible sc rg now lo shard ms r"
proof -
  obtain i r where r: "(i, r) \<in> set (re_agents rg)" "eligible sc rg now lo shard ms r" "snd x = ar_agent_id r"
    using assms(2) by (auto simp: eligible_agents_def agents_of_def)
  have "map_of (re_agents rg) i = Some r" "ar_agent_id r = i" using assms(1) r(1) by (auto simp: registry_ok_def)
  then show ?thesis using r(2,3) by auto
qed

lemma inflight_limit_le: "1 \<le> sc_max_inflight_per_agent sc \<Longrightarrow> inflight_limit sc shard r \<le> sc_max_inflight_per_agent sc * capacity_of r"
proof -
  assume pos: "1 \<le> sc_max_inflight_per_agent sc"
  have "1 \<le> capacity_of r" by (simp add: capacity_of_def)
  then have "1 * 1 \<le> sc_max_inflight_per_agent sc * capacity_of r" using pos by (intro mult_mono) simp_all
  then show ?thesis by (simp add: inflight_limit_def split: option.split)
qed

lemma chosen_agent:
  assumes "registry_ok rg" and "1 \<le> sc_max_inflight_per_agent sc"
    and valid: "sbind (validate_task_tenant (re_placement rg) (mt_tenant_id p) (policy_of rg p))
          (\<lambda>_. validate_dispatch (re_placement rg) (policy_of rg p) (mt_connection_id p)) = Inr u"
    and agents: "agents = placement_eligible rg (eligible_agents sc rg now lo shard ms) p (policy_of rg p) lo" "agents \<noteq> []"
  shows "may_run rg now p (best_agent sha tid agents) \<and> has_room sc rg lo p (best_agent sha tid agents)"
proof -
  obtain x where x: "x \<in> set agents" "best_agent sha tid agents = snd x" using best_agent_mem [OF agents(2)] by blast
  note sound = placement_eligible_sound [OF x(1) [unfolded agents(1)]]
  obtain r where r: "map_of (re_agents rg) (snd x) = Some r" "eligible sc rg now lo shard ms r"
    using eligible_agent [OF assms(1) sound(1)] by blast
  have id: "ar_agent_id r = snd x" using assms(1) r(1) by (simp add: registry_ok_lookup)
  have "lo_agents lo (snd x) < sc_max_inflight_per_agent sc * capacity_of r"
    using r(2) id inflight_limit_le [OF assms(2), of shard r] by (simp add: eligible_def)
  then have room: "has_room sc rg lo p (snd x)" using sound(4) r(1) by simp
  have "record_alive rg now r \<and> ''materializer'' \<in> set (ar_capabilities r) \<and> \<not> ar_draining r"
    using r id by (simp add: eligible_def works_def is_alive_def)
  moreover have "validate_task_tenant (re_placement rg) (mt_tenant_id p) (policy_of rg p) = Inr ()"
    "validate_dispatch (re_placement rg) (policy_of rg p) (mt_connection_id p) = Inr ()"
    using valid by (simp_all add: sbind_Inr)
  ultimately have "may_run rg now p (snd x)"
    unfolding may_run_def using r(1) sound(2,3) by (auto simp: tenant_of_agent_def pool_id_of_def)
  then show ?thesis using room x(2) by simp
qed

lemma sans_commands_works:
  "policy_of (sans_commands rg) = policy_of rg" "pool_id_of (sans_commands rg) = pool_id_of rg"
  "record_alive (sans_commands rg) now (r\<lparr>ar_commands := x\<rparr>) = record_alive rg now r"
  "capacity_of (r\<lparr>ar_commands := x\<rparr>) = capacity_of r"
proof -
  show "policy_of (sans_commands rg) = policy_of rg" "pool_id_of (sans_commands rg) = pool_id_of rg"
    by (auto simp: policy_of_def pool_id_of_def sans_commands_fields fun_eq_iff split: option.split)
  show "record_alive (sans_commands rg) now (r\<lparr>ar_commands := x\<rparr>) = record_alive rg now r"
    unfolding record_alive_def heartbeat_timeout_def heartbeat_interval_def sans_commands_fields by simp
qed (simp add: capacity_of_def)

lemma may_run_sans: "may_run (sans_commands rg) now p a = may_run rg now p a"
  unfolding may_run_def sans_commands_fields map_option_eq_Some sans_commands_works by (auto simp: sans_commands_works)

lemma has_room_sans: "has_room sc (sans_commands rg) lo p a = has_room sc rg lo p a"
  unfolding has_room_def sans_commands_fields map_option_eq_Some sans_commands_works by (auto simp: sans_commands_works)

lemma same_fleet_works:
  assumes "same_fleet rg rg'"
  shows "may_run rg' = may_run rg" and "has_room sc rg' = has_room sc rg"
    and "pool_id_of rg' = pool_id_of rg" and "policy_of rg' = policy_of rg" and "re_placement rg' = re_placement rg"
proof -
  have eq: "sans_commands rg' = sans_commands rg" using assms by (simp add: same_fleet_def)
  show "may_run rg' = may_run rg" using eq by (intro ext) (metis may_run_sans)
  show "has_room sc rg' = has_room sc rg" using eq by (intro ext) (metis has_room_sans)
  show "pool_id_of rg' = pool_id_of rg" "policy_of rg' = policy_of rg" using eq sans_commands_works(1,2) by metis+
  show "re_placement rg' = re_placement rg" using eq sans_commands_fields(1) by metis
qed

section \<open>One task\<close>

definition quiet :: "queue \<Rightarrow> queue \<Rightarrow> bool" where
  "quiet q q' \<longleftrightarrow>
     (\<forall>tid t'. get_task tid q' = Some t' \<and> tk_state t' = CLAIMED \<longrightarrow>
        (\<exists>t. get_task tid q = Some t \<and> tk_state t = CLAIMED \<and> tk_claim t = tk_claim t' \<and> tk_task t = tk_task t'))"

lemma quiet_refl [simp]: "quiet q q"
  by (simp add: quiet_def)

lemma quiet_trans: "quiet q q' \<Longrightarrow> quiet q' q'' \<Longrightarrow> quiet q q''"
  unfolding quiet_def by metis

lemma quiet_run:
  assumes "unclaiming m" and "safely m" and "queue_wf (sd_queue s)" and "on_queue m s = (x, s')"
  shows "queue_wf (sd_queue s') \<and> evolves (sd_queue s) (sd_queue s') \<and> quiet (sd_queue s) (sd_queue s') \<and> sd_control s' = sd_control s"
proof -
  obtain y q where run: "m (sd_queue s) = (y, q)" by (cases "m (sd_queue s)")
  have s': "sd_queue s' = q" "sd_control s' = sd_control s" using assms(4) run by (auto simp: on_queue_def split: sum.splits)
  have "quiet (sd_queue s) q" unfolding quiet_def using unclaimingD [OF assms(1) run] by blast
  then show ?thesis using safelyD [OF assms(2,3)] run s' by simp
qed

lemma quiet_then:
  assumes "unclaiming m" and "safely m" and "queue_wf (sd_queue s)" and "smbind (on_queue m) (\<lambda>_. smreturn acc) s = (x, s')"
  shows "queue_wf (sd_queue s') \<and> evolves (sd_queue s) (sd_queue s') \<and> quiet (sd_queue s) (sd_queue s') \<and> sd_control s' = sd_control s
    \<and> (x = Inr acc \<or> (\<exists>e. x = Inl e))"
proof -
  obtain y s1 where run: "on_queue m s = (y, s1)" by (cases "on_queue m s")
  then have "s' = s1 \<and> (x = Inr acc \<or> (\<exists>e. x = Inl e))" using assms(4) by (auto simp: smbind_def smreturn_def split: sum.splits)
  then show ?thesis using quiet_run [OF assms(1-3) run] by simp
qed

lemma deliver_run:
  assumes "deliver en t r p acc s = (x, s')" and "registry_ok (ct_registry (sd_control s))"
    and "map_of (re_agents (ct_registry (sd_control s))) (ar_agent_id r) = Some r"
  shows "sd_queue s' = sd_queue s
    \<and> (x = Inr (add_claim (ct_registry (sd_control s)) (ar_agent_id r) (tk_task t) (fst acc), snd acc @ [(t, ar_agent_id r)])
         \<and> registry_ok (ct_registry (sd_control s')) \<and> same_fleet (ct_registry (sd_control s)) (ct_registry (sd_control s'))
       \<or> (\<exists>e. x = Inl e))"
proof -
  obtain y c where run: "queue_command (en_text en) (en_call en) (ar_agent_id r) (materialize_command p) (sd_control s) = (y, c)"
    by (cases "queue_command (en_text en) (en_call en) (ar_agent_id r) (materialize_command p) (sd_control s)")
  have cmd: "y = Inr True \<and> registry_ok (ct_registry c) \<and> same_fleet (ct_registry (sd_control s)) (ct_registry c) \<or> (\<exists>e. y = Inl e)"
    using queue_command_run [OF run assms(2,3)] .
  show ?thesis
  proof (cases y)
    case (Inl e)
    then show ?thesis using assms(1) run
      by (cases acc) (auto simp: deliver_def smbind_def on_registry_def)
  next
    case (Inr b)
    then have ok: "b" "registry_ok (ct_registry c)" "same_fleet (ct_registry (sd_control s)) (ct_registry c)" using cmd by auto
    have "add_claim (ct_registry c) = add_claim (ct_registry (sd_control s))"
      by (intro ext) (simp add: add_claim_def same_fleet_works [OF ok(3)])
    then have "(x, s') = (Inr (add_claim (ct_registry (sd_control s)) (ar_agent_id r) (tk_task t) (fst acc), snd acc @ [(t, ar_agent_id r)]),
        s\<lparr>sd_control := c\<rparr>)"
      using assms(1) run Inr ok(1) by (cases acc) (simp add: deliver_def smbind_def on_registry_def smget_def smreturn_def)
    then show ?thesis using ok by simp
  qed
qed

lemma assign_run:
  assumes "assign en m rg t r acc s = (x, s')" and "queue_wf (sd_queue s)" and "registry_ok rg" and "rg = ct_registry (sd_control s)"
    and "map_of (re_agents rg) (ar_agent_id r) = Some r"
  shows "queue_wf (sd_queue s') \<and> evolves (sd_queue s) (sd_queue s') \<and> claims_only (tk_task_id t) (ar_agent_id r) (sd_queue s) (sd_queue s')
    \<and> (x = Inr acc \<and> s' = s
       \<or> x = Inr (add_claim rg (ar_agent_id r) (tk_task t) (fst acc), snd acc @ [(t, ar_agent_id r)])
         \<and> registry_ok (ct_registry (sd_control s')) \<and> same_fleet rg (ct_registry (sd_control s'))
       \<or> (\<exists>e. x = Inl e))"
proof -
  let ?claim = "claim_task (en_sha en) (en_config en) (en_now en) (en_token en (tk_task_id t)) (tk_task_id t) (claim_for en m rg r)"
  obtain y q where run: "?claim (sd_queue s) = (y, q)" by (cases "?claim (sd_queue s)")
  have only: "claims_only (tk_task_id t) (ar_agent_id r) (sd_queue s) q"
    and conflict: "\<And>w. y = Inl (Work_Queue_Conflict w) \<Longrightarrow> q = sd_queue s"
    using claim_task_run [OF run] by (auto simp: claim_for_def)
  have safe: "queue_wf q" "evolves (sd_queue s) q" using safelyD [OF guarded_claim_task assms(2)] run by (metis snd_conv)+
  let ?s = "s\<lparr>sd_queue := q\<rparr>"
  consider (conflict) w where "y = Inl (Work_Queue_Conflict w)"
    | (failed) "\<exists>e. x = Inl e" "s' = ?s"
    | (claimed) p where "y = Inr p" "deliver en t r p acc ?s = (x, s')"
    using assms(1) run
    by (cases y) (auto simp: assign_def smbind_def on_queue_def or_conflict_def split: queue_error.splits)
  then show ?thesis
  proof cases
    case conflict
    then have "x = Inr acc \<and> s' = s"
      using assms(1) run \<open>\<And>w. y = Inl (Work_Queue_Conflict w) \<Longrightarrow> q = sd_queue s\<close> [OF conflict]
      by (simp add: assign_def smbind_def on_queue_def or_conflict_def smreturn_def)
    then show ?thesis using assms(2) by (auto simp: claims_only_def)
  next
    case failed
    then show ?thesis using only safe by simp
  next
    case (claimed p)
    have "sd_queue s' = q" using deliver_run [OF claimed(2)] assms(3-5) by simp
    then show ?thesis using deliver_run [OF claimed(2)] assms(3-5) only safe by simp
  qed
qed

definition step_result ::
  "'x env \<Rightarrow> task \<Rightarrow> load \<times> assigned list \<Rightarrow> 'x sched \<Rightarrow> sched_error + load \<times> assigned list \<Rightarrow> 'x sched \<Rightarrow> bool" where
  "step_result en t acc s x s' \<longleftrightarrow>
     quiet (sd_queue s) (sd_queue s') \<and> sd_control s' = sd_control s \<and> (x = Inr acc \<or> (\<exists>e. x = Inl e))
     \<or> (\<exists>a. may_run (ct_registry (sd_control s)) (ca_now (en_call en)) (tk_task t) a
          \<and> has_room (en_scheduler en) (ct_registry (sd_control s)) (fst acc) (tk_task t) a
          \<and> \<not> foreign_generation (q_generation (sd_queue s)) (tk_task t)
          \<and> claims_only (tk_task_id t) a (sd_queue s) (sd_queue s')
          \<and> (x = Inr (add_claim (ct_registry (sd_control s)) a (tk_task t) (fst acc), snd acc @ [(t, a)])
               \<and> registry_ok (ct_registry (sd_control s')) \<and> same_fleet (ct_registry (sd_control s)) (ct_registry (sd_control s'))
             \<or> (\<exists>e. x = Inl e)))"

lemma dispatch_task_step:
  assumes run: "dispatch_task en ms t acc s = (x, s')" and wf: "queue_wf (sd_queue s)"
    and ok: "registry_ok (ct_registry (sd_control s))" and pos: "1 \<le> sc_max_inflight_per_agent (en_scheduler en)"
  shows "queue_wf (sd_queue s') \<and> evolves (sd_queue s) (sd_queue s') \<and> step_result en t acc s x s'"
proof -
  define p rg g where "p = tk_task t" and "rg = ct_registry (sd_control s)" and "g = q_generation (sd_queue s)"
  define po where "po = policy_of rg p"
  define agents where "agents = placement_eligible rg
    (eligible_agents (en_scheduler en) rg (ca_now (en_call en)) (fst acc) (required_shard g p)
       (map_option active_members (map_of ms (mt_generation_id p)))) p po (fst acc)"
  note defs = p_def rg_def g_def po_def agents_def
  have quiet_case: ?thesis if "smbind (on_queue m) (\<lambda>_. smreturn acc) s = (x, s')" "unclaiming m" "safely m" for m :: "'c qm"
    using quiet_then [OF that(2,3) wf that(1)] unfolding step_result_def by blast
  have same_case: ?thesis if "smreturn acc s = (x, s')"
    using that wf unfolding step_result_def smreturn_def by auto
  let ?valid = "sbind (validate_task_tenant (re_placement rg) (mt_tenant_id p) po) (\<lambda>_. validate_dispatch (re_placement rg) po (mt_connection_id p))"
  let ?best = "best_agent (en_sha en) (tk_task_id t) agents"
  consider (foreign) "foreign_generation g p" | (invalid) e where "\<not> foreign_generation g p" "?valid = Inl e"
    | (none) u where "\<not> foreign_generation g p" "?valid = Inr u" "agents = []"
    | (gone) u where "\<not> foreign_generation g p" "?valid = Inr u" "agents \<noteq> []" "map_of (re_agents rg) ?best = None"
    | (chosen) u r where "\<not> foreign_generation g p" "?valid = Inr u" "agents \<noteq> []" "map_of (re_agents rg) ?best = Some r"
    by (cases "foreign_generation g p"; cases ?valid; cases "agents = []"; cases "map_of (re_agents rg) ?best") auto
  then show ?thesis
  proof cases
    case foreign
    then show ?thesis using run unclaiming_cancel guarded_cancel_request
      by (intro quiet_case) (simp_all add: dispatch_task_def Let_def smbind_def smget_def defs)
  next
    case invalid
    then show ?thesis using run unclaiming_status guarded_set_dispatch_status
      by (intro quiet_case) (simp_all add: dispatch_task_def Let_def smbind_def smget_def defs)
  next
    case none
    then show ?thesis using run unclaiming_status guarded_set_dispatch_status
      by (intro quiet_case) (simp_all add: dispatch_task_def Let_def smbind_def smget_def defs)
  next
    case gone
    then show ?thesis using run by (intro same_case) (simp add: dispatch_task_def Let_def smbind_def smget_def defs)
  next
    case (chosen u r)
    have id: "ar_agent_id r = ?best" using ok chosen(4) unfolding rg_def by (simp add: registry_ok_lookup)
    have "assign en (map_of ms (mt_generation_id p)) rg t r acc s = (x, s')"
      using run chosen by (simp add: dispatch_task_def Let_def smbind_def smget_def defs)
    note assigned = assign_run [OF this wf ok [folded rg_def] rg_def chosen(4) [folded id], unfolded id]
    have "may_run rg (ca_now (en_call en)) p ?best \<and> has_room (en_scheduler en) rg (fst acc) p ?best"
      using chosen_agent [OF ok [folded rg_def] pos chosen(2) [unfolded po_def] agents_def [unfolded po_def] chosen(3)] .
    then show ?thesis
      using assigned chosen(1) unfolding step_result_def p_def [symmetric] rg_def [symmetric] g_def [symmetric] by auto
  qed
qed

section \<open>The pass\<close>

text \<open>Runs of the monad: \<open>Q\<close> after a normal end, \<open>R\<close> after an exception.\<close>

definition sm_runs :: "('x sched \<Rightarrow> bool) \<Rightarrow> ('a, 'x) sm \<Rightarrow> ('a \<Rightarrow> 'x sched \<Rightarrow> bool) \<Rightarrow> ('x sched \<Rightarrow> bool) \<Rightarrow> bool" where
  "sm_runs P m Q R \<longleftrightarrow> (\<forall>s x s'. P s \<and> m s = (x, s') \<longrightarrow> (case x of Inl _ \<Rightarrow> R s' | Inr y \<Rightarrow> Q y s'))"

lemma sm_runsI: "(\<And>s x s'. P s \<Longrightarrow> m s = (x, s') \<Longrightarrow> case x of Inl _ \<Rightarrow> R s' | Inr y \<Rightarrow> Q y s') \<Longrightarrow> sm_runs P m Q R"
  unfolding sm_runs_def by blast

lemma sm_runs_return: "(\<And>s. P s \<Longrightarrow> Q x s) \<Longrightarrow> sm_runs P (smreturn x) Q R"
  by (simp add: sm_runs_def smreturn_def)

lemma sm_runs_bind:
  assumes "sm_runs P m M R" and "\<And>y. sm_runs (M y) (f y) Q R"
  shows "sm_runs P (smbind m f) Q R"
proof (rule sm_runsI)
  fix s x s'
  assume P: "P s" and run: "smbind m f s = (x, s')"
  obtain y s1 where m: "m s = (y, s1)" by (cases "m s")
  then have "case y of Inl _ \<Rightarrow> R s1 | Inr y \<Rightarrow> M y s1" using assms(1) P unfolding sm_runs_def by blast
  then show "case x of Inl _ \<Rightarrow> R s' | Inr y \<Rightarrow> Q y s'"
    using run m assms(2) unfolding sm_runs_def by (cases y) (auto simp: smbind_def)
qed

lemma sm_runs_get: "sm_runs P (smget g) (\<lambda>x s. P s \<and> x = g s) R"
  by (simp add: sm_runs_def smget_def)

lemma sm_runs_fold:
  assumes "\<And>a acc. a \<in> set xs \<Longrightarrow> sm_runs (I acc) (f a acc) I R"
  shows "sm_runs (I acc) (smfold f xs acc) I R"
  using assms
proof (induction xs arbitrary: acc)
  case (Cons a xs)
  show ?case unfolding smfold.simps by (rule sm_runs_bind) (use Cons in auto)
qed (simp add: sm_runs_return)

lemma sm_runs_weaken: "sm_runs P m Q R \<Longrightarrow> (\<And>s. P' s \<Longrightarrow> P s) \<Longrightarrow> (\<And>x s. Q x s \<Longrightarrow> Q' x s) \<Longrightarrow> sm_runs P' m Q' R"
  unfolding sm_runs_def by (fastforce split: sum.splits)

lemmas sm_runs_intros = sm_runs_bind sm_runs_get sm_runs_return

definition since :: "'x sched \<Rightarrow> 'x sched \<Rightarrow> bool" where
  "since s0 s \<longleftrightarrow> queue_wf (sd_queue s) \<and> evolves (sd_queue s0) (sd_queue s) \<and> quiet (sd_queue s0) (sd_queue s) \<and> sd_control s = sd_control s0"

lemma since_quiet:
  assumes "unclaiming m" and "safely m"
  shows "sm_runs (since s0) (on_queue m) (\<lambda>_. since s0) (since s0)"
proof (rule sm_runsI)
  fix s x s'
  assume "since s0 s" and "on_queue m s = (x, s')"
  then have "since s0 s'" using quiet_run [OF assms, of s x s'] unfolding since_def by (auto intro: evolves_trans quiet_trans)
  then show "case x of Inl _ \<Rightarrow> since s0 s' | Inr y \<Rightarrow> since s0 s'" by (simp split: sum.split)
qed

lemma since_reconcile: "sm_runs (since s0) (reconcile_generation en ts ws t ms) (\<lambda>_. since s0) (since s0)"
proof -
  have weak: "sm_runs (since s0) (smget g) (\<lambda>_. since s0) (since s0)" for g :: "'a sched \<Rightarrow> 'c"
    by (rule sm_runs_weaken [OF sm_runs_get]) simp_all
  show ?thesis
    unfolding reconcile_generation_def Let_def
    by (simp add: sm_runs_return)
      (intro impI sm_runs_bind [OF weak] sm_runs_bind [OF since_quiet [OF unclaiming_reconcile guarded_reconcile_membership]]
        sm_runs_bind [OF since_quiet [OF unclaiming_reassign guarded_reassign_fenced_claims]] sm_runs_return)
qed

text \<open>The rule for a whole pass: an invariant of the loop over the runnable tasks.\<close>

definition loops :: "'x sched \<Rightarrow> queue \<Rightarrow> (load \<times> assigned list \<Rightarrow> 'x sched \<Rightarrow> bool) \<Rightarrow> load \<times> assigned list \<Rightarrow> 'x sched \<Rightarrow> bool" where
  "loops s0 q1 J acc s \<longleftrightarrow>
     J acc s \<and> queue_wf (sd_queue s) \<and> evolves (sd_queue s0) (sd_queue s) \<and> evolves q1 (sd_queue s)
     \<and> registry_ok (ct_registry (sd_control s)) \<and> same_fleet (ct_registry (sd_control s0)) (ct_registry (sd_control s))"

lemma dispatch_loop:
  assumes pos: "1 \<le> sc_max_inflight_per_agent (en_scheduler en)" and t: "current t q1"
    and step: "\<And>acc s x s' u. J acc s \<Longrightarrow> queue_wf (sd_queue s) \<Longrightarrow> queue_wf (sd_queue s') \<Longrightarrow> evolves (sd_queue s0) (sd_queue s) \<Longrightarrow>
        same_fleet (ct_registry (sd_control s0)) (ct_registry (sd_control s)) \<Longrightarrow>
        get_task (tk_task_id t) (sd_queue s) = Some u \<Longrightarrow> tk_task u = tk_task t \<Longrightarrow> step_result en t acc s x s' \<Longrightarrow>
        case x of Inl _ \<Rightarrow> R s' | Inr acc' \<Rightarrow> J acc' s'"
  shows "sm_runs (loops s0 q1 J acc) (dispatch_task en ms t acc) (loops s0 q1 J) R"
proof (rule sm_runsI)
  fix s x s'
  assume pre: "loops s0 q1 J acc s" and run: "dispatch_task en ms t acc s = (x, s')"
  have now: "queue_wf (sd_queue s)" "evolves q1 (sd_queue s)" "evolves (sd_queue s0) (sd_queue s)" "registry_ok (ct_registry (sd_control s))"
    "same_fleet (ct_registry (sd_control s0)) (ct_registry (sd_control s))" "J acc s"
    using pre by (simp_all add: loops_def)
  obtain u where u: "get_task (tk_task_id t) (sd_queue s) = Some u" "tk_task u = tk_task t"
    using evolves_task [OF now(2), of "tk_task_id t" t] t task_steps_same by blast
  note next_state = dispatch_task_step [OF run now(1,4) pos]
  have after: "case x of Inl _ \<Rightarrow> R s' | Inr acc' \<Rightarrow> J acc' s'"
    using step [OF now(6,1) _ now(3,5) u] next_state by blast
  have "registry_ok (ct_registry (sd_control s')) \<and> same_fleet (ct_registry (sd_control s)) (ct_registry (sd_control s'))" if "x = Inr acc'" for acc'
    using next_state now(4) that unfolding step_result_def by auto
  then show "case x of Inl _ \<Rightarrow> R s' | Inr acc' \<Rightarrow> loops s0 q1 J acc' s'"
    using after next_state now(2,3,5) unfolding loops_def by (auto intro: evolves_trans same_fleet_trans split: sum.splits)
qed

lemma sm_runs_fails: "sm_runs P m Q R \<Longrightarrow> (\<And>s. R s \<Longrightarrow> R' s) \<Longrightarrow> sm_runs P m Q R'"
  unfolding sm_runs_def by (fastforce split: sum.splits)

lemma runnable_run: "on_queue (runnable_tasks cfg now (Some ts) False) s = (Inr (filter (runnable now (sd_queue s)) ts), s)"
  by (simp add: on_queue_def runnable_tasks_def qbind_def qreturn_def qget_def)

definition dispatch_tail :: "'x env \<Rightarrow> (string, membership) dict \<Rightarrow> (load \<times> assigned list, 'x) sm" where
  "dispatch_tail en ms s =
     smfold (dispatch_task en ms) (filter (runnable (en_now en) (sd_queue s)) (list_tasks (sd_queue s)))
       (current_load (ct_registry (sd_control s)) (list_tasks (sd_queue s)), []) s"

lemma dispatch_pass_tail:
  "dispatch_pass en =
     smbind (on_queue (expire_claims (en_config en) (en_now en))) (\<lambda>_.
     smbind (smget (\<lambda>s. (list_tasks (sd_queue s), workers_of (ct_registry (sd_control s)) (ca_now (en_call en))))) (\<lambda>(ts, ws).
     smbind (smfold (reconcile_generation en ts ws) ts []) (dispatch_tail en)))"
proof -
  have "(\<lambda>ms. smbind (smget (\<lambda>s. (list_tasks (sd_queue s), ct_registry (sd_control s)))) (\<lambda>(ts, rg).
      smbind (on_queue (runnable_tasks (en_config en) (en_now en) (Some ts) False)) (\<lambda>runnable.
      smfold (dispatch_task en ms) runnable (current_load rg ts, [])))) = dispatch_tail en"
    by (intro ext) (simp add: dispatch_tail_def smbind_def smget_def runnable_run)
  then show ?thesis unfolding dispatch_pass_def by simp
qed

lemma dispatch_pass_runs:
  assumes pos: "1 \<le> sc_max_inflight_per_agent (en_scheduler en)"
    and wf: "queue_wf (sd_queue s0)" and ok: "registry_ok (ct_registry (sd_control s0))"
    and start: "\<And>s. since s0 s \<Longrightarrow> J (current_load (ct_registry (sd_control s0)) (list_tasks (sd_queue s)), []) s"
    and step: "\<And>t acc s x s' u. J acc s \<Longrightarrow> queue_wf (sd_queue s) \<Longrightarrow> queue_wf (sd_queue s') \<Longrightarrow> evolves (sd_queue s0) (sd_queue s) \<Longrightarrow>
        same_fleet (ct_registry (sd_control s0)) (ct_registry (sd_control s)) \<Longrightarrow>
        get_task (tk_task_id t) (sd_queue s) = Some u \<Longrightarrow> tk_task u = tk_task t \<Longrightarrow> step_result en t acc s x s' \<Longrightarrow>
        case x of Inl _ \<Rightarrow> R s' | Inr acc' \<Rightarrow> J acc' s'"
    and ends: "\<And>acc s. J acc s \<Longrightarrow> R s" "\<And>s. since s0 s \<Longrightarrow> R s"
  shows "dispatch_once en s0 = (x, s') \<Longrightarrow> R s'"
proof -
  have tail: "sm_runs (since s0) (dispatch_tail en ms) (\<lambda>_. R) R" for ms
  proof (rule sm_runsI)
    fix s x s'
    assume s: "since s0 s" and run: "dispatch_tail en ms s = (x, s')"
    let ?acc = "(current_load (ct_registry (sd_control s)) (list_tasks (sd_queue s)), [])"
    have "loops s0 (sd_queue s) J ?acc s" using s start [OF s] ok by (simp add: loops_def since_def)
    moreover have "sm_runs (loops s0 (sd_queue s) J ?acc)
        (smfold (dispatch_task en ms) (filter (runnable (en_now en) (sd_queue s)) (list_tasks (sd_queue s))) ?acc) (loops s0 (sd_queue s) J) R"
    proof (rule sm_runs_fold)
      fix t acc
      assume "t \<in> set (filter (runnable (en_now en) (sd_queue s)) (list_tasks (sd_queue s)))"
      then have "current t (sd_queue s)" using s list_tasks_current(2) by (simp add: since_def)
      then show "sm_runs (loops s0 (sd_queue s) J acc) (dispatch_task en ms t acc) (loops s0 (sd_queue s) J) R"
        by (rule dispatch_loop [OF pos]) (rule step)
    qed
    ultimately have "case x of Inl _ \<Rightarrow> R s' | Inr acc \<Rightarrow> loops s0 (sd_queue s) J acc s'"
      using run unfolding dispatch_tail_def sm_runs_def by blast
    then show "case x of Inl _ \<Rightarrow> R s' | Inr _ \<Rightarrow> R s'" using ends(1) by (auto simp: loops_def split: sum.splits)
  qed
  note fails = sm_runs_fails [OF _ ends(2)]
  have "sm_runs (since s0) (dispatch_pass en) (\<lambda>_. R) R"
    unfolding dispatch_pass_tail
  proof (intro sm_runs_bind [OF fails [OF since_quiet [OF unclaiming_expire safely_expire_claims]]])
    fix y :: nat
    show "sm_runs (since s0) (smbind (smget (\<lambda>s. (list_tasks (sd_queue s), workers_of (ct_registry (sd_control s)) (ca_now (en_call en)))))
        (\<lambda>(ts, ws). smbind (smfold (reconcile_generation en ts ws) ts []) (dispatch_tail en))) (\<lambda>_. R) R"
      by (rule sm_runs_bind [OF sm_runs_get])
        (auto intro!: sm_runs_weaken [OF sm_runs_bind [OF fails [OF sm_runs_fold [where I = "\<lambda>_. since s0"]] tail]] since_reconcile)
  qed
  moreover have "since s0 s0" using wf by (simp add: since_def)
  ultimately show "dispatch_once en s0 = (x, s') \<Longrightarrow> R s'"
    unfolding sm_runs_def dispatch_once_def smbind_def smreturn_def by (fastforce split: sum.splits prod.splits)
qed

section \<open>Who holds the claims\<close>

lemma quiet_within: "quiet q q' \<Longrightarrow> each_task (claims_within K) q \<Longrightarrow> each_task (claims_within K) q'"
  unfolding quiet_def claims_within_def by metis

lemma claims_only_within:
  assumes "claims_only tid a q q'" and "each_task (claims_within K) q" and "get_task tid q = Some u"
    and "\<And>c. cl_agent_id c = a \<Longrightarrow> K tid (Some c) (tk_task u)"
  shows "each_task (claims_within K) q'"
  unfolding claims_within_def
proof (intro allI impI)
  fix k t'
  assume "get_task k q' = Some t'" and "tk_state t' = CLAIMED"
  then obtain t where t: "get_task k q = Some t" "tk_task t = tk_task t'"
    and which: "tk_state t = CLAIMED \<and> tk_claim t = tk_claim t' \<or> k = tid \<and> (\<exists>c. tk_claim t' = Some c \<and> cl_agent_id c = a)"
    using assms(1) unfolding claims_only_def by blast
  from which show "K k (tk_claim t') (tk_task t')"
  proof
    assume "tk_state t = CLAIMED \<and> tk_claim t = tk_claim t'"
    then show ?thesis using assms(2) t by (metis claims_within_def)
  next
    assume new: "k = tid \<and> (\<exists>c. tk_claim t' = Some c \<and> cl_agent_id c = a)"
    then have "tk_task u = tk_task t'" using t assms(3) by simp
    then show ?thesis using new assms(4) by auto
  qed
qed

lemma pass_claims:
  assumes pos: "1 \<le> sc_max_inflight_per_agent (en_scheduler en)"
    and wf: "queue_wf (sd_queue s)" and ok: "registry_ok (ct_registry (sd_control s))" and run: "dispatch_once en s = (x, s')"
  shows "each_task (claims_within (\<lambda>tid c p.
      (\<exists>t0. get_task tid (sd_queue s) = Some t0 \<and> tk_state t0 = CLAIMED \<and> tk_claim t0 = c)
      \<or> (\<exists>cl. c = Some cl \<and> may_run (ct_registry (sd_control s)) (ca_now (en_call en)) p (cl_agent_id cl)
           \<and> \<not> foreign_generation (q_generation (sd_queue s)) p))) (sd_queue s')"
    (is "each_task (claims_within ?K) _")
proof -
  have start: "each_task (claims_within ?K) (sd_queue s1)" if "since s s1" for s1
    using that unfolding since_def quiet_def claims_within_def by blast
  have step: "case x of Inl _ \<Rightarrow> each_task (claims_within ?K) (sd_queue s2) | Inr acc' \<Rightarrow> each_task (claims_within ?K) (sd_queue s2)"
    if J: "each_task (claims_within ?K) (sd_queue s1)" and ev: "evolves (sd_queue s) (sd_queue s1)"
      and fleet: "same_fleet (ct_registry (sd_control s)) (ct_registry (sd_control s1))"
      and u: "get_task (tk_task_id t) (sd_queue s1) = Some u" "tk_task u = tk_task t" and res: "step_result en t acc s1 x s2"
    for t acc s1 x s2 u
  proof -
    have gen: "q_generation (sd_queue s1) = q_generation (sd_queue s)" using ev by (simp add: evolves_def)
    have "each_task (claims_within ?K) (sd_queue s2)"
    proof (cases "quiet (sd_queue s1) (sd_queue s2)")
      case True
      then show ?thesis using J by (rule quiet_within)
    next
      case False
      then obtain a where a: "may_run (ct_registry (sd_control s)) (ca_now (en_call en)) (tk_task t) a"
        "\<not> foreign_generation (q_generation (sd_queue s)) (tk_task t)" "claims_only (tk_task_id t) a (sd_queue s1) (sd_queue s2)"
        using res gen same_fleet_works(1) [OF fleet] unfolding step_result_def by auto
      show ?thesis by (rule claims_only_within [OF a(3) J u(1)]) (use a(1,2) u(2) in simp)
    qed
    then show ?thesis by (simp split: sum.split)
  qed
  show ?thesis
    by (rule dispatch_pass_runs [where J = "\<lambda>_ s. each_task (claims_within ?K) (sd_queue s)", OF pos wf ok _ _ _ _ run])
      (erule start | erule (5) step | assumption)+
qed

lemma residency_pool:
  assumes "validate_dispatch pc po conn = Inr u" and "po_residency_locations po \<noteq> []" and "[] \<notin> set (keys_of (pc_pools pc))"
    and "pool_fits pc po p k" and "map_of (pc_pools pc) k = Some pl"
  shows "pl_location pl \<in> set (po_residency_locations po) \<and> pl_storage_profile pl = pc_active_storage_profile pc"
proof -
  obtain v where v: "validate_residency pc po conn = Inr v"
    and active: "\<forall>k\<in>set (policy_pools po). \<exists>pl. map_of (pc_pools pc) k = Some pl \<and> pl_storage_profile pl = pc_active_storage_profile pc"
  proof -
    from assms(1) show thesis
      unfolding validate_dispatch_def sbind_Inr ensure_Inr case_option_ex if_not_P [OF assms(2)] by (elim exE conjE) (rule that; assumption)
  qed
  have "map_of (pc_pools pc) [] = None" using assms(3) by (simp add: map_of_eq_None_iff)
  then have "[] \<notin> set (policy_pools po)" using active by (metis option.distinct(1))
  then have "policy_targets po = policy_pools po" "[] \<notin> set (policy_targets po)" "policy_targets po \<noteq> []"
    by (auto simp: policy_targets_def policy_pools_def)
  then have mem: "k \<in> set (policy_pools po)" using assms(4) by (auto simp: pool_fits_def)
  have "Some (pl_location pl) \<in> Some ` set (po_residency_locations po)"
  proof -
    have "map_option pl_location (map_of (pc_pools pc) k) \<in> chain_locations pc po" using mem unfolding chain_locations_def by blast
    then show ?thesis using residency_confined [OF v assms(2)] assms(5) by auto
  qed
  then show ?thesis using active mem assms(5) by auto
qed

text \<open>
  C13: The claims a dispatch pass hands out. Whatever happens during the pass (refused or failing writes, a failing registry), every task that is
  claimed afterwards either held the same claim before, or is claimed by a registered agent that is alive, a materializer and not
  draining, for the current generation; with tenants the agent, the task and the dataset have the same tenant, and with
  placement rules the agent's pool is allowed to read the table, and lies in the residency locations of a constrained table, at the
  active store.
\<close>

theorem dispatch_claims_authorized:
  assumes "queue_wf (sd_queue s)" and "registry_ok rg" and "rg = ct_registry (sd_control s)" and "[] \<notin> set (keys_of (pc_pools (re_placement rg)))"
    and "1 \<le> sc_max_inflight_per_agent (en_scheduler en)" and "dispatch_once en s = (x, s')"
    and "get_task tid (sd_queue s') = Some t" and "tk_state t = CLAIMED"
  shows "(\<exists>t0. get_task tid (sd_queue s) = Some t0 \<and> tk_state t0 = CLAIMED \<and> tk_claim t0 = tk_claim t)
    \<or> (\<exists>c r. tk_claim t = Some c \<and> map_of (re_agents rg) (cl_agent_id c) = Some r
         \<and> record_alive rg (ca_now (en_call en)) r \<and> ''materializer'' \<in> set (ar_capabilities r) \<and> \<not> ar_draining r
         \<and> \<not> foreign_generation (q_generation (sd_queue s)) (tk_task t)
         \<and> (pc_tenants (re_placement rg) \<noteq> [] \<longrightarrow> ar_tenant_id r = mt_tenant_id (tk_task t)
              \<and> mt_tenant_id (tk_task t) = po_tenant_id (policy_of rg (tk_task t)))
         \<and> (placement_enabled (re_placement rg) \<longrightarrow>
              (\<exists>pl. map_of (pc_pools (re_placement rg)) (ar_pool_id r) = Some pl
                 \<and> allows pl (mt_connection_id (tk_task t)) (mt_source_table (tk_task t))
                 \<and> (po_residency_locations (policy_of rg (tk_task t)) \<noteq> [] \<longrightarrow>
                      pl_location pl \<in> set (po_residency_locations (policy_of rg (tk_task t)))
                      \<and> pl_storage_profile pl = pc_active_storage_profile (re_placement rg)))))"
proof -
  have "(\<exists>t0. get_task tid (sd_queue s) = Some t0 \<and> tk_state t0 = CLAIMED \<and> tk_claim t0 = tk_claim t)
      \<or> (\<exists>c. tk_claim t = Some c \<and> may_run rg (ca_now (en_call en)) (tk_task t) (cl_agent_id c)
           \<and> \<not> foreign_generation (q_generation (sd_queue s)) (tk_task t))" (is "?before \<or> ?new")
    using pass_claims [OF assms(5,1) assms(2) [unfolded assms(3)] assms(6)] assms(3,7,8) by (simp add: claims_within_def)
  then show ?thesis
  proof
    assume ?before
    then show ?thesis by blast
  next
    assume ?new
    then obtain c r where c: "tk_claim t = Some c" and r: "map_of (re_agents rg) (cl_agent_id c) = Some r"
      "record_alive rg (ca_now (en_call en)) r" "''materializer'' \<in> set (ar_capabilities r)" "\<not> ar_draining r"
      and gen: "\<not> foreign_generation (q_generation (sd_queue s)) (tk_task t)"
      and tenant: "validate_task_tenant (re_placement rg) (mt_tenant_id (tk_task t)) (policy_of rg (tk_task t)) = Inr ()"
        "pc_tenants (re_placement rg) \<noteq> [] \<longrightarrow> ar_tenant_id r = mt_tenant_id (tk_task t)"
      and dispatch: "validate_dispatch (re_placement rg) (policy_of rg (tk_task t)) (mt_connection_id (tk_task t)) = Inr ()"
      and pool: "placement_enabled (re_placement rg) \<longrightarrow> pool_fits (re_placement rg) (policy_of rg (tk_task t)) (tk_task t) (ar_pool_id r)"
      unfolding may_run_def by blast
    have "pc_tenants (re_placement rg) \<noteq> [] \<longrightarrow> mt_tenant_id (tk_task t) = po_tenant_id (policy_of rg (tk_task t))"
      using tenant(1) by (auto simp: validate_task_tenant_def ensure_Inr)
    moreover have "\<exists>pl. map_of (pc_pools (re_placement rg)) (ar_pool_id r) = Some pl
        \<and> allows pl (mt_connection_id (tk_task t)) (mt_source_table (tk_task t))
        \<and> (po_residency_locations (policy_of rg (tk_task t)) \<noteq> [] \<longrightarrow>
             pl_location pl \<in> set (po_residency_locations (policy_of rg (tk_task t)))
             \<and> pl_storage_profile pl = pc_active_storage_profile (re_placement rg))"
      if "placement_enabled (re_placement rg)"
      using pool that residency_pool [OF dispatch _ assms(4)] by (auto simp: pool_fits_def)
    ultimately show ?thesis using c r gen tenant(2) by blast
  qed
qed

section \<open>How many claims are held\<close>

definition held_by :: "(string \<Rightarrow> materialize_task \<Rightarrow> bool) \<Rightarrow> task \<Rightarrow> bool" where
  "held_by P t \<longleftrightarrow>
     tk_state t = CLAIMED \<and> (case tk_claim t of None \<Rightarrow> False | Some c \<Rightarrow> cl_agent_id c \<noteq> [] \<and> P (cl_agent_id c) (tk_task t))"

definition held :: "(string \<Rightarrow> materialize_task \<Rightarrow> bool) \<Rightarrow> queue \<Rightarrow> int" where
  "held P q = int (length (filter (held_by P) (map snd (q_tasks q))))"

lemma held_card:
  assumes "queue_wf q"
  shows "held P q = int (card {tid. \<exists>t. get_task tid q = Some t \<and> held_by P t})"
    and "finite {tid. \<exists>t. get_task tid q = Some t \<and> held_by P t}"
proof -
  have keys: "distinct (keys_of (q_tasks q))" using assms by (simp add: queue_wf_def)
  let ?xs = "filter (\<lambda>x. held_by P (snd x)) (q_tasks q)"
  have eq: "{tid. \<exists>t. get_task tid q = Some t \<and> held_by P t} = fst ` set ?xs"
    using keys by (force simp: get_task_def)
  then show "finite {tid. \<exists>t. get_task tid q = Some t \<and> held_by P t}" by simp
  have "distinct (map fst ?xs)" using keys by (simp add: distinct_map_filter)
  then have "card (fst ` set ?xs) = length ?xs" by (metis distinct_card length_map list.set_map)
  then show "held P q = int (card {tid. \<exists>t. get_task tid q = Some t \<and> held_by P t})"
    unfolding eq held_def by (simp add: filter_map comp_def)
qed

lemma held_quiet:
  assumes "quiet q q'" and "queue_wf q" and "queue_wf q'"
  shows "held P q' \<le> held P q"
proof -
  have "{tid. \<exists>t. get_task tid q' = Some t \<and> held_by P t} \<subseteq> {tid. \<exists>t. get_task tid q = Some t \<and> held_by P t}"
    using assms(1) unfolding quiet_def held_by_def by (auto split: option.splits) (metis option.inject)
  then show ?thesis by (simp add: held_card assms(2,3) card_mono)
qed

lemma held_claims_only:
  assumes "claims_only tid a q q'" and "queue_wf q" and "queue_wf q'" and "get_task tid q = Some u"
  shows "held P q' \<le> held P q + of_bool (P a (tk_task u))"
proof -
  let ?H = "\<lambda>q. {tid. \<exists>t. get_task tid q = Some t \<and> held_by P t}"
  have sub: "k \<in> ?H q \<or> k = tid \<and> P a (tk_task u)" if k: "k \<in> ?H q'" for k
  proof -
    obtain t' c where t': "get_task k q' = Some t'" "tk_state t' = CLAIMED" "tk_claim t' = Some c" "cl_agent_id c \<noteq> []"
      "P (cl_agent_id c) (tk_task t')"
      using k by (auto simp: held_by_def split: option.splits)
    obtain t where t: "get_task k q = Some t" "tk_task t = tk_task t'"
      and which: "tk_state t = CLAIMED \<and> tk_claim t = tk_claim t' \<or> k = tid \<and> (\<exists>c. tk_claim t' = Some c \<and> cl_agent_id c = a)"
      using assms(1) t'(1,2) unfolding claims_only_def by blast
    from which show ?thesis
    proof
      assume "tk_state t = CLAIMED \<and> tk_claim t = tk_claim t'"
      then show ?thesis using t t' by (auto simp: held_by_def)
    next
      assume "k = tid \<and> (\<exists>c. tk_claim t' = Some c \<and> cl_agent_id c = a)"
      then show ?thesis using t t' assms(4) by auto
    qed
  qed
  show ?thesis
  proof (cases "P a (tk_task u)")
    case True
    have "?H q' \<subseteq> insert tid (?H q)" using sub by blast
    then have "card (?H q') \<le> card (insert tid (?H q))" using held_card(2) [OF assms(2)] by (intro card_mono) simp_all
    also have "\<dots> \<le> Suc (card (?H q))" using held_card(2) [OF assms(2)] by (simp add: card_insert_if)
    finally show ?thesis using True by (simp add: held_card assms(2,3))
  next
    case False
    then have "?H q' \<subseteq> ?H q" using sub by blast
    then have "card (?H q') \<le> card (?H q)" using held_card(2) [OF assms(2)] by (rule card_mono [rotated])
    then show ?thesis using False by (simp add: held_card assms(2,3))
  qed
qed

text \<open>A counter of the pass and the claims it counts.\<close>

locale claim_counter =
  fixes get :: "load \<Rightarrow> int" and counts :: "registry \<Rightarrow> string \<Rightarrow> materialize_task \<Rightarrow> bool"
  assumes none: "get no_load = 0"
    and add: "get (add_claim rg a p lo) = get lo + of_bool (counts rg a p)"
    and fleet: "same_fleet rg rg' \<Longrightarrow> counts rg' = counts rg"
begin

lemma counted: "get (fold (count_claim rg) ts lo) = get lo + int (length (filter (held_by (counts rg)) ts))"
  by (induction ts arbitrary: lo) (simp_all add: count_claim_def held_by_def add split: option.split)

lemma current: "get (current_load rg (list_tasks q)) = held (counts rg) q"
proof -
  have "length (filter P (sort_key f xs)) = length (filter P xs)" for P and f :: "task \<Rightarrow> string" and xs
    by (simp add: filter_sort)
  then show ?thesis by (simp add: current_load_def counted none held_def list_tasks_def)
qed

lemma pass_bound:
  assumes pos: "1 \<le> sc_max_inflight_per_agent (en_scheduler en)"
    and wf: "queue_wf (sd_queue s)" and rg: "rg = ct_registry (sd_control s)" and ok: "registry_ok rg" and run: "dispatch_once en s = (x, s')"
    and limit: "\<And>lo p a. has_room (en_scheduler en) rg lo p a \<Longrightarrow> may_run rg (ca_now (en_call en)) p a \<Longrightarrow> counts rg a p \<Longrightarrow> get lo < n"
  shows "held (counts rg) (sd_queue s') \<le> max n (held (counts rg) (sd_queue s))"
proof -
  let ?H = "held (counts rg)" and ?max = "max n (held (counts rg) (sd_queue s))"
  let ?R = "\<lambda>s. ?H (sd_queue s) \<le> ?max" and ?J = "\<lambda>acc s. ?H (sd_queue s) \<le> get (fst acc) \<and> get (fst acc) \<le> ?max"
  have start: "?H (sd_queue s1) \<le> ?H (sd_queue s)" if "since s s1" for s1
    using that wf unfolding since_def by (blast intro: held_quiet)
  have step: "case y of Inl _ \<Rightarrow> ?R s2 | Inr acc' \<Rightarrow> ?J acc' s2"
    if J: "?J acc s1" and wf1: "queue_wf (sd_queue s1)" and wf2: "queue_wf (sd_queue s2)"
      and same: "same_fleet (ct_registry (sd_control s)) (ct_registry (sd_control s1))"
      and u: "get_task (tk_task_id t) (sd_queue s1) = Some u" "tk_task u = tk_task t" and res: "step_result en t acc s1 y s2"
    for t acc s1 y s2 u
  proof (cases "quiet (sd_queue s1) (sd_queue s2) \<and> (y = Inr acc \<or> (\<exists>e. y = Inl e))")
    case True
    then have "?H (sd_queue s2) \<le> ?H (sd_queue s1)" using wf1 wf2 by (blast intro: held_quiet)
    then show ?thesis using True J by (auto split: sum.split)
  next
    case False
    then obtain a where a: "may_run rg (ca_now (en_call en)) (tk_task t) a" "has_room (en_scheduler en) rg (fst acc) (tk_task t) a"
      "claims_only (tk_task_id t) a (sd_queue s1) (sd_queue s2)"
      and y: "y = Inr (add_claim (ct_registry (sd_control s1)) a (tk_task t) (fst acc), snd acc @ [(t, a)]) \<or> (\<exists>e. y = Inl e)"
      using res same_fleet_works(1,2) [OF same] rg unfolding step_result_def by auto
    have more: "?H (sd_queue s2) \<le> ?H (sd_queue s1) + of_bool (counts rg a (tk_task t))"
      using held_claims_only [OF a(3) wf1 wf2 u(1)] u(2) by simp
    have room: "get (fst acc) + of_bool (counts rg a (tk_task t)) \<le> ?max"
      using J limit [OF a(2,1)] by (cases "counts rg a (tk_task t)") simp_all
    have "counts (ct_registry (sd_control s1)) = counts rg" using fleet [OF same] rg by simp
    then show ?thesis using y more room J by (auto simp: add split: sum.split)
  qed
  show ?thesis
    by (rule dispatch_pass_runs [where J = ?J and R = ?R, OF pos wf ok [unfolded rg] _ _ _ _ run])
      (use start in \<open>simp add: current rg le_max_iff_disj; fail\<close>, erule (1) step, assumption+,
       (erule conjE, erule (1) order_trans), use start in \<open>simp add: le_max_iff_disj\<close>)
qed

end

interpretation agent_claims: claim_counter "\<lambda>lo. lo_agents lo a" "\<lambda>_ b _. b = a" for a
  by unfold_locales (simp_all add: no_load_def add_claim_def Let_def)

interpretation pool_claims: claim_counter "\<lambda>lo. lo_pools lo k" "\<lambda>rg b _. pool_id_of rg b = k \<and> k \<noteq> []" for k
  by unfold_locales (auto simp: no_load_def add_claim_def Let_def same_fleet_works)

interpretation source_claims: claim_counter "\<lambda>lo. lo_sources lo conn" "\<lambda>_ _ p. mt_connection_id p = conn" for conn
  by unfold_locales (simp_all add: no_load_def add_claim_def Let_def)

interpretation dataset_claims: claim_counter "\<lambda>lo. lo_datasets lo sc"
  "\<lambda>rg _ p. dataset_scope (re_placement rg) (mt_connection_id p) (mt_source_table p) = sc" for sc
  by unfold_locales (simp_all add: no_load_def add_claim_def Let_def same_fleet_works)

lemma limit_room: "\<not> limit_reached (Some m) n \<longleftrightarrow> n < m"
  by (auto simp: limit_reached_def)

lemma table_scope:
  assumes "map_of (pc_tables pc) (conn, tab) = Some po" and "tab \<noteq> []"
  shows "dataset_scope pc c t = (conn, tab) \<longleftrightarrow> c = conn \<and> t = tab"
    and "po_max_concurrency (policy_for pc conn tab) = po_max_concurrency po"
proof -
  have "(conn, tab) \<in> set (keys_of (pc_tables pc))" using assms(1) by (force dest: map_of_SomeD)
  then show "dataset_scope pc c t = (conn, tab) \<longleftrightarrow> c = conn \<and> t = tab" using assms(2) by (auto simp: dataset_scope_def)
  show "po_max_concurrency (policy_for pc conn tab) = po_max_concurrency po" using assms(1) by (simp add: policy_for_def Let_def)
qed

text \<open>
  C14: Concurrency limits. A dispatch pass, also one that fails on the way, leaves the claims of every agent within the in-flight limit
  times its capacity, those of a pool within the pool's limit, those of a table with its own policy within the
  policy's limit, and those of a source within any bound on the source limits of its tables, except for claims that
  exceeded the limit before the pass: it never makes an excess larger.
\<close>

theorem dispatch_within_limits:
  assumes "queue_wf (sd_queue s)" and "registry_ok rg" and "rg = ct_registry (sd_control s)"
    and "1 \<le> sc_max_inflight_per_agent (en_scheduler en)" and "dispatch_once en s = (x, s')"
  shows "(\<forall>a r. map_of (re_agents rg) a = Some r \<longrightarrow>
        held (\<lambda>b _. b = a) (sd_queue s')
          \<le> max (sc_max_inflight_per_agent (en_scheduler en) * capacity_of r) (held (\<lambda>b _. b = a) (sd_queue s)))
    \<and> (\<forall>k pl n. map_of (pc_pools (re_placement rg)) k = Some pl \<and> k \<noteq> [] \<and> pl_max_concurrency pl = Some n \<longrightarrow>
        held (\<lambda>b _. pool_id_of rg b = k) (sd_queue s') \<le> max n (held (\<lambda>b _. pool_id_of rg b = k) (sd_queue s)))
    \<and> (\<forall>conn tab po n. map_of (pc_tables (re_placement rg)) (conn, tab) = Some po \<and> tab \<noteq> [] \<and> po_max_concurrency po = Some n \<longrightarrow>
        held (\<lambda>_ p. mt_connection_id p = conn \<and> mt_source_table p = tab) (sd_queue s')
          \<le> max n (held (\<lambda>_ p. mt_connection_id p = conn \<and> mt_source_table p = tab) (sd_queue s)))
    \<and> (\<forall>conn n. (\<forall>tab. \<exists>m\<le>n. po_source_max_concurrency (policy_for (re_placement rg) conn tab) = Some m) \<longrightarrow>
        held (\<lambda>_ p. mt_connection_id p = conn) (sd_queue s') \<le> max n (held (\<lambda>_ p. mt_connection_id p = conn) (sd_queue s)))"
proof (intro conjI allI impI)
  fix a r
  assume "map_of (re_agents rg) a = Some r"
  then show "held (\<lambda>b _. b = a) (sd_queue s')
      \<le> max (sc_max_inflight_per_agent (en_scheduler en) * capacity_of r) (held (\<lambda>b _. b = a) (sd_queue s))"
    by (intro agent_claims.pass_bound [OF assms(4,1,3,2,5)]) (simp add: has_room_def)
next
  fix k pl n
  assume k: "map_of (pc_pools (re_placement rg)) k = Some pl \<and> k \<noteq> [] \<and> pl_max_concurrency pl = Some n"
  then have "placement_enabled (re_placement rg)" by (auto simp: placement_enabled_def)
  then have "held (\<lambda>b _. pool_id_of rg b = k \<and> k \<noteq> []) (sd_queue s') \<le> max n (held (\<lambda>b _. pool_id_of rg b = k \<and> k \<noteq> []) (sd_queue s))"
    using k by (intro pool_claims.pass_bound [OF assms(4,1,3,2,5)]) (auto simp: has_room_def limit_room)
  then show "held (\<lambda>b _. pool_id_of rg b = k) (sd_queue s') \<le> max n (held (\<lambda>b _. pool_id_of rg b = k) (sd_queue s))" using k by simp
next
  fix conn tab po n
  assume tab: "map_of (pc_tables (re_placement rg)) (conn, tab) = Some po \<and> tab \<noteq> [] \<and> po_max_concurrency po = Some n"
  then have "placement_enabled (re_placement rg)" by (auto simp: placement_enabled_def)
  moreover have scope: "dataset_scope (re_placement rg) c t = (conn, tab) \<longleftrightarrow> c = conn \<and> t = tab" for c t using tab table_scope(1) by blast
  moreover have "po_max_concurrency (policy_for (re_placement rg) conn tab) = Some n" using tab table_scope(2) by simp
  ultimately have "held (\<lambda>_ p. dataset_scope (re_placement rg) (mt_connection_id p) (mt_source_table p) = (conn, tab)) (sd_queue s')
      \<le> max n (held (\<lambda>_ p. dataset_scope (re_placement rg) (mt_connection_id p) (mt_source_table p) = (conn, tab)) (sd_queue s))"
    by (intro dataset_claims.pass_bound [OF assms(4,1,3,2,5)]) (auto simp: has_room_def limit_room policy_of_def)
  then show "held (\<lambda>_ p. mt_connection_id p = conn \<and> mt_source_table p = tab) (sd_queue s')
      \<le> max n (held (\<lambda>_ p. mt_connection_id p = conn \<and> mt_source_table p = tab) (sd_queue s))" unfolding scope .
next
  fix conn n
  assume lim: "\<forall>tab. \<exists>m\<le>n. po_source_max_concurrency (policy_for (re_placement rg) conn tab) = Some m"
  then have "placement_enabled (re_placement rg)"
    by (cases "placement_enabled (re_placement rg)") (simp_all add: placement_enabled_def policy_for_def default_policy_def)
  moreover have "lo < n" if "\<not> limit_reached (po_source_max_concurrency (policy_for (re_placement rg) conn tab)) lo" for tab lo
    using lim [THEN spec, of tab] that by (auto simp: limit_room)
  ultimately show "held (\<lambda>_ p. mt_connection_id p = conn) (sd_queue s') \<le> max n (held (\<lambda>_ p. mt_connection_id p = conn) (sd_queue s))"
    by (intro source_claims.pass_bound [OF assms(4,1,3,2,5)]) (auto simp: has_room_def policy_of_def)
qed

section \<open>An example pass\<close>

text \<open>A pool of one agent that may run one task at a time, and two waiting tasks.\<close>

definition one_pool :: pool where
  "one_pool =
     \<lparr>pl_pool_id = ''p1'', pl_identities = [''a''], pl_location = ''eu'', pl_storage_profile = ''blob'', pl_allowed_connection_ids = [''c''],
      pl_allowed_table_patterns = [], pl_max_concurrency = Some 1, pl_heartbeat_ms = None, pl_heartbeat_miss_limit = None,
      pl_claim_lease_seconds = None, pl_tenant_id = [], pl_upgrade_ring = []\<rparr>"

definition one_agent :: agent_record where
  "one_agent = new_agent 6 ''L1'' (Some one_pool) (demo_register\<lparr>rg_capabilities := [''materializer'']\<rparr>)"

definition example_registry :: registry where
  "example_registry = (new_registry 2000 3 [] (no_placement\<lparr>pc_pools := [(''p1'', one_pool)]\<rparr>))\<lparr>re_agents := [(''a'', one_agent)]\<rparr>"

definition example_queue :: queue where
  "example_queue = empty_queue\<lparr>q_requests := [(''R'', demo_request\<lparr>rq_state := QUEUED, rq_task_ids := [''T'', ''U'']\<rparr>)],
     q_tasks := [(''T'', demo_task), (''U'', demo_task\<lparr>tk_task_id := ''U''\<rparr>)]\<rparr>"

definition example_sched :: "unit sched" where
  "example_sched = \<lparr>sd_queue = example_queue, sd_control = demo_control\<lparr>ct_registry := example_registry\<rparr>\<rparr>"

definition example_env :: "unit env" where
  "example_env =
     \<lparr>en_scheduler = \<lparr>sc_manager_owner = ''m'', sc_manager_fence = 1, sc_max_inflight_per_agent = 2, sc_membership_policy = ''elastic''\<rparr>,
      en_sha = id, en_redact = id, en_config = new_config 120 3 5 60 None, en_now = 10, en_call = demo_call, en_text = demo_text,
      en_token = (\<lambda>tid. tid @ ''-token'')\<rparr>"

lemma example_ok: "queue_wf (sd_queue example_sched)" "registry_ok (ct_registry (sd_control example_sched))"
  "1 \<le> sc_max_inflight_per_agent (en_scheduler example_env)" "[] \<notin> set (keys_of (pc_pools (re_placement (ct_registry (sd_control example_sched)))))"
proof -
  show "queue_wf (sd_queue example_sched)"
    by (auto simp: example_sched_def example_queue_def queue_wf_def empty_queue_def get_task_def get_request_def task_wf_def request_wf_def
        demo_task_def demo_request_def split: if_splits)
  have "validate_agent_version (re_placement example_registry) ''a'' ''1.0'' = Inr ()"
    "pool_for_identity (re_placement example_registry) ''a'' = Some one_pool"
    by (simp_all add: example_registry_def new_registry_def no_placement_def validate_agent_version_def pool_for_identity_def identity_pools_def one_pool_def)
  then have "agent_ok (re_placement example_registry) one_agent"
    using new_agent_ok [of "re_placement example_registry" "demo_register\<lparr>rg_capabilities := [''materializer'']\<rparr>" 6 "''L1''"]
    by (simp add: one_agent_def demo_register_def)
  then show "registry_ok (ct_registry (sd_control example_sched))"
    by (simp add: example_sched_def example_registry_def registry_ok_def one_agent_def demo_register_def new_registry_def)
qed (simp_all add: example_env_def example_sched_def example_registry_def new_registry_def)

lemma example_claim:
  "map_option (\<lambda>t. (tk_state t, mt_connection_id (tk_task t), mt_source_table (tk_task t)))
     (get_task ''T'' (sd_queue (snd (dispatch_once example_env example_sched)))) = Some (CLAIMED, ''c'', ''s'')"
  by code_simp

theorem dispatch_claims_authorized_witness:
  "\<exists>t c r pl. get_task ''T'' (sd_queue (snd (dispatch_once example_env example_sched))) = Some t \<and> tk_state t = CLAIMED \<and> tk_claim t = Some c
     \<and> map_of (re_agents example_registry) (cl_agent_id c) = Some r \<and> record_alive example_registry 7 r
     \<and> map_of (pc_pools (re_placement example_registry)) (ar_pool_id r) = Some pl \<and> allows pl ''c'' ''s''"
proof -
  let ?s' = "snd (dispatch_once example_env example_sched)"
  obtain t where t: "get_task ''T'' (sd_queue ?s') = Some t" "tk_state t = CLAIMED"
    "mt_connection_id (tk_task t) = ''c''" "mt_source_table (tk_task t) = ''s''" using example_claim by auto
  have run: "dispatch_once example_env example_sched = (fst (dispatch_once example_env example_sched), ?s')" by simp
  have q: "get_task ''T'' (sd_queue example_sched) = Some demo_task" "tk_state demo_task \<noteq> CLAIMED"
    by (simp_all add: example_sched_def example_queue_def get_task_def demo_task_def)
  have rg: "ct_registry (sd_control example_sched) = example_registry" by (simp add: example_sched_def)
  have enabled: "placement_enabled (re_placement example_registry)"
    by (simp add: placement_enabled_def example_registry_def new_registry_def)
  have now: "ca_now (en_call example_env) = 7" by (simp add: example_env_def demo_call_def)
  have "\<exists>c r pl. tk_claim t = Some c \<and> map_of (re_agents example_registry) (cl_agent_id c) = Some r \<and> record_alive example_registry 7 r
      \<and> map_of (pc_pools (re_placement example_registry)) (ar_pool_id r) = Some pl \<and> allows pl ''c'' ''s''"
    using dispatch_claims_authorized [OF example_ok(1,2) refl example_ok(4,3) run t(1,2)] q enabled
    unfolding rg now t(3,4) by (metis option.inject)
  then show ?thesis using t(1,2) by blast
qed

theorem dispatch_within_limits_witness:
  "held (\<lambda>b _. pool_id_of example_registry b = ''p1'') (sd_queue (snd (dispatch_once example_env example_sched))) \<le> 1"
proof -
  let ?s' = "snd (dispatch_once example_env example_sched)"
  have run: "dispatch_once example_env example_sched = (fst (dispatch_once example_env example_sched), ?s')" by simp
  have rg: "ct_registry (sd_control example_sched) = example_registry" by (simp add: example_sched_def)
  have pool: "map_of (pc_pools (re_placement example_registry)) ''p1'' = Some one_pool \<and> ''p1'' \<noteq> [] \<and> pl_max_concurrency one_pool = Some 1"
    by (simp add: example_registry_def new_registry_def one_pool_def)
  have none: "held P (sd_queue example_sched) = 0" for P
    by (simp add: held_def held_by_def example_sched_def example_queue_def demo_task_def)
  have "held (\<lambda>b _. pool_id_of example_registry b = ''p1'') (sd_queue ?s')
      \<le> max 1 (held (\<lambda>b _. pool_id_of example_registry b = ''p1'') (sd_queue example_sched))"
    using dispatch_within_limits [OF example_ok(1,2) refl example_ok(3) run] pool unfolding rg by blast
  then show ?thesis by (simp add: none)
qed

end
