(* ===== verification/Snapshots.thy ===== *)
theory Snapshots
  imports Prelude
begin

text \<open>
  The registry of served table versions (\<open>iceberg/state_store.py\<close>): object paths of a table, deterministic snapshots, the current
  version and the retained history of every table, and the resolution of object keys to splits.

  The settings the code reads from \<open>config\<close> are in \<open>layout\<close>. The hexadecimal SHA-256 digest is the argument \<open>sha\<close>, and the server and
  database of a connection (taken from its URL by SQLAlchemy) the argument \<open>ident\<close>. A split keeps the fields that the registry,
  the listings and the logs use; column statistics and the key range of the planner are left out.
\<close>

section \<open>Tables, splits and snapshots\<close>

record table_column =
  tc_name :: string
  tc_type :: string
  tc_nullable :: bool

record served_table =
  st_name :: string
  st_source_table :: string
  st_schema :: "table_column list"
  st_num_splits :: int
  st_key_column :: string
  st_connection_id :: string
  st_strategy :: string
  st_target_rows :: int

record split =
  sp_index :: int
  sp_num_splits :: int
  sp_object_key :: string
  sp_watermark_ms :: int
  sp_record_count :: "int option"
  sp_file_size :: "int option"
  sp_content_hash :: "string option"
  sp_s3_etag :: "string option"
  sp_canonical_key :: "string option"

record snapshot =
  ss_snapshot_id :: int
  ss_sequence_number :: int
  ss_watermark_ms :: int
  ss_manifest_list_key :: string
  ss_manifest_file_key :: string
  ss_metadata_key :: string
  ss_version_hint_key :: string
  ss_table :: served_table
  ss_table_path :: string
  ss_legacy_table_path :: string
  ss_splits :: "split list"
  ss_version :: int
  ss_uuid :: string
  ss_total_records :: "int option"

record catalog =
  cg_snapshots :: "(string, snapshot) dict"
  cg_history :: "(string, snapshot list) dict"

record layout =
  ly_canonical :: bool
  ly_aliases :: bool
  ly_bucket :: string
  ly_warehouse_prefix :: string
  ly_history_limit :: int

abbreviation snapshot_name :: "snapshot \<Rightarrow> string" where
  "snapshot_name s \<equiv> st_name (ss_table s)"

definition empty_catalog :: catalog where
  "empty_catalog = \<lparr>cg_snapshots = [], cg_history = []\<rparr>"

section \<open>Object paths\<close>

definition segment_char :: "char \<Rightarrow> bool" where
  "segment_char c \<longleftrightarrow> c \<in> set ''ABCDEFGHIJKLMNOPQRSTUVWXYZabcdefghijklmnopqrstuvwxyz0123456789._-''"

text \<open>\<open>re.sub(r"[^A-Za-z0-9._-]+", "_", v)\<close>.\<close>

function squash :: "string \<Rightarrow> string" where
  "squash [] = []"
| "squash (c # cs) = (if segment_char c then c # squash cs else CHR ''_'' # squash (dropWhile (\<lambda>d. \<not> segment_char d) cs))"
  by pat_completeness auto
termination by (relation "measure length") (auto simp: le_imp_less_Suc length_dropWhile_le)

definition safe_segment :: "string \<Rightarrow> string \<Rightarrow> string" where
  "safe_segment s fallback =
     (let v = py_strip_space s; w = squash (if v = [] then fallback else v) in if w = [] then fallback else w)"

definition split_source_table :: "string \<Rightarrow> string \<times> string" where
  "split_source_table s =
     (if CHR ''.'' \<in> set s then
        let name = rev (takeWhile (\<lambda>c. c \<noteq> CHR ''.'') (rev s)); schema = rev (tl (dropWhile (\<lambda>c. c \<noteq> CHR ''.'') (rev s))) in
        (if schema = [] then ''default'' else schema, if name = [] then ''table'' else name)
      else (''default'', if s = [] then ''table'' else s))"

definition legacy_table_path :: "layout \<Rightarrow> served_table \<Rightarrow> string" where
  "legacy_table_path ly t = ly_warehouse_prefix ly @ ''/'' @ safe_segment (st_name t) ''table''"

definition canonical_table_path :: "layout \<Rightarrow> (string \<Rightarrow> string \<times> string) \<Rightarrow> served_table \<Rightarrow> string" where
  "canonical_table_path ly ident t =
     (let (server, database) = ident (st_connection_id t); (schema, obj) = split_source_table (st_source_table t) in
      ly_warehouse_prefix ly @ ''/'' @ safe_segment server ''local'' @ ''/'' @ safe_segment database ''default'' @ ''/''
        @ safe_segment schema ''default'' @ ''/'' @ safe_segment obj ''table'')"

definition active_table_path :: "layout \<Rightarrow> (string \<Rightarrow> string \<times> string) \<Rightarrow> served_table \<Rightarrow> string" where
  "active_table_path ly ident t = (if ly_canonical ly then canonical_table_path ly ident t else legacy_table_path ly t)"

section \<open>Reading the registry\<close>

definition get_all_snapshots :: "catalog \<Rightarrow> snapshot list" where
  "get_all_snapshots c = (if cg_history c \<noteq> [] then concat (map snd (cg_history c)) else map snd (cg_snapshots c))"

definition get_snapshot_history :: "string \<Rightarrow> catalog \<Rightarrow> snapshot list" where
  "get_snapshot_history name c = (case map_of (cg_history c) name of None \<Rightarrow> [] | Some h \<Rightarrow> h)"

datatype lookup_error = No_Snapshot | Not_Initialised | Several_Tables

definition get_snapshot :: "string option \<Rightarrow> catalog \<Rightarrow> lookup_error + snapshot" where
  "get_snapshot name c =
     (case name of
        Some n \<Rightarrow> (case map_of (cg_snapshots c) n of None \<Rightarrow> Inl No_Snapshot | Some s \<Rightarrow> Inr s)
      | None \<Rightarrow>
          (case cg_snapshots c of
             [] \<Rightarrow> Inl Not_Initialised
           | [(_, s)] \<Rightarrow> Inr s
           | _ \<Rightarrow> Inl Several_Tables))"

definition below :: "string \<Rightarrow> string \<Rightarrow> bool" where
  "below root key \<longleftrightarrow> key = root \<or> py_startswith key (root @ ''/'')"

definition alias_to_active_key :: "layout \<Rightarrow> catalog \<Rightarrow> string \<Rightarrow> string" where
  "alias_to_active_key ly c key =
     (if \<not> (ly_canonical ly \<and> ly_aliases ly) then key
      else (case List.find (\<lambda>s. below (ss_legacy_table_path s) key) (get_all_snapshots c) of
              None \<Rightarrow> key
            | Some s \<Rightarrow> ss_table_path s @ drop (length (ss_legacy_table_path s)) key))"

definition active_to_legacy_key :: "snapshot \<Rightarrow> string \<Rightarrow> string" where
  "active_to_legacy_key s key =
     (if below (ss_table_path s) key then ss_legacy_table_path s @ drop (length (ss_table_path s)) key else key)"

definition split_matches :: "string \<Rightarrow> split \<Rightarrow> bool" where
  "split_matches key s \<longleftrightarrow> sp_object_key s = key \<or> sp_canonical_key s = Some key"

definition get_split_by_key :: "layout \<Rightarrow> catalog \<Rightarrow> string \<Rightarrow> split option" where
  "get_split_by_key ly c key0 =
     (let key = alias_to_active_key ly c key0 in
      List.find (split_matches key)
        (concat (map ss_splits (map snd (cg_snapshots c) @ concat (map snd (cg_history c))))))"

section \<open>Changing the registry\<close>

definition hex_int :: "string \<Rightarrow> int" where
  "hex_int s = fold (\<lambda>c n. 16 * n + (case hex_value c of None \<Rightarrow> 0 | Some v \<Rightarrow> int v)) s 0"

definition watermark_of :: "string \<Rightarrow> int" where
  "watermark_of digest = 1700000000000 + hex_int (take 10 (drop 15 digest)) mod 86400000"

definition snapshot_seed :: "layout \<Rightarrow> string \<Rightarrow> served_table \<Rightarrow> string" where
  "snapshot_seed ly path t =
     ly_bucket ly @ ''/'' @ path @ ''|source='' @ st_source_table t @ ''|key='' @ st_key_column t
       @ ''|splits='' @ py_str_int (st_num_splits t) @ ''|strategy='' @ st_strategy t @ ''|target='' @ py_str_int (st_target_rows t)"

definition new_split :: "served_table \<Rightarrow> string \<Rightarrow> int \<Rightarrow> int \<Rightarrow> int \<Rightarrow> split" where
  "new_split t path snap_id now_ms i =
     \<lparr>sp_index = i, sp_num_splits = st_num_splits t,
      sp_object_key = path @ ''/data/split-'' @ py_str_int i @ ''-'' @ py_str_int snap_id @ ''.parquet'', sp_watermark_ms = now_ms,
      sp_record_count = None, sp_file_size = None, sp_content_hash = None, sp_s3_etag = None, sp_canonical_key = None\<rparr>"

definition new_snapshot :: "layout \<Rightarrow> (string \<Rightarrow> string) \<Rightarrow> (string \<Rightarrow> string \<times> string) \<Rightarrow> served_table \<Rightarrow> snapshot" where
  "new_snapshot ly sha ident t =
     (let path = active_table_path ly ident t; digest = sha (snapshot_seed ly path t);
          snap_id = hex_int (take 15 digest); uuid = take 32 digest; now_ms = watermark_of digest in
      \<lparr>ss_snapshot_id = snap_id, ss_sequence_number = 1, ss_watermark_ms = now_ms,
       ss_manifest_list_key = path @ ''/metadata/snap-'' @ py_str_int snap_id @ ''-1-'' @ uuid @ ''.avro'',
       ss_manifest_file_key = path @ ''/metadata/'' @ uuid @ ''-m0.avro'', ss_metadata_key = path @ ''/metadata/v1.metadata.json'',
       ss_version_hint_key = path @ ''/metadata/version-hint.text'', ss_table = t, ss_table_path = path,
       ss_legacy_table_path = legacy_table_path ly t,
       ss_splits = map (new_split t path snap_id now_ms) [0..st_num_splits t - 1], ss_version = 1, ss_uuid = [],
       ss_total_records = None\<rparr>)"

definition build_table_snapshot ::
  "layout \<Rightarrow> (string \<Rightarrow> string) \<Rightarrow> (string \<Rightarrow> string \<times> string) \<Rightarrow> served_table \<Rightarrow> catalog \<Rightarrow> snapshot \<times> catalog" where
  "build_table_snapshot ly sha ident t c =
     (let s = new_snapshot ly sha ident t in
      (s, c\<lparr>cg_snapshots := AList.update (st_name t) s (cg_snapshots c), cg_history := AList.update (st_name t) [s] (cg_history c)\<rparr>))"

definition build_all_snapshots ::
  "layout \<Rightarrow> (string \<Rightarrow> string) \<Rightarrow> (string \<Rightarrow> string \<times> string) \<Rightarrow> served_table list \<Rightarrow> catalog \<Rightarrow> catalog" where
  "build_all_snapshots ly sha ident ts c = fold (\<lambda>t c. snd (build_table_snapshot ly sha ident t c)) ts empty_catalog"

definition advanced :: "layout \<Rightarrow> (string \<Rightarrow> string) \<Rightarrow> snapshot \<Rightarrow> snapshot" where
  "advanced ly sha cur =
     (let path = ss_table_path cur; version = ss_version cur + 1;
          digest = sha (ly_bucket ly @ ''/'' @ path @ ''/v'' @ py_str_int version);
          snap_id = hex_int (take 15 digest); uuid = take 32 digest; seq = ss_sequence_number cur + 1 in
      cur\<lparr>ss_snapshot_id := snap_id, ss_sequence_number := seq, ss_watermark_ms := ss_watermark_ms cur + 1000 * version,
          ss_manifest_list_key := path @ ''/metadata/snap-'' @ py_str_int snap_id @ ''-'' @ py_str_int seq @ ''-'' @ uuid @ ''.avro'',
          ss_manifest_file_key := path @ ''/metadata/'' @ uuid @ ''-m'' @ py_str_int version @ ''.avro'',
          ss_metadata_key := path @ ''/metadata/v'' @ py_str_int version @ ''.metadata.json'', ss_version := version, ss_uuid := []\<rparr>)"

definition advance_table_snapshot ::
  "layout \<Rightarrow> (string \<Rightarrow> string) \<Rightarrow> string \<Rightarrow> catalog \<Rightarrow> (lookup_error + snapshot) \<times> catalog" where
  "advance_table_snapshot ly sha name c =
     (case map_of (cg_snapshots c) name of
        None \<Rightarrow> (Inl No_Snapshot, c)
      | Some cur \<Rightarrow>
          let new = advanced ly sha cur; key = snapshot_name cur;
              hist = (case map_of (cg_history c) key of None \<Rightarrow> [cur] | Some h \<Rightarrow> h) in
          (Inr new, c\<lparr>cg_snapshots := AList.update key new (cg_snapshots c), cg_history := AList.update key (hist @ [new]) (cg_history c)\<rparr>))"

text \<open>The number of versions \<open>register_snapshot\<close> drops from the front of a history.\<close>

definition excess :: "layout \<Rightarrow> 'a list \<Rightarrow> nat" where
  "excess ly hist = length hist - nat (max 1 (ly_history_limit ly))"

definition register_snapshot :: "layout \<Rightarrow> snapshot \<Rightarrow> catalog \<Rightarrow> snapshot list \<times> catalog" where
  "register_snapshot ly s c =
     (let name = snapshot_name s; hist = get_snapshot_history name c @ [s] in
      (take (excess ly hist) hist,
       c\<lparr>cg_snapshots := AList.update name s (cg_snapshots c),
         cg_history := AList.update name (drop (excess ly hist) hist) (cg_history c)\<rparr>))"

definition unregister_snapshot :: "string \<Rightarrow> catalog \<Rightarrow> catalog" where
  "unregister_snapshot name c =
     c\<lparr>cg_snapshots := AList.delete name (cg_snapshots c), cg_history := AList.delete name (cg_history c)\<rparr>"

section \<open>Well-formed registries\<close>

text \<open>Every table has a non-empty history of strictly increasing versions that ends with its current snapshot.\<close>

definition history_ok :: "string \<Rightarrow> snapshot list \<Rightarrow> bool" where
  "history_ok name h \<longleftrightarrow> h \<noteq> [] \<and> sorted_wrt (<) (map ss_version h) \<and> (\<forall>s\<in>set h. snapshot_name s = name \<and> 1 \<le> ss_version s)"

definition catalog_ok :: "catalog \<Rightarrow> bool" where
  "catalog_ok c \<longleftrightarrow>
     distinct (keys_of (cg_history c)) \<and> distinct (keys_of (cg_snapshots c))
     \<and> (\<forall>name. map_of (cg_snapshots c) name = map_option last (map_of (cg_history c) name))
     \<and> (\<forall>name h. map_of (cg_history c) name = Some h \<longrightarrow> history_ok name h)"

lemma catalog_okD:
  assumes "catalog_ok c" and "map_of (cg_snapshots c) name = Some s"
  shows "\<exists>h. map_of (cg_history c) name = Some h \<and> history_ok name h \<and> last h = s \<and> snapshot_name s = name"
proof -
  obtain h where h: "map_of (cg_history c) name = Some h" "last h = s" using assms by (auto simp: catalog_ok_def)
  then have ok: "history_ok name h" using assms(1) by (auto simp: catalog_ok_def)
  then have "last h \<in> set h" by (auto simp: history_ok_def)
  then show ?thesis using h ok by (auto simp: history_ok_def)
qed

lemma catalog_ok_empty [simp]: "catalog_ok empty_catalog"
  by (simp add: catalog_ok_def empty_catalog_def)

lemma catalog_ok_update:
  assumes "catalog_ok c" and "history_ok name h" and "last h = s"
  shows "catalog_ok (c\<lparr>cg_snapshots := AList.update name s (cg_snapshots c), cg_history := AList.update name h (cg_history c)\<rparr>)"
  using assms by (auto simp: catalog_ok_def distinct_update)

lemma history_ok_snoc:
  "history_ok name h \<Longrightarrow> ss_version (last h) < ss_version s \<Longrightarrow> snapshot_name s = name \<Longrightarrow> history_ok name (h @ [s])"
proof -
  assume h: "history_ok name h" and v: "ss_version (last h) < ss_version s" "snapshot_name s = name"
  have top: "ss_version x \<le> ss_version (last h)" if x: "x \<in> set h" for x
  proof -
    have ne: "h \<noteq> []" using h by (simp add: history_ok_def)
    obtain i where i: "i < length h" "h ! i = x" using x by (auto simp: in_set_conv_nth)
    show ?thesis
    proof (cases "i = length h - 1")
      case True
      then show ?thesis using i ne by (simp add: last_conv_nth)
    next
      case False
      then have "ss_version (h ! i) < ss_version (h ! (length h - 1))"
        using h i ne unfolding history_ok_def sorted_wrt_iff_nth_less by (fastforce simp: nth_map)
      then show ?thesis using i ne by (simp add: last_conv_nth)
    qed
  qed
  have "1 \<le> ss_version (last h)" using h last_in_set by (auto simp: history_ok_def)
  then have "1 \<le> ss_version s" using v(1) by simp
  moreover have "\<forall>x\<in>set h. ss_version x < ss_version s" using top v(1) by fastforce
  ultimately show ?thesis using h v(2) by (auto simp: history_ok_def sorted_wrt_append)
qed

lemma history_ok_drop: "history_ok name h \<Longrightarrow> n < length h \<Longrightarrow> history_ok name (drop n h)"
  unfolding history_ok_def by (auto simp: drop_map [symmetric] sorted_wrt_drop dest: in_set_dropD)

lemma excess_less: "h \<noteq> [] \<Longrightarrow> excess ly h < length h"
  by (cases h) (auto simp: excess_def)

lemma catalog_ok_register:
  assumes "catalog_ok c" and "\<And>cur. map_of (cg_snapshots c) (snapshot_name s) = Some cur \<Longrightarrow> ss_version cur < ss_version s"
    and "1 \<le> ss_version s"
  shows "catalog_ok (snd (register_snapshot ly s c))"
proof -
  let ?name = "snapshot_name s" and ?hist = "get_snapshot_history (snapshot_name s) c @ [s]"
  have "history_ok ?name ?hist"
  proof (cases "map_of (cg_history c) ?name")
    case None
    then show ?thesis using assms(3) by (simp add: get_snapshot_history_def history_ok_def)
  next
    case (Some h)
    then have "history_ok ?name h" "map_of (cg_snapshots c) ?name = Some (last h)" using assms(1) by (auto simp: catalog_ok_def)
    then show ?thesis using Some assms(2) history_ok_snoc by (simp add: get_snapshot_history_def)
  qed
  then have "history_ok ?name (drop (excess ly ?hist) ?hist)" by (rule history_ok_drop) (rule excess_less, simp)
  moreover have "last (drop (excess ly ?hist) ?hist) = s" using excess_less [of ?hist ly] by (simp add: last_drop)
  ultimately show ?thesis using catalog_ok_update assms(1) by (simp add: register_snapshot_def Let_def)
qed

lemma catalog_ok_advance: "catalog_ok c \<Longrightarrow> catalog_ok (snd (advance_table_snapshot ly sha name c))"
proof -
  assume ok: "catalog_ok c"
  show ?thesis
  proof (cases "map_of (cg_snapshots c) name")
    case None
    then show ?thesis using ok by (simp add: advance_table_snapshot_def)
  next
    case (Some cur)
    obtain h where h: "map_of (cg_history c) name = Some h" "history_ok name h" "last h = cur" "snapshot_name cur = name"
      using catalog_okD [OF ok Some] by blast
    have "history_ok name (h @ [advanced ly sha cur])"
      using h by (intro history_ok_snoc) (simp_all add: advanced_def Let_def)
    then show ?thesis using catalog_ok_update [OF ok] Some h by (simp add: advance_table_snapshot_def Let_def)
  qed
qed

lemma catalog_ok_build: "catalog_ok c \<Longrightarrow> catalog_ok (snd (build_table_snapshot ly sha ident t c))"
proof -
  have "history_ok (st_name t) [new_snapshot ly sha ident t]" by (simp add: history_ok_def new_snapshot_def Let_def)
  then show "catalog_ok c \<Longrightarrow> ?thesis" using catalog_ok_update by (simp add: build_table_snapshot_def Let_def)
qed

lemma catalog_ok_build_all: "catalog_ok (build_all_snapshots ly sha ident ts c)"
proof -
  have "catalog_ok (fold (\<lambda>t c. snd (build_table_snapshot ly sha ident t c)) ts c')" if "catalog_ok c'" for c'
    using that by (induction ts arbitrary: c') (simp_all add: catalog_ok_build)
  then show ?thesis by (simp add: build_all_snapshots_def)
qed

lemma catalog_ok_unregister: "catalog_ok c \<Longrightarrow> catalog_ok (unregister_snapshot name c)"
  by (auto simp: catalog_ok_def unregister_snapshot_def)

section \<open>Paths that collide\<close>

text \<open>Different databases can have the same table path: every run of other characters becomes one underscore.\<close>

lemma table_paths_collide:
  assumes "ident ''c1'' = (''srv'', ''my db'')" and "ident ''c2'' = (''srv'', ''my_db'')"
  shows "canonical_table_path ly ident (t\<lparr>st_connection_id := ''c1''\<rparr>) = canonical_table_path ly ident (t\<lparr>st_connection_id := ''c2''\<rparr>)"
proof -
  have "safe_segment ''my db'' ''default'' = safe_segment ''my_db'' ''default''" by code_simp
  then show ?thesis using assms by (simp add: canonical_table_path_def split: prod.split)
qed

end
