(* ===== verification/Freshness.thy ===== *)
theory Freshness
  imports Snapshots Lru_Cache
begin

text \<open>
  Refreshing a table from its source (\<open>iceberg/freshness.py\<close>): content hashes of the rows of a split, content-addressed candidate
  snapshots, publication of a candidate whose content differs, eviction of files no retained version uses, and one polling cycle.

  What the code obtains from outside is in the environment of a call: the rows a split query returns and the Parquet encoding
  (\<open>None\<close> when they raise), the change token of the source, the state of the cache tiers and the clock. \<open>fe_sha\<close> is the hexadecimal SHA-256.
  Log messages, column statistics and the periodic loop are left out.
\<close>

section \<open>Content hashes\<close>

datatype cell = Null | Raw bytes | Shown string

type_synonym row = "(string, cell) dict"

definition cell_bytes :: "cell option \<Rightarrow> bytes" where
  "cell_bytes v = (case v of None \<Rightarrow> [CHR 0x00] | Some Null \<Rightarrow> [CHR 0x00] | Some (Raw b) \<Rightarrow> b | Some (Shown s) \<Rightarrow> s)"

definition row_bytes :: "table_column list \<Rightarrow> row \<Rightarrow> bytes" where
  "row_bytes cols r = concat (map (\<lambda>c. cell_bytes (map_of r (tc_name c)) @ [CHR 0x1F]) cols) @ [CHR 0x1E]"

definition rows_hash :: "(string \<Rightarrow> string) \<Rightarrow> table_column list \<Rightarrow> row list \<Rightarrow> string" where
  "rows_hash sha cols rows = take 12 (sha (concat (map (row_bytes cols) rows)))"

section \<open>Candidates\<close>

record fresh_env =
  fe_layout :: layout
  fe_sha :: "string \<Rightarrow> string"
  fe_ident :: "string \<Rightarrow> string \<times> string"
  fe_tier_env :: tier_env
  fe_pin :: bool
  fe_query :: "served_table \<Rightarrow> int \<Rightarrow> row list option"
  fe_parquet :: "served_table \<Rightarrow> int \<Rightarrow> row list \<Rightarrow> bytes option"
  fe_probe :: "served_table \<Rightarrow> string option"
  fe_strategy :: string
  fe_allow_full_pull :: bool
  fe_ttl_seconds :: int
  fe_now_seconds :: int

record fresh =
  fr_catalog :: catalog
  fr_tiers :: tiers
  fr_tokens :: "(string, string) dict"
  fr_ttl_gen :: "(string, int) dict"

definition chunk_key :: "string \<Rightarrow> int \<Rightarrow> string \<Rightarrow> string" where
  "chunk_key path i chash = path @ ''/data/split-'' @ py_str_int i @ ''-'' @ chash @ ''.parquet''"

definition chunk_split :: "served_table \<Rightarrow> int \<Rightarrow> string \<Rightarrow> row list \<Rightarrow> bytes \<Rightarrow> split" where
  "chunk_split t i key rows data =
     \<lparr>sp_index = i, sp_num_splits = st_num_splits t, sp_object_key = key, sp_watermark_ms = 0, sp_record_count = Some (int (length rows)),
      sp_file_size = Some (int (length data)), sp_content_hash = None, sp_s3_etag = None, sp_canonical_key = None\<rparr>"

definition materialize_chunk :: "fresh_env \<Rightarrow> served_table \<Rightarrow> string \<Rightarrow> int \<Rightarrow> tiers \<Rightarrow> (split \<times> string) option \<times> tiers" where
  "materialize_chunk en t path i tr =
     (case fe_query en t i of
        None \<Rightarrow> (None, tr)
      | Some rows \<Rightarrow>
          let chash = rows_hash (fe_sha en) (st_schema t) rows; key = chunk_key path i chash in
          (case peek_parquet (fe_sha en) (fe_tier_env en) key tr of
             (Some data, tr1) \<Rightarrow> (Some (chunk_split t i key rows data, chash), tr1)
           | (None, tr1) \<Rightarrow>
               (case fe_parquet en t i rows of
                  None \<Rightarrow> (None, tr1)
                | Some data \<Rightarrow>
                    (Some (chunk_split t i key rows data, chash),
                     if fe_pin en then pin_parquet (fe_sha en) (fe_tier_env en) key data tr1
                     else put_parquet (fe_sha en) (fe_tier_env en) key data tr1))))"

fun materialize_chunks :: "fresh_env \<Rightarrow> served_table \<Rightarrow> string \<Rightarrow> int list \<Rightarrow> tiers \<Rightarrow> (split \<times> string) list option \<times> tiers" where
  "materialize_chunks en t path [] tr = (Some [], tr)"
| "materialize_chunks en t path (i # is) tr =
     (case materialize_chunk en t path i tr of
        (None, tr1) \<Rightarrow> (None, tr1)
      | (Some x, tr1) \<Rightarrow>
          (case materialize_chunks en t path is tr1 of
             (None, tr2) \<Rightarrow> (None, tr2)
           | (Some xs, tr2) \<Rightarrow> (Some (x # xs), tr2)))"

definition candidate_digest :: "fresh_env \<Rightarrow> string \<Rightarrow> string list \<Rightarrow> string" where
  "candidate_digest en path hashes =
     fe_sha en (ly_bucket (fe_layout en) @ ''/'' @ path @ '':''
       @ py_join ''|'' (map (\<lambda>(i, h). py_str_int (int i) @ '':'' @ h) (enumerate 0 hashes)))"

definition candidate :: "fresh_env \<Rightarrow> served_table \<Rightarrow> string \<Rightarrow> (split \<times> string) list \<Rightarrow> snapshot" where
  "candidate en t path chunks =
     (let digest = candidate_digest en path (map snd chunks); snap_id = hex_int (take 15 digest); uuid = take 32 digest;
          watermark = watermark_of digest in
      \<lparr>ss_snapshot_id = snap_id, ss_sequence_number = 1, ss_watermark_ms = watermark,
       ss_manifest_list_key = path @ ''/metadata/snap-'' @ py_str_int snap_id @ ''-1-'' @ uuid @ ''.avro'',
       ss_manifest_file_key = path @ ''/metadata/'' @ uuid @ ''-m0.avro'', ss_metadata_key = path @ ''/metadata/v1.metadata.json'',
       ss_version_hint_key = path @ ''/metadata/version-hint.text'', ss_table = t, ss_table_path = path,
       ss_legacy_table_path = legacy_table_path (fe_layout en) t, ss_splits = map (\<lambda>(s, _). s\<lparr>sp_watermark_ms := watermark\<rparr>) chunks,
       ss_version = 1, ss_uuid = uuid, ss_total_records = Some (\<Sum>(s, _)\<leftarrow>chunks. with_default (sp_record_count s) 0)\<rparr>)"

definition materialize_table :: "fresh_env \<Rightarrow> served_table \<Rightarrow> tiers \<Rightarrow> snapshot option \<times> tiers" where
  "materialize_table en t tr =
     (let path = active_table_path (fe_layout en) (fe_ident en) t in
      case materialize_chunks en t path [0..st_num_splits t - 1] tr of
        (None, tr1) \<Rightarrow> (None, tr1)
      | (Some chunks, tr1) \<Rightarrow> (Some (candidate en t path chunks), tr1))"

section \<open>Publication\<close>

definition finalize_versioned_keys :: "snapshot \<Rightarrow> int \<Rightarrow> snapshot" where
  "finalize_versioned_keys s version =
     s\<lparr>ss_version := version, ss_sequence_number := version,
       ss_metadata_key := ss_table_path s @ ''/metadata/v'' @ py_str_int version @ ''.metadata.json'',
       ss_manifest_list_key := ss_table_path s @ ''/metadata/snap-'' @ py_str_int (ss_snapshot_id s) @ ''-'' @ py_str_int version
         @ ''-'' @ ss_uuid s @ ''.avro'',
       ss_manifest_file_key := ss_table_path s @ ''/metadata/'' @ ss_uuid s @ ''-m'' @ py_str_int version @ ''.avro''\<rparr>"

definition retained_keys :: "catalog \<Rightarrow> string set" where
  "retained_keys c = set (map sp_object_key (concat (map ss_splits (concat (map snd (cg_history c))))))"

definition evict_unreferenced :: "fresh_env \<Rightarrow> snapshot list \<Rightarrow> catalog \<Rightarrow> tiers \<Rightarrow> tiers" where
  "evict_unreferenced en pruned c tr =
     fold (\<lambda>s tr. if sp_object_key s \<in> retained_keys c then tr
                  else evict_parquet (fe_sha en) (fe_tier_env en) (sp_object_key s) tr)
       (concat (map ss_splits pruned)) tr"

definition publish :: "fresh_env \<Rightarrow> snapshot \<Rightarrow> fresh \<Rightarrow> bool \<times> fresh" where
  "publish en cand st =
     (let prior = map_of (cg_snapshots (fr_catalog st)) (snapshot_name cand) in
      if (case prior of None \<Rightarrow> False | Some p \<Rightarrow> ss_snapshot_id cand = ss_snapshot_id p) then (False, st)
      else
        let version = (case prior of None \<Rightarrow> 1 | Some p \<Rightarrow> ss_version p + 1);
            (pruned, c) = register_snapshot (fe_layout en) (finalize_versioned_keys cand version) (fr_catalog st) in
        (True, st\<lparr>fr_catalog := c, fr_tiers := evict_unreferenced en pruned c (fr_tiers st)\<rparr>))"

definition materialize_and_publish :: "fresh_env \<Rightarrow> served_table \<Rightarrow> fresh \<Rightarrow> bool \<times> fresh" where
  "materialize_and_publish en t st =
     (case materialize_table en t (fr_tiers st) of
        (None, tr) \<Rightarrow> (False, st\<lparr>fr_tiers := tr\<rparr>)
      | (Some cand, tr) \<Rightarrow> publish en cand (st\<lparr>fr_tiers := tr\<rparr>))"

definition poll_once :: "fresh_env \<Rightarrow> served_table \<Rightarrow> fresh \<Rightarrow> bool \<times> fresh" where
  "poll_once en t st =
     (if fe_strategy en = ''manual'' then (False, st)
      else if fe_strategy en = ''content_hash'' then materialize_and_publish en t st
      else if fe_strategy en = ''ttl'' then
        (let gen = fe_now_seconds en div max 1 (fe_ttl_seconds en) in
         if map_of (fr_ttl_gen st) (st_name t) = Some gen then (False, st)
         else materialize_and_publish en t (st\<lparr>fr_ttl_gen := AList.update (st_name t) gen (fr_ttl_gen st)\<rparr>))
      else
        (case fe_probe en t of
           Some token \<Rightarrow>
             if map_of (fr_tokens st) (st_name t) = Some token then (False, st)
             else materialize_and_publish en t (st\<lparr>fr_tokens := AList.update (st_name t) token (fr_tokens st)\<rparr>)
         | None \<Rightarrow>
             if fe_strategy en = ''dialect_probe'' then (False, st)
             else if fe_allow_full_pull en then materialize_and_publish en t st
             else (False, st)))"

definition prime_probe :: "fresh_env \<Rightarrow> served_table \<Rightarrow> fresh \<Rightarrow> fresh" where
  "prime_probe en t st =
     st\<lparr>fr_tokens := (case fe_probe en t of None \<Rightarrow> AList.delete (st_name t) (fr_tokens st)
                                           | Some k \<Rightarrow> AList.update (st_name t) k (fr_tokens st))\<rparr>"

text \<open>\<open>refresh_all\<close>: every table in turn; it stops at the first that fails.\<close>

fun refresh_all :: "fresh_env \<Rightarrow> served_table list \<Rightarrow> fresh \<Rightarrow> string list option \<times> fresh" where
  "refresh_all en [] st = (Some [], st)"
| "refresh_all en (t # ts) st =
     (case materialize_table en t (fr_tiers st) of
        (None, tr) \<Rightarrow> (None, st\<lparr>fr_tiers := tr\<rparr>)
      | (Some cand, tr) \<Rightarrow>
          (case publish en cand (st\<lparr>fr_tiers := tr\<rparr>) of
             (changed, st1) \<Rightarrow>
               (case refresh_all en ts st1 of
                  (None, st2) \<Rightarrow> (None, st2)
                | (Some names, st2) \<Rightarrow> (Some (if changed then st_name t # names else names), st2))))"

section \<open>Retained files\<close>

text \<open>A split is backed when its file is pinned with exactly the declared size.\<close>

definition backed :: "tiers \<Rightarrow> split \<Rightarrow> bool" where
  "backed tr s \<longleftrightarrow> (\<exists>d. map_of (t_pinned tr) (sp_object_key s) = Some d \<and> sp_file_size s = Some (int (length d)))"

definition retained_splits :: "catalog \<Rightarrow> split list" where
  "retained_splits c = concat (map ss_splits (concat (map snd (cg_history c))))"

definition pinning_only :: "fresh_env \<Rightarrow> bool" where
  "pinning_only en \<longleftrightarrow> fe_pin en \<and> \<not> te_disk_cache (fe_tier_env en) \<and> \<not> te_store_serving (fe_tier_env en)"

definition fresh_ok :: "fresh \<Rightarrow> bool" where
  "fresh_ok st \<longleftrightarrow> catalog_ok (fr_catalog st) \<and> lru_store (t_parquet (fr_tiers st)) = []
     \<and> (\<forall>s\<in>set (retained_splits (fr_catalog st)). backed (fr_tiers st) s)"

lemma backed_mono: "map_of (t_pinned tr) \<subseteq>\<^sub>m map_of (t_pinned tr') \<Longrightarrow> backed tr s \<Longrightarrow> backed tr' s"
  unfolding backed_def map_le_def by (metis domI)

lemma backed_watermark [simp]: "backed tr (s\<lparr>sp_watermark_ms := w\<rparr>) = backed tr s"
  by (simp add: backed_def)

lemma pinned_only_tiers:
  assumes "\<not> te_disk_cache e" and "\<not> te_store_serving e"
  shows "lru_store (t_parquet tr) = [] \<Longrightarrow> peek_parquet sha e key tr = (map_of (t_pinned tr) key, tr)"
    and "pin_parquet sha e key d tr = tr\<lparr>t_pinned := AList.update key d (t_pinned tr)\<rparr>"
    and "lru_store (t_parquet tr) = [] \<Longrightarrow> evict_parquet sha e key tr = tr\<lparr>t_pinned := AList.delete key (t_pinned tr)\<rparr>"
  using assms by (simp_all add: peek_parquet_def pin_parquet_def evict_parquet_def lru_get_def evict_def disk_read_def disk_write_def
      store_read_def store_write_def store_delete_def Let_def split: option.split)

lemma materialize_chunk_backed:
  assumes "pinning_only en" and "lru_store (t_parquet tr) = []" and "materialize_chunk en t path i tr = (x, tr')"
  shows "lru_store (t_parquet tr') = [] \<and> map_of (t_pinned tr) \<subseteq>\<^sub>m map_of (t_pinned tr') \<and> (\<forall>s h. x = Some (s, h) \<longrightarrow> backed tr' s)"
proof -
  have off: "\<not> te_disk_cache (fe_tier_env en)" "\<not> te_store_serving (fe_tier_env en)" "fe_pin en"
    using assms(1) by (simp_all add: pinning_only_def)
  show ?thesis
    using assms(2,3) pinned_only_tiers [OF off(1,2)] off(3)
    by (auto simp: materialize_chunk_def Let_def backed_def chunk_split_def map_le_def split: option.splits)
qed

lemma materialize_chunks_backed:
  assumes "pinning_only en"
  shows "lru_store (t_parquet tr) = [] \<Longrightarrow> materialize_chunks en t path is tr = (x, tr') \<Longrightarrow>
    lru_store (t_parquet tr') = [] \<and> map_of (t_pinned tr) \<subseteq>\<^sub>m map_of (t_pinned tr') \<and> (\<forall>xs. x = Some xs \<longrightarrow> (\<forall>(s, h)\<in>set xs. backed tr' s))"
proof (induction "is" arbitrary: tr x)
  case (Cons i "is")
  obtain y tr1 where y: "materialize_chunk en t path i tr = (y, tr1)" by (cases "materialize_chunk en t path i tr")
  note one = materialize_chunk_backed [OF assms Cons.prems(1) y]
  obtain z tr2 where z: "materialize_chunks en t path is tr1 = (z, tr2)" by (cases "materialize_chunks en t path is tr1")
  note rest = Cons.IH [of tr1 z]
  show ?case
  proof (cases y)
    case None
    then show ?thesis using Cons.prems(2) y one by simp
  next
    case (Some sh)
    have tr': "tr' = tr2" "x = (case z of None \<Rightarrow> None | Some xs \<Rightarrow> Some (sh # xs))"
      using Cons.prems(2) y z Some by (simp_all split: option.splits)
    have after: "lru_store (t_parquet tr2) = [] \<and> map_of (t_pinned tr1) \<subseteq>\<^sub>m map_of (t_pinned tr2)
        \<and> (\<forall>xs. z = Some xs \<longrightarrow> (\<forall>(s, h)\<in>set xs. backed tr2 s))"
      using rest z tr' one by simp
    moreover have "backed tr2 (fst sh)" using one after Some by (cases sh) (auto intro: backed_mono)
    ultimately show ?thesis using tr' one by (auto intro: map_le_trans split: option.splits)
  qed
qed simp

lemma evict_unreferenced_pinned:
  assumes "pinning_only en" and "lru_store (t_parquet tr) = []"
  shows "lru_store (t_parquet (evict_unreferenced en pruned c tr)) = []"
    and "key \<in> retained_keys c \<Longrightarrow> map_of (t_pinned (evict_unreferenced en pruned c tr)) key = map_of (t_pinned tr) key"
proof -
  have off: "\<not> te_disk_cache (fe_tier_env en)" "\<not> te_store_serving (fe_tier_env en)" using assms(1) by (simp_all add: pinning_only_def)
  have "lru_store (t_parquet (fold (\<lambda>s tr. if sp_object_key s \<in> K then tr
        else evict_parquet (fe_sha en) (fe_tier_env en) (sp_object_key s) tr) ss tr)) = []
      \<and> (\<forall>key\<in>K. map_of (t_pinned (fold (\<lambda>s tr. if sp_object_key s \<in> K then tr
        else evict_parquet (fe_sha en) (fe_tier_env en) (sp_object_key s) tr) ss tr)) key = map_of (t_pinned tr) key)" for K ss
    using assms(2)
  proof (induction ss arbitrary: tr)
    case (Cons s ss)
    then show ?case using pinned_only_tiers(3) [OF off Cons.prems, of "fe_sha en" "sp_object_key s"] by auto
  qed simp
  then show "lru_store (t_parquet (evict_unreferenced en pruned c tr)) = []"
    and "key \<in> retained_keys c \<Longrightarrow> map_of (t_pinned (evict_unreferenced en pruned c tr)) key = map_of (t_pinned tr) key"
    unfolding evict_unreferenced_def by blast+
qed

lemma retained_keys_splits: "retained_keys c = sp_object_key ` set (retained_splits c)"
  by (simp add: retained_keys_def retained_splits_def)

lemma retained_iff: "x \<in> set (retained_splits c) \<longleftrightarrow> (\<exists>k h s. (k, h) \<in> set (cg_history c) \<and> s \<in> set h \<and> x \<in> set (ss_splits s))"
  by (force simp: retained_splits_def)

lemma set_update_subset: "(k', v') \<in> set (AList.update k v d) \<Longrightarrow> (k', v') \<in> set d \<or> k' = k \<and> v' = v"
  by (induction d) (auto split: if_splits)

lemma register_retained:
  assumes "x \<in> set (retained_splits (snd (register_snapshot ly s c)))"
  shows "x \<in> set (retained_splits c) \<or> x \<in> set (ss_splits s)"
proof -
  let ?hist = "get_snapshot_history (snapshot_name s) c @ [s]"
  obtain k h s' where h: "(k, h) \<in> set (AList.update (snapshot_name s) (drop (excess ly ?hist) ?hist) (cg_history c))"
    and s': "s' \<in> set h" "x \<in> set (ss_splits s')"
    using assms unfolding retained_iff by (auto simp: register_snapshot_def Let_def)
  from set_update_subset [OF h] show ?thesis
  proof
    assume "(k, h) \<in> set (cg_history c)"
    then show ?thesis using s' unfolding retained_iff by blast
  next
    assume "k = snapshot_name s \<and> h = drop (excess ly ?hist) ?hist"
    then have "s' \<in> set ?hist" using s'(1) by (metis in_set_dropD)
    then have "s' = s \<or> (\<exists>g. map_of (cg_history c) (snapshot_name s) = Some g \<and> s' \<in> set g)"
      by (auto simp: get_snapshot_history_def split: option.splits)
    then show ?thesis using s'(2) unfolding retained_iff by (blast dest: map_of_SomeD)
  qed
qed

lemma next_version_pos:
  assumes "catalog_ok c"
  shows "1 \<le> (case map_of (cg_snapshots c) name of None \<Rightarrow> 1 | Some p \<Rightarrow> ss_version p + 1)"
proof (cases "map_of (cg_snapshots c) name")
  case (Some p)
  then obtain h where "history_ok name h" "last h = p" using catalog_okD [OF assms] by blast
  then have "1 \<le> ss_version p" using last_in_set by (auto simp: history_ok_def)
  then show ?thesis using Some by simp
qed simp

lemma publish_ok:
  assumes "pinning_only en" and "fresh_ok st" and "\<forall>s\<in>set (ss_splits cand). backed (fr_tiers st) s"
  shows "fresh_ok (snd (publish en cand st))"
proof -
  define prior where "prior = map_of (cg_snapshots (fr_catalog st)) (snapshot_name cand)"
  define version where "version = (case prior of None \<Rightarrow> 1 | Some p \<Rightarrow> ss_version p + 1)"
  define new where "new = finalize_versioned_keys cand version"
  obtain pruned c where reg: "register_snapshot (fe_layout en) new (fr_catalog st) = (pruned, c)"
    by (cases "register_snapshot (fe_layout en) new (fr_catalog st)")
  have new: "snapshot_name new = snapshot_name cand" "ss_version new = version" "ss_splits new = ss_splits cand"
    by (simp_all add: new_def finalize_versioned_keys_def)
  have ok: "catalog_ok (fr_catalog st)" "lru_store (t_parquet (fr_tiers st)) = []"
    "\<forall>s\<in>set (retained_splits (fr_catalog st)). backed (fr_tiers st) s" using assms(2) by (simp_all add: fresh_ok_def)
  have "1 \<le> version" using next_version_pos [OF ok(1)] by (simp add: version_def prior_def)
  then have "catalog_ok c"
    using catalog_ok_register [OF ok(1), of new "fe_layout en"] reg by (simp add: new prior_def version_def)
  moreover have "backed (fr_tiers st) s" if "s \<in> set (retained_splits c)" for s
    using register_retained [of s "fe_layout en" new "fr_catalog st"] that reg ok(3) assms(3) by (auto simp: new)
  then have "\<forall>s\<in>set (retained_splits c). backed (evict_unreferenced en pruned c (fr_tiers st)) s"
    using evict_unreferenced_pinned(2) [OF assms(1) ok(2)] by (auto simp: backed_def retained_keys_splits)
  ultimately have "fresh_ok (st\<lparr>fr_catalog := c, fr_tiers := evict_unreferenced en pruned c (fr_tiers st)\<rparr>)"
    using evict_unreferenced_pinned(1) [OF assms(1) ok(2)] by (simp add: fresh_ok_def)
  moreover have "snd (publish en cand st) \<in> {st, st\<lparr>fr_catalog := c, fr_tiers := evict_unreferenced en pruned c (fr_tiers st)\<rparr>}"
    using reg by (simp add: publish_def Let_def prior_def [symmetric] version_def [symmetric] new_def [symmetric])
  ultimately show ?thesis using assms(2) by auto
qed

lemma fresh_ok_tiers:
  assumes "fresh_ok st" and "lru_store (t_parquet tr) = []" and "map_of (t_pinned (fr_tiers st)) \<subseteq>\<^sub>m map_of (t_pinned tr)"
  shows "fresh_ok (st\<lparr>fr_tiers := tr\<rparr>)"
  using assms by (auto simp: fresh_ok_def intro: backed_mono)

lemma materialize_table_backed:
  assumes "pinning_only en" and "lru_store (t_parquet tr) = []" and "materialize_table en t tr = (x, tr')"
  shows "lru_store (t_parquet tr') = [] \<and> map_of (t_pinned tr) \<subseteq>\<^sub>m map_of (t_pinned tr') \<and> (\<forall>cand. x = Some cand \<longrightarrow> (\<forall>s\<in>set (ss_splits cand). backed tr' s))"
proof -
  let ?path = "active_table_path (fe_layout en) (fe_ident en) t"
  obtain y tr1 where y: "materialize_chunks en t ?path [0..st_num_splits t - 1] tr = (y, tr1)"
    by (cases "materialize_chunks en t ?path [0..st_num_splits t - 1] tr")
  have "tr' = tr1" "x = map_option (candidate en t ?path) y"
    using assms(3) y by (simp_all add: materialize_table_def Let_def split: option.splits)
  then show ?thesis using materialize_chunks_backed [OF assms(1,2) y] by (fastforce simp: candidate_def Let_def)
qed

lemma materialize_and_publish_ok: "pinning_only en \<Longrightarrow> fresh_ok st \<Longrightarrow> fresh_ok (snd (materialize_and_publish en t st))"
proof -
  assume en: "pinning_only en" and st: "fresh_ok st"
  obtain x tr where x: "materialize_table en t (fr_tiers st) = (x, tr)" by (cases "materialize_table en t (fr_tiers st)")
  have "lru_store (t_parquet (fr_tiers st)) = []" using st by (simp add: fresh_ok_def)
  note built = materialize_table_backed [OF en this x]
  have "fresh_ok (st\<lparr>fr_tiers := tr\<rparr>)" using fresh_ok_tiers [OF st] built by blast
  then show ?thesis using x built publish_ok [OF en] by (cases x) (simp_all add: materialize_and_publish_def)
qed

lemma fresh_ok_tokens [simp]:
  "fresh_ok (st\<lparr>fr_tokens := x\<rparr>) = fresh_ok st" "fresh_ok (st\<lparr>fr_ttl_gen := y\<rparr>) = fresh_ok st"
  by (simp_all add: fresh_ok_def)

lemma poll_once_ok: "pinning_only en \<Longrightarrow> fresh_ok st \<Longrightarrow> fresh_ok (snd (poll_once en t st))"
  by (simp add: poll_once_def Let_def materialize_and_publish_ok split: option.split)

section \<open>Properties\<close>

abbreviation run_polls :: "(fresh_env \<times> served_table) list \<Rightarrow> fresh \<Rightarrow> fresh" where
  "run_polls polls st \<equiv> fold (\<lambda>(en, t) st. snd (poll_once en t st)) polls st"

lemma run_polls_ok: "\<forall>(en, t)\<in>set polls. pinning_only en \<Longrightarrow> fresh_ok st \<Longrightarrow> fresh_ok (run_polls polls st)"
  by (induction polls arbitrary: st) (auto simp: poll_once_ok)


text \<open>
  A failed refresh is forgotten. With a change token, when the refresh after a change fails (a query or the encoding raises),
  no later poll publishes the change while the token stays the same, even though the source can be read again.
\<close>

theorem failed_refresh_not_retried:
  assumes "fe_strategy en \<notin> {''manual'', ''content_hash'', ''ttl''}" and "fe_probe en t = Some token"
    and "map_of (fr_tokens st) (st_name t) \<noteq> Some token"
    and "fst (materialize_table en t (fr_tiers st)) = None"
    and "\<forall>en'\<in>set later. fe_strategy en' \<notin> {''manual'', ''content_hash'', ''ttl''} \<and> fe_probe en' t = Some token"
  shows "fst (poll_once en t st) = False
    \<and> fr_catalog (run_polls (map (\<lambda>en'. (en', t)) later) (snd (poll_once en t st))) = fr_catalog st"
proof -
  let ?st1 = "snd (poll_once en t st)"
  obtain tr where tr: "materialize_table en t (fr_tiers st) = (None, tr)"
    using assms(4) by (cases "materialize_table en t (fr_tiers st)") simp
  have first: "poll_once en t st = (False, st\<lparr>fr_tokens := AList.update (st_name t) token (fr_tokens st), fr_tiers := tr\<rparr>)"
    using assms(1-3) tr by (simp add: poll_once_def materialize_and_publish_def)
  have later: "run_polls (map (\<lambda>en'. (en', t)) ens) s = s"
    if "map_of (fr_tokens s) (st_name t) = Some token" "set ens \<subseteq> set later" for ens s
    using that
  proof (induction ens)
    case (Cons en' ens)
    have "poll_once en' t s = (False, s)" using Cons.prems assms(5) by (simp add: poll_once_def)
    then show ?case using Cons by simp
  qed simp
  have "map_of (fr_tokens ?st1) (st_name t) = Some token" by (simp add: first)
  then show ?thesis using later [of ?st1 later] first by simp
qed

text \<open>A null and a string of one zero character hash alike, so replacing one by the other is not seen as a change.\<close>

lemma null_hash_ambiguous: "rows_hash sha cols [[(n, Null)]] = rows_hash sha cols [[(n, Shown [CHR 0x00])]]"
proof -
  have "row_bytes cols [(n, Null)] = row_bytes cols [(n, Shown [CHR 0x00])]"
  proof -
    have "cell_bytes (map_of [(n, Null)] x) = cell_bytes (map_of [(n, Shown [CHR 0x00])] x)" for x by (simp add: cell_bytes_def)
    then show ?thesis unfolding row_bytes_def by (simp only:)
  qed
  then show ?thesis by (simp add: rows_hash_def)
qed

section \<open>An example\<close>

definition example_table :: served_table where
  "example_table =
     \<lparr>st_name = ''t'', st_source_table = ''s'', st_schema = [\<lparr>tc_name = ''id'', tc_type = ''long'', tc_nullable = False\<rparr>], st_num_splits = 1,
      st_key_column = ''id'', st_connection_id = ''default'', st_strategy = ''modulo'', st_target_rows = 0\<rparr>"

definition example_fresh_env :: "row list option \<Rightarrow> fresh_env" where
  "example_fresh_env rows =
     \<lparr>fe_layout = \<lparr>ly_canonical = False, ly_aliases = False, ly_bucket = ''b'', ly_warehouse_prefix = ''db'', ly_history_limit = 2\<rparr>,
      fe_sha = (\<lambda>_. ''0''), fe_ident = (\<lambda>_. (''h'', ''d'')),
      fe_tier_env = \<lparr>te_disk_cache = False, te_disk_dir = [], te_store_serving = False, te_disk_up = True, te_store_up = True, te_now = 0\<rparr>,
      fe_pin = True, fe_query = (\<lambda>_ _. rows), fe_parquet = (\<lambda>_ _ _. Some ''PAR1''), fe_probe = (\<lambda>_. Some ''v1''), fe_strategy = ''auto'',
      fe_allow_full_pull = False, fe_ttl_seconds = 60, fe_now_seconds = 0\<rparr>"

definition example_fresh :: fresh where
  "example_fresh = \<lparr>fr_catalog = empty_catalog, fr_tiers = demo_tiers, fr_tokens = [], fr_ttl_gen = []\<rparr>"

definition example_polls :: "(fresh_env \<times> served_table) list" where
  "example_polls = [(example_fresh_env (Some [[(''id'', Shown ''1'')]]), example_table)]"

lemma example_history:
  "map (\<lambda>s. map sp_file_size (ss_splits s)) (get_snapshot_history ''t'' (fr_catalog (run_polls example_polls example_fresh))) = [[Some 4]]"
  by code_simp

lemma example_fresh_ok: "fresh_ok example_fresh" "\<forall>(en, t)\<in>set example_polls. pinning_only en"
proof -
  have "retained_splits empty_catalog = []" by (simp add: retained_splits_def empty_catalog_def)
  then show "fresh_ok example_fresh" by (simp add: fresh_ok_def example_fresh_def demo_tiers_def new_lru_def)
  show "\<forall>(en, t)\<in>set example_polls. pinning_only en"
    by (simp add: example_polls_def pinning_only_def example_fresh_env_def)
qed


theorem failed_refresh_not_retried_witness:
  "fr_catalog (run_polls [(example_fresh_env (Some []), example_table)] (snd (poll_once (example_fresh_env None) example_table example_fresh)))
     = empty_catalog"
proof -
  have "fst (materialize_table (example_fresh_env None) example_table (fr_tiers example_fresh)) = None" by code_simp
  then show ?thesis
    using failed_refresh_not_retried [of "example_fresh_env None" example_table "''v1''" example_fresh "[example_fresh_env (Some [])]"]
    by (simp add: example_fresh_env_def example_fresh_def)
qed

end
