(* ===== verification/Delta_Log.thy ===== *)
theory Delta_Log
  imports Freshness "HOL-Library.Sublist"
begin

text \<open>
  The Delta transaction log of the served tables (\<open>delta/log.py\<close>): the commits derived from the versions in the snapshot registry, kept in
  memory, and the virtual objects (commit files and data files) that the S3 interface lists and serves.

  A commit is kept as its list of actions; \<open>commit_text\<close> is the text that is served for it. \<open>md5\<close> is the hexadecimal MD5 digest.
\<close>

section \<open>JSON text\<close>

text \<open>\<open>json.dumps\<close> with the separators \<open>","\<close> and \<open>":"\<close>, for the objects written here.\<close>

definition json_escape :: "char \<Rightarrow> string" where
  "json_escape c =
     (if c = CHR 0x22 then [CHR 0x5C, CHR 0x22] else if c = CHR 0x5C then [CHR 0x5C, CHR 0x5C]
      else if c = CHR 0x0A then [CHR 0x5C, CHR ''n''] else if c = CHR 0x0D then [CHR 0x5C, CHR ''r'']
      else if c = CHR 0x09 then [CHR 0x5C, CHR ''t''] else if c = CHR 0x08 then [CHR 0x5C, CHR ''b'']
      else if c = CHR 0x0C then [CHR 0x5C, CHR ''f'']
      else if of_char c < (32 :: nat) \<or> of_char c > (126 :: nat) then [CHR 0x5C, CHR ''u''] @ ''00'' @ py_hex [c]
      else [c])"

definition json_str :: "string \<Rightarrow> string" where
  "json_str s = [CHR 0x22] @ concat (map json_escape s) @ [CHR 0x22]"

definition json_bool :: "bool \<Rightarrow> string" where
  "json_bool b = (if b then ''true'' else ''false'')"

definition json_obj :: "(string \<times> string) list \<Rightarrow> string" where
  "json_obj items = ''{'' @ py_join '','' (map (\<lambda>(k, v). json_str k @ '':'' @ v) items) @ ''}''"

definition json_arr :: "string list \<Rightarrow> string" where
  "json_arr items = ''['' @ py_join '','' items @ '']''"

section \<open>Schema\<close>

definition simple_types :: "(string \<times> string) list" where
  "simple_types =
     [(''boolean'', ''boolean''), (''int'', ''integer''), (''long'', ''long''), (''float'', ''float''), (''double'', ''double''),
      (''date'', ''date''), (''string'', ''string''), (''binary'', ''binary''), (''uuid'', ''string''), (''time'', ''string''),
      (''timestamp'', ''timestamp''), (''timestamptz'', ''timestamp'')]"

definition delta_type :: "string \<Rightarrow> string" where
  "delta_type iceberg_type =
     (let t = py_casefold (py_strip_space iceberg_type) in
      case map_of simple_types t of
        Some d \<Rightarrow> d
      | None \<Rightarrow>
          if py_startswith t ''decimal('' then filter (\<lambda>c. c \<noteq> CHR '' '') t
          else if py_startswith t ''fixed('' then ''binary''
          else ''string'')"

definition schema_string :: "table_column list \<Rightarrow> string" where
  "schema_string cols =
     json_obj [(''type'', json_str ''struct''),
       (''fields'', json_arr (map (\<lambda>c. json_obj [(''name'', json_str (tc_name c)), (''type'', json_str (delta_type (tc_type c))),
          (''nullable'', json_bool (tc_nullable c)), (''metadata'', ''{}'')]) cols))]"

definition table_uuid :: "(string \<Rightarrow> string) \<Rightarrow> string \<Rightarrow> string" where
  "table_uuid md5 name =
     (let h = md5 (''delta:'' @ name) in
      take 8 h @ ''-'' @ take 4 (drop 8 h) @ ''-'' @ take 4 (drop 12 h) @ ''-'' @ take 4 (drop 16 h) @ ''-'' @ take 12 (drop 20 h))"

section \<open>Actions and commits\<close>

datatype action =
    Commit_Info int string
  | Protocol int int
  | Meta_Data string string string int
  | Add_File string int int int
  | Remove_File string int int

definition rel_path :: "string \<Rightarrow> string \<Rightarrow> string" where
  "rel_path object_key table_path =
     (if py_startswith object_key (table_path @ ''/'') then drop (Suc (length table_path)) object_key else object_key)"

definition metadata_action :: "(string \<Rightarrow> string) \<Rightarrow> snapshot \<Rightarrow> action" where
  "metadata_action md5 s =
     Meta_Data (table_uuid md5 (snapshot_name s)) (snapshot_name s) (schema_string (st_schema (ss_table s))) (ss_watermark_ms s)"

definition int_field :: "string \<Rightarrow> int \<Rightarrow> string \<times> string" where
  "int_field k n = (k, py_str_int n)"

fun action_text :: "action \<Rightarrow> string" where
  "action_text (Commit_Info ts operation) =
     json_obj [(''commitInfo'', json_obj [int_field ''timestamp'' ts, (''operation'', json_str operation), (''operationParameters'', ''{}''),
       (''engineInfo'', json_str ''Fabric Shortcut Proxy'')])]"
| "action_text (Protocol reader writer) =
     json_obj [(''protocol'', json_obj [int_field ''minReaderVersion'' reader, int_field ''minWriterVersion'' writer])]"
| "action_text (Meta_Data uuid name schema created) =
     json_obj [(''metaData'', json_obj [(''id'', json_str uuid), (''name'', json_str name),
       (''format'', json_obj [(''provider'', json_str ''parquet''), (''options'', ''{}'')]), (''schemaString'', json_str schema),
       (''partitionColumns'', ''[]''), (''configuration'', json_obj [(''delta.dataSkippingNumIndexedCols'', json_str ''0'')]),
       int_field ''createdTime'' created])]"
| "action_text (Add_File path n records ts) =
     json_obj [(''add'', json_obj [(''path'', json_str path), (''partitionValues'', ''{}''), int_field ''size'' n,
       int_field ''modificationTime'' ts, (''dataChange'', json_bool True),
       (''stats'', json_str (json_obj [int_field ''numRecords'' records, (''minValues'', ''{}''), (''maxValues'', ''{}''), (''nullCount'', ''{}'')]))])]"
| "action_text (Remove_File path n ts) =
     json_obj [(''remove'', json_obj [(''path'', json_str path), int_field ''deletionTimestamp'' ts, (''dataChange'', json_bool True),
       (''extendedFileMetadata'', json_bool True), (''partitionValues'', ''{}''), int_field ''size'' n])]"

definition commit_text :: "action list \<Rightarrow> string" where
  "commit_text actions = concat (map (\<lambda>a. action_text a @ [CHR 0x0A]) actions)"

definition build_snapshot_commit :: "layout \<Rightarrow> (string \<Rightarrow> string) \<Rightarrow> snapshot \<Rightarrow> bytes" where
  "build_snapshot_commit ly md5 s =
     commit_text ([Commit_Info (ss_watermark_ms s) ''CREATE TABLE'', Protocol 1 2, metadata_action md5 s]
       @ map (\<lambda>sp. Add_File (''s3://'' @ ly_bucket ly @ ''/'' @ sp_object_key sp) (with_default (sp_file_size sp) 0)
                (with_default (sp_record_count sp) 0) (ss_watermark_ms s)) (ss_splits s))"

section \<open>The log\<close>

record delta =
  dl_commits :: "(string, action list list) dict"
  dl_prev_files :: "(string, (string \<times> int \<times> int) list) dict"
  dl_committed :: "(string, int) dict"

definition empty_delta :: delta where
  "empty_delta = \<lparr>dl_commits = [], dl_prev_files = [], dl_committed = []\<rparr>"

definition committed_version :: "string \<Rightarrow> delta \<Rightarrow> int" where
  "committed_version name d = with_default (map_of (dl_committed d) name) 0"

definition commits_of :: "string \<Rightarrow> delta \<Rightarrow> action list list" where
  "commits_of name d = with_default (map_of (dl_commits d) name) []"

definition prev_files :: "string \<Rightarrow> delta \<Rightarrow> (string \<times> int \<times> int) list" where
  "prev_files name d = with_default (map_of (dl_prev_files d) name) []"

definition files_of :: "snapshot \<Rightarrow> (string \<times> int \<times> int) list" where
  "files_of s =
     map (\<lambda>sp. (rel_path (sp_object_key sp) (ss_table_path s), with_default (sp_file_size sp) 0, with_default (sp_record_count sp) 0)) (ss_splits s)"

definition create_actions :: "(string \<Rightarrow> string) \<Rightarrow> snapshot \<Rightarrow> action list" where
  "create_actions md5 s =
     [Commit_Info (ss_watermark_ms s) ''CREATE TABLE'', Protocol 1 2, metadata_action md5 s]
       @ map (\<lambda>(p, sz, rc). Add_File p sz rc (ss_watermark_ms s)) (files_of s)"

definition diff_actions :: "(string \<times> int \<times> int) list \<Rightarrow> snapshot \<Rightarrow> action list" where
  "diff_actions prev s =
     map (\<lambda>(p, sz, rc). Add_File p sz rc (ss_watermark_ms s)) (filter (\<lambda>(p, _). p \<notin> fst ` set prev) (files_of s))
     @ map (\<lambda>(p, sz, _). Remove_File p sz (ss_watermark_ms s)) (filter (\<lambda>(p, _). p \<notin> fst ` set (files_of s)) prev)"

definition delta_register :: "(string \<Rightarrow> string) \<Rightarrow> snapshot \<Rightarrow> delta \<Rightarrow> delta" where
  "delta_register md5 s d =
     (let name = snapshot_name s; ver = ss_version s; commits = commits_of name d;
          diff = diff_actions (prev_files name d) s;
          mark = (\<lambda>d. d\<lparr>dl_committed := AList.update name ver (dl_committed d)\<rparr>);
          append = (\<lambda>actions. mark (d\<lparr>dl_commits := AList.update name (commits @ [actions]) (dl_commits d),
                                     dl_prev_files := AList.update name (files_of s) (dl_prev_files d)\<rparr>)) in
      if ver \<le> committed_version name d then d
      else if commits = [] then append (create_actions md5 s)
      else if diff = [] then mark d
      else append (Commit_Info (ss_watermark_ms s) ''WRITE'' # diff))"

definition delta_sync :: "(string \<Rightarrow> string) \<Rightarrow> catalog \<Rightarrow> string \<Rightarrow> delta \<Rightarrow> delta" where
  "delta_sync md5 c name d =
     fold (\<lambda>s d. if ss_version s > committed_version name d then delta_register md5 s d else d) (get_snapshot_history name c) d"

definition table_names :: "catalog \<Rightarrow> string list" where
  "table_names c = first_occurrences (map snapshot_name (get_all_snapshots c))"

definition sync_all :: "(string \<Rightarrow> string) \<Rightarrow> catalog \<Rightarrow> delta \<Rightarrow> delta" where
  "sync_all md5 c d = fold (delta_sync md5 c) (table_names c) d"

definition invalidate_table :: "string \<Rightarrow> delta \<Rightarrow> delta" where
  "invalidate_table name d =
     d\<lparr>dl_commits := AList.delete name (dl_commits d), dl_prev_files := AList.delete name (dl_prev_files d),
       dl_committed := AList.delete name (dl_committed d)\<rparr>"

section \<open>Served objects\<close>

record s3_object =
  ob_size :: int
  ob_last_modified_ms :: int
  ob_data :: "bytes option"
  ob_content_type :: string
  ob_etag :: "string option"

definition pad20 :: "nat \<Rightarrow> string" where
  "pad20 n = replicate (20 - length (nat_digits n)) CHR ''0'' @ nat_digits n"

definition log_key :: "string \<Rightarrow> nat \<Rightarrow> string" where
  "log_key path version = path @ ''/_delta_log/'' @ pad20 version @ ''.json''"

definition commit_object :: "(string \<Rightarrow> string) \<Rightarrow> int \<Rightarrow> action list \<Rightarrow> s3_object" where
  "commit_object md5 modified actions =
     (let data = commit_text actions in
      \<lparr>ob_size = int (length data), ob_last_modified_ms = modified, ob_data = Some data, ob_content_type = ''application/json'',
       ob_etag = Some (md5 data)\<rparr>)"

definition split_object :: "(string \<Rightarrow> string) \<Rightarrow> int \<Rightarrow> bytes option \<Rightarrow> split \<Rightarrow> s3_object" where
  "split_object md5 modified cached s =
     \<lparr>ob_size = (case sp_file_size s of Some n \<Rightarrow> n | None \<Rightarrow> (case cached of Some d \<Rightarrow> int (length d) | None \<Rightarrow> 10 * 1024 * 1024)),
      ob_last_modified_ms = modified, ob_data = None, ob_content_type = ''application/octet-stream'',
      ob_etag = (if sp_s3_etag s \<noteq> None \<and> sp_s3_etag s \<noteq> Some [] then sp_s3_etag s else map_option md5 cached)\<rparr>"

type_synonym objects = "(string, s3_object) dict"

text \<open>The data files of the versions of one table, newest version first; each key once.\<close>

fun data_objects ::
  "(string \<Rightarrow> string) \<Rightarrow> (string \<Rightarrow> string) \<Rightarrow> tier_env \<Rightarrow> (int \<times> split) list \<Rightarrow> string list \<Rightarrow> objects \<times> tiers \<Rightarrow> objects \<times> tiers" where
  "data_objects sha md5 e [] seen acc = acc"
| "data_objects sha md5 e ((w, s) # ss) seen acc =
     (if sp_object_key s \<in> set seen then data_objects sha md5 e ss seen acc
      else case acc of (obs, tr) \<Rightarrow>
        (case peek_parquet sha e (sp_object_key s) tr of (cached, tr1) \<Rightarrow>
           data_objects sha md5 e ss (sp_object_key s # seen) (AList.update (sp_object_key s) (split_object md5 w cached s) obs, tr1)))"

definition newest :: "snapshot list \<Rightarrow> snapshot" where
  "newest ss = foldl (\<lambda>b s. if ss_version b < ss_version s then s else b) (hd ss) (tl ss)"

definition table_objects ::
  "(string \<Rightarrow> string) \<Rightarrow> (string \<Rightarrow> string) \<Rightarrow> tier_env \<Rightarrow> catalog \<Rightarrow> string \<Rightarrow> objects \<times> tiers \<times> delta \<Rightarrow> objects \<times> tiers \<times> delta" where
  "table_objects sha md5 e c name = (\<lambda>(obs, tr, d).
     let snaps = filter (\<lambda>s. snapshot_name s = name) (get_all_snapshots c); cur = newest snaps; d1 = delta_sync md5 c name d;
         obs1 = fold (\<lambda>(i, acts) obs. AList.update (log_key (ss_table_path cur) i) (commit_object md5 (ss_watermark_ms cur) acts) obs)
                  (enumerate 0 (commits_of name d1)) obs;
         files = concat (map (\<lambda>s. map (\<lambda>sp. (ss_watermark_ms s, sp)) (ss_splits s)) (sort_key (\<lambda>s. - ss_version s) snaps)) in
     case data_objects sha md5 e files [] (obs1, tr) of (obs2, tr2) \<Rightarrow> (obs2, tr2, d1))"

definition delta_log_objects ::
  "(string \<Rightarrow> string) \<Rightarrow> (string \<Rightarrow> string) \<Rightarrow> tier_env \<Rightarrow> catalog \<Rightarrow> tiers \<times> delta \<Rightarrow> objects \<times> tiers \<times> delta" where
  "delta_log_objects sha md5 e c = (\<lambda>(tr, d). fold (table_objects sha md5 e c) (table_names c) ([], tr, d))"

text \<open>\<open>"/_delta_log/" in key\<close>.\<close>

declare occurs_in_simps [code]

definition log_like :: "string \<Rightarrow> bool" where
  "log_like key \<longleftrightarrow> occurs_in ''/_delta_log/'' key \<and> py_endswith key ''.json''"

definition get_commit_bytes ::
  "(string \<Rightarrow> string) \<Rightarrow> (string \<Rightarrow> string) \<Rightarrow> tier_env \<Rightarrow> catalog \<Rightarrow> string \<Rightarrow> tiers \<times> delta \<Rightarrow> bytes option \<times> tiers \<times> delta" where
  "get_commit_bytes sha md5 e c key td =
     (if \<not> log_like key then (None, td)
      else case delta_log_objects sha md5 e c td of (obs, td1) \<Rightarrow> (Option.bind (map_of obs key) ob_data, td1))"

section \<open>Replaying the log\<close>

text \<open>The files of a table as a reader finds them: the actions of all commits in order.\<close>

fun apply_action :: "action \<Rightarrow> (string, int \<times> int) dict \<Rightarrow> (string, int \<times> int) dict" where
  "apply_action (Add_File p sz rc ts) m = AList.update p (sz, rc) m"
| "apply_action (Remove_File p sz ts) m = AList.delete p m"
| "apply_action _ m = m"

definition replay :: "action list list \<Rightarrow> (string, int \<times> int) dict" where
  "replay commits = fold (fold apply_action) commits []"

abbreviation live_paths :: "action list list \<Rightarrow> string set" where
  "live_paths commits \<equiv> dom (map_of (replay commits))"

abbreviation paths_of :: "(string \<times> int \<times> int) list \<Rightarrow> string set" where
  "paths_of files \<equiv> fst ` set files"

lemma replay_snoc: "replay (commits @ [acts]) = fold apply_action acts (replay commits)"
  by (simp add: replay_def)

lemma replay_adds:
  "dom (map_of (fold apply_action (map (\<lambda>(p, sz, rc). Add_File p sz rc ts) fs) m)) = dom (map_of m) \<union> paths_of fs"
  by (induction fs arbitrary: m) auto

lemma replay_removes:
  "dom (map_of (fold apply_action (map (\<lambda>(p, sz, _). Remove_File p sz ts) fs) m)) = dom (map_of m) - paths_of fs"
  by (induction fs arbitrary: m) (auto split: if_splits)

lemma replay_create: "dom (map_of (fold apply_action (create_actions md5 s) [])) = paths_of (files_of s)"
  by (simp add: create_actions_def metadata_action_def replay_adds)

lemma paths_filter: "paths_of (filter (\<lambda>(p, _). p \<notin> A) fs) = paths_of fs - A"
  by (induction fs) auto

lemma replay_diff:
  assumes "dom (map_of m) = paths_of prev"
  shows "dom (map_of (fold apply_action (diff_actions prev s) m)) = paths_of (files_of s)"
  unfolding diff_actions_def fold_append comp_def replay_removes replay_adds assms paths_filter by blast

lemma diff_empty:
  assumes "diff_actions prev s = []"
  shows "paths_of prev = paths_of (files_of s)"
proof -
  have "filter (\<lambda>(p, _). p \<notin> paths_of prev) (files_of s) = []" "filter (\<lambda>(p, _). p \<notin> paths_of (files_of s)) prev = []"
    using assms by (simp_all add: diff_actions_def)
  then have "paths_of (files_of s) - paths_of prev = {}" "paths_of prev - paths_of (files_of s) = {}"
    using paths_filter [of "paths_of prev" "files_of s"] paths_filter [of "paths_of (files_of s)" prev] by simp_all
  then show ?thesis by blast
qed

section \<open>The log follows the registry\<close>

definition log_ok :: "string \<Rightarrow> delta \<Rightarrow> bool" where
  "log_ok name d \<longleftrightarrow>
     (if commits_of name d = [] then map_of (dl_committed d) name = None
      else live_paths (commits_of name d) = paths_of (prev_files name d))"

lemmas delta_reads = commits_of_def prev_files_def committed_version_def

lemma delta_register_others:
  assumes "name \<noteq> snapshot_name s"
  shows "commits_of name (delta_register md5 s d) = commits_of name d" "prev_files name (delta_register md5 s d) = prev_files name d"
    "committed_version name (delta_register md5 s d) = committed_version name d" "log_ok name (delta_register md5 s d) = log_ok name d"
proof -
  have "map_of (dl_commits (delta_register md5 s d)) name = map_of (dl_commits d) name
      \<and> map_of (dl_prev_files (delta_register md5 s d)) name = map_of (dl_prev_files d) name
      \<and> map_of (dl_committed (delta_register md5 s d)) name = map_of (dl_committed d) name"
    using assms by (simp add: delta_register_def Let_def)
  then show "commits_of name (delta_register md5 s d) = commits_of name d" "prev_files name (delta_register md5 s d) = prev_files name d"
    "committed_version name (delta_register md5 s d) = committed_version name d" "log_ok name (delta_register md5 s d) = log_ok name d"
    by (simp_all add: log_ok_def delta_reads)
qed

lemma delta_register_live:
  fixes md5 s d
  assumes "log_ok (snapshot_name s) d" and "committed_version (snapshot_name s) d < ss_version s"
  defines "d' \<equiv> delta_register md5 s d"
  shows "log_ok (snapshot_name s) d'" and "committed_version (snapshot_name s) d' = ss_version s"
    and "live_paths (commits_of (snapshot_name s) d') = paths_of (files_of s)" and "commits_of (snapshot_name s) d' \<noteq> []"
    and "prefix (commits_of (snapshot_name s) d) (commits_of (snapshot_name s) d')"
    and "paths_of (prev_files (snapshot_name s) d') = paths_of (files_of s)"
proof -
  let ?name = "snapshot_name s"
  let ?diff = "diff_actions (prev_files ?name d) s"
  consider (create) "commits_of ?name d = []" | (same) "commits_of ?name d \<noteq> []" "?diff = []" | (changed) "commits_of ?name d \<noteq> []" "?diff \<noteq> []"
    by blast
  then have "log_ok ?name d' \<and> committed_version ?name d' = ss_version s \<and> live_paths (commits_of ?name d') = paths_of (files_of s)
    \<and> commits_of ?name d' \<noteq> [] \<and> prefix (commits_of ?name d) (commits_of ?name d') \<and> paths_of (prev_files ?name d') = paths_of (files_of s)"
  proof cases
    case create
    have new: "commits_of ?name d' = [create_actions md5 s]" "prev_files ?name d' = files_of s" "committed_version ?name d' = ss_version s"
      using create assms(2) unfolding d'_def delta_register_def Let_def by (simp_all add: delta_reads)
    then show ?thesis using replay_create create by (simp add: log_ok_def replay_def)
  next
    case same
    have new: "commits_of ?name d' = commits_of ?name d" "prev_files ?name d' = prev_files ?name d" "committed_version ?name d' = ss_version s"
      using same assms(2) unfolding d'_def delta_register_def Let_def by (simp_all add: delta_reads)
    then show ?thesis using same diff_empty [OF same(2)] assms(1) by (simp add: log_ok_def)
  next
    case changed
    have new: "commits_of ?name d' = commits_of ?name d @ [Commit_Info (ss_watermark_ms s) ''WRITE'' # ?diff]"
      "prev_files ?name d' = files_of s" "committed_version ?name d' = ss_version s"
      using changed assms(2) unfolding d'_def delta_register_def Let_def by (simp_all add: delta_reads)
    have "live_paths (commits_of ?name d') = paths_of (files_of s)"
      using replay_diff [of "replay (commits_of ?name d)"] assms(1) changed by (simp add: new replay_snoc log_ok_def)
    then show ?thesis by (simp add: new log_ok_def)
  qed
  then show "log_ok ?name d'" and "committed_version ?name d' = ss_version s" and "live_paths (commits_of ?name d') = paths_of (files_of s)"
    and "commits_of ?name d' \<noteq> []" and "prefix (commits_of ?name d) (commits_of ?name d')" and "paths_of (prev_files ?name d') = paths_of (files_of s)"
    by blast+
qed

lemma sync_fold:
  fixes md5 name h d
  assumes "\<forall>s\<in>set h. snapshot_name s = name" and "log_ok name d"
  defines "d' \<equiv> fold (\<lambda>s d. if ss_version s > committed_version name d then delta_register md5 s d else d) h d"
  shows "log_ok name d'" and "committed_version name d' = fold max (map ss_version h) (committed_version name d)"
    and "prefix (commits_of name d) (commits_of name d')"
    and "n \<noteq> name \<Longrightarrow> commits_of n d' = commits_of n d \<and> prev_files n d' = prev_files n d \<and> committed_version n d' = committed_version n d \<and> log_ok n d' = log_ok n d"
proof -
  have "log_ok name d' \<and> committed_version name d' = fold max (map ss_version h) (committed_version name d)
    \<and> prefix (commits_of name d) (commits_of name d')
    \<and> (\<forall>n. n \<noteq> name \<longrightarrow> commits_of n d' = commits_of n d \<and> prev_files n d' = prev_files n d \<and> committed_version n d' = committed_version n d \<and> log_ok n d' = log_ok n d)"
    unfolding d'_def using assms(1,2)
  proof (induction h arbitrary: d)
    case (Cons s h)
    show ?case
    proof (cases "committed_version name d < ss_version s")
      case True
      have name: "snapshot_name s = name" using Cons.prems(1) by simp
      note step = delta_register_live [of s d md5, unfolded name, OF Cons.prems(2) True]
      have "max (ss_version s) (committed_version name d) = ss_version s" using True by simp
      then show ?thesis
        using Cons.IH [of "delta_register md5 s d"] Cons.prems step delta_register_others [of _ s md5 d, unfolded name] True
        by (auto intro: prefix_order.trans)
    next
      case False
      then have "max (ss_version s) (committed_version name d) = committed_version name d" by simp
      then show ?thesis using Cons.IH [of d] Cons.prems False by simp
    qed
  qed simp
  then show "log_ok name d'" and "committed_version name d' = fold max (map ss_version h) (committed_version name d)"
    and "prefix (commits_of name d) (commits_of name d')"
    and "n \<noteq> name \<Longrightarrow> commits_of n d' = commits_of n d \<and> prev_files n d' = prev_files n d \<and> committed_version n d' = committed_version n d \<and> log_ok n d' = log_ok n d"
    by blast+
qed

lemma fold_max_le: "(\<forall>x\<in>set xs. x < (m :: int)) \<Longrightarrow> a < m \<Longrightarrow> fold max xs a < m"
  by (induction xs arbitrary: a) auto

lemma sync_current:
  assumes "history_ok name h" and "log_ok name d" and "get_snapshot_history name c = h"
  shows "committed_version name d < ss_version (last h) \<Longrightarrow>
      live_paths (commits_of name (delta_sync md5 c name d)) = paths_of (files_of (last h))
      \<and> committed_version name (delta_sync md5 c name d) = ss_version (last h)
      \<and> paths_of (prev_files name (delta_sync md5 c name d)) = paths_of (files_of (last h))
      \<and> commits_of name (delta_sync md5 c name d) \<noteq> []"
    and "ss_version (last h) \<le> committed_version name d \<Longrightarrow> delta_sync md5 c name d = d"
proof -
  have ne: "h \<noteq> []" and names: "\<forall>s\<in>set h. snapshot_name s = name" and sorted: "sorted_wrt (<) (map ss_version h)"
    using assms(1) by (simp_all add: history_ok_def)
  have below: "\<forall>x\<in>set (map ss_version (butlast h)). x < ss_version (last h)"
    using sorted ne by (cases h rule: rev_cases) (auto simp: sorted_wrt_append)
  let ?f = "\<lambda>s d. if ss_version s > committed_version name d then delta_register md5 s d else d"
  have sync: "delta_sync md5 c name d = ?f (last h) (fold ?f (butlast h) d)"
  proof -
    have "delta_sync md5 c name d = fold ?f (butlast h @ [last h]) d" using ne assms(3) by (simp add: delta_sync_def)
    then show ?thesis by (simp only: fold_append comp_apply fold_simps)
  qed
  have names': "\<forall>s\<in>set (butlast h). snapshot_name s = name" using names by (meson in_set_butlastD)
  note before = sync_fold(1-3) [OF names' assms(2), of md5]
  {
    assume less: "committed_version name d < ss_version (last h)"
    then have "committed_version name (fold ?f (butlast h) d) < ss_version (last h)"
      unfolding before(2) using below by (intro fold_max_le)
    then show "live_paths (commits_of name (delta_sync md5 c name d)) = paths_of (files_of (last h))
      \<and> committed_version name (delta_sync md5 c name d) = ss_version (last h)
      \<and> paths_of (prev_files name (delta_sync md5 c name d)) = paths_of (files_of (last h))
      \<and> commits_of name (delta_sync md5 c name d) \<noteq> []"
      using delta_register_live [of "last h" "fold ?f (butlast h) d" md5] before(1) names ne unfolding sync by simp
  }
  assume le: "ss_version (last h) \<le> committed_version name d"
  have "fold ?f xs d = d" if "\<forall>s\<in>set xs. ss_version s \<le> committed_version name d" for xs
    using that by (induction xs) simp_all
  moreover have "\<forall>s\<in>set h. ss_version s \<le> committed_version name d"
  proof
    fix s
    assume "s \<in> set h"
    then have "s \<in> set (butlast h) \<or> s = last h" using ne by (cases h rule: rev_cases) auto
    then show "ss_version s \<le> committed_version name d" using below le by auto
  qed
  ultimately show "delta_sync md5 c name d = d" unfolding delta_sync_def assms(3) .
qed

section \<open>Runs\<close>

datatype serve_op =
    Poll fresh_env served_table
  | Advance layout "string \<Rightarrow> string" string
  | List_Objects "string \<Rightarrow> string" "string \<Rightarrow> string" tier_env
  | Invalidate_Log string

fun serve_step :: "serve_op \<Rightarrow> fresh \<times> delta \<Rightarrow> fresh \<times> delta" where
  "serve_step (Poll en t) (st, d) = (snd (poll_once en t st), d)"
| "serve_step (Advance ly sha name) (st, d) = (st\<lparr>fr_catalog := snd (advance_table_snapshot ly sha name (fr_catalog st))\<rparr>, d)"
| "serve_step (List_Objects sha md5 e) (st, d) =
     (case delta_log_objects sha md5 e (fr_catalog st) (fr_tiers st, d) of (_, tr, d') \<Rightarrow> (st\<lparr>fr_tiers := tr\<rparr>, d'))"
| "serve_step (Invalidate_Log name) (st, d) = (st, invalidate_table name d)"

text \<open>Versions of a table only grow.\<close>

definition progress :: "catalog \<Rightarrow> catalog \<Rightarrow> bool" where
  "progress c c' \<longleftrightarrow> (\<forall>name s. map_of (cg_snapshots c) name = Some s \<longrightarrow>
     (\<exists>s'. map_of (cg_snapshots c') name = Some s' \<and> (s' = s \<or> ss_version s < ss_version s')))"

lemma progress_refl [simp]: "progress c c"
  by (auto simp: progress_def)

lemma publish_catalog:
  assumes "catalog_ok (fr_catalog st)"
  shows "catalog_ok (fr_catalog (snd (publish en cand st))) \<and> progress (fr_catalog st) (fr_catalog (snd (publish en cand st)))"
proof -
  define prior where "prior = map_of (cg_snapshots (fr_catalog st)) (snapshot_name cand)"
  define version where "version = (case prior of None \<Rightarrow> 1 | Some p \<Rightarrow> ss_version p + 1)"
  define new where "new = finalize_versioned_keys cand version"
  let ?c = "snd (register_snapshot (fe_layout en) new (fr_catalog st))"
  have new: "snapshot_name new = snapshot_name cand" "ss_version new = version" by (simp_all add: new_def finalize_versioned_keys_def)
  have "1 \<le> version" using next_version_pos [OF assms] by (simp add: version_def prior_def)
  then have "catalog_ok ?c" using catalog_ok_register [OF assms, of new "fe_layout en"] by (simp add: new prior_def version_def)
  moreover have "progress (fr_catalog st) ?c"
    by (auto simp: progress_def register_snapshot_def Let_def new prior_def version_def split: option.splits)
  moreover have "fr_catalog (snd (publish en cand st)) \<in> {fr_catalog st, ?c}"
    by (simp add: publish_def Let_def prior_def [symmetric] version_def [symmetric] new_def [symmetric] split: prod.split)
  ultimately show ?thesis using assms by auto
qed

lemma poll_catalog:
  assumes "catalog_ok (fr_catalog st)"
  shows "catalog_ok (fr_catalog (snd (poll_once en t st))) \<and> progress (fr_catalog st) (fr_catalog (snd (poll_once en t st)))"
proof -
  have "catalog_ok (fr_catalog (snd (materialize_and_publish en t s))) \<and> progress (fr_catalog s) (fr_catalog (snd (materialize_and_publish en t s)))"
    if "catalog_ok (fr_catalog s)" for s
    using that publish_catalog [of "s\<lparr>fr_tiers := _\<rparr>" en] by (simp add: materialize_and_publish_def split: prod.split option.split)
  from this [of st] this [of "st\<lparr>fr_tokens := _\<rparr>"] this [of "st\<lparr>fr_ttl_gen := _\<rparr>"] show ?thesis
    using assms by (simp add: poll_once_def Let_def split: option.split)
qed

lemma advance_catalog:
  assumes "catalog_ok c"
  shows "progress c (snd (advance_table_snapshot ly sha name c))"
proof (cases "map_of (cg_snapshots c) name")
  case (Some cur)
  then have "snapshot_name cur = name" using catalog_okD [OF assms Some] by blast
  then show ?thesis using Some by (auto simp: progress_def advance_table_snapshot_def advanced_def Let_def)
qed (simp add: advance_table_snapshot_def)

definition log_follows :: "string \<Rightarrow> catalog \<Rightarrow> delta \<Rightarrow> bool" where
  "log_follows name c d \<longleftrightarrow> log_ok name d \<and> (commits_of name d \<noteq> [] \<longrightarrow>
     (\<exists>cur. map_of (cg_snapshots c) name = Some cur \<and> committed_version name d \<le> ss_version cur
        \<and> (committed_version name d = ss_version cur \<longrightarrow> paths_of (prev_files name d) = paths_of (files_of cur))))"

lemma log_follows_progress:
  assumes "log_follows name c d" and "progress c c'"
  shows "log_follows name c' d"
  unfolding log_follows_def
proof (intro conjI impI)
  show "log_ok name d" using assms(1) by (simp add: log_follows_def)
  assume "commits_of name d \<noteq> []"
  then obtain cur where cur: "map_of (cg_snapshots c) name = Some cur" "committed_version name d \<le> ss_version cur"
    "committed_version name d = ss_version cur \<longrightarrow> paths_of (prev_files name d) = paths_of (files_of cur)"
    using assms(1) by (auto simp: log_follows_def)
  obtain cur' where cur': "map_of (cg_snapshots c') name = Some cur'" "cur' = cur \<or> ss_version cur < ss_version cur'"
    using assms(2) cur(1) unfolding progress_def by blast
  then show "\<exists>cur. map_of (cg_snapshots c') name = Some cur \<and> committed_version name d \<le> ss_version cur
      \<and> (committed_version name d = ss_version cur \<longrightarrow> paths_of (prev_files name d) = paths_of (files_of cur))"
    using cur(2,3) by fastforce
qed

definition in_step :: "string \<Rightarrow> catalog \<Rightarrow> delta \<Rightarrow> bool" where
  "in_step name c d \<longleftrightarrow> (\<forall>cur. map_of (cg_snapshots c) name = Some cur \<longrightarrow>
     live_paths (commits_of name d) = paths_of (files_of cur) \<and> committed_version name d = ss_version cur \<and> commits_of name d \<noteq> [])"

lemma sync_follows:
  assumes ok: "catalog_ok c" and follows: "log_follows name c d"
  shows "log_follows name c (delta_sync md5 c name d)" and "in_step name c (delta_sync md5 c name d)"
    and "prefix (commits_of name d) (commits_of name (delta_sync md5 c name d))"
proof -
  let ?d = "delta_sync md5 c name d"
  have log: "log_ok name d" using follows by (simp add: log_follows_def)
  have "log_follows name c ?d \<and> in_step name c ?d \<and> prefix (commits_of name d) (commits_of name ?d)"
  proof (cases "map_of (cg_snapshots c) name")
    case None
    then have "map_of (cg_history c) name = None" using ok by (auto simp: catalog_ok_def)
    then have "?d = d" by (simp add: delta_sync_def get_snapshot_history_def)
    then show ?thesis using follows None by (simp add: in_step_def)
  next
    case (Some cur)
    obtain h where h: "map_of (cg_history c) name = Some h" "history_ok name h" "last h = cur" using catalog_okD [OF ok Some] by blast
    have hist: "get_snapshot_history name c = h" using h(1) by (simp add: get_snapshot_history_def)
    have names: "\<forall>s\<in>set h. snapshot_name s = name" using h(2) by (simp add: history_ok_def)
    note after = sync_fold(1-3) [OF names log, of md5, folded hist, folded delta_sync_def]
    show ?thesis
    proof (cases "committed_version name d < ss_version cur")
      case True
      then show ?thesis
        using sync_current(1) [OF h(2) log hist, of md5] h(3) Some after by (simp add: log_follows_def in_step_def)
    next
      case False
      then have same: "?d = d" using sync_current(2) [OF h(2) log hist, of md5] h(3) by simp
      have "1 \<le> ss_version cur" using h(2,3) last_in_set by (auto simp: history_ok_def)
      then have "commits_of name d \<noteq> []" using False log by (auto simp: log_ok_def committed_version_def)
      then show ?thesis
        using follows log False Some same by (auto simp: log_follows_def in_step_def log_ok_def)
    qed
  qed
  then show "log_follows name c ?d" and "in_step name c ?d" and "prefix (commits_of name d) (commits_of name ?d)" by blast+
qed

lemma sync_others:
  assumes "catalog_ok c" and "log_ok name d" and "n \<noteq> name"
  shows "commits_of n (delta_sync md5 c name d) = commits_of n d" and "log_follows n c (delta_sync md5 c name d) = log_follows n c d"
    and "in_step n c (delta_sync md5 c name d) = in_step n c d"
proof -
  have "\<forall>s\<in>set (get_snapshot_history name c). snapshot_name s = name"
    using assms(1) by (auto simp: get_snapshot_history_def catalog_ok_def history_ok_def split: option.splits)
  note others = sync_fold(4) [OF this assms(2,3), of md5, folded delta_sync_def]
  then show "commits_of n (delta_sync md5 c name d) = commits_of n d" and "log_follows n c (delta_sync md5 c name d) = log_follows n c d"
    and "in_step n c (delta_sync md5 c name d) = in_step n c d"
    by (simp_all add: log_follows_def in_step_def)
qed

lemma sync_all_follows:
  assumes "catalog_ok c" and "\<forall>n. log_follows n c d"
  shows "(\<forall>n. log_follows n c (fold (delta_sync md5 c) names d)) \<and> (\<forall>n\<in>set names. in_step n c (fold (delta_sync md5 c) names d))
    \<and> (\<forall>n. prefix (commits_of n d) (commits_of n (fold (delta_sync md5 c) names d)))"
proof (induction names rule: rev_induct)
  case (snoc name names)
  let ?d = "fold (delta_sync md5 c) names d"
  have IH: "\<forall>n. log_follows n c ?d" "\<forall>n\<in>set names. in_step n c ?d" "\<forall>n. prefix (commits_of n d) (commits_of n ?d)" using snoc by blast+
  then have log: "log_ok name ?d" by (simp add: log_follows_def)
  note this_one = sync_follows [OF assms(1) IH(1) [rule_format, of name], of md5]
  note others = sync_others [OF assms(1) log, of _ md5]
  have "log_follows n c (delta_sync md5 c name ?d) \<and> (n \<in> set (names @ [name]) \<longrightarrow> in_step n c (delta_sync md5 c name ?d))
      \<and> prefix (commits_of n d) (commits_of n (delta_sync md5 c name ?d))" for n
  proof (cases "n = name")
    case True
    then show ?thesis using this_one IH(3) [rule_format, of name] by (auto intro: prefix_order.trans)
  next
    case False
    then show ?thesis using others [OF False] IH by simp
  qed
  then show ?case by simp
qed (use assms in simp)

lemma tables_sync: "snd (snd (fold (table_objects sha md5 e c) names (obs, tr, d))) = fold (delta_sync md5 c) names d"
proof (induction names arbitrary: obs tr d)
  case (Cons name names)
  have "snd (snd (table_objects sha md5 e c name (obs, tr, d))) = delta_sync md5 c name d"
    by (simp add: table_objects_def Let_def split: prod.split)
  then show ?case using Cons by (cases "table_objects sha md5 e c name (obs, tr, d)") simp
qed simp

lemma listing_syncs: "snd (snd (delta_log_objects sha md5 e c (tr, d))) = sync_all md5 c d"
  by (simp add: delta_log_objects_def sync_all_def tables_sync)

lemma sync_other_tables:
  assumes "catalog_ok c" and "\<forall>n. log_follows n c d" and "name \<notin> set names"
  shows "commits_of name (fold (delta_sync md5 c) names d) = commits_of name d"
  using assms(2,3)
proof (induction names arbitrary: d)
  case (Cons n names)
  have "log_ok n d" using Cons.prems(1) by (simp add: log_follows_def)
  then have "commits_of name (delta_sync md5 c n d) = commits_of name d" using sync_others(1) [OF assms(1)] Cons.prems(2) by simp
  moreover have "\<forall>m. log_follows m c (delta_sync md5 c n d)" using sync_all_follows [OF assms(1) Cons.prems(1), of md5 "[n]"] by simp
  ultimately show ?case using Cons by simp
qed simp

lemma table_names_all:
  assumes "catalog_ok c" and "map_of (cg_snapshots c) name = Some cur"
  shows "name \<in> set (table_names c)"
proof -
  obtain h where h: "map_of (cg_history c) name = Some h" "last h = cur" "history_ok name h" "snapshot_name cur = name"
    using catalog_okD [OF assms] by blast
  have "cur \<in> set h" using h(2,3) last_in_set unfolding history_ok_def by blast
  moreover have mem: "(name, h) \<in> set (cg_history c)" using h(1) by (rule map_of_SomeD)
  moreover have "cg_history c \<noteq> []" using mem by auto
  ultimately have "cur \<in> set (get_all_snapshots c)" unfolding get_all_snapshots_def by (simp add: bexI [of _ "(name, h)"])
  then have "snapshot_name cur \<in> set (map snapshot_name (get_all_snapshots c))" by simp
  then show ?thesis using h(4) by (simp add: table_names_def)
qed

lemma invalidate_follows:
  "n \<noteq> name \<Longrightarrow> commits_of n (invalidate_table name d) = commits_of n d"
  "log_follows n c d \<Longrightarrow> log_follows n c (invalidate_table name d)"
proof -
  show other: "commits_of n (invalidate_table name d) = commits_of n d" if "n \<noteq> name"
    using that by (simp add: invalidate_table_def commits_of_def)
  assume follows: "log_follows n c d"
  show "log_follows n c (invalidate_table name d)"
  proof (cases "n = name")
    case True
    then have "commits_of n (invalidate_table name d) = []" "map_of (dl_committed (invalidate_table name d)) n = None"
      by (simp_all add: invalidate_table_def commits_of_def)
    then show ?thesis by (simp add: log_follows_def log_ok_def)
  next
    case False
    then have "prev_files n (invalidate_table name d) = prev_files n d" "map_of (dl_committed (invalidate_table name d)) n = map_of (dl_committed d) n"
      by (simp_all add: invalidate_table_def prev_files_def)
    then show ?thesis using follows other [OF False] by (simp add: log_follows_def log_ok_def committed_version_def)
  qed
qed

definition serve_ok :: "fresh \<times> delta \<Rightarrow> bool" where
  "serve_ok = (\<lambda>(st, d). catalog_ok (fr_catalog st) \<and> (\<forall>n. log_follows n (fr_catalog st) d))"

lemma serve_step_ok:
  assumes "serve_ok sd"
  shows "serve_ok (serve_step op sd)"
    and "op \<noteq> Invalidate_Log name \<Longrightarrow> prefix (commits_of name (snd sd)) (commits_of name (snd (serve_step op sd)))"
proof -
  obtain st d where sd: "sd = (st, d)" by (cases sd)
  have ok: "catalog_ok (fr_catalog st)" "\<forall>n. log_follows n (fr_catalog st) d" using assms by (simp_all add: sd serve_ok_def)
  have "serve_ok (serve_step op sd) \<and> (op \<noteq> Invalidate_Log name \<longrightarrow> prefix (commits_of name (snd sd)) (commits_of name (snd (serve_step op sd))))"
  proof (cases op)
    case (Poll en t)
    have "\<forall>n. log_follows n (fr_catalog (snd (poll_once en t st))) d"
      using ok(2) poll_catalog [OF ok(1), of en t] log_follows_progress by blast
    then show ?thesis using poll_catalog [OF ok(1), of en t] Poll by (simp add: sd serve_ok_def)
  next
    case (Advance ly sha n)
    have "\<forall>m. log_follows m (snd (advance_table_snapshot ly sha n (fr_catalog st))) d"
      using ok(2) advance_catalog [OF ok(1)] log_follows_progress by blast
    then show ?thesis using catalog_ok_advance [OF ok(1)] Advance by (simp add: sd serve_ok_def)
  next
    case (List_Objects sha md5 e)
    obtain obs tr d' where list: "delta_log_objects sha md5 e (fr_catalog st) (fr_tiers st, d) = (obs, tr, d')"
      by (cases "delta_log_objects sha md5 e (fr_catalog st) (fr_tiers st, d)")
    then have "d' = sync_all md5 (fr_catalog st) d" using listing_syncs [of sha md5 e "fr_catalog st" "fr_tiers st" d] by simp
    then show ?thesis
      using sync_all_follows [OF ok, of md5 "table_names (fr_catalog st)"] ok(1) list List_Objects by (simp add: sd serve_ok_def sync_all_def)
  next
    case (Invalidate_Log n)
    have "log_follows m (fr_catalog st) (invalidate_table n d) \<and> (m \<noteq> n \<longrightarrow> commits_of m (invalidate_table n d) = commits_of m d)" for m
      using ok(2) [rule_format, of m] invalidate_follows by simp
    then show ?thesis using ok(1) Invalidate_Log by (auto simp: sd serve_ok_def)
  qed
  then show "serve_ok (serve_step op sd)"
    and "op \<noteq> Invalidate_Log name \<Longrightarrow> prefix (commits_of name (snd sd)) (commits_of name (snd (serve_step op sd)))" by blast+
qed

lemma serve_run_ok:
  assumes "serve_ok sd"
  shows "serve_ok (fold serve_step ops sd)"
    and "\<forall>op\<in>set ops. op \<noteq> Invalidate_Log name \<Longrightarrow> prefix (commits_of name (snd sd)) (commits_of name (snd (fold serve_step ops sd)))"
proof -
  have "serve_ok (fold serve_step ops sd) \<and> ((\<forall>op\<in>set ops. op \<noteq> Invalidate_Log name) \<longrightarrow>
      prefix (commits_of name (snd sd)) (commits_of name (snd (fold serve_step ops sd))))"
    using assms
  proof (induction ops arbitrary: sd)
    case (Cons op ops)
    then show ?case using Cons.IH [OF serve_step_ok(1) [OF Cons.prems]] serve_step_ok(2) [OF Cons.prems, of op name]
      by (auto intro: prefix_order.trans)
  qed simp
  then show "serve_ok (fold serve_step ops sd)"
    and "\<forall>op\<in>set ops. op \<noteq> Invalidate_Log name \<Longrightarrow> prefix (commits_of name (snd sd)) (commits_of name (snd (fold serve_step ops sd)))"
    by blast+
qed

section \<open>Listed objects\<close>

lemma filter_history_list:
  "distinct (keys_of d) \<Longrightarrow> \<forall>(k, h)\<in>set d. \<forall>s\<in>set h. f s = k \<Longrightarrow>
     filter (\<lambda>s. f s = name) (concat (map snd d)) = (case map_of d name of None \<Rightarrow> [] | Some h \<Rightarrow> h)"
proof (induction d)
  case (Cons x d)
  obtain k h where x: "x = (k, h)" by (cases x)
  have "filter (\<lambda>s. f s = name) h = (if k = name then h else [])" using Cons.prems(2) by (auto simp: x filter_id_conv filter_empty_conv)
  moreover have "map_of d k = None" using Cons.prems(1) by (simp add: x map_of_eq_None_iff)
  ultimately show ?case using Cons by (auto simp: x)
qed simp

lemma filter_history:
  assumes "catalog_ok c" and "map_of (cg_history c) name = Some h"
  shows "filter (\<lambda>s. snapshot_name s = name) (get_all_snapshots c) = h"
proof -
  have keys: "distinct (keys_of (cg_history c))" using assms(1) by (simp add: catalog_ok_def)
  have "\<forall>(k, g)\<in>set (cg_history c). \<forall>s\<in>set g. snapshot_name s = k"
    using assms(1) keys by (auto simp: catalog_ok_def history_ok_def)
  then have "filter (\<lambda>s. snapshot_name s = name) (concat (map snd (cg_history c))) = h"
    using filter_history_list [OF keys, of snapshot_name name] assms(2) by simp
  moreover have "cg_history c \<noteq> []" using assms(2) by auto
  ultimately show ?thesis by (simp add: get_all_snapshots_def)
qed

lemma newest_last: "sorted_wrt (<) (map ss_version h) \<Longrightarrow> h \<noteq> [] \<Longrightarrow> newest h = last h"
proof -
  have "foldl (\<lambda>b s. if ss_version b < ss_version s then s else b) x xs = last (x # xs)" if "sorted_wrt (<) (map ss_version (x # xs))" for x xs
    using that by (induction xs arbitrary: x) auto
  then show "sorted_wrt (<) (map ss_version h) \<Longrightarrow> h \<noteq> [] \<Longrightarrow> ?thesis" unfolding newest_def by (cases h) (simp_all del: last.simps)
qed

lemma data_objects_dom:
  "dom (map_of (fst (data_objects sha md5 e ss seen (obs, tr)))) = dom (map_of obs) \<union> (sp_object_key ` snd ` set ss - set seen)"
proof (induction ss arbitrary: seen obs tr)
  case (Cons x ss)
  obtain w s where x: "x = (w, s)" by (cases x)
  show ?case
  proof (cases "sp_object_key s \<in> set seen")
    case True
    then show ?thesis using Cons by (auto simp: x)
  next
    case False
    obtain cached tr1 where peek: "peek_parquet sha e (sp_object_key s) tr = (cached, tr1)" by (cases "peek_parquet sha e (sp_object_key s) tr")
    then show ?thesis using Cons False by (auto simp: x split: if_splits)
  qed
qed simp

lemma commit_objects_dom:
  "dom (map_of (fold (\<lambda>(i, acts) obs. AList.update (log_key path i) (commit_object md5 w acts) obs) xs obs))
     = dom (map_of obs) \<union> log_key path ` fst ` set xs"
  by (induction xs arbitrary: obs) auto

lemma table_objects_dom:
  assumes "table_objects sha md5 e c name (obs, tr, d) = (obs', tr', d')"
    and "snaps = filter (\<lambda>s. snapshot_name s = name) (get_all_snapshots c)"
  shows "dom (map_of obs') = dom (map_of obs) \<union> log_key (ss_table_path (newest snaps)) ` {..<length (commits_of name (delta_sync md5 c name d))}
    \<union> sp_object_key ` set (concat (map ss_splits snaps))"
proof -
  let ?commits = "commits_of name (delta_sync md5 c name d)"
  let ?obs1 = "fold (\<lambda>(i, acts) obs. AList.update (log_key (ss_table_path (newest snaps)) i) (commit_object md5 (ss_watermark_ms (newest snaps)) acts) obs)
    (enumerate 0 ?commits) obs"
  let ?files = "concat (map (\<lambda>s. map (\<lambda>sp. (ss_watermark_ms s, sp)) (ss_splits s)) (sort_key (\<lambda>s. - ss_version s) snaps))"
  have "obs' = fst (data_objects sha md5 e ?files [] (?obs1, tr))"
    using assms(1) unfolding table_objects_def Let_def assms(2) [symmetric] by (simp split: prod.splits)
  then have "dom (map_of obs') = dom (map_of ?obs1) \<union> sp_object_key ` snd ` set ?files"
    by (simp only: data_objects_dom) simp
  moreover have "snd ` set ?files = set (concat (map ss_splits snaps))" by force
  moreover have "dom (map_of ?obs1) = dom (map_of obs) \<union> log_key (ss_table_path (newest snaps)) ` {..<length ?commits}"
  proof -
    have "fst ` set (enumerate 0 ?commits) = {..<length ?commits}" by (metis atLeast0LessThan list.set_map map_fst_enumerate set_upt add_0)
    then show ?thesis by (simp only: commit_objects_dom)
  qed
  ultimately show ?thesis by simp
qed

lemma tables_dom: "dom (map_of obs) \<subseteq> dom (map_of (fst (fold (table_objects sha md5 e c) names (obs, tr, d))))"
proof (induction names arbitrary: obs tr d)
  case (Cons n names)
  obtain o1 t1 d1 where one: "table_objects sha md5 e c n (obs, tr, d) = (o1, t1, d1)" by (cases "table_objects sha md5 e c n (obs, tr, d)")
  then show ?case using table_objects_dom [OF one refl] Cons [of o1 t1 d1] by auto
qed simp

lemma listing_dom:
  assumes listing: "delta_log_objects sha md5 e c (tr, d) = (obs, tr', d')" and name: "name \<in> set (table_names c)"
    and snaps: "snaps = filter (\<lambda>s. snapshot_name s = name) (get_all_snapshots c)"
    and ok: "catalog_ok c" "\<forall>n. log_follows n c d"
  shows "sp_object_key ` set (concat (map ss_splits snaps)) \<subseteq> dom (map_of obs)"
    and "log_key (ss_table_path (newest snaps)) ` {..<length (commits_of name d')} \<subseteq> dom (map_of obs)"
proof -
  obtain ns1 ns2 where names: "table_names c = ns1 @ name # ns2" "name \<notin> set ns2"
    using split_list_last [OF name] by blast
  obtain o1 t1 d1 where first: "fold (table_objects sha md5 e c) ns1 ([], tr, d) = (o1, t1, d1)"
    by (cases "fold (table_objects sha md5 e c) ns1 ([], tr, d)")
  obtain o2 t2 d2 where mine: "table_objects sha md5 e c name (o1, t1, d1) = (o2, t2, d2)"
    by (cases "table_objects sha md5 e c name (o1, t1, d1)")
  have rest: "fold (table_objects sha md5 e c) ns2 (o2, t2, d2) = (obs, tr', d')"
    using listing names(1) first mine by (simp add: delta_log_objects_def)
  have sub: "dom (map_of o2) \<subseteq> dom (map_of obs)" using tables_dom [of o2 sha md5 e c ns2 t2 d2] rest by simp
  note dom = table_objects_dom [OF mine snaps]
  show "sp_object_key ` set (concat (map ss_splits snaps)) \<subseteq> dom (map_of obs)" using dom sub by blast
  have d1: "d1 = fold (delta_sync md5 c) ns1 d" using tables_sync [of sha md5 e c ns1 "[]" tr d] first by simp
  have d2: "d2 = delta_sync md5 c name d1" using tables_sync [of sha md5 e c "[name]" o1 t1 d1] mine by simp
  have "d' = fold (delta_sync md5 c) ns2 d2" using tables_sync [of sha md5 e c ns2 o2 t2 d2] rest by simp
  moreover have "\<forall>n. log_follows n c d2" using sync_all_follows [OF ok, of md5 "ns1 @ [name]"] d1 d2 by simp
  ultimately have "commits_of name d' = commits_of name d2" using sync_other_tables [OF ok(1)] names(2) by simp
  then show "log_key (ss_table_path (newest snaps)) ` {..<length (commits_of name d')} \<subseteq> dom (map_of obs)" using dom sub d2 by simp
qed

lemma rel_path_below: "py_startswith key (path @ ''/'') \<Longrightarrow> path @ ''/'' @ rel_path key path = key"
  by (auto simp: rel_path_def py_startswith_iff)

lemma live_file_listed:
  assumes listing: "delta_log_objects sha md5 e c (tr, d) = (obs, tr', d')" and ok: "catalog_ok c" "\<forall>n. log_follows n c d"
    and cur: "map_of (cg_snapshots c) name = Some cur"
    and under: "\<forall>s\<in>set (ss_splits cur). py_startswith (sp_object_key s) (ss_table_path cur @ ''/'')"
    and live: "p \<in> live_paths (commits_of name d')"
  shows "\<exists>s\<in>set (ss_splits cur). sp_object_key s = ss_table_path cur @ ''/'' @ p \<and> sp_object_key s \<in> dom (map_of obs)"
proof -
  have name: "name \<in> set (table_names c)" using table_names_all [OF ok(1) cur] .
  have "d' = sync_all md5 c d" using listing_syncs [of sha md5 e c tr d] listing by simp
  then have "in_step name c d'" using sync_all_follows [OF ok, of md5 "table_names c"] name by (simp add: sync_all_def)
  then have "p \<in> paths_of (files_of cur)" using live cur by (simp add: in_step_def)
  then obtain s where s: "s \<in> set (ss_splits cur)" "p = rel_path (sp_object_key s) (ss_table_path cur)" by (auto simp: files_of_def)
  obtain h where h: "map_of (cg_history c) name = Some h" "last h = cur" "history_ok name h"
    using catalog_okD [OF ok(1) cur] by blast
  then have "cur \<in> set h" using last_in_set unfolding history_ok_def by blast
  then have "sp_object_key s \<in> sp_object_key ` set (concat (map ss_splits h))" using s(1) by auto
  then have "sp_object_key s \<in> dom (map_of obs)"
    using listing_dom(1) [OF listing name refl ok] filter_history [OF ok(1) h(1)] by auto
  then show ?thesis using s under rel_path_below by metis
qed

lemma log_entries_listed:
  assumes listing: "delta_log_objects sha md5 e c (tr, d) = (obs, tr', d')" and ok: "catalog_ok c" "\<forall>n. log_follows n c d"
    and cur: "map_of (cg_snapshots c) name = Some cur" and i: "i < length (commits_of name d')"
  shows "log_key (ss_table_path cur) i \<in> dom (map_of obs)"
proof -
  obtain h where h: "map_of (cg_history c) name = Some h" "last h = cur" "history_ok name h"
    using catalog_okD [OF ok(1) cur] by blast
  then have "newest h = cur" using newest_last unfolding history_ok_def by blast
  then show ?thesis
    using listing_dom(2) [OF listing table_names_all [OF ok(1) cur] refl ok] filter_history [OF ok(1) h(1)] i by auto
qed

lemma current_split_found:
  assumes "\<not> (ly_canonical ly \<and> ly_aliases ly)" and "map_of (cg_snapshots c) name = Some cur" and "s \<in> set (ss_splits cur)"
  shows "\<exists>s'. get_split_by_key ly c (sp_object_key s) = Some s' \<and> split_matches (sp_object_key s) s'"
proof -
  have "s \<in> set (concat (map ss_splits (map snd (cg_snapshots c) @ concat (map snd (cg_history c)))))"
    using assms(3) map_of_SomeD [OF assms(2)] by force
  then have "get_split_by_key ly c (sp_object_key s) \<noteq> None"
    using assms(1) by (auto simp: get_split_by_key_def alias_to_active_key_def find_None_iff split_matches_def)
  then obtain s' where found: "get_split_by_key ly c (sp_object_key s) = Some s'" by blast
  then have "split_matches (sp_object_key s) s'"
    using assms(1) by (auto simp: get_split_by_key_def alias_to_active_key_def find_Some_iff)
  then show ?thesis using found by blast
qed

section \<open>The log served to a reader\<close>

text \<open>C15: Whatever polls, snapshot advances, listings and log invalidations have happened, replaying the transaction log of a table
  gives exactly the files of its current snapshot, and unless the log of that table was dropped by an invalidation, the commits served
  before are still there, unchanged and in the same places.\<close>

theorem delta_log_refines:
  assumes "serve_ok (st, d)" and "fold serve_step ops (st, d) = (st', d')"
    and "map_of (cg_snapshots (fr_catalog st')) name = Some cur"
  shows "live_paths (commits_of name (sync_all md5 (fr_catalog st') d')) = paths_of (files_of cur)
    \<and> ((\<forall>op\<in>set ops. op \<noteq> Invalidate_Log name) \<longrightarrow>
         prefix (commits_of name d) (commits_of name (sync_all md5 (fr_catalog st') d')))"
proof -
  have "serve_ok (st', d')" using serve_run_ok(1) [OF assms(1), of ops] assms(2) by simp
  then have ok: "catalog_ok (fr_catalog st')" "\<forall>n. log_follows n (fr_catalog st') d'" by (simp_all add: serve_ok_def)
  note sync = sync_all_follows [OF ok, of md5 "table_names (fr_catalog st')", folded sync_all_def]
  have "in_step name (fr_catalog st') (sync_all md5 (fr_catalog st') d')" using sync table_names_all [OF ok(1) assms(3)] by blast
  moreover have "prefix (commits_of name d) (commits_of name d')" if "\<forall>op\<in>set ops. op \<noteq> Invalidate_Log name"
    using serve_run_ok(2) [OF assms(1) that] assms(2) by simp
  moreover have "prefix (commits_of name d') (commits_of name (sync_all md5 (fr_catalog st') d'))" using sync by simp
  ultimately show ?thesis using assms(3) unfolding in_step_def by (metis prefix_order.trans)
qed

text \<open>C16: A reader that lists the store and replays the transaction log of a table finds every file the log names among the listed keys,
  under the path of the table, and every such key resolves to a split of the registry; every commit from version 0 on is listed.
  This holds when no legacy key aliasing is on and the keys of the snapshot lie under the path of its table.\<close>

theorem delta_files_resolve:
  assumes "serve_ok (st, d)" and "fold serve_step ops (st, d) = (st', d')"
    and "map_of (cg_snapshots (fr_catalog st')) name = Some cur"
    and "\<forall>s\<in>set (ss_splits cur). py_startswith (sp_object_key s) (ss_table_path cur @ ''/'')"
    and "\<not> (ly_canonical ly \<and> ly_aliases ly)"
    and "delta_log_objects sha md5 e (fr_catalog st') (fr_tiers st', d') = (obs, tr, d'')"
  shows "(\<forall>p\<in>live_paths (commits_of name d''). ss_table_path cur @ ''/'' @ p \<in> dom (map_of obs)
             \<and> (\<exists>s. get_split_by_key ly (fr_catalog st') (ss_table_path cur @ ''/'' @ p) = Some s \<and> split_matches (ss_table_path cur @ ''/'' @ p) s))
    \<and> (\<forall>i<length (commits_of name d''). log_key (ss_table_path cur) i \<in> dom (map_of obs))"
proof -
  have "serve_ok (st', d')" using serve_run_ok(1) [OF assms(1), of ops] assms(2) by simp
  then have ok: "catalog_ok (fr_catalog st')" "\<forall>n. log_follows n (fr_catalog st') d'" by (simp_all add: serve_ok_def)
  have listed: "ss_table_path cur @ ''/'' @ p \<in> dom (map_of obs)
      \<and> (\<exists>s. get_split_by_key ly (fr_catalog st') (ss_table_path cur @ ''/'' @ p) = Some s \<and> split_matches (ss_table_path cur @ ''/'' @ p) s)"
    if p: "p \<in> live_paths (commits_of name d'')" for p
  proof -
    obtain s where s: "s \<in> set (ss_splits cur)" "sp_object_key s = ss_table_path cur @ ''/'' @ p" "sp_object_key s \<in> dom (map_of obs)"
      using live_file_listed [OF assms(6) ok assms(3,4) p] by (elim bexE conjE)
    show ?thesis using current_split_found [OF assms(5,3) s(1)] s(3) unfolding s(2) by simp
  qed
  show ?thesis using listed log_entries_listed [OF assms(6) ok assms(3)] by blast
qed

section \<open>An example\<close>

definition example_ops :: "serve_op list" where
  "example_ops =
     [Poll (example_fresh_env (Some [[(''id'', Shown ''1'')]])) example_table,
      List_Objects (\<lambda>_. ''0'') (\<lambda>_. ''0'') (fe_tier_env (example_fresh_env None)),
      Advance (fe_layout (example_fresh_env None)) (\<lambda>_. ''0'') ''t'']"

lemma example_serve_ok: "serve_ok (example_fresh, empty_delta)"
proof -
  have "log_follows n empty_catalog empty_delta" for n by (simp add: log_follows_def log_ok_def delta_reads empty_delta_def)
  moreover have "catalog_ok empty_catalog" by (simp add: catalog_ok_def empty_catalog_def)
  ultimately show ?thesis by (simp add: serve_ok_def example_fresh_def)
qed

lemma example_catalog:
  "fr_catalog (fst (fold serve_step example_ops (example_fresh, empty_delta)))
     = snd (advance_table_snapshot (fe_layout (example_fresh_env None)) (\<lambda>_. ''0'') ''t''
         (fr_catalog (snd (poll_once (example_fresh_env (Some [[(''id'', Shown ''1'')]])) example_table example_fresh))))"
  by (simp add: example_ops_def split: prod.split)

lemma example_served:
  "(case map_of (cg_snapshots (fr_catalog (fst (fold serve_step example_ops (example_fresh, empty_delta))))) ''t'' of
      None \<Rightarrow> False
    | Some cur \<Rightarrow> ss_splits cur \<noteq> [] \<and> list_all (\<lambda>s. py_startswith (sp_object_key s) (ss_table_path cur @ ''/'')) (ss_splits cur))"
  unfolding example_catalog by code_simp

lemma example_run:
  obtains st d cur where "fold serve_step example_ops (example_fresh, empty_delta) = (st, d)"
    and "map_of (cg_snapshots (fr_catalog st)) ''t'' = Some cur" and "ss_splits cur \<noteq> []"
    and "\<forall>s\<in>set (ss_splits cur). py_startswith (sp_object_key s) (ss_table_path cur @ ''/'')"
  using example_served by (cases "fold serve_step example_ops (example_fresh, empty_delta)") (auto simp: list_all_iff split: option.splits)

theorem delta_log_refines_witness:
  "\<exists>st d cur. fold serve_step example_ops (example_fresh, empty_delta) = (st, d) \<and> map_of (cg_snapshots (fr_catalog st)) ''t'' = Some cur
     \<and> paths_of (files_of cur) \<noteq> {} \<and> live_paths (commits_of ''t'' (sync_all id (fr_catalog st) d)) = paths_of (files_of cur)"
proof -
  obtain st d cur where run: "fold serve_step example_ops (example_fresh, empty_delta) = (st, d)"
    "map_of (cg_snapshots (fr_catalog st)) ''t'' = Some cur" "ss_splits cur \<noteq> []"
    by (rule example_run)
  from run(3) have "paths_of (files_of cur) \<noteq> {}" by (simp add: files_of_def)
  moreover have "live_paths (commits_of ''t'' (sync_all id (fr_catalog st) d)) = paths_of (files_of cur)"
    using delta_log_refines [OF example_serve_ok run(1,2), of id] by (rule conjunct1)
  ultimately show ?thesis using run(1,2) by (intro exI conjI)
qed

theorem delta_files_resolve_witness:
  "\<exists>st d cur. fold serve_step example_ops (example_fresh, empty_delta) = (st, d) \<and> map_of (cg_snapshots (fr_catalog st)) ''t'' = Some cur
     \<and> (\<forall>p\<in>live_paths (commits_of ''t'' (snd (snd (delta_log_objects id id demo_env (fr_catalog st) (fr_tiers st, d))))).
          \<exists>s. get_split_by_key (fe_layout (example_fresh_env None)) (fr_catalog st) (ss_table_path cur @ ''/'' @ p) = Some s)"
proof -
  obtain st d cur where run: "fold serve_step example_ops (example_fresh, empty_delta) = (st, d)"
    "map_of (cg_snapshots (fr_catalog st)) ''t'' = Some cur"
    "\<forall>s\<in>set (ss_splits cur). py_startswith (sp_object_key s) (ss_table_path cur @ ''/'')"
    by (rule example_run)
  obtain obs tr d' where list: "delta_log_objects id id demo_env (fr_catalog st) (fr_tiers st, d) = (obs, tr, d')"
    by (cases "delta_log_objects id id demo_env (fr_catalog st) (fr_tiers st, d)")
  have "\<not> (ly_canonical (fe_layout (example_fresh_env None)) \<and> ly_aliases (fe_layout (example_fresh_env None)))"
    by (simp add: example_fresh_env_def)
  from delta_files_resolve [OF example_serve_ok run this list]
  have "\<exists>s. get_split_by_key (fe_layout (example_fresh_env None)) (fr_catalog st) (ss_table_path cur @ ''/'' @ p) = Some s"
    if "p \<in> live_paths (commits_of ''t'' d')" for p using that by (elim conjE ballE exE) auto
  then show ?thesis using run(1,2) list by (intro exI [of _ st] exI [of _ d] exI [of _ cur]) simp
qed

end
