(* ===== verification/Http_Range.thy ===== *)
theory Http_Range
  imports Artifact_Store
begin

text \<open>
  HTTP range requests as the two read paths of the proxy parse them: \<open>_apply_range\<close>, \<open>_range_is_unsatisfiable\<close> and
  \<open>_make_object_response\<close> of \<open>s3/router.py\<close> for objects held as bytes, and \<open>_parse_range\<close> of \<open>storage/passthrough.py\<close> for files
  that are streamed. The last section shows where the two agree.
\<close>

section \<open>Responses\<close>

text \<open>A response with the headers the read paths set; the body of an error document is its S3 error code.\<close>

datatype response_body = No_Body | Content bytes | Listing | Error_Doc string | Aborted

record response =
  rs_status :: int
  rs_content_type :: "string option"
  rs_content_length :: "int option"
  rs_content_range :: "string option"
  rs_etag :: "string option"
  rs_last_modified_ms :: "int option"
  rs_body :: response_body

definition bare_response :: "int \<Rightarrow> response" where
  "bare_response status =
     \<lparr>rs_status = status, rs_content_type = None, rs_content_length = None, rs_content_range = None, rs_etag = None,
      rs_last_modified_ms = None, rs_body = No_Body\<rparr>"

definition error_document :: "int \<Rightarrow> string \<Rightarrow> response" where
  "error_document status code = (bare_response status)\<lparr>rs_content_type := Some ''application/xml'', rs_body := Error_Doc code\<rparr>"

definition not_satisfiable :: "int \<Rightarrow> response" where
  "not_satisfiable size_all = (bare_response 416)\<lparr>rs_content_range := Some (''bytes */'' @ py_str_int size_all)\<rparr>"

definition content_range :: "int \<Rightarrow> int \<Rightarrow> int \<Rightarrow> string" where
  "content_range lo hi size_all = ''bytes '' @ py_str_int lo @ ''-'' @ py_str_int hi @ ''/'' @ py_str_int size_all"

section \<open>Ranges of objects held as bytes\<close>

text \<open>The first range of the header, without the unit; \<open>None\<close> when no byte range is asked for.\<close>

definition range_spec :: "string option \<Rightarrow> string option" where
  "range_spec header =
     (case header of
        None \<Rightarrow> None
      | Some h \<Rightarrow>
          if h = [] \<or> \<not> py_startswith h ''bytes='' then None
          else let spec = py_strip_space (drop 6 h) in
            Some (case py_partition CHR '','' spec of (head_part, found, _) \<Rightarrow> if found then py_strip_space head_part else spec))"

text \<open>The four results of \<open>_apply_range\<close> are the bytes, the first and the last position and whether the result is partial.\<close>

definition whole :: "bytes \<Rightarrow> bytes \<times> int \<times> int \<times> bool" where
  "whole data = (data, 0, int (length data) - 1, False)"

definition part :: "bytes \<Rightarrow> int \<Rightarrow> int \<Rightarrow> bytes \<times> int \<times> int \<times> bool" where
  "part data lo hi =
     (if lo < 0 \<or> lo > hi then whole data else (py_slice data lo (hi + 1), lo, hi, True))"

definition apply_range :: "bytes \<Rightarrow> string option \<Rightarrow> bytes \<times> int \<times> int \<times> bool" where
  "apply_range data header =
     (let size_all = int (length data) in
      case range_spec header of
        None \<Rightarrow> whole data
      | Some spec \<Rightarrow>
          (case py_partition CHR ''-'' spec of (start_s, found, end_s) \<Rightarrow>
             if \<not> found then whole data
             else if start_s = [] then
               (case py_int_of end_s of
                  None \<Rightarrow> whole data
                | Some n \<Rightarrow> if n \<le> 0 then whole data else part data (size_all - min n size_all) (size_all - 1))
             else
               (case py_int_of start_s of
                  None \<Rightarrow> whole data
                | Some lo \<Rightarrow>
                    (case (if end_s = [] then Some (size_all - 1) else py_int_of end_s) of
                       None \<Rightarrow> whole data
                     | Some hi \<Rightarrow> part data lo (min hi (size_all - 1))))))"

definition range_is_unsatisfiable :: "string option \<Rightarrow> int \<Rightarrow> bool" where
  "range_is_unsatisfiable header size_all =
     (case range_spec header of
        None \<Rightarrow> False
      | Some spec \<Rightarrow>
          (case py_partition CHR ''-'' spec of (start_s, found, _) \<Rightarrow>
             found \<and> start_s \<noteq> [] \<and> (case py_int_of start_s of None \<Rightarrow> False | Some lo \<Rightarrow> lo \<ge> size_all)))"

text \<open>\<open>etag\<close> and \<open>modified\<close> count when they are given and not empty or zero.\<close>

definition make_object_response ::
  "(string \<Rightarrow> string) \<Rightarrow> bytes \<Rightarrow> string \<Rightarrow> string option \<Rightarrow> int option \<Rightarrow> string option \<Rightarrow> response" where
  "make_object_response md5 data content_type header modified etag =
     (let size_all = int (length data) in
      if range_is_unsatisfiable header size_all then not_satisfiable size_all
      else case apply_range data header of (sliced, lo, hi, partial) \<Rightarrow>
        \<lparr>rs_status = (if partial then 206 else 200), rs_content_type = Some content_type,
         rs_content_length = Some (int (length sliced)),
         rs_content_range = (if partial then Some (content_range lo hi size_all) else None),
         rs_etag = Some (case etag of None \<Rightarrow> md5 data | Some t \<Rightarrow> if t = [] then md5 data else t),
         rs_last_modified_ms = (if modified = Some 0 then None else modified),
         rs_body = Content sliced\<rparr>)"

section \<open>Ranges of streamed files\<close>

text \<open>\<open>_parse_range\<close>: offset, length, first and last position, and whether the result is partial; \<open>None\<close> stands for 416.\<close>

definition whole_file :: "int \<Rightarrow> (int \<times> int option \<times> int \<times> int \<times> bool) option" where
  "whole_file size_all = Some (0, None, 0, size_all - 1, False)"

definition part_of_file :: "int \<Rightarrow> int \<Rightarrow> int \<Rightarrow> (int \<times> int option \<times> int \<times> int \<times> bool) option" where
  "part_of_file size_all lo hi =
     (if lo \<ge> size_all then None
      else if lo < 0 \<or> lo > hi then whole_file size_all
      else Some (lo, Some (hi - lo + 1), lo, hi, True))"

definition parse_range :: "string option \<Rightarrow> int \<Rightarrow> (int \<times> int option \<times> int \<times> int \<times> bool) option" where
  "parse_range header size_all =
     (case range_spec header of
        None \<Rightarrow> whole_file size_all
      | Some spec \<Rightarrow>
          (case py_partition CHR ''-'' spec of (start_s, found, end_s) \<Rightarrow>
             if \<not> found then whole_file size_all
             else if start_s = [] then
               (case py_int_of end_s of
                  None \<Rightarrow> whole_file size_all
                | Some n \<Rightarrow> if n \<le> 0 then whole_file size_all else part_of_file size_all (size_all - min n size_all) (size_all - 1))
             else
               (case py_int_of start_s of
                  None \<Rightarrow> whole_file size_all
                | Some lo \<Rightarrow>
                    (case (if end_s = [] then Some (size_all - 1) else py_int_of end_s) of
                       None \<Rightarrow> whole_file size_all
                     | Some hi \<Rightarrow> part_of_file size_all lo (min hi (size_all - 1))))))"

section \<open>Agreement\<close>

text \<open>What a client reads off a response to a range request.\<close>

definition range_view :: "response \<Rightarrow> int \<times> int option \<times> string option \<times> response_body" where
  "range_view r = (rs_status r, rs_content_length r, rs_content_range r, rs_body r)"

text \<open>A range whose first position is a number and whose last position is present but no number.\<close>

definition bad_end :: "string option \<Rightarrow> bool" where
  "bad_end header =
     (case range_spec header of
        None \<Rightarrow> False
      | Some spec \<Rightarrow>
          (case py_partition CHR ''-'' spec of (start_s, found, end_s) \<Rightarrow> found \<and> start_s \<noteq> [] \<and> end_s \<noteq> [] \<and> py_int_of end_s = None))"

text \<open>The bytes of a file that the offset and the length of \<open>parse_range\<close> select.\<close>

definition selected :: "bytes \<Rightarrow> int \<Rightarrow> int option \<Rightarrow> bytes" where
  "selected data offset len = (case len of None \<Rightarrow> drop (nat offset) data | Some n \<Rightarrow> take (nat n) (drop (nat offset) data))"

definition file_range_view :: "bytes \<Rightarrow> string option \<Rightarrow> int \<times> int option \<times> string option \<times> response_body" where
  "file_range_view data header =
     (let size_all = int (length data) in
      case parse_range header size_all of
        None \<Rightarrow> range_view (not_satisfiable size_all)
      | Some (offset, len, lo, hi, partial) \<Rightarrow>
          (if partial then 206 else 200, Some (case len of None \<Rightarrow> size_all - offset | Some n \<Rightarrow> n),
           if partial then Some (content_range lo hi size_all) else None, Content (selected data offset len)))"

lemma part_view:
  assumes "hi \<le> int (length data) - 1"
  shows "(case part data lo hi of (sliced, a, b, partial) \<Rightarrow>
            (if partial then 206 else 200 :: int, Some (int (length sliced)), if partial then Some (content_range a b (int (length data))) else None, Content sliced))
       = (if lo < 0 \<or> lo > hi then (200, Some (int (length data)), None, Content data)
          else (206, Some (hi - lo + 1), Some (content_range lo hi (int (length data))), Content (selected data lo (Some (hi - lo + 1)))))"
proof (cases "lo < 0 \<or> lo > hi")
  case False
  then have "py_slice data lo (hi + 1) = take (nat (hi + 1) - nat lo) (drop (nat lo) data)" by (simp add: py_slice_nat)
  also have "nat (hi + 1) - nat lo = nat (hi - lo + 1)" using False by linarith
  finally have slice: "py_slice data lo (hi + 1) = take (nat (hi - lo + 1)) (drop (nat lo) data)" .
  have "nat (hi - lo + 1) \<le> length data - nat lo" using False assms by linarith
  then have "int (length (take (nat (hi - lo + 1)) (drop (nat lo) data))) = hi - lo + 1" using False by simp
  then show ?thesis using False by (simp add: part_def slice selected_def)
qed (simp add: part_def whole_def)

lemma whole_view:
  "(case whole data of (sliced, a, b, partial) \<Rightarrow>
      (if partial then 206 else 200 :: int, Some (int (length sliced)), if partial then Some (content_range a b (int (length data))) else None, Content sliced))
     = (200, Some (int (length data)), None, Content data)"
  by (simp add: whole_def)

lemma part_of_file_view:
  assumes "hi \<le> int (length data) - 1" and "lo < int (length data)"
  shows "(case part_of_file (int (length data)) lo hi of
            None \<Rightarrow> range_view (not_satisfiable (int (length data)))
          | Some (offset, len, a, b, partial) \<Rightarrow>
              (if partial then 206 else 200, Some (case len of None \<Rightarrow> int (length data) - offset | Some n \<Rightarrow> n),
               if partial then Some (content_range a b (int (length data))) else None, Content (selected data offset len)))
       = (if lo < 0 \<or> lo > hi then (200, Some (int (length data)), None, Content data)
          else (206, Some (hi - lo + 1), Some (content_range lo hi (int (length data))), Content (selected data lo (Some (hi - lo + 1)))))"
  using assms(2) by (simp add: part_of_file_def whole_file_def selected_def)

lemma response_view:
  "range_view (make_object_response md5 data ct header m e) =
     (if range_is_unsatisfiable header (int (length data)) then range_view (not_satisfiable (int (length data)))
      else case apply_range data header of (sliced, a, b, partial) \<Rightarrow>
        (if partial then 206 else 200, Some (int (length sliced)), if partial then Some (content_range a b (int (length data))) else None, Content sliced))"
  by (simp add: make_object_response_def range_view_def Let_def split: prod.split)

text \<open>The two parsers give the same answer, but for an empty object and for a malformed last position behind the end of the object.\<close>

lemma ranges_agree:
  assumes data: "data \<noteq> []" and good: "\<not> (bad_end header \<and> range_is_unsatisfiable header (int (length data)))"
  shows "range_view (make_object_response md5 data ct header m e) = file_range_view data header"
proof (cases "range_spec header")
  case None
  then show ?thesis
    by (simp add: response_view file_range_view_def Let_def apply_range_def parse_range_def range_is_unsatisfiable_def whole_view whole_file_def selected_def)
next
  case (Some spec)
  obtain start_s found end_s where p: "py_partition CHR ''-'' spec = (start_s, found, end_s)" by (cases "py_partition CHR ''-'' spec")
  note defs = response_view file_range_view_def Let_def apply_range_def parse_range_def range_is_unsatisfiable_def Some p
  have full: "(case whole_file (int (length data)) of
        None \<Rightarrow> range_view (not_satisfiable (int (length data)))
      | Some (offset, len, a, b, partial) \<Rightarrow>
          (if partial then 206 else 200, Some (case len of None \<Rightarrow> int (length data) - offset | Some n \<Rightarrow> n),
           if partial then Some (content_range a b (int (length data))) else None, Content (selected data offset len)))
      = (200, Some (int (length data)), None, Content data)"
    by (simp add: whole_file_def selected_def)
  consider (no_dash) "\<not> found" | (suffix) "found" "start_s = []" | (from_pos) "found" "start_s \<noteq> []" by blast
  then show ?thesis
  proof cases
    case no_dash
    then show ?thesis by (simp add: defs whole_view full)
  next
    case suffix
    show ?thesis
    proof (cases "py_int_of end_s")
      case None
      then show ?thesis using suffix by (simp add: defs whole_view full)
    next
      case n: (Some n)
      have pos: "0 < int (length data)" using data by simp
      show ?thesis
      proof (cases "n \<le> 0")
        case False
        then have "int (length data) - min n (int (length data)) < int (length data)" using pos by linarith
        then show ?thesis
          using n suffix False part_view [of "int (length data) - 1" data "int (length data) - min n (int (length data))"]
            part_of_file_view [of "int (length data) - 1" data "int (length data) - min n (int (length data))"]
          by (simp only: defs if_True if_False option.case prod.case simp_thms order.refl)
      qed (use n suffix in \<open>simp add: defs whole_view full\<close>)
    qed
  next
    case from_pos
    show ?thesis
    proof (cases "py_int_of start_s")
      case None
      then show ?thesis using from_pos by (simp add: defs whole_view full)
    next
      case lo: (Some lo)
      show ?thesis
      proof (cases "if end_s = [] then Some (int (length data) - 1) else py_int_of end_s")
        case None
        then have "bad_end header" using from_pos by (auto simp: bad_end_def Some p split: if_splits)
        then have "lo < int (length data)" using good from_pos lo by (simp add: range_is_unsatisfiable_def Some p)
        then show ?thesis using None from_pos lo by (simp add: defs whole_view full)
      next
        case hi: (Some hi)
        then show ?thesis using from_pos lo part_view [of "min hi (int (length data) - 1)" data lo]
          part_of_file_view [of "min hi (int (length data) - 1)" data lo]
          by (cases "lo < int (length data)") (simp_all add: defs part_of_file_def)
      qed
    qed
  qed
qed

end
