(* ===== verification/Mount_Serving.thy ===== *)
theory Mount_Serving
  imports Http_Range
begin

text \<open>
  Buckets served straight from a directory (\<open>storage/passthrough.py\<close> with the \<open>Mount\<close> of \<open>storage/mounts.py\<close> and the read
  operations of \<open>LocalDirStore\<close>): listing, HEAD and ranged GET. The file system is a table of files with their contents and
  modification times and a list of directories, all by absolute path; symbolic links are left out. The size and time that
  \<open>stat\<close> reports for a directory, and the media type guessed for a key, are arguments.
\<close>

section \<open>The file system\<close>

record file_system =
  fs_files :: "(string, bytes \<times> int) dict"
  fs_dirs :: "string list"

definition path_comps :: "string \<Rightarrow> string list" where
  "path_comps path = py_split slash (drop 1 path)"

definition parent_dir :: "string \<Rightarrow> string" where
  "parent_dir path = root_path (butlast (path_comps path))"

definition base_name :: "string \<Rightarrow> string" where
  "base_name path = last (path_comps path)"

datatype stat_result = Missing | Not_A_Directory | Stat int int

definition os_stat :: "(string \<Rightarrow> int \<times> int) \<Rightarrow> file_system \<Rightarrow> string \<Rightarrow> stat_result" where
  "os_stat dir_stat fs path =
     (case map_of (fs_files fs) path of
        Some (data, modified) \<Rightarrow> Stat (int (length data)) modified
      | None \<Rightarrow>
          if path \<in> set (fs_dirs fs) then case dir_stat path of (sz, modified) \<Rightarrow> Stat sz modified
          else if list_ex (\<lambda>f. py_startswith path (f @ ''/'')) (keys_of (fs_files fs)) then Not_A_Directory
          else Missing)"

text \<open>The directory the kernel reaches by following the components of a path from a directory on; every directory on the way must exist.\<close>

fun os_walk :: "file_system \<Rightarrow> string list \<Rightarrow> string list \<Rightarrow> string list option" where
  "os_walk fs cur [] = (if root_path cur \<in> set (fs_dirs fs) then Some cur else None)"
| "os_walk fs cur (seg # segs) =
     (if seg = [] \<or> seg = ''.'' then os_walk fs cur segs
      else if root_path cur \<notin> set (fs_dirs fs) then None
      else if seg = ''..'' then os_walk fs (butlast cur) segs
      else os_walk fs (cur @ [seg]) segs)"

section \<open>Reads of LocalDirStore\<close>

definition local_head :: "(string \<Rightarrow> int \<times> int) \<Rightarrow> string \<Rightarrow> file_system \<Rightarrow> string \<Rightarrow> store_error + stat_result" where
  "local_head dir_stat root fs key = (case local_path root key of Inl e \<Rightarrow> Inl e | Inr path \<Rightarrow> Inr (os_stat dir_stat fs path))"

text \<open>Files that an unfinished write or the lock of conditional writes leaves are not listed.\<close>

definition hidden_name :: "string \<Rightarrow> bool" where
  "hidden_name name \<longleftrightarrow> py_endswith name ''.tmp'' \<or> name = ''.fsp-cas.lock''"

definition local_list :: "string \<Rightarrow> file_system \<Rightarrow> string \<Rightarrow> (string \<times> int \<times> int) list" where
  "local_list root fs prefix =
     (if root \<notin> set (fs_dirs fs) then []
      else sort_key fst
        (map (\<lambda>(path, data, modified). (drop (Suc (length root)) path, int (length data), modified))
          (filter (\<lambda>(path, data, modified). py_startswith path (root @ ''/'') \<and> \<not> hidden_name (base_name path)
                     \<and> py_startswith (drop (Suc (length root)) path) (list_prefix prefix))
            (fs_files fs))))"

datatype dir_entry = Dir_Entry string | File_Entry string int int

fun entry_name :: "dir_entry \<Rightarrow> string" where
  "entry_name (Dir_Entry name) = name"
| "entry_name (File_Entry name sz modified) = name"

definition scandir :: "file_system \<Rightarrow> string \<Rightarrow> dir_entry list" where
  "scandir fs dir =
     map Dir_Entry (sort (map base_name (filter (\<lambda>d. d \<noteq> ''/'' \<and> parent_dir d = dir) (fs_dirs fs))))
     @ map (\<lambda>(path, data, modified). File_Entry (base_name path) (int (length data)) modified)
         (sort_key (\<lambda>(path, _). base_name path)
           (filter (\<lambda>(path, _). parent_dir path = dir \<and> \<not> hidden_name (base_name path)) (fs_files fs)))"

definition local_list_dir :: "string \<Rightarrow> file_system \<Rightarrow> string \<Rightarrow> store_error + dir_entry list" where
  "local_list_dir root fs prefix =
     (let pfx = py_strip slash (py_replace_char backslash slash prefix);
          base = (if pfx = [] then root else os_join root (py_split slash pfx)); rp = os_abspath base in
      if rp \<noteq> root \<and> \<not> py_startswith rp (root @ ''/'') then Inl ValueError
      else Inr (case os_walk fs [] (py_split slash base) of None \<Rightarrow> [] | Some dir \<Rightarrow> scandir fs (root_path dir)))"

section \<open>Mounts\<close>

record mount =
  mn_bucket :: string
  mn_root :: string
  mn_prefix :: string

definition norm_prefix :: "string \<Rightarrow> string" where
  "norm_prefix p = (let q = py_strip slash (py_replace_char backslash slash p) in if q = [] then [] else q @ ''/'')"

text \<open>\<open>urllib.parse.unquote\<close> on the bytes of a key.\<close>

fun py_unquote :: "string \<Rightarrow> string" where
  "py_unquote (c # x # y # rest) =
     (if c = CHR ''%'' then
        (case (hex_value x, hex_value y) of
           (Some a, Some b) \<Rightarrow> char_of (16 * a + b) # py_unquote rest
         | _ \<Rightarrow> c # py_unquote (x # y # rest))
      else c # py_unquote (x # y # rest))"
| "py_unquote (c # rest) = c # py_unquote rest"
| "py_unquote [] = []"

definition relative_key :: "string \<Rightarrow> string" where
  "relative_key key = py_lstrip slash (py_replace_char backslash slash key)"

definition backend_key :: "mount \<Rightarrow> string \<Rightarrow> string" where
  "backend_key m key = mn_prefix m @ relative_key (py_unquote key)"

definition bucket_key :: "mount \<Rightarrow> string \<Rightarrow> string" where
  "bucket_key m key = (if py_startswith key (mn_prefix m) then drop (length (mn_prefix m)) key else key)"

section \<open>Handlers\<close>

text \<open>The directory and the start of the name in a folder listing.\<close>

definition split_leaf :: "string \<Rightarrow> string \<times> string" where
  "split_leaf full =
     (if full = [] \<or> py_endswith full ''/'' then (full, [])
      else let leaf = rev (takeWhile (\<lambda>c. c \<noteq> slash) (rev full)) in (take (length full - length leaf) full, leaf))"

text \<open>A listing: the objects with size and time, and the common prefixes.\<close>

type_synonym listing = "(string \<times> int \<times> int) list \<times> string list"

definition mount_list_objects :: "file_system \<Rightarrow> mount \<Rightarrow> string \<Rightarrow> string \<Rightarrow> listing" where
  "mount_list_objects fs m prefix delimiter =
     (let full = mn_prefix m @ relative_key prefix in
      if delimiter = ''/'' then
        (case split_leaf full of (dirpath, leaf) \<Rightarrow>
           let found = (case local_list_dir (mn_root m) fs dirpath of Inl _ \<Rightarrow> [] | Inr found \<Rightarrow> found);
               kept = filter (\<lambda>en. leaf = [] \<or> py_startswith (entry_name en) leaf) found in
           (concat (map (\<lambda>en. case en of File_Entry name sz modified \<Rightarrow> [(bucket_key m (dirpath @ name), sz, modified)] | Dir_Entry _ \<Rightarrow> []) kept),
            sort (remdups (concat (map (\<lambda>en. case en of Dir_Entry name \<Rightarrow> [bucket_key m (dirpath @ name) @ ''/''] | File_Entry _ _ _ \<Rightarrow> []) kept)))))
      else (map (\<lambda>(key, sz, modified). (bucket_key m key, sz, modified)) (local_list (mn_root m) fs full), []))"

definition http_time :: "int \<Rightarrow> int option" where
  "http_time modified = (if modified = 0 then None else Some modified)"

definition mount_head_object ::
  "(string \<Rightarrow> int \<times> int) \<Rightarrow> (string \<Rightarrow> string) \<Rightarrow> file_system \<Rightarrow> mount \<Rightarrow> string \<Rightarrow> response" where
  "mount_head_object dir_stat media fs m key =
     (case local_head dir_stat (mn_root m) fs (backend_key m key) of
        Inl _ \<Rightarrow> bare_response 403
      | Inr Missing \<Rightarrow> bare_response 404
      | Inr Not_A_Directory \<Rightarrow> bare_response 500
      | Inr (Stat sz modified) \<Rightarrow>
          (bare_response 200)\<lparr>rs_content_type := Some (media key), rs_content_length := Some sz, rs_last_modified_ms := http_time modified\<rparr>)"

text \<open>The body is streamed after the headers, from the file system \<open>fs'\<close> of that moment; a file that is gone by then ends the body.\<close>

definition stream_body :: "file_system \<Rightarrow> mount \<Rightarrow> string \<Rightarrow> int \<Rightarrow> int option \<Rightarrow> response_body" where
  "stream_body fs' m key offset len =
     (case local_get_stream (mn_root m) (\<lambda>path. map_option fst (map_of (fs_files fs') path)) key offset len (2 ^ 20) of
        Inr chunks \<Rightarrow> Content (concat chunks)
      | Inl (ObjectNotFound _) \<Rightarrow>
          (case local_path (mn_root m) key of
             Inr path \<Rightarrow> if os_stat (\<lambda>_. (0, 0)) fs' path = Missing then Content [] else Aborted
           | Inl _ \<Rightarrow> Aborted)
      | Inl _ \<Rightarrow> Aborted)"

definition mount_get_object ::
  "(string \<Rightarrow> int \<times> int) \<Rightarrow> (string \<Rightarrow> string) \<Rightarrow> file_system \<Rightarrow> file_system \<Rightarrow> mount \<Rightarrow> string \<Rightarrow> string option \<Rightarrow> response" where
  "mount_get_object dir_stat media fs fs' m key header =
     (if key = [] then (bare_response 200)\<lparr>rs_content_type := Some ''application/xml'', rs_body := Listing\<rparr>
      else case local_head dir_stat (mn_root m) fs (backend_key m key) of
        Inl _ \<Rightarrow> error_document 403 ''AccessDenied''
      | Inr Missing \<Rightarrow> error_document 404 ''NoSuchKey''
      | Inr Not_A_Directory \<Rightarrow> bare_response 500
      | Inr (Stat sz modified) \<Rightarrow>
          (case parse_range header sz of
             None \<Rightarrow> not_satisfiable sz
           | Some (offset, len, lo, hi, partial) \<Rightarrow>
               \<lparr>rs_status = (if partial then 206 else 200), rs_content_type = Some (media key),
                rs_content_length = Some (case len of None \<Rightarrow> sz - offset | Some n \<Rightarrow> n),
                rs_content_range = (if partial then Some (content_range lo hi sz) else None), rs_etag = None,
                rs_last_modified_ms = http_time modified, rs_body = stream_body fs' m (backend_key m key) offset len\<rparr>))"

section \<open>Ranged reads\<close>

lemma parse_range_bounds:
  assumes "parse_range header n = Some (offset, len, lo, hi, partial)" and "0 \<le> n"
  shows "0 \<le> offset" and "len = Some l \<Longrightarrow> 0 \<le> l"
  using assms by (auto simp: parse_range_def whole_file_def part_of_file_def split: option.splits prod.splits if_splits)

lemma stream_body_file:
  assumes "local_path (mn_root m) key = Inr path" and "map_of (fs_files fs) path = Some (data, modified)" and "0 \<le> offset"
  shows "stream_body fs m key offset len = Content (selected data offset len)"
proof -
  have "concat (stream_chunks (2 ^ 20) len (drop (nat offset) data)) = selected data offset len"
    unfolding selected_def by (simp add: stream_chunks_concat split: option.split)
  then show ?thesis using assms unfolding stream_body_def local_get_stream_def by simp
qed

lemma mount_get_view:
  assumes "local_path (mn_root m) (backend_key m key) = Inr path" and "map_of (fs_files fs) path = Some (data, modified)" and "key \<noteq> []"
  shows "range_view (mount_get_object dir_stat media fs fs m key header) = file_range_view data header"
proof -
  have stat: "local_head dir_stat (mn_root m) fs (backend_key m key) = Inr (Stat (int (length data)) modified)"
    using assms(1,2) by (simp add: local_head_def os_stat_def)
  show ?thesis
  proof (cases "parse_range header (int (length data))")
    case None
    then show ?thesis using assms(3) stat by (simp add: mount_get_object_def file_range_view_def)
  next
    case (Some r)
    obtain offset len lo hi partial where r: "r = (offset, len, lo, hi, partial)" by (cases r)
    have "stream_body fs m (backend_key m key) offset len = Content (selected data offset len)"
      using stream_body_file [OF assms(1,2)] parse_range_bounds(1) Some r by simp
    then show ?thesis using Some r assms(3) stat
      unfolding mount_get_object_def file_range_view_def range_view_def Let_def by simp
  qed
qed

text \<open>
  C18: A range request means the same on both read paths. A non-empty file of a mounted directory and an object of the same bytes held in
  memory are answered with the same status, length, content range and body, whatever the range header, except that for a header
  whose last position is no number and whose first position lies behind the end, memory objects answer 416 and mounted files the
  whole file.
\<close>

theorem mount_range_equivalent:
  assumes "comps \<noteq> []" and "\<forall>p\<in>set comps. plain_segment p" and "mn_root m = root_path comps"
    and "normalize_key (backend_key m key) = Inr k" and "key \<noteq> []"
    and "map_of (fs_files fs) (root_path comps @ ''/'' @ k) = Some (data, modified)" and "data \<noteq> []"
    and "\<not> (bad_end header \<and> range_is_unsatisfiable header (int (length data)))"
  shows "range_view (mount_get_object dir_stat media fs fs m key header) = range_view (make_object_response md5 data content_type header time etag)"
proof -
  have "local_path (mn_root m) (backend_key m key) = Inr (root_path comps @ ''/'' @ k)"
    using local_path_confined [OF assms(1,2)] assms(3,4) by simp
  then show ?thesis using mount_get_view [OF _ assms(6,5)] ranges_agree [OF assms(7,8)] by simp
qed

section \<open>Paths of a mount\<close>

lemma py_split_append: "py_split c (a @ c # b) = py_split c a @ py_split c b"
proof (induction a)
  case (Cons x a)
  then show ?case by (cases "py_split c a") auto
qed simp

lemma plain_key_append: "plain_key (a @ slash # b) \<longleftrightarrow> plain_key a \<and> plain_key b"
  by (simp add: plain_key_def py_split_append)

lemma root_path_split: "root_path (py_split slash k) = slash # k"
  by (simp add: root_path_def py_join_split)

definition clean_path :: "string \<Rightarrow> bool" where
  "clean_path path \<longleftrightarrow> path \<noteq> [] \<and> hd path = slash \<and> plain_key (tl path)"

definition mount_ok :: "mount \<Rightarrow> bool" where
  "mount_ok m \<longleftrightarrow> clean_path (mn_root m) \<and> (mn_prefix m = [] \<or> (py_endswith (mn_prefix m) ''/'' \<and> plain_key (butlast (mn_prefix m))))"

lemma mount_prefix_cases:
  assumes "mount_ok m"
  obtains "mn_prefix m = []" | q where "mn_prefix m = q @ ''/''" and "plain_key q"
proof -
  have "mn_prefix m = butlast (mn_prefix m) @ ''/''" if "py_endswith (mn_prefix m) ''/''"
    using that by (auto simp: py_endswith_iff)
  then show thesis using assms that unfolding mount_ok_def by metis
qed

lemma local_path_clean:
  assumes "clean_path root"
  shows "local_path root key = (case normalize_key key of Inl e \<Rightarrow> Inl e | Inr k \<Rightarrow> Inr (root @ ''/'' @ k))"
proof -
  obtain r where r: "root = slash # r" "plain_key r" using assms by (cases root) (auto simp: clean_path_def)
  have "local_path (root_path (py_split slash r)) key
      = (case normalize_key key of Inl e \<Rightarrow> Inl e | Inr k \<Rightarrow> Inr (root_path (py_split slash r) @ ''/'' @ k))"
    using r(2) by (intro local_path_confined) (auto simp: plain_key_def list_all_iff)
  then show ?thesis unfolding root_path_split r(1) .
qed

section \<open>What is listed is served\<close>

lemma py_unquote_plain: "CHR ''%'' \<notin> set s \<Longrightarrow> py_unquote s = s"
  by (induction s rule: py_unquote.induct) auto

lemma relative_key_plain: "plain_key k \<Longrightarrow> relative_key k = k"
  using plain_key_chars [of k] by (simp add: relative_key_def py_lstrip_noop)

lemma listing_prefix:
  assumes "mount_ok m"
  shows "list_prefix (mn_prefix m @ relative_key prefix) = mn_prefix m @ relative_key prefix"
proof -
  have no_back: "backslash \<notin> set (relative_key prefix)" and start: "relative_key prefix = [] \<or> hd (relative_key prefix) \<noteq> slash"
    unfolding relative_key_def py_lstrip_def using py_replace_char_gone [of backslash slash prefix] hd_dropWhile [of "\<lambda>x. x = slash"]
    by (auto dest: set_dropWhileD)
  show ?thesis using assms
  proof (cases rule: mount_prefix_cases)
    case 1
    then show ?thesis using no_back start by (simp add: list_prefix_def py_lstrip_noop)
  next
    case (2 q)
    then show ?thesis using plain_key_chars [OF 2(2)] no_back by (simp add: list_prefix_def py_lstrip_noop)
  qed
qed

lemma listed_file:
  assumes ok: "mount_ok m" and clean: "\<forall>p\<in>set (keys_of (fs_files fs)). clean_path p" and plain: "delimiter \<noteq> ''/''"
    and listed: "(k, sz, modified) \<in> set (fst (mount_list_objects fs m prefix delimiter))"
  obtains data where "(mn_root m @ ''/'' @ mn_prefix m @ k, data, modified) \<in> set (fs_files fs)" and "sz = int (length data)" and "plain_key (mn_prefix m @ k)" and "plain_key k"
proof -
  let ?root = "mn_root m"
  obtain path data where file_in: "(path, data, modified) \<in> set (fs_files fs)" "py_startswith path (?root @ ''/'')"
    and rel: "py_startswith (drop (Suc (length ?root)) path) (mn_prefix m @ relative_key prefix)"
    and k: "k = bucket_key m (drop (Suc (length ?root)) path)" and sz: "sz = int (length data)"
    using listed plain listing_prefix [OF ok, of prefix] by (auto simp: mount_list_objects_def local_list_def Let_def split: if_splits)
  obtain r where r: "path = ?root @ ''/'' @ r" using file_in(2) by (auto simp: py_startswith_iff)
  have k': "r = mn_prefix m @ k" using rel k by (auto simp: r bucket_key_def py_startswith_iff)
  have "clean_path path" using clean file_in(1) by (auto simp: image_iff intro!: bexI)
  moreover obtain t where "?root = slash # t" using ok by (cases ?root) (auto simp: mount_ok_def clean_path_def)
  ultimately have plain_r: "plain_key (mn_prefix m @ k)" by (simp add: clean_path_def r plain_key_append k')
  have "plain_key k" using ok
  proof (cases rule: mount_prefix_cases)
    case (2 q)
    then show ?thesis using plain_r by (simp add: plain_key_append)
  qed (use plain_r in simp)
  then show thesis using that file_in(1) r k' sz plain_r by simp
qed

lemma listed_key_path:
  assumes "mount_ok m" and "plain_key (mn_prefix m @ k)" and "plain_key k" and "CHR ''%'' \<notin> set k"
  shows "local_path (mn_root m) (backend_key m k) = Inr (mn_root m @ ''/'' @ mn_prefix m @ k)"
  using assms by (simp add: backend_key_def py_unquote_plain relative_key_plain local_path_clean mount_ok_def)

text \<open>
  C20: What a mount lists it serves. When no file name holds a backslash, every key in a recursive listing of the mount that holds
  no percent sign can be read: HEAD and GET answer 200 with the listed size, and the body of GET is the content of one file below the
  prefix of the mount, whole.
\<close>

theorem listed_key_served:
  assumes "mount_ok m" and "distinct (keys_of (fs_files fs))" and "\<forall>p\<in>set (keys_of (fs_files fs)). clean_path p"
    and "delimiter \<noteq> ''/''" and "(k, sz, modified) \<in> set (fst (mount_list_objects fs m prefix delimiter))" and "CHR ''%'' \<notin> set k"
  shows "\<exists>data. map_of (fs_files fs) (mn_root m @ ''/'' @ mn_prefix m @ k) = Some (data, modified) \<and> sz = int (length data)
    \<and> rs_status (mount_head_object dir_stat media fs m k) = 200 \<and> rs_content_length (mount_head_object dir_stat media fs m k) = Some sz
    \<and> range_view (mount_get_object dir_stat media fs fs m k None) = (200, Some sz, None, Content data)"
proof -
  obtain data where data: "(mn_root m @ ''/'' @ mn_prefix m @ k, data, modified) \<in> set (fs_files fs)" "sz = int (length data)"
    "plain_key (mn_prefix m @ k)" "plain_key k"
    using listed_file [OF assms(1,3,4,5)] by metis
  have found: "map_of (fs_files fs) (mn_root m @ ''/'' @ mn_prefix m @ k) = Some (data, modified)"
    using map_of_is_SomeI [OF assms(2) data(1)] by simp
  note path = listed_key_path [OF assms(1) data(3,4) assms(6)]
  have "range_view (mount_get_object dir_stat media fs fs m k None) = file_range_view data None"
    using mount_get_view [OF path found] plain_key_chars(1) [OF data(4)] by simp
  also have "\<dots> = (200, Some sz, None, Content data)"
    by (simp add: file_range_view_def parse_range_def range_spec_def whole_file_def selected_def data(2))
  finally have get: "range_view (mount_get_object dir_stat media fs fs m k None) = (200, Some sz, None, Content data)" .
  have "local_head dir_stat (mn_root m) fs (backend_key m k) = Inr (Stat sz modified)"
    using path found data(2) by (simp add: local_head_def os_stat_def)
  then have "rs_status (mount_head_object dir_stat media fs m k) = 200" "rs_content_length (mount_head_object dir_stat media fs m k) = Some sz"
    by (simp_all add: mount_head_object_def bare_response_def)
  then show ?thesis using found data(2) get by blast
qed

section \<open>Confinement\<close>

text \<open>The paths at, below and above the directory that a mount serves.\<close>

definition mount_dir :: "mount \<Rightarrow> string" where
  "mount_dir m = (if mn_prefix m = [] then mn_root m else mn_root m @ ''/'' @ butlast (mn_prefix m))"

definition inside :: "mount \<Rightarrow> string \<Rightarrow> bool" where
  "inside m path \<longleftrightarrow> path = mount_dir m \<or> py_startswith path (mount_dir m @ ''/'') \<or> py_startswith (mount_dir m) (path @ ''/'')"

definition same_inside :: "mount \<Rightarrow> file_system \<Rightarrow> file_system \<Rightarrow> bool" where
  "same_inside m fs1 fs2 \<longleftrightarrow>
     filter (\<lambda>(path, _). inside m path) (fs_files fs1) = filter (\<lambda>(path, _). inside m path) (fs_files fs2)
     \<and> filter (inside m) (fs_dirs fs1) = filter (inside m) (fs_dirs fs2)"

lemma map_of_filter_where: "P k \<Longrightarrow> map_of (filter (\<lambda>(k, _). P k) d) k = map_of d k"
  by (induction d) auto

lemma same_insideD:
  assumes "same_inside m fs1 fs2" and "inside m path"
  shows "map_of (fs_files fs1) path = map_of (fs_files fs2) path" and "path \<in> set (fs_dirs fs1) \<longleftrightarrow> path \<in> set (fs_dirs fs2)"
proof -
  show "map_of (fs_files fs1) path = map_of (fs_files fs2) path"
    using map_of_filter_where [of "inside m" path] assms unfolding same_inside_def by metis
  have "path \<in> set (filter (inside m) (fs_dirs fs1)) \<longleftrightarrow> path \<in> set (filter (inside m) (fs_dirs fs2))" using assms(1) by (simp add: same_inside_def)
  then show "path \<in> set (fs_dirs fs1) \<longleftrightarrow> path \<in> set (fs_dirs fs2)" using assms(2) by simp
qed

lemma startswith_same_cases: "py_startswith s p \<Longrightarrow> py_startswith s q \<Longrightarrow> py_startswith p q \<or> py_startswith q p"
  by (auto simp: py_startswith_iff append_eq_append_conv2)

lemma startswith_snoc:
  assumes "py_startswith (p @ [c]) (q @ [c])"
  shows "p = q \<or> py_startswith p (q @ [c])"
proof -
  obtain r where r: "p @ [c] = (q @ [c]) @ r" using assms by (auto simp: py_startswith_iff)
  then show ?thesis by (cases r rule: rev_cases) (auto simp: py_startswith_iff)
qed

lemma startswith_append: "py_startswith s p \<Longrightarrow> py_startswith (s @ t) p"
  by (auto simp: py_startswith_iff)

lemma normalize_below:
  assumes "plain_key q" and "normalize_key (q @ slash # x) = Inr k"
  shows "k = q \<or> py_startswith k (q @ ''/'')"
proof -
  define parts where "parts = filter (\<lambda>p. p \<noteq> [] \<and> p \<noteq> ''.'') (py_split slash (py_replace_char backslash slash x))"
  have "py_replace_char backslash slash (q @ slash # x) = q @ slash # py_replace_char backslash slash x"
    using plain_key_chars(2) [OF assms(1)] by (auto simp: py_replace_char_def intro: map_idI)
  moreover have "filter (\<lambda>p. p \<noteq> [] \<and> p \<noteq> ''.'') (py_split slash q) = py_split slash q"
    using assms(1) by (auto simp: plain_key_def list_all_iff plain_segment_def filter_id_conv)
  ultimately have "k = py_join ''/'' (py_split slash q @ parts)"
    using assms(2) by (simp add: normalize_key_spec Let_def py_split_append parts_def split: if_splits)
  then show ?thesis by (cases "parts = []") (simp_all add: py_join_append py_join_split py_startswith_iff)
qed

lemma backend_path_inside:
  assumes ok: "mount_ok m" and path: "local_path (mn_root m) (backend_key m key) = Inr path"
  shows "path = mount_dir m \<or> py_startswith path (mount_dir m @ ''/'')"
proof -
  have "clean_path (mn_root m)" using ok by (simp add: mount_ok_def)
  then obtain k where k: "normalize_key (backend_key m key) = Inr k" "path = mn_root m @ ''/'' @ k"
    using path by (auto simp: local_path_clean split: sum.splits)
  show ?thesis using ok
  proof (cases rule: mount_prefix_cases)
    case 1
    then show ?thesis using k(2) by (simp add: mount_dir_def py_startswith_iff)
  next
    case (2 q)
    then show ?thesis using normalize_below [of q "relative_key (py_unquote key)" k] k
      by (auto simp: backend_key_def mount_dir_def py_startswith_iff)
  qed
qed

lemma ancestor_inside:
  assumes "path = mount_dir m \<or> py_startswith path (mount_dir m @ ''/'')" and "py_startswith path (f @ ''/'')"
  shows "inside m f"
proof -
  have "py_startswith (path @ ''/'') (f @ ''/'')" "py_startswith (path @ ''/'') (mount_dir m @ ''/'')"
    using assms startswith_append py_startswith_append [of "mount_dir m @ ''/''" "[]"] by auto
  then consider "py_startswith (mount_dir m @ ''/'') (f @ ''/'')" | "py_startswith (f @ ''/'') (mount_dir m @ ''/'')"
    using startswith_same_cases by blast
  then show ?thesis by cases (auto simp: inside_def dest: startswith_snoc)
qed

lemma filter_both:
  assumes "filter P xs = filter P ys" and "\<And>x. Q x \<Longrightarrow> P x"
  shows "filter Q xs = filter Q ys"
proof -
  have "filter Q zs = filter Q (filter P zs)" for zs using assms(2) by (auto intro: filter_cong)
  then show ?thesis using assms(1) by metis
qed

lemma same_inside_files:
  "same_inside m fs1 fs2 \<Longrightarrow> filter (\<lambda>x. inside m (fst x)) (fs_files fs1) = filter (\<lambda>x. inside m (fst x)) (fs_files fs2)"
  by (simp add: same_inside_def case_prod_unfold)

lemma os_stat_inside:
  assumes same: "same_inside m fs1 fs2" and path: "path = mount_dir m \<or> py_startswith path (mount_dir m @ ''/'')"
  shows "os_stat dir_stat fs1 path = os_stat dir_stat fs2 path"
proof -
  let ?above = "\<lambda>(f, _). py_startswith path (f @ ''/'')"
  have "inside m (fst x)" if "?above x" for x :: "string \<times> bytes \<times> int"
    using ancestor_inside [OF path, of "fst x"] that by (cases x) simp
  then have "filter ?above (fs_files fs1) = filter ?above (fs_files fs2)"
    by (intro filter_both [OF same_inside_files [OF same]])
  moreover have "list_ex (\<lambda>f. py_startswith path (f @ ''/'')) (keys_of d) \<longleftrightarrow> filter ?above d \<noteq> []" for d :: "(string, bytes \<times> int) dict"
    by (induction d) auto
  moreover have "inside m path" using path by (auto simp: inside_def)
  ultimately show ?thesis using same_insideD [OF same, of path] unfolding os_stat_def by simp
qed

lemma stream_inside:
  assumes "mount_ok m" and "same_inside m fs1 fs2"
  shows "stream_body fs1 m (backend_key m key) offset len = stream_body fs2 m (backend_key m key) offset len"
proof (cases "local_path (mn_root m) (backend_key m key)")
  case (Inr path)
  note place = backend_path_inside [OF assms(1) Inr]
  have "inside m path" using place by (auto simp: inside_def)
  then have same: "map_of (fs_files fs1) path = map_of (fs_files fs2) path" using same_insideD(1) [OF assms(2)] by blast
  show ?thesis unfolding stream_body_def local_get_stream_def Inr sum.case same os_stat_inside [OF assms(2) place] ..
next
  case (Inl e)
  show ?thesis unfolding stream_body_def local_get_stream_def Inl sum.case ..
qed

lemma head_inside:
  assumes "mount_ok m" and "same_inside m fs1 fs2"
  shows "local_head dir_stat (mn_root m) fs1 (backend_key m key) = local_head dir_stat (mn_root m) fs2 (backend_key m key)"
  using os_stat_inside [OF assms(2) backend_path_inside [OF assms(1)]] by (auto simp: local_head_def split: sum.split)

lemma flat_listing_inside:
  assumes ok: "mount_ok m" and same: "same_inside m fs1 fs2" and "delimiter \<noteq> ''/''"
  shows "mount_list_objects fs1 m prefix delimiter = mount_list_objects fs2 m prefix delimiter"
proof -
  let ?listed = "\<lambda>(path, data, modified). py_startswith path (mn_root m @ ''/'') \<and> \<not> hidden_name (base_name path)
    \<and> py_startswith (drop (Suc (length (mn_root m))) path) (mn_prefix m @ relative_key prefix)"
  have place: "inside m (mn_root m @ ''/'' @ mn_prefix m @ x) \<and> inside m (mn_root m)" for x using ok
  proof (cases rule: mount_prefix_cases)
    case (2 q)
    then have "mount_dir m = mn_root m @ ''/'' @ q" by (simp add: mount_dir_def)
    then show ?thesis using 2(1) by (simp add: inside_def py_startswith_iff)
  qed (simp add: inside_def mount_dir_def py_startswith_iff)
  have "inside m path" if listed: "?listed (path, data, modified)" for path data modified
  proof -
    obtain r where r: "path = mn_root m @ ''/'' @ r" using listed by (auto simp: py_startswith_iff)
    then obtain x where "r = mn_prefix m @ x" using listed by (auto simp: py_startswith_iff)
    then show ?thesis using r place by simp
  qed
  then have "inside m (fst x)" if "?listed x" for x using that by (cases x) simp
  then have "filter ?listed (fs_files fs1) = filter ?listed (fs_files fs2)"
    by (intro filter_both [OF same_inside_files [OF same]])
  then show ?thesis using assms(3) same_insideD(2) [OF same conjunct2 [OF place]]
    by (simp add: mount_list_objects_def local_list_def listing_prefix [OF ok] Let_def)
qed


section \<open>Where listings and reads part\<close>

lemma os_join_step:
  "path \<noteq> [] \<Longrightarrow> last path \<noteq> slash \<Longrightarrow> b \<noteq> [] \<Longrightarrow> hd b \<noteq> slash \<Longrightarrow> os_join path (b # bs) = os_join (path @ slash # b) bs"
  by (cases b) (auto simp: py_endswith_iff)

lemma norm_comps_append: "norm_comps new (xs @ ys) = norm_comps (norm_comps new xs) ys"
  by (induction xs arbitrary: new) auto

lemma os_walk_plain:
  assumes "\<forall>p\<in>set xs. plain_segment p" and "\<forall>n<length xs. root_path (cur @ take n xs) \<in> set (fs_dirs fs)"
  shows "os_walk fs cur (xs @ ys) = os_walk fs (cur @ xs) ys"
  using assms
proof (induction xs arbitrary: cur)
  case (Cons x xs)
  have "root_path cur \<in> set (fs_dirs fs)" using Cons.prems(2) by force
  moreover have "\<forall>n<length xs. root_path ((cur @ [x]) @ take n xs) \<in> set (fs_dirs fs)"
    using Cons.prems(2) by (metis Suc_less_eq append.assoc append_Cons append_Nil length_Cons take_Suc_Cons)
  ultimately show ?case using Cons.IH [of "cur @ [x]"] Cons.prems(1) by (simp add: plain_segment_def)
qed simp

lemma path_comps_root: "comps \<noteq> [] \<Longrightarrow> \<forall>p\<in>set comps. plain_segment p \<Longrightarrow> path_comps (root_path comps) = comps"
  by (simp add: path_comps_def root_path_def py_split_join plain_segment_def)

lemma escaping_dir:
  assumes "comps \<noteq> []" and plain: "\<forall>p\<in>set (comps @ [q, d]). plain_segment p"
    and dirs: "\<forall>n\<le>length comps. root_path (take n comps) \<in> set (fs_dirs fs)"
      "root_path (comps @ [q]) \<in> set (fs_dirs fs)" "root_path (comps @ [d]) \<in> set (fs_dirs fs)"
  shows "local_list_dir (root_path comps) fs (q @ ''/../'' @ d @ ''/'') = Inr (scandir fs (root_path (comps @ [d])))"
proof -
  have segs: "q \<noteq> []" "hd q \<noteq> slash" "last q \<noteq> slash" "d \<noteq> []" "hd d \<noteq> slash" "last d \<noteq> slash" "backslash \<notin> set q" "backslash \<notin> set d"
    "slash \<notin> set q" "slash \<notin> set d"
    using plain plain_segment_ends by (auto simp: plain_segment_def)
  have pfx: "py_strip slash (py_replace_char backslash slash (q @ ''/../'' @ d @ ''/'')) = q @ ''/../'' @ d"
  proof -
    have "py_rstrip slash ((q @ ''/../'' @ d) @ [slash]) = q @ ''/../'' @ d"
      using segs(4,6) by (cases d rule: rev_cases) (simp_all add: py_rstrip_def)
    then show ?thesis using segs by (simp add: py_strip_def py_lstrip_noop)
  qed
  have split: "py_split slash (q @ ''/../'' @ d) = [q, ''..'', d]"
    using segs py_split_append_sep [of slash q "''../'' @ d"] by (simp add: py_split_id)
  have root: "root_path comps \<noteq> []" "last (root_path comps) \<noteq> slash"
    using join_plain_ends [OF assms(1)] plain by (auto simp: root_path_def)
  have base: "os_join (root_path comps) [q, ''..'', d] = root_path (comps @ [q, ''..'', d])"
    using root segs assms(1) by (simp add: os_join_step root_path_def py_join_append del: os_join.simps(2))
  have comps: "py_split slash (root_path (comps @ [q, ''..'', d])) = [] # comps @ [q, ''..'', d]"
    using plain by (simp add: root_path_def py_split_join plain_segment_def)
  have "norm_comps [] ([] # comps @ [q, ''..'', d]) = comps @ [d]"
    using plain by (simp add: norm_comps_append norm_comps_plain plain_segment_def)
  moreover have "\<not> py_startswith (root_path (comps @ [q, ''..'', d])) ''//''"
  proof -
    obtain c cs where "py_join ''/'' comps = c # cs" "c \<noteq> slash"
      using join_plain_ends [OF assms(1)] plain by (cases "py_join ''/'' comps") auto
    then show ?thesis using assms(1) by (simp add: root_path_def py_join_append)
  qed
  ultimately have abs: "os_abspath (root_path (comps @ [q, ''..'', d])) = root_path (comps @ [d])"
    unfolding os_abspath_def comps by (simp add: root_path_def [of "comps @ [d]"])
  have below: "py_startswith (root_path (comps @ [d])) (root_path comps @ ''/'')"
    using assms(1) by (simp add: root_path_def py_join_append py_startswith_iff)
  have "os_walk fs [] ([] # comps @ [q, ''..'', d]) = os_walk fs comps [q, ''..'', d]"
    using os_walk_plain [of comps "[]" fs] dirs(1) plain by simp
  also have "\<dots> = Some (comps @ [d])" using plain dirs by (auto simp: plain_segment_def)
  finally have walk: "os_walk fs [] (comps @ [q, ''..'', d]) = Some (comps @ [d])" by simp
  show ?thesis unfolding local_list_dir_def pfx Let_def split base comps using segs(1) below by (simp add: base abs comps walk)
qed

lemma scandir_file:
  assumes "(path, data, modified) \<in> set (fs_files fs)" and "parent_dir path = dir" and "\<not> hidden_name (base_name path)"
  shows "File_Entry (base_name path) (int (length data)) modified \<in> set (scandir fs dir)"
  unfolding scandir_def set_append set_map set_sort set_filter
  by (rule UnI2, rule image_eqI [of _ _ "(path, data, modified)"]) (use assms in simp_all)

lemma file_entry_listed:
  assumes "File_Entry f sz modified \<in> set found"
  shows "(bucket_key m (dirpath @ f), sz, modified) \<in> set (concat (map (\<lambda>en. case en of
      File_Entry name sz modified \<Rightarrow> [(bucket_key m (dirpath @ name), sz, modified)] | Dir_Entry _ \<Rightarrow> []) found))"
  using assms by (induction found) auto

text \<open>
  C21: A folder listing leaves the prefix of its mount. For a mount of a directory with prefix \<open>q/\<close>, a client that lists with the
  delimiter \<open>/\<close> and the prefix \<open>../d/\<close> is shown the files of the sibling directory \<open>d\<close>, with their sizes and times, although the
  mount is to serve only what lies below \<open>q\<close>.
\<close>

theorem folder_listing_escapes:
  assumes "comps \<noteq> []" and "\<forall>p\<in>set (comps @ [q, d, f]). plain_segment p"
    and "mn_root m = root_path comps" and "mn_prefix m = q @ ''/''"
    and "\<forall>n\<le>length comps. root_path (take n comps) \<in> set (fs_dirs fs)"
    and "root_path (comps @ [q]) \<in> set (fs_dirs fs)" and "root_path (comps @ [d]) \<in> set (fs_dirs fs)"
    and "(root_path (comps @ [d, f]), data, modified) \<in> set (fs_files fs)" and "\<not> hidden_name f"
  shows "(''../'' @ d @ ''/'' @ f, int (length data), modified) \<in> set (fst (mount_list_objects fs m (''../'' @ d @ ''/'') ''/''))"
proof -
  have segs: "backslash \<notin> set q" "backslash \<notin> set d" using assms(2) by (auto simp: plain_segment_def)
  have full: "mn_prefix m @ relative_key (''../'' @ d @ ''/'') = q @ ''/../'' @ d @ ''/''"
    using assms(4) segs by (simp add: relative_key_def py_lstrip_def)
  have leaf: "split_leaf (q @ ''/../'' @ d @ ''/'') = (q @ ''/../'' @ d @ ''/'', [])" by (simp add: split_leaf_def py_endswith_iff)
  have list: "local_list_dir (mn_root m) fs (q @ ''/../'' @ d @ ''/'') = Inr (scandir fs (root_path (comps @ [d])))"
    using escaping_dir [of comps q d fs] assms by simp
  have comps: "path_comps (root_path (comps @ [d, f])) = comps @ [d, f]" using assms(2) by (intro path_comps_root) auto
  then have "parent_dir (root_path (comps @ [d, f])) = root_path (comps @ [d])" "base_name (root_path (comps @ [d, f])) = f"
    by (simp_all add: parent_dir_def base_name_def butlast_append)
  then have "File_Entry f (int (length data)) modified \<in> set (scandir fs (root_path (comps @ [d])))"
    using scandir_file [OF assms(8), of "root_path (comps @ [d])"] assms(9) by simp
  moreover have "bucket_key m ((q @ ''/../'' @ d @ ''/'') @ f) = ''../'' @ d @ ''/'' @ f"
    using assms(4) by (simp add: bucket_key_def py_startswith_iff)
  ultimately have "(''../'' @ d @ ''/'' @ f, int (length data), modified) \<in> set (concat (map (\<lambda>en. case en of
      File_Entry name sz modified \<Rightarrow> [(bucket_key m ((q @ ''/../'' @ d @ ''/'') @ name), sz, modified)] | Dir_Entry _ \<Rightarrow> [])
      (scandir fs (root_path (comps @ [d])))))"
    using file_entry_listed [of f "int (length data)" modified _ m "q @ ''/../'' @ d @ ''/''"] by (simp only:)
  then show ?thesis
    unfolding mount_list_objects_def full Let_def if_P [OF refl] leaf prod.case list sum.case fst_conv by (simp only: simp_thms filter_True ball_triv)
qed

text \<open>HEAD answers 200 for a directory: \<open>LocalDirStore.head\<close> asks only whether the path exists.\<close>

lemma folder_head_ok:
  assumes "local_path (mn_root m) (backend_key m key) = Inr path" and "map_of (fs_files fs) path = None" and "path \<in> set (fs_dirs fs)"
  shows "rs_status (mount_head_object dir_stat media fs m key) = 200"
  using assms by (simp add: mount_head_object_def local_head_def os_stat_def bare_response_def split: prod.split)

section \<open>An example\<close>

text \<open>A directory with a public and a private part, mounted at the public one; one public file has a percent sign in its name.\<close>

definition example_fs :: file_system where
  "example_fs =
     \<lparr>fs_files = [(''/srv/pub/a'', ''hello'', 7), (''/srv/key/s'', ''secret'', 8), (''/srv/pub/b%41'', ''x'', 9)],
      fs_dirs = [''/'', ''/srv'', ''/srv/pub'', ''/srv/key'']\<rparr>"

definition example_mount :: mount where
  "example_mount = \<lparr>mn_bucket = ''bucket'', mn_root = ''/srv'', mn_prefix = ''pub/''\<rparr>"

text \<open>A key with a percent sign is listed but not found: the handler decodes the key once more.\<close>

lemma percent_key_unreachable:
  "(''b%41'', 1, 9) \<in> set (fst (mount_list_objects example_fs example_mount [] []))
     \<and> rs_status (mount_get_object (\<lambda>_. (0, 0)) id example_fs example_fs example_mount ''b%41'' None) = 404"
  by code_simp

theorem mount_range_equivalent_witness:
  "range_view (mount_get_object (\<lambda>_. (0, 0)) id example_fs example_fs example_mount ''a'' (Some ''bytes=1-2''))
     = range_view (make_object_response id ''hello'' ''text/plain'' (Some ''bytes=1-2'') None None)"
proof (rule mount_range_equivalent [where comps = "[''srv'']" and k = "''pub/a''"])
  show "normalize_key (backend_key example_mount ''a'') = Inr ''pub/a''" by code_simp
  show "map_of (fs_files example_fs) (root_path [''srv''] @ ''/'' @ ''pub/a'') = Some (''hello'', 7)" by code_simp
  show "\<not> (bad_end (Some ''bytes=1-2'') \<and> range_is_unsatisfiable (Some ''bytes=1-2'') (int (length ''hello'')))" by code_simp
  show "\<forall>p\<in>set [''srv'']. plain_segment p" by (simp add: plain_segment_def)
  show "mn_root example_mount = root_path [''srv'']" by (simp add: example_mount_def root_path_def)
qed simp_all

lemma example_mount_ok: "mount_ok example_mount" "\<forall>p\<in>set (keys_of (fs_files example_fs)). clean_path p" "distinct (keys_of (fs_files example_fs))"
  by code_simp+

theorem listed_key_served_witness:
  "range_view (mount_get_object (\<lambda>_. (0, 0)) id example_fs example_fs example_mount ''a'' None) = (200, Some 5, None, Content ''hello'')"
proof -
  have listed: "(''a'', 5, 7) \<in> set (fst (mount_list_objects example_fs example_mount [] []))" by code_simp
  have found: "map_of (fs_files example_fs) (mn_root example_mount @ ''/'' @ mn_prefix example_mount @ ''a'') = Some (''hello'', 7)"
    by code_simp
  obtain data where "map_of (fs_files example_fs) (mn_root example_mount @ ''/'' @ mn_prefix example_mount @ ''a'') = Some (data, 7)"
    "range_view (mount_get_object (\<lambda>_. (0, 0)) id example_fs example_fs example_mount ''a'' None) = (200, Some 5, None, Content data)"
    using listed_key_served [OF example_mount_ok(1,3,2) _ listed, of "\<lambda>_. (0, 0)" id] by auto
  then show ?thesis using found by simp
qed


theorem folder_listing_escapes_witness:
  "(''../key/s'', 6, 8) \<in> set (fst (mount_list_objects example_fs example_mount ''../key/'' ''/''))"
proof -
  have "\<forall>n\<le>length [''srv'']. root_path (take n [''srv'']) \<in> set (fs_dirs example_fs)"
    by (auto simp: le_Suc_eq root_path_def example_fs_def)
  moreover have "\<forall>p\<in>set ([''srv''] @ [''pub'', ''key'', ''s'']). plain_segment p" by (simp add: plain_segment_def)
  moreover have "\<not> hidden_name ''s''" by code_simp
  ultimately show ?thesis
    using folder_listing_escapes [of "[''srv'']" "''pub''" "''key''" "''s''" example_mount example_fs "''secret''" 8]
    by (simp add: example_fs_def example_mount_def root_path_def)
qed

end
