(* ===== verification/Spec2Isabelle.thy ===== *)
theory Spec2Isabelle
  imports Lease Lru_Cache Split_Planner Shard_Weight Dispatch_Safety Delta_Log Mount_Serving
begin

text \<open>
  Fabric Shortcut Proxy: verification development.
\<close>

end
